(* ===== verification/Prelude.thy ===== *)
theory Prelude
  imports Main "HOL-Library.Char_ord" "HOL-Library.List_Lexorder" "HOL-Library.AList"
begin

text \<open>
  The vocabulary shared by every component: the integer ranges and the clock of the Rust
  program, the string operations of Rust's standard library that the sources call, the
  association lists that stand for \<^verbatim>\<open>HashMap\<close> and \<^verbatim>\<open>BTreeMap\<close>, and the generic lemmas about
  them.

  Text is a list of characters. A HOL character is one of 256 code points, so the model's
  text is Latin-1 text: one element per Rust \<^verbatim>\<open>char\<close>, and one per byte as long as the text
  is ASCII. Every predicate of the sources that works on bytes (\<^verbatim>\<open>is_ascii_digit\<close> and its kin)
  is false on every byte of a non-ASCII character, so it agrees with the predicate on characters.
\<close>

named_theorems limiter_simps \<open>unfolding rules of the rate limiter's operations\<close>
named_theorems text_simps \<open>unfolding rules of the string operations\<close>

section \<open>Machine ranges and time\<close>

text \<open>
  Unsigned Rust integers are natural numbers; where the code saturates or refuses a value that
  does not fit, the range is written out.
\<close>

definition u32_max :: nat where
  "u32_max = 4294967295"

definition u64_max :: nat where
  "u64_max = 18446744073709551615"

definition i64_max :: int where
  "i64_max = 9223372036854775807"

definition i64_min :: int where
  "i64_min = - 9223372036854775808"

text \<open>\<^verbatim>\<open>u32::try_from(n).unwrap_or(u32::MAX)\<close>\<close>

definition sat_u32 :: "nat \<Rightarrow> nat" where
  "sat_u32 n = min n u32_max"

text \<open>\<^verbatim>\<open>i64::try_from(n).unwrap_or(i64::MAX)\<close> and the saturating operations of \<^verbatim>\<open>i64\<close>.\<close>

definition sat_i64 :: "int \<Rightarrow> int" where
  "sat_i64 n = max i64_min (min n i64_max)"

lemma sat_u32_le [simp]: "sat_u32 n \<le> u32_max" "sat_u32 n \<le> n"
  by (simp_all add: sat_u32_def)

lemma sat_u32_less_iff: "m \<le> u32_max \<Longrightarrow> sat_u32 n < m \<longleftrightarrow> n < m"
  by (auto simp: sat_u32_def)

lemma sat_u32_id: "n \<le> u32_max \<Longrightarrow> sat_u32 n = n"
  by (simp add: sat_u32_def)

lemma sat_u32_mono: "m \<le> n \<Longrightarrow> sat_u32 m \<le> sat_u32 n"
  by (auto simp: sat_u32_def)

text \<open>
  An instant of tokio's monotonic clock counts nanoseconds from the earliest instant the clock
  can represent, so \<^verbatim>\<open>checked_sub\<close> fails exactly when the difference would be negative. A
  duration is a number of nanoseconds. \<^verbatim>\<open>saturating_duration_since\<close> is the subtraction of
  natural numbers.
\<close>

type_synonym instant = nat
type_synonym duration = nat

definition of_secs :: "nat \<Rightarrow> duration" where
  "of_secs s = s * 1000000000"

definition of_millis :: "nat \<Rightarrow> duration" where
  "of_millis ms = ms * 1000000"

definition as_millis :: "duration \<Rightarrow> nat" where
  "as_millis d = d div 1000000"

definition as_secs :: "duration \<Rightarrow> nat" where
  "as_secs d = d div 1000000000"

definition subsec_nanos :: "duration \<Rightarrow> nat" where
  "subsec_nanos d = d mod 1000000000"

text \<open>\<^verbatim>\<open>d.as_secs() + u64::from(d.subsec_nanos() > 0)\<close>: whole seconds, rounded up.\<close>

definition secs_up :: "duration \<Rightarrow> nat" where
  "secs_up d = as_secs d + (if subsec_nanos d > 0 then 1 else 0)"

lemma secs_up_bounds: "d \<le> of_secs (secs_up d)" "0 < secs_up d \<Longrightarrow> of_secs (secs_up d - 1) < d"
proof -
  have *: "d = 1000000000 * (d div 1000000000) + d mod 1000000000"
    by simp
  show "d \<le> of_secs (secs_up d)"
    using mod_less_divisor [of 1000000000 d] *
    by (auto simp: secs_up_def of_secs_def as_secs_def subsec_nanos_def simp del: mult_div_mod_eq)
  show "of_secs (secs_up d - 1) < d" if "0 < secs_up d"
  proof (cases "0 < d mod 1000000000")
    case True
    then have "1000000000 * (d div 1000000000) < d"
      using * by linarith
    then show ?thesis
      using True by (simp add: secs_up_def of_secs_def as_secs_def subsec_nanos_def mult.commute)
  next
    case False
    then show ?thesis
      using that * by (auto simp: secs_up_def of_secs_def as_secs_def subsec_nanos_def algebra_simps)
  qed
qed

lemma secs_up_pos_iff: "0 < secs_up d \<longleftrightarrow> 0 < d"
  by (auto simp: secs_up_def as_secs_def subsec_nanos_def div_greater_zero_iff)

section \<open>Maximum and minimum of a sequence\<close>

text \<open>\<^verbatim>\<open>iter.max().unwrap_or(now)\<close> and \<^verbatim>\<open>iter.fold(now, Instant::max)\<close>\<close>

definition max_or :: "instant \<Rightarrow> instant list \<Rightarrow> instant" where
  "max_or now ts = (case ts of [] \<Rightarrow> now | t # ts' \<Rightarrow> fold max ts' t)"

definition fold_max :: "instant \<Rightarrow> instant list \<Rightarrow> instant" where
  "fold_max now ts = fold max ts now"

text \<open>\<^verbatim>\<open>iter.min()\<close>\<close>

definition min_opt :: "'a::linorder list \<Rightarrow> 'a option" where
  "min_opt ts = (case ts of [] \<Rightarrow> None | t # ts' \<Rightarrow> Some (fold min ts' t))"

lemma fold_max_le_iff: "fold max ts (t :: 'a::linorder) \<le> b \<longleftrightarrow> t \<le> b \<and> (\<forall>x \<in> set ts. x \<le> b)"
  by (induction ts arbitrary: t) auto

lemma fold_max_in: "fold max ts (t :: 'a::linorder) \<in> insert t (set ts)"
proof (induction ts arbitrary: t)
  case (Cons a ts)
  show ?case using Cons.IH [of "max a t"] by (auto simp: max_def split: if_splits)
qed simp

lemma fold_max_eq: "fold_max now ts \<le> b \<longleftrightarrow> now \<le> b \<and> (\<forall>t \<in> set ts. t \<le> b)"
  by (simp add: fold_max_def fold_max_le_iff)

lemma max_or_le_iff: "max_or now ts \<le> b \<longleftrightarrow> (if ts = [] then now \<le> b else \<forall>t \<in> set ts. t \<le> b)"
  by (cases ts) (auto simp: max_or_def fold_max_le_iff)

lemma max_or_ge: "t \<in> set ts \<Longrightarrow> t \<le> max_or now ts"
  using max_or_le_iff [of now ts "max_or now ts"] by (auto split: if_splits)

lemma max_or_in: "ts \<noteq> [] \<Longrightarrow> max_or now ts \<in> set ts"
  by (cases ts) (use fold_max_in in \<open>auto simp: max_or_def\<close>)

section \<open>Lists\<close>

lemma filter_length_le:
  "(\<And>x. x \<in> set xs \<Longrightarrow> P x \<Longrightarrow> Q x) \<Longrightarrow> length (filter P xs) \<le> length (filter Q xs)"
  by (induction xs) (auto simp: le_SucI)

lemma sort_key_map: "sort_key f (map g xs) = map g (sort_key (f \<circ> g) xs)"
proof -
  have "insort_key f (g x) (map g ys) = map g (insort_key (f \<circ> g) x ys)" for x ys
    by (induction ys) auto
  then show ?thesis
    by (induction xs) auto
qed

text \<open>\<^verbatim>\<open>slice::chunks\<close>; the sources never call it with 0.\<close>

function chunks :: "nat \<Rightarrow> 'a list \<Rightarrow> 'a list list" where
  "chunks n xs = (if xs = [] \<or> n = 0 then [] else take n xs # chunks n (drop n xs))"
  by pat_completeness auto
termination
  by (relation "measure (length \<circ> snd)") auto

declare chunks.simps [simp del]

end
