(* ===== verification/Text_Ops.thy ===== *)
theory Text_Ops
  imports Prelude
begin

text \<open>
  The operations of Rust's \<^verbatim>\<open>str\<close> and \<^verbatim>\<open>char\<close> that the sources use: trimming, splitting,
  prefixes, ASCII case, decimal numbers. Each is the standard library's documented behaviour
  on the model's text; nothing here is specific to the proxy.
\<close>

section \<open>Characters\<close>

text \<open>\<^verbatim>\<open>char::is_whitespace\<close> on the code points below 256.\<close>

definition is_ws :: "char \<Rightarrow> bool" where
  "is_ws c = (let n = (of_char c :: nat) in (9 \<le> n \<and> n \<le> 13) \<or> n = 32 \<or> n = 133 \<or> n = 160)"

definition is_digit :: "char \<Rightarrow> bool" where
  "is_digit c = (48 \<le> (of_char c :: nat) \<and> (of_char c :: nat) \<le> 57)"

definition is_lower :: "char \<Rightarrow> bool" where
  "is_lower c = (97 \<le> (of_char c :: nat) \<and> (of_char c :: nat) \<le> 122)"

definition is_upper :: "char \<Rightarrow> bool" where
  "is_upper c = (65 \<le> (of_char c :: nat) \<and> (of_char c :: nat) \<le> 90)"

definition is_alnum :: "char \<Rightarrow> bool" where
  "is_alnum c = (is_digit c \<or> is_lower c \<or> is_upper c)"

text \<open>\<^verbatim>\<open>is_ascii_hexdigit\<close>\<close>

definition is_hexdigit :: "char \<Rightarrow> bool" where
  "is_hexdigit c = (let n = (of_char c :: nat) in
     is_digit c \<or> (97 \<le> n \<and> n \<le> 102) \<or> (65 \<le> n \<and> n \<le> 70))"

definition lower_char :: "char \<Rightarrow> char" where
  "lower_char c = (if is_upper c then char_of ((of_char c :: nat) + 32) else c)"

definition upper_char :: "char \<Rightarrow> char" where
  "upper_char c = (if is_lower c then char_of ((of_char c :: nat) - 32) else c)"

section \<open>Strings\<close>

text \<open>\<^verbatim>\<open>to_ascii_lowercase\<close>, \<^verbatim>\<open>eq_ignore_ascii_case\<close> and, on ASCII text, \<^verbatim>\<open>to_uppercase\<close>.\<close>

definition lowercase :: "string \<Rightarrow> string" where
  "lowercase = map lower_char"

definition uppercase :: "string \<Rightarrow> string" where
  "uppercase = map upper_char"

definition eq_ignore_case :: "string \<Rightarrow> string \<Rightarrow> bool" where
  "eq_ignore_case a b = (lowercase a = lowercase b)"

definition trim :: "string \<Rightarrow> string" where
  "trim s = rev (dropWhile is_ws (rev (dropWhile is_ws s)))"

text \<open>\<^verbatim>\<open>split(d)\<close>: the parts between occurrences of \<open>d\<close>, empty ones included.\<close>

fun split_on :: "'a \<Rightarrow> 'a list \<Rightarrow> 'a list list" where
  "split_on d [] = [[]]"
| "split_on d (c # cs) =
     (if c = d then [] # split_on d cs
      else (c # hd (split_on d cs)) # tl (split_on d cs))"

text \<open>\<^verbatim>\<open>split_once(d)\<close>: around the first occurrence of \<open>d\<close>.\<close>

definition split_once :: "char \<Rightarrow> string \<Rightarrow> (string \<times> string) option" where
  "split_once d s =
     (if d \<in> set s then Some (takeWhile (\<lambda>c. c \<noteq> d) s, tl (dropWhile (\<lambda>c. c \<noteq> d) s)) else None)"

text \<open>\<^verbatim>\<open>rsplit_once(d)\<close>: around the last occurrence of \<open>d\<close>.\<close>

definition rsplit_once :: "char \<Rightarrow> string \<Rightarrow> (string \<times> string) option" where
  "rsplit_once d s = map_option (\<lambda>(b, a). (rev a, rev b)) (split_once d (rev s))"

definition strip_prefix :: "string \<Rightarrow> string \<Rightarrow> string option" where
  "strip_prefix p s = (if take (length p) s = p then Some (drop (length p) s) else None)"

definition strip_suffix :: "string \<Rightarrow> string \<Rightarrow> string option" where
  "strip_suffix p s = map_option rev (strip_prefix (rev p) (rev s))"

definition starts_with :: "string \<Rightarrow> string \<Rightarrow> bool" where
  "starts_with p s = (take (length p) s = p)"

text \<open>\<^verbatim>\<open>starts_with(c)\<close> and \<^verbatim>\<open>ends_with(c)\<close> for one character.\<close>

definition starts_char :: "char \<Rightarrow> string \<Rightarrow> bool" where
  "starts_char c s = (s \<noteq> [] \<and> hd s = c)"

definition ends_char :: "char \<Rightarrow> string \<Rightarrow> bool" where
  "ends_char c s = (s \<noteq> [] \<and> last s = c)"

text \<open>\<^verbatim>\<open>as_bytes\<close>: UTF-8, two bytes for the characters from 128 to 255.\<close>

definition utf8_char :: "char \<Rightarrow> nat list" where
  "utf8_char c = (let n = of_char c in if n < 128 then [n] else [192 + n div 64, 128 + n mod 64])"

definition utf8 :: "string \<Rightarrow> nat list" where
  "utf8 s = concat (map utf8_char s)"

text \<open>\<^verbatim>\<open>format!("{b:02X}")\<close> and \<^verbatim>\<open>format!("{b:02x}")\<close> of a byte.\<close>

definition hex_upper :: "nat \<Rightarrow> char" where
  "hex_upper d = (if d < 10 then char_of (48 + d) else char_of (55 + d))"

definition hex_lower :: "nat \<Rightarrow> char" where
  "hex_lower d = (if d < 10 then char_of (48 + d) else char_of (87 + d))"

text \<open>\<^verbatim>\<open>haystack.contains(needle)\<close>\<close>

fun contains :: "string \<Rightarrow> string \<Rightarrow> bool" where
  "contains p [] = (p = [])"
| "contains p (c # cs) = (starts_with p (c # cs) \<or> contains p cs)"

text \<open>\<^verbatim>\<open>parts.join(sep)\<close>\<close>

fun join :: "string \<Rightarrow> string list \<Rightarrow> string" where
  "join sep [] = []"
| "join sep [p] = p"
| "join sep (p # q # ps) = p @ sep @ join sep (q # ps)"

section \<open>Decimal numbers\<close>

definition digit_val :: "char \<Rightarrow> nat" where
  "digit_val c = (of_char c :: nat) - 48"

definition digit_char :: "nat \<Rightarrow> char" where
  "digit_char d = char_of (d + 48)"

definition digits_val :: "string \<Rightarrow> nat" where
  "digits_val s = fold (\<lambda>c n. 10 * n + digit_val c) s 0"

text \<open>
  \<^verbatim>\<open>str::parse\<close> for an unsigned type: an optional \<open>+\<close>, at least one digit, nothing else, and
  the value in range.
\<close>

definition parse_uint :: "nat \<Rightarrow> string \<Rightarrow> nat option" where
  "parse_uint bound s =
     (let ds = (if s \<noteq> [] \<and> hd s = CHR ''+'' then tl s else s) in
      if ds \<noteq> [] \<and> list_all is_digit ds \<and> digits_val ds \<le> bound then Some (digits_val ds) else None)"

abbreviation parse_u32 :: "string \<Rightarrow> nat option" where
  "parse_u32 \<equiv> parse_uint u32_max"

abbreviation parse_u64 :: "string \<Rightarrow> nat option" where
  "parse_u64 \<equiv> parse_uint u64_max"

abbreviation parse_u8 :: "string \<Rightarrow> nat option" where
  "parse_u8 \<equiv> parse_uint 255"

text \<open>\<^verbatim>\<open>str::parse::<i64>\<close>: an optional sign, at least one digit, the value in range.\<close>

definition parse_i64 :: "string \<Rightarrow> int option" where
  "parse_i64 s =
     (let neg = (s \<noteq> [] \<and> hd s = CHR ''-'');
          ds = (if s \<noteq> [] \<and> (hd s = CHR ''+'' \<or> hd s = CHR ''-'') then tl s else s);
          v = (if neg then - int (digits_val ds) else int (digits_val ds)) in
      if ds \<noteq> [] \<and> list_all is_digit ds \<and> i64_min \<le> v \<and> v \<le> i64_max then Some v else None)"

text \<open>\<^verbatim>\<open>to_string\<close> of an unsigned number.\<close>

fun show_nat :: "nat \<Rightarrow> string" where
  "show_nat n = (if n < 10 then [digit_char n] else show_nat (n div 10) @ [digit_char (n mod 10)])"

text \<open>\<^verbatim>\<open>format!("{n:0w$}")\<close>\<close>

definition pad :: "nat \<Rightarrow> nat \<Rightarrow> string" where
  "pad w n = replicate (w - length (show_nat n)) CHR ''0'' @ show_nat n"

declare show_nat.simps [simp del]

section \<open>Lemmas\<close>

lemmas [text_simps] = is_ws_def is_digit_def is_lower_def is_upper_def is_alnum_def lowercase_def
  uppercase_def trim_def split_once_def strip_prefix_def starts_with_def parse_uint_def

lemma of_char_digit_char: "d < 10 \<Longrightarrow> of_char (digit_char d) = d + (48 :: nat)"
  by (simp add: digit_char_def)

lemma is_digit_digit_char: "d < 10 \<Longrightarrow> is_digit (digit_char d)"
  by (simp add: is_digit_def of_char_digit_char)

lemma digit_val_char [simp]: "d < 10 \<Longrightarrow> digit_val (digit_char d) = d"
  by (simp add: digit_val_def of_char_digit_char)

lemma digits_val_append: "digits_val (s @ [c]) = 10 * digits_val s + digit_val c"
  by (simp add: digits_val_def)

lemma show_nat_digits: "list_all is_digit (show_nat n)"
proof (induction n rule: show_nat.induct)
  case (1 n)
  then show ?case by (subst show_nat.simps) (simp add: is_digit_digit_char)
qed

lemma show_nat_nonempty [simp]: "show_nat n \<noteq> []"
  by (subst show_nat.simps) simp

lemma digits_val_show [simp]: "digits_val (show_nat n) = n"
proof (induction n rule: show_nat.induct)
  case (1 n)
  show ?case
  proof (cases "n < 10")
    case True
    then show ?thesis by (simp add: show_nat.simps [of n] digits_val_def)
  next
    case False
    then show ?thesis using 1 by (simp add: show_nat.simps [of n] digits_val_append)
  qed
qed

lemma digit_not_ws: "is_digit c \<Longrightarrow> \<not> is_ws c"
  by (auto simp: is_digit_def is_ws_def Let_def)

lemma digit_not_plus: "is_digit c \<Longrightarrow> c \<noteq> CHR ''+''"
  by (auto simp: is_digit_def)

lemma digit_not_sep: "is_digit c \<Longrightarrow> c \<noteq> CHR '','' \<and> c \<noteq> CHR '':''"
  by (auto simp: is_digit_def)

lemma show_nat_set: "c \<in> set (show_nat n) \<Longrightarrow> is_digit c"
  using show_nat_digits [of n] by (auto simp: list_all_iff)

lemma parse_show: "n \<le> bound \<Longrightarrow> parse_uint bound (show_nat n) = Some n"
proof -
  assume "n \<le> bound"
  moreover have "hd (show_nat n) \<noteq> CHR ''+''"
    using show_nat_set [of "hd (show_nat n)" n] digit_not_plus by auto
  ultimately show ?thesis
    by (simp add: parse_uint_def show_nat_digits)
qed

lemma parse_uint_bound: "parse_uint bound s = Some n \<Longrightarrow> n \<le> bound"
  by (auto simp: parse_uint_def Let_def split: if_splits)

lemma trim_id: "\<forall>c \<in> set s. \<not> is_ws c \<Longrightarrow> trim s = s"
proof -
  assume s: "\<forall>c \<in> set s. \<not> is_ws c"
  have "dropWhile is_ws xs = xs" if "set xs \<subseteq> set s" for xs
    using s that by (cases xs) auto
  then show ?thesis by (simp add: trim_def)
qed

lemma split_once_append: "d \<notin> set a \<Longrightarrow> split_once d (a @ d # b) = Some (a, b)"
  by (simp add: split_once_def takeWhile_append dropWhile_append)

lemma split_once_Some:
  "split_once d s = Some (a, b) \<longleftrightarrow> s = a @ d # b \<and> d \<notin> set a"
proof
  assume s: "split_once d s = Some (a, b)"
  then have d: "d \<in> set s" and a: "a = takeWhile (\<lambda>c. c \<noteq> d) s"
    and b: "b = tl (dropWhile (\<lambda>c. c \<noteq> d) s)"
    by (auto simp: split_once_def split: if_splits)
  from d have "dropWhile (\<lambda>c. c \<noteq> d) s \<noteq> []"
    by (simp add: dropWhile_eq_Nil_conv)
  then have "dropWhile (\<lambda>c. c \<noteq> d) s = d # b"
    using hd_dropWhile [of "\<lambda>c. c \<noteq> d" s] b by (cases "dropWhile (\<lambda>c. c \<noteq> d) s") auto
  then show "s = a @ d # b \<and> d \<notin> set a"
    using a takeWhile_dropWhile_id [of "\<lambda>c. c \<noteq> d" s] set_takeWhileD by fastforce
qed (auto simp: split_once_append)

lemma split_once_None: "split_once d s = None \<longleftrightarrow> d \<notin> set s"
  by (simp add: split_once_def)

lemma split_on_nonempty [simp]: "split_on d s \<noteq> []"
  by (induction s) auto

lemma split_on_no_sep: "d \<notin> set s \<Longrightarrow> split_on d s = [s]"
  by (induction s) auto

lemma split_on_append: "d \<notin> set a \<Longrightarrow> split_on d (a @ d # b) = a # split_on d b"
  by (induction a) auto

lemma split_on_join:
  "ps \<noteq> [] \<Longrightarrow> \<forall>p \<in> set ps. d \<notin> set p \<Longrightarrow> split_on d (join [d] ps) = ps"
proof (induction "[d]" ps rule: join.induct)
  case (3 p q ps)
  then show ?case by (simp add: split_on_append)
qed (auto simp: split_on_no_sep)

lemma split_on_parts: "p \<in> set (split_on d s) \<Longrightarrow> d \<notin> set p"
proof (induction s arbitrary: p)
  case (Cons c s)
  then show ?case
    by (cases "split_on d s") (auto split: if_splits)
qed simp

lemma lowercase_append [simp]: "lowercase (a @ b) = lowercase a @ lowercase b"
  by (simp add: lowercase_def)

lemma lower_char_idem [simp]: "lower_char (lower_char c) = lower_char c"
  by (auto simp: lower_char_def is_upper_def)

lemma lowercase_idem [simp]: "lowercase (lowercase s) = lowercase s"
  by (simp add: lowercase_def)

lemma strip_prefix_Some: "strip_prefix p s = Some r \<longleftrightarrow> s = p @ r"
  by (auto simp: strip_prefix_def) (metis append_take_drop_id)

text \<open>A prefix code: its words are not empty and no word starts another.\<close>

lemma concat_map_inj:
  assumes "\<And>x y u v. x \<in> A \<Longrightarrow> y \<in> A \<Longrightarrow> f x @ u = f y @ v \<Longrightarrow> x = y" "\<And>x. f x \<noteq> []"
  shows "set xs \<subseteq> A \<Longrightarrow> set ys \<subseteq> A \<Longrightarrow> concat (map f xs) = concat (map f ys) \<Longrightarrow> xs = ys"
proof (induction xs arbitrary: ys)
  case Nil
  then show ?case using assms(2) by (cases ys) auto
next
  case (Cons x xs)
  from Cons.prems(3) assms(2) [of x] obtain y ys' where ys: "ys = y # ys'"
    by (cases ys) simp_all
  then have "f x @ concat (map f xs) = f y @ concat (map f ys')" "x \<in> A" "y \<in> A"
    using Cons.prems by simp_all
  then have "x = y"
    using assms(1) by blast
  then show ?case
    using Cons.IH [of ys'] Cons.prems ys by simp
qed

lemma utf8_char_bytes: "b \<in> set (utf8_char c) \<Longrightarrow> b < 256"
proof -
  have "(of_char c :: nat) < 256"
    by simp
  then have "(of_char c :: nat) div 64 < 4" "(of_char c :: nat) mod 64 < 64"
    by (auto simp: div_less_iff_less_mult)
  then show "b \<in> set (utf8_char c) \<Longrightarrow> b < 256"
    by (auto simp: utf8_char_def Let_def split: if_splits)
qed

lemma utf8_char_prefix: "utf8_char x @ u = utf8_char y @ v \<Longrightarrow> x = y"
proof -
  assume *: "utf8_char x @ u = utf8_char y @ v"
  have "(of_char x :: nat) = of_char y"
  proof (cases "(of_char x :: nat) < 128 \<or> (of_char y :: nat) < 128")
    case True
    then show ?thesis
      using * by (auto simp: utf8_char_def Let_def split: if_splits)
  next
    case False
    then have "(of_char x :: nat) div 64 = of_char y div 64" "(of_char x :: nat) mod 64 = of_char y mod 64"
      using * by (auto simp: utf8_char_def Let_def)
    then show ?thesis
      by (metis div_mult_mod_eq)
  qed
  then show "x = y"
    by simp
qed

lemma utf8_char_nonempty [simp]: "utf8_char c \<noteq> []"
  by (simp add: utf8_char_def Let_def)

lemma utf8_inj: "utf8 s = utf8 t \<Longrightarrow> s = t"
  unfolding utf8_def
  by (rule concat_map_inj [of UNIV utf8_char]) (use utf8_char_prefix utf8_char_nonempty in blast)+

lemma utf8_bytes: "b \<in> set (utf8 s) \<Longrightarrow> b < 256"
  by (auto simp: utf8_def dest: utf8_char_bytes)

lemma split_on_code [code]:
  "split_on d s =
     (case dropWhile (\<lambda>c. c \<noteq> d) s of
        [] \<Rightarrow> [s]
      | _ # r \<Rightarrow> takeWhile (\<lambda>c. c \<noteq> d) s # split_on d r)"
proof (cases "d \<in> set s")
  case True
  then have "dropWhile (\<lambda>c. c \<noteq> d) s = d # tl (dropWhile (\<lambda>c. c \<noteq> d) s)"
    using hd_dropWhile [of "\<lambda>c. c \<noteq> d" s]
    by (cases "dropWhile (\<lambda>c. c \<noteq> d) s") (auto simp: dropWhile_eq_Nil_conv)
  then obtain r where r: "dropWhile (\<lambda>c. c \<noteq> d) s = d # r"
    by blast
  then have s: "s = takeWhile (\<lambda>c. c \<noteq> d) s @ d # r"
    by (metis takeWhile_dropWhile_id)
  have "split_on d (takeWhile (\<lambda>c. c \<noteq> d) s @ d # r) = takeWhile (\<lambda>c. c \<noteq> d) s # split_on d r"
    by (rule split_on_append) (auto dest: set_takeWhileD)
  then show ?thesis
    using r s by simp
next
  case False
  then have "dropWhile (\<lambda>c. c \<noteq> d) s = []"
    by (auto simp: dropWhile_eq_Nil_conv)
  then show ?thesis
    by (simp only: split_on_no_sep [OF False] list.case)
qed

lemma strip_suffix_Some: "strip_suffix p s = Some r \<longleftrightarrow> s = r @ p"
proof
  assume "strip_suffix p s = Some r"
  then have "rev s = rev p @ rev r"
    by (auto simp: strip_suffix_def strip_prefix_Some)
  then show "s = r @ p"
    by (metis rev_append rev_rev_ident)
qed (simp add: strip_suffix_def strip_prefix_Some)

end
