(* ===== verification/Net.thy ===== *)
theory Net
  imports Text_Ops "HOL-Library.Word"
begin

text \<open>
  IP addresses of Rust's standard library, \<^verbatim>\<open>std::net\<close>, as the access checks use them: an address is
  its bits, and \<open>parse_ip\<close> is \<^verbatim>\<open>str::parse::<IpAddr>\<close>, the parser of the standard library step by step.
\<close>

unbundle bit_operations_syntax

datatype ip_addr = V4 "32 word" | V6 "128 word"

text \<open>\<^verbatim>\<open>read_number\<close>: at most \<open>width\<close> digits of the radix, the value below \<open>bound\<close>.\<close>

definition digit_in :: "nat \<Rightarrow> char \<Rightarrow> nat option" where
  "digit_in radix c =
     (let d = (if is_digit c then (of_char c :: nat) - 48
               else if is_lower c then (of_char c :: nat) - 87
               else if is_upper c then (of_char c :: nat) - 55
               else radix) in
      if d < radix then Some d else None)"

definition read_number :: "nat \<Rightarrow> nat \<Rightarrow> nat \<Rightarrow> bool \<Rightarrow> string \<Rightarrow> (nat \<times> string) option" where
  "read_number radix width bound allow_zero s =
     (let ds = takeWhile (\<lambda>c. digit_in radix c \<noteq> None) s;
          v = fold (\<lambda>c n. n * radix + the (digit_in radix c)) ds 0 in
      if ds = [] \<or> length ds > width \<or> v > bound \<or> (\<not> allow_zero \<and> length ds > 1 \<and> hd ds = CHR ''0'') then None
      else Some (v, drop (length ds) s))"

definition read_char :: "char \<Rightarrow> string \<Rightarrow> string option" where
  "read_char c s = (case s of x # xs \<Rightarrow> if x = c then Some xs else None | [] \<Rightarrow> None)"

text \<open>\<^verbatim>\<open>read_separator\<close>: the separator before every group but the first.\<close>

definition read_separator :: "char \<Rightarrow> nat \<Rightarrow> (string \<Rightarrow> ('a \<times> string) option) \<Rightarrow> string \<Rightarrow> ('a \<times> string) option" where
  "read_separator sep i inner s =
     (if i > 0 then Option.bind (read_char sep s) inner else inner s)"

fun read_octets :: "nat \<Rightarrow> nat \<Rightarrow> string \<Rightarrow> (nat list \<times> string) option" where
  "read_octets i 0 s = Some ([], s)"
| "read_octets i (Suc n) s =
     (case read_separator CHR ''.'' i (read_number 10 3 255 False) s of
        None \<Rightarrow> None
      | Some (o1, s1) \<Rightarrow> map_option (\<lambda>(os, s2). (o1 # os, s2)) (read_octets (i + 1) n s1))"

definition read_ipv4 :: "string \<Rightarrow> (nat list \<times> string) option" where
  "read_ipv4 s = read_octets 0 4 s"

text \<open>\<^verbatim>\<open>read_groups\<close>: up to \<open>limit\<close> groups of 16 bits, an IPv4 address standing for the last two. The
  result is the groups, whether they ended with an IPv4 address, and the rest of the text.\<close>

fun read_groups :: "nat \<Rightarrow> nat \<Rightarrow> string \<Rightarrow> nat list \<times> bool \<times> string" where
  "read_groups i 0 s = ([], False, s)"
| "read_groups i (Suc left) s =
     (case (if left > 0 then read_separator CHR '':'' i read_ipv4 s else None) of
        Some (os, s1) \<Rightarrow> ([os ! 0 * 256 + os ! 1, os ! 2 * 256 + os ! 3], True, s1)
      | None \<Rightarrow>
          (case read_separator CHR '':'' i (read_number 16 4 65535 True) s of
             None \<Rightarrow> ([], False, s)
           | Some (g, s1) \<Rightarrow>
               (case read_groups (i + 1) left s1 of (gs, v4, s2) \<Rightarrow> (g # gs, v4, s2))))"

definition read_ipv6 :: "string \<Rightarrow> (nat list \<times> string) option" where
  "read_ipv6 s =
     (case read_groups 0 8 s of (head, head_v4, s1) \<Rightarrow>
        if length head = 8 then Some (head, s1)
        else if head_v4 then None
        else
          (case Option.bind (read_char CHR '':'' s1) (read_char CHR '':'') of
             None \<Rightarrow> None
           | Some s2 \<Rightarrow>
               (case read_groups 0 (8 - (length head + 1)) s2 of (tail, _, s3) \<Rightarrow>
                  Some (head @ replicate (8 - length head - length tail) 0 @ tail, s3))))"

definition of_digits :: "nat \<Rightarrow> nat list \<Rightarrow> nat" where
  "of_digits base ds = fold (\<lambda>d n. n * base + d) ds 0"

definition parse_ip :: "string \<Rightarrow> ip_addr option" where
  "parse_ip s =
     (case read_ipv4 s of
        Some (os, rest) \<Rightarrow> if rest = [] then Some (V4 (of_nat (of_digits 256 os))) else None
      | None \<Rightarrow>
          (case read_ipv6 s of
             Some (gs, rest) \<Rightarrow> if rest = [] then Some (V6 (of_nat (of_digits 65536 gs))) else None
           | None \<Rightarrow> None))"

text \<open>\<^verbatim>\<open>to_ipv4_mapped\<close>: \<open>::ffff:a.b.c.d\<close>\<close>

definition to_ipv4_mapped :: "128 word \<Rightarrow> 32 word option" where
  "to_ipv4_mapped a = (if drop_bit 32 a = 0xFFFF then Some (ucast a) else None)"

subsection \<open>Evaluating the parser\<close>

lemma read_octets_4: "read_octets i 4 s = read_octets i (Suc (Suc (Suc (Suc 0)))) s"
  by (simp only: eval_nat_numeral BitM.simps)
lemma read_groups_7: "read_groups i 7 s = read_groups i (Suc (Suc (Suc (Suc (Suc (Suc (Suc 0))))))) s"
  by (simp only: eval_nat_numeral BitM.simps)
lemma read_groups_8: "read_groups i 8 s = read_groups i (Suc (Suc (Suc (Suc (Suc (Suc (Suc (Suc 0)))))))) s"
  by (simp only: eval_nat_numeral BitM.simps)

lemmas ip_simps = read_octets_4 read_groups_7 read_groups_8 read_ipv4_def read_ipv6_def read_separator_def
  read_number_def read_char_def digit_in_def is_digit_def is_lower_def is_upper_def parse_ip_def of_digits_def

lemma funpow_zeros: "((\<lambda>n :: nat. n * b) ^^ k) 0 = 0"
  by (induction k) simp_all

lemma parse_ip_mapped_zero: "parse_ip ''::ffff:0:0'' = Some (V6 0xFFFF00000000)"
  by (simp add: ip_simps funpow_zeros split: option.splits)

end
