(* ===== verification/Headers.thy ===== *)
theory Headers
  imports Text_Ops
begin

text \<open>
  Riot's rate-limit headers, \<^verbatim>\<open>src/riot/limiter/headers.rs\<close>: the windows of a limit header
  and of a count header, the type of a 429, and everything the limiter reads from one
  response. The HTTP header map is the argument \<open>get\<close>: the text of a header, \<open>None\<close> when it
  is absent or not visible ASCII. Log lines are not modelled; whether a parse logs is
  \<open>warn_if_dropped\<close>.
\<close>

record limit_window =
  lw_limit :: nat
  lw_seconds :: nat

record count_window =
  cw_count :: nat
  cw_seconds :: nat

definition BOOTSTRAP_APP_LIMITS :: "limit_window list" where
  "BOOTSTRAP_APP_LIMITS =
     [\<lparr>lw_limit = 20, lw_seconds = 1\<rparr>, \<lparr>lw_limit = 100, lw_seconds = 120\<rparr>]"

datatype rate_limit_type = Application | Method | Service

definition rate_limit_type_parse :: "string \<Rightarrow> rate_limit_type option" where
  "rate_limit_type_parse raw =
     (let s = lowercase (trim raw) in
      if s = ''application'' then Some Application
      else if s = ''method'' then Some Method
      else if s = ''service'' then Some Service
      else None)"

fun rate_limit_type_as_str :: "rate_limit_type \<Rightarrow> string" where
  "rate_limit_type_as_str Application = ''application''"
| "rate_limit_type_as_str Method = ''method''"
| "rate_limit_type_as_str Service = ''service''"

text \<open>One part of \<open>a:b,c:d\<close>, and all of them ordered by window length.\<close>

definition pair_of :: "string \<Rightarrow> (nat \<times> nat) option" where
  "pair_of part =
     (case split_once CHR '':'' (trim part) of
        None \<Rightarrow> None
      | Some (a, b) \<Rightarrow>
          (case parse_u32 (trim a) of
             None \<Rightarrow> None
           | Some x \<Rightarrow> (case parse_u32 (trim b) of None \<Rightarrow> None | Some y \<Rightarrow> Some (x, y))))"

definition pairs :: "string \<Rightarrow> (nat \<times> nat) list" where
  "pairs header = sort_key snd (List.map_filter pair_of (split_on CHR '','' header))"

definition warn_if_dropped :: "string \<Rightarrow> nat \<Rightarrow> bool" where
  "warn_if_dropped header kept =
     (kept < length (filter (\<lambda>p. trim p \<noteq> []) (split_on CHR '','' header)))"

definition parse_limits :: "string option \<Rightarrow> limit_window list option" where
  "parse_limits header =
     (case header of
        None \<Rightarrow> None
      | Some h \<Rightarrow>
          (let windows = map (\<lambda>(limit, seconds). \<lparr>lw_limit = limit, lw_seconds = seconds\<rparr>)
                 (filter (\<lambda>(limit, seconds). limit > 0 \<and> seconds > 0) (pairs h)) in
           if windows \<noteq> [] then Some windows else None))"

definition parse_counts :: "string option \<Rightarrow> count_window list option" where
  "parse_counts header =
     (case header of
        None \<Rightarrow> None
      | Some h \<Rightarrow>
          (let windows = map (\<lambda>(count, seconds). \<lparr>cw_count = count, cw_seconds = seconds\<rparr>)
                 (filter (\<lambda>(_, seconds). seconds > 0) (pairs h)) in
           if windows \<noteq> [] then Some windows else None))"

record rate_limit_headers =
  app_limits :: "limit_window list option"
  app_counts :: "count_window list option"
  method_limits :: "limit_window list option"
  method_counts :: "count_window list option"
  limit_type :: "rate_limit_type option"
  retry_after :: "nat option"

definition X_APP_RATE_LIMIT :: string where
  "X_APP_RATE_LIMIT = ''x-app-rate-limit''"

definition X_APP_RATE_LIMIT_COUNT :: string where
  "X_APP_RATE_LIMIT_COUNT = ''x-app-rate-limit-count''"

definition X_METHOD_RATE_LIMIT :: string where
  "X_METHOD_RATE_LIMIT = ''x-method-rate-limit''"

definition X_METHOD_RATE_LIMIT_COUNT :: string where
  "X_METHOD_RATE_LIMIT_COUNT = ''x-method-rate-limit-count''"

definition X_RATE_LIMIT_TYPE :: string where
  "X_RATE_LIMIT_TYPE = ''x-rate-limit-type''"

definition RETRY_AFTER :: string where
  "RETRY_AFTER = ''retry-after''"

definition from_headers :: "(string \<Rightarrow> string option) \<Rightarrow> rate_limit_headers" where
  "from_headers get =
     \<lparr>app_limits = parse_limits (get X_APP_RATE_LIMIT),
      app_counts = parse_counts (get X_APP_RATE_LIMIT_COUNT),
      method_limits = parse_limits (get X_METHOD_RATE_LIMIT),
      method_counts = parse_counts (get X_METHOD_RATE_LIMIT_COUNT),
      limit_type = Option.bind (get X_RATE_LIMIT_TYPE) rate_limit_type_parse,
      retry_after = Option.bind (get RETRY_AFTER) (\<lambda>v. parse_u64 (trim v))\<rparr>"

section \<open>What a parsed header promises\<close>

definition valid_limit_window :: "limit_window \<Rightarrow> bool" where
  "valid_limit_window w = (0 < lw_limit w \<and> lw_limit w \<le> u32_max \<and>
     0 < lw_seconds w \<and> lw_seconds w \<le> u32_max)"

lemma pair_of_bounds: "pair_of part = Some (a, b) \<Longrightarrow> a \<le> u32_max \<and> b \<le> u32_max"
  by (auto simp: pair_of_def split: option.splits dest: parse_uint_bound)

lemma pairs_sound:
  assumes "p \<in> set (pairs header)"
  obtains part where "part \<in> set (split_on CHR '','' header)" and "pair_of part = Some p"
proof -
  have "set (pairs header) = set (List.map_filter pair_of (split_on CHR '','' header))"
    by (simp add: pairs_def)
  then show thesis
    using assms that by (force simp: List.map_filter_def)
qed

lemma pairs_bounds: "(a, b) \<in> set (pairs header) \<Longrightarrow> a \<le> u32_max \<and> b \<le> u32_max"
  by (metis pairs_sound pair_of_bounds)

lemma parse_limits_wf:
  assumes "parse_limits h = Some ws"
  shows "ws \<noteq> [] \<and> sorted (map lw_seconds ws) \<and> list_all valid_limit_window ws"
proof -
  obtain hd where h: "h = Some hd"
    using assms by (auto simp: parse_limits_def split: option.splits)
  define ps where "ps = filter (\<lambda>(limit, seconds). limit > 0 \<and> seconds > 0) (pairs hd)"
  have ws: "ws = map (\<lambda>(limit, seconds). \<lparr>lw_limit = limit, lw_seconds = seconds\<rparr>) ps" "ws \<noteq> []"
    using assms by (auto simp: parse_limits_def h ps_def Let_def split: if_splits)
  have "sorted (map snd ps)"
    by (simp add: ps_def pairs_def sorted_filter)
  moreover have "map lw_seconds ws = map snd ps"
    by (simp add: ws comp_def case_prod_unfold)
  moreover have "valid_limit_window w" if "w \<in> set ws" for w
    using that pairs_bounds [of _ _ hd] by (auto simp: ws ps_def valid_limit_window_def)
  ultimately show ?thesis
    using ws(2) by (simp add: list_all_iff)
qed

section \<open>Printing and reading back\<close>

text \<open>The documented format of a limit header, \<open>limit:seconds\<close> joined by commas.\<close>

definition window_text :: "nat \<Rightarrow> nat \<Rightarrow> string" where
  "window_text a b = show_nat a @ '':'' @ show_nat b"

definition limits_text :: "limit_window list \<Rightarrow> string" where
  "limits_text ws = join '','' (map (\<lambda>w. window_text (lw_limit w) (lw_seconds w)) ws)"

lemma window_text_chars: "c \<in> set (window_text a b) \<Longrightarrow> \<not> is_ws c \<and> c \<noteq> CHR '',''"
  using show_nat_set digit_not_ws digit_not_sep
  by (auto simp: window_text_def is_ws_def)

lemma pair_of_text:
  assumes "a \<le> u32_max" "b \<le> u32_max"
  shows "pair_of (window_text a b) = Some (a, b)"
proof -
  have tr: "trim (window_text a b) = window_text a b"
    by (rule trim_id) (use window_text_chars in blast)
  have "CHR '':'' \<notin> set (show_nat a)"
    using show_nat_set digit_not_sep by blast
  then have "split_once CHR '':'' (window_text a b) = Some (show_nat a, show_nat b)"
    by (simp add: window_text_def split_once_append)
  moreover have "trim (show_nat n) = show_nat n" for n
    by (rule trim_id) (use show_nat_set digit_not_ws in blast)
  ultimately show ?thesis
    using assms by (simp add: pair_of_def tr parse_show)
qed

lemma limit_window_eta [simp]:
  "\<lparr>lw_limit = lw_limit w, lw_seconds = lw_seconds w\<rparr> = (w :: limit_window)"
  by (cases w) simp

lemma pairs_limits_text:
  assumes "ws \<noteq> []" "list_all valid_limit_window ws"
  shows "pairs (limits_text ws) =
    map (\<lambda>w. (lw_limit w, lw_seconds w)) (sort_key lw_seconds ws)"
proof -
  have "split_on CHR '','' (limits_text ws) = map (\<lambda>w. window_text (lw_limit w) (lw_seconds w)) ws"
    unfolding limits_text_def
    by (rule split_on_join) (use assms(1) window_text_chars in auto)
  moreover have "List.map_filter pair_of (map (\<lambda>w. window_text (lw_limit w) (lw_seconds w)) ws) =
      map (\<lambda>w. (lw_limit w, lw_seconds w)) ws"
    using assms(2)
    by (induction ws) (auto simp: List.map_filter_simps pair_of_text valid_limit_window_def)
  ultimately show ?thesis
    by (simp add: pairs_def sort_key_map comp_def)
qed

lemma parse_limits_text:
  assumes "ws \<noteq> []" "list_all valid_limit_window ws"
  shows "parse_limits (Some (limits_text ws)) = Some (sort_key lw_seconds ws)"
proof -
  define ss where "ss = sort_key lw_seconds ws"
  have val: "list_all valid_limit_window ss"
    using assms(2) by (simp add: ss_def list_all_iff)
  have "filter (\<lambda>(limit, seconds). limit > 0 \<and> seconds > 0)
      (map (\<lambda>w. (lw_limit w, lw_seconds w)) ss) = map (\<lambda>w. (lw_limit w, lw_seconds w)) ss"
    using val by (auto simp: filter_id_conv list_all_iff valid_limit_window_def)
  moreover have "ss \<noteq> []"
    using assms(1) by (simp add: ss_def flip: set_empty)
  ultimately show ?thesis
    by (simp add: parse_limits_def pairs_limits_text [OF assms] comp_def flip: ss_def)
qed

end
