(* ===== verification/Rolling_Log.thy ===== *)
theory Rolling_Log
  imports Prelude "HOL-Library.Multiset"
begin

text \<open>
  The contract of a sliding log, apart from any implementation: a stateful component that
  remembers admissions, may forget an admission only once it is a whole \<open>span\<close> old, and grants
  only while fewer than \<open>cap\<close> remembered admissions are younger than that. Whatever sequence of
  operations runs, no interval of length \<open>span\<close> then holds more than \<open>cap\<close> grants. The rate
  limiter's scopes and the per-consumer quota are two instances.
\<close>

definition count_since :: "instant \<Rightarrow> instant list \<Rightarrow> nat" where
  "count_since x ts = length (filter (\<lambda>t. x \<le> t) ts)"

definition count_in :: "instant \<Rightarrow> instant \<Rightarrow> instant list \<Rightarrow> nat" where
  "count_in x y ts = length (filter (\<lambda>t. x \<le> t \<and> t < y) ts)"

lemma count_since_Nil [simp]: "count_since x [] = 0"
  by (simp add: count_since_def)

lemma count_since_append [simp]: "count_since x (ts @ us) = count_since x ts + count_since x us"
  by (simp add: count_since_def)

lemma count_since_Cons [simp]: "count_since x (t # ts) = (if x \<le> t then 1 else 0) + count_since x ts"
  by (simp add: count_since_def)

lemma count_since_replicate [simp]: "count_since x (replicate n t) = (if x \<le> t then n else 0)"
  by (simp add: count_since_def)

lemma count_since_le_length: "count_since x ts \<le> length ts"
  by (simp add: count_since_def)

lemma count_in_append [simp]: "count_in x y (ts @ us) = count_in x y ts + count_in x y us"
  by (simp add: count_in_def)

lemma count_in_le_since: "count_in x y ts \<le> count_since x ts"
  by (induction ts) (auto simp: count_in_def count_since_def)

lemma count_since_mset: "mset ts = mset us \<Longrightarrow> count_since x ts = count_since x us"
  by (metis count_since_def mset_filter size_mset)

text \<open>
  A run: steps at instants that never go back; a step either grants or does not, and the log
  records the instants of the grants.
\<close>

inductive logged_run ::
  "('s \<Rightarrow> instant \<Rightarrow> bool \<Rightarrow> 's \<Rightarrow> bool) \<Rightarrow> 's \<Rightarrow> instant \<Rightarrow> instant list \<Rightarrow> 's \<Rightarrow> bool"
  for step :: "'s \<Rightarrow> instant \<Rightarrow> bool \<Rightarrow> 's \<Rightarrow> bool" and s0 :: 's
where
  run_start: "logged_run step s0 now [] s0"
| run_keep: "logged_run step s0 now log s \<Longrightarrow> now \<le> now' \<Longrightarrow> step s now' False s' \<Longrightarrow>
    logged_run step s0 now' log s'"
| run_grant: "logged_run step s0 now log s \<Longrightarrow> now \<le> now' \<Longrightarrow> step s now' True s' \<Longrightarrow>
    logged_run step s0 now' (log @ [now']) s'"

locale rolling_log =
  fixes span :: duration
    and cap :: nat
    and held :: "'s \<Rightarrow> instant list"
    and inv :: "'s \<Rightarrow> bool"
    and step :: "'s \<Rightarrow> instant \<Rightarrow> bool \<Rightarrow> 's \<Rightarrow> bool"
  assumes inv_step: "inv s \<Longrightarrow> step s now g s' \<Longrightarrow> inv s'"
    and remembers: "inv s \<Longrightarrow> step s now g s' \<Longrightarrow> now < x + span \<Longrightarrow>
      count_since x (held s) \<le> count_since x (held s')"
    and records: "inv s \<Longrightarrow> step s now True s' \<Longrightarrow> x \<le> now \<Longrightarrow> now < x + span \<Longrightarrow>
      count_since x (held s) < count_since x (held s')"
    and room: "inv s \<Longrightarrow> step s now True s' \<Longrightarrow> now < x + span \<Longrightarrow>
      count_since x (held s) < cap"
begin

lemma logged_run_inv: "logged_run step s0 now log s \<Longrightarrow> inv s0 \<Longrightarrow> inv s"
  by (induction rule: logged_run.induct) (auto intro: inv_step)

lemma log_before_now: "logged_run step s0 now log s \<Longrightarrow> t \<in> set log \<Longrightarrow> t \<le> now"
  by (induction rule: logged_run.induct) auto

lemma log_held:
  assumes "logged_run step s0 now log s" "inv s0" "now < x + span"
  shows "count_since x log \<le> count_since x (held s)"
  using assms
proof (induction arbitrary: x rule: logged_run.induct)
  case (run_keep now log s now' s')
  then have "count_since x log \<le> count_since x (held s)"
    by simp
  also have "\<dots> \<le> count_since x (held s')"
    using run_keep by (intro remembers) (auto intro: logged_run_inv)
  finally show ?case .
next
  case (run_grant now log s now' s')
  then have IH: "count_since x log \<le> count_since x (held s)" and inv: "inv s"
    by (auto intro: logged_run_inv)
  show ?case
  proof (cases "x \<le> now'")
    case True
    then show ?thesis
      using IH records [OF inv run_grant.hyps(3) True] run_grant.prems by simp
  next
    case False
    then show ?thesis
      using IH remembers [OF inv run_grant.hyps(3)] run_grant.prems by fastforce
  qed
qed simp

theorem rolling_bound:
  assumes "logged_run step s0 now log s" "inv s0"
  shows "count_in x (x + span) log \<le> cap"
  using assms
proof (induction rule: logged_run.induct)
  case (run_grant now log s now' s')
  then have inv: "inv s" and IH: "count_in x (x + span) log \<le> cap"
    by (auto intro: logged_run_inv)
  show ?case
  proof (cases "now' < x + span")
    case True
    have "count_in x (x + span) log \<le> count_since x (held s)"
      using count_in_le_since log_held [OF run_grant.hyps(1)] run_grant.prems run_grant.hyps(2) True
      by (meson le_less_trans order.trans)
    also have "\<dots> < cap"
      using room [OF inv run_grant.hyps(3) True] .
    finally show ?thesis
      by (simp add: count_in_def)
  next
    case False
    then show ?thesis
      using IH by (simp add: count_in_def)
  qed
qed (simp_all add: count_in_def)

end

end
