(* ===== verification/Bucket.thy ===== *)
theory Bucket
  imports Headers Rolling_Log
begin

text \<open>
  Sliding-log windows and per-scope state, \<^verbatim>\<open>src/riot/limiter/bucket.rs\<close>. A method that takes
  \<^verbatim>\<open>&mut self\<close> is a function from the window to its result and the new window; the admissions,
  a \<^verbatim>\<open>VecDeque\<close>, are a list with the front first.
\<close>

record window =
  w_limit :: nat
  w_seconds :: nat
  w_admitted :: "instant list"

definition window_new :: "limit_window \<Rightarrow> window" where
  "window_new spec = \<lparr>w_limit = lw_limit spec, w_seconds = lw_seconds spec, w_admitted = []\<rparr>"

definition window_spec :: "window \<Rightarrow> limit_window" where
  "window_spec w = \<lparr>lw_limit = w_limit w, lw_seconds = w_seconds w\<rparr>"

definition window_span :: "window \<Rightarrow> duration" where
  "window_span w = of_secs (w_seconds w)"

text \<open>\<open>prune\<close> pops the front while it has left the window.\<close>

definition prune :: "instant \<Rightarrow> window \<Rightarrow> window" where
  "prune now w = w\<lparr>w_admitted := dropWhile (\<lambda>t. t + window_span w \<le> now) (w_admitted w)\<rparr>"

definition used :: "instant \<Rightarrow> window \<Rightarrow> nat \<times> window" where
  "used now w = (let w' = prune now w in (sat_u32 (length (w_admitted w')), w'))"

definition try_take :: "instant \<Rightarrow> window \<Rightarrow> bool \<times> window" where
  "try_take now w =
     (let (n, w') = used now w in
      if n < w_limit w' then (True, w'\<lparr>w_admitted := w_admitted w' @ [now]\<rparr>) else (False, w'))"

definition rollback :: "window \<Rightarrow> window" where
  "rollback w = w\<lparr>w_admitted := butlast (w_admitted w)\<rparr>"

text \<open>\<^verbatim>\<open>admitted.get(i).map_or(now, |t| t + span)\<close>\<close>

definition leaves_at :: "instant \<Rightarrow> nat \<Rightarrow> window \<Rightarrow> instant" where
  "leaves_at now i w = (if i < length (w_admitted w) then w_admitted w ! i + window_span w else now)"

definition next_free :: "instant \<Rightarrow> window \<Rightarrow> instant \<times> window" where
  "next_free now w =
     (let (n, w') = used now w in
      if n < w_limit w' then (now, w') else (leaves_at now (n - w_limit w') w', w'))"

definition until_at_most :: "nat \<Rightarrow> instant \<Rightarrow> window \<Rightarrow> instant \<times> window" where
  "until_at_most max_used now w =
     (let (n, w') = used now w in
      if n \<le> max_used then (now, w') else (leaves_at now (n - max_used - 1) w', w'))"

definition sync :: "nat \<Rightarrow> instant \<Rightarrow> window \<Rightarrow> window" where
  "sync riot now w =
     (let (n, w') = used now w in w'\<lparr>w_admitted := w_admitted w' @ replicate (riot - n) now\<rparr>)"

definition set_admitted :: "instant list \<Rightarrow> window \<Rightarrow> window" where
  "set_admitted stamps w = w\<lparr>w_admitted := sort stamps\<rparr>"

record scope_state =
  windows :: "window list"

definition scope_state_default :: scope_state where
  "scope_state_default = \<lparr>windows = []\<rparr>"

definition scope_state_new :: "limit_window list \<Rightarrow> scope_state" where
  "scope_state_new specs = \<lparr>windows = sort_key w_seconds (map window_new specs)\<rparr>"

definition specs :: "scope_state \<Rightarrow> limit_window list" where
  "specs s = map window_spec (windows s)"

text \<open>
  \<open>swap_remove i\<close> takes element \<open>i\<close> out and moves the last element into its place; the loop of
  \<open>reconfigure\<close> threads the remaining old windows through the new specifications.
\<close>

definition swap_remove :: "nat \<Rightarrow> 'a list \<Rightarrow> 'a \<times> 'a list" where
  "swap_remove i xs = (xs ! i, butlast (xs[i := last xs]))"

fun position :: "('a \<Rightarrow> bool) \<Rightarrow> 'a list \<Rightarrow> nat option" where
  "position P [] = None"
| "position P (x # xs) = (if P x then Some 0 else map_option Suc (position P xs))"

fun adopt :: "window list \<Rightarrow> limit_window list \<Rightarrow> window list" where
  "adopt old [] = []"
| "adopt old (spec # rest) =
     (case position (\<lambda>w. w_seconds w = lw_seconds spec) old of
        Some i \<Rightarrow>
          (let (w, old') = swap_remove i old in w\<lparr>w_limit := lw_limit spec\<rparr> # adopt old' rest)
      | None \<Rightarrow> window_new spec # adopt old rest)"

definition reconfigure :: "limit_window list \<Rightarrow> scope_state \<Rightarrow> bool \<times> scope_state" where
  "reconfigure new s =
     (let sorted_specs = sort_key lw_seconds new in
      if specs s = sorted_specs then (False, s)
      else (True, s\<lparr>windows := adopt (windows s) sorted_specs\<rparr>))"

record scope_entry =
  app :: scope_state
  app_known :: bool
  methods :: "(string \<times> scope_state) list"
  frozen_until :: "instant option"
  interactive_waiters :: nat
  last_interactive :: "instant option"

definition scope_entry_default :: scope_entry where
  "scope_entry_default =
     \<lparr>app = scope_state_default, app_known = False, methods = [], frozen_until = None,
      interactive_waiters = 0, last_interactive = None\<rparr>"

lemmas [limiter_simps] = prune_def used_def try_take_def rollback_def next_free_def
  until_at_most_def sync_def Let_def


section \<open>Windows\<close>

lemma window_span_cong [simp]:
  "window_span (w\<lparr>w_admitted := ts\<rparr>) = window_span w" "window_span (w\<lparr>w_limit := l\<rparr>) = window_span w"
  by (simp_all add: window_span_def)

lemma prune_fields [simp]:
  "w_limit (prune now w) = w_limit w" "w_seconds (prune now w) = w_seconds w"
  "window_span (prune now w) = window_span w"
  by (simp_all add: prune_def)

lemma snd_used [simp]: "snd (used now w) = prune now w"
  by (simp add: used_def Let_def)

lemma fst_used: "fst (used now w) = sat_u32 (length (w_admitted (prune now w)))"
  by (simp add: used_def Let_def)

lemma prune_prune [simp]: "prune now (prune now w) = prune now w"
  by (simp add: prune_def)

lemma prune_later: "now \<le> now' \<Longrightarrow> prune now' (prune now w) = prune now' w"
proof -
  assume le: "now \<le> now'"
  have "dropWhile (\<lambda>t. t + d \<le> now') (dropWhile (\<lambda>t. t + d \<le> now) ts) =
      dropWhile (\<lambda>t. t + d \<le> now') ts" for d ts
    using le by (induction ts) auto
  then show ?thesis
    by (simp add: prune_def)
qed

text \<open>Pruning forgets only admissions that are a whole span old.\<close>

lemma count_since_prune:
  "now < x + window_span w \<Longrightarrow> count_since x (w_admitted (prune now w)) = count_since x (w_admitted w)"
proof -
  assume x: "now < x + window_span w"
  have "count_since x (dropWhile (\<lambda>t. t + window_span w \<le> now) ts) = count_since x ts" for ts
    using x by (induction ts) auto
  then show ?thesis
    by (simp add: prune_def)
qed

lemma try_take_cases:
  "try_take now w =
     (if sat_u32 (length (w_admitted (prune now w))) < w_limit w
      then (True, (prune now w)\<lparr>w_admitted := w_admitted (prune now w) @ [now]\<rparr>)
      else (False, prune now w))"
  by (simp add: try_take_def used_def Let_def)

lemma try_take_fields [simp]:
  "w_limit (snd (try_take now w)) = w_limit w" "w_seconds (snd (try_take now w)) = w_seconds w"
  by (simp_all add: try_take_cases)

lemma rollback_try_take: "try_take now w = (True, w') \<Longrightarrow> rollback w' = prune now w"
  by (auto simp: try_take_cases rollback_def split: if_splits)

lemma rollback_fields [simp]: "w_limit (rollback w) = w_limit w" "w_seconds (rollback w) = w_seconds w"
  by (simp_all add: rollback_def)

lemma snd_next_free [simp]: "snd (next_free now w) = prune now w"
  by (simp add: next_free_def used_def Let_def)

lemma snd_until_at_most [simp]: "snd (until_at_most m now w) = prune now w"
  by (simp add: until_at_most_def used_def Let_def)

lemma sync_eq:
  "sync c now w = (prune now w)\<lparr>w_admitted := w_admitted (prune now w) @
     replicate (c - sat_u32 (length (w_admitted (prune now w)))) now\<rparr>"
  by (simp add: sync_def used_def Let_def)

lemma sync_fields [simp]: "w_limit (sync c now w) = w_limit w" "w_seconds (sync c now w) = w_seconds w"
  by (simp_all add: sync_eq)

lemma used_prune [simp]: "used now (prune now w) = used now w"
  by (simp add: used_def)

lemma next_free_prune [simp]: "next_free now (prune now w) = next_free now w"
  by (simp add: next_free_def)

lemma until_at_most_prune [simp]: "until_at_most m now (prune now w) = until_at_most m now w"
  by (simp add: until_at_most_def)

lemma try_take_prune [simp]: "try_take now (prune now w) = try_take now w"
  by (simp add: try_take_def)

lemma snd_try_take: "\<not> fst (try_take now w) \<Longrightarrow> snd (try_take now w) = prune now w"
  by (auto simp: try_take_cases)

subsection \<open>When a full window frees up\<close>

lemma dropWhile_length_iff:
  "i < length xs \<Longrightarrow> length (dropWhile P xs) + i < length xs \<longleftrightarrow> (\<forall>j \<le> i. P (xs ! j))"
proof (induction xs arbitrary: i)
  case (Cons x xs)
  show ?case
  proof (cases "i = 0 \<or> \<not> P x")
    case True
    then show ?thesis
      using length_dropWhile_le [of P xs] by (auto simp: le_less_Suc_eq)
  next
    case False
    then obtain k where k: "i = Suc k" and "P x"
      using not0_implies_Suc by blast
    have "(\<forall>j \<le> Suc k. P ((x # xs) ! j)) \<longleftrightarrow> (\<forall>j \<le> k. P (xs ! j))"
      using \<open>P x\<close> by (metis Suc_le_mono nth_Cons_0 nth_Cons_Suc not0_implies_Suc)
    then show ?thesis
      using Cons k \<open>P x\<close> by simp
  qed
qed simp

definition ordered :: "window \<Rightarrow> bool" where
  "ordered w = sorted (w_admitted w)"

lemma prune_ordered: "ordered w \<Longrightarrow> ordered (prune now w)"
  by (simp add: ordered_def prune_def sorted_dropWhile)

lemma prune_length_iff:
  assumes "ordered w" "i < length (w_admitted w)"
  shows "length (w_admitted (prune t w)) + i < length (w_admitted w) \<longleftrightarrow>
    w_admitted w ! i + window_span w \<le> t"
proof -
  have "(\<forall>j \<le> i. w_admitted w ! j + window_span w \<le> t) \<longleftrightarrow> w_admitted w ! i + window_span w \<le> t"
    using assms by (auto simp: ordered_def dest: sorted_nth_mono intro: add_le_mono1 order.trans)
  then show ?thesis
    using dropWhile_length_iff [OF assms(2), of "\<lambda>s. s + window_span w \<le> t"] by (simp add: prune_def)
qed

lemma prune_live: "ordered w \<Longrightarrow> t \<in> set (w_admitted (prune now w)) \<Longrightarrow> now < t + window_span w"
proof -
  assume o: "ordered w" and t: "t \<in> set (w_admitted (prune now w))"
  then obtain a ts where c: "w_admitted (prune now w) = a # ts"
    by (cases "w_admitted (prune now w)") auto
  then have "\<not> a + window_span w \<le> now"
    using hd_dropWhile [of "\<lambda>t. t + window_span w \<le> now" "w_admitted w"] by (auto simp: prune_def)
  moreover have "a \<le> t"
    using prune_ordered [OF o, of now] t c by (auto simp: ordered_def)
  ultimately show ?thesis
    by linarith
qed

text \<open>The instant \<open>until_at_most\<close> returns is exact: from \<open>now\<close> on, the window holds at most
  \<open>m\<close> admissions at \<open>t\<close> just when \<open>t\<close> has reached it.\<close>

lemma until_at_most_iff:
  assumes w: "ordered w" "length (w_admitted w) \<le> u32_max" and t: "now \<le> t"
  shows "fst (used t w) \<le> m \<longleftrightarrow> fst (until_at_most m now w) \<le> t"
proof -
  define p where "p = prune now w"
  have len: "length (w_admitted p) \<le> u32_max" "length (w_admitted (prune t w)) \<le> u32_max"
    using w(2) length_dropWhile_le order.trans by (fastforce simp: p_def prune_def)+
  have pt: "prune t w = prune t p" and op: "ordered p"
    using t w(1) by (simp_all add: p_def prune_later prune_ordered)
  have less: "length (w_admitted (prune t p)) \<le> length (w_admitted p)"
    by (simp add: prune_def length_dropWhile_le)
  have u: "fst (used t w) = length (w_admitted (prune t p))"
    using len by (simp add: fst_used sat_u32_id pt)
  show ?thesis
  proof (cases "length (w_admitted p) \<le> m")
    case True
    then show ?thesis
      using len t less u by (simp add: until_at_most_def used_def Let_def sat_u32_id flip: p_def)
  next
    case False
    define i where "i = length (w_admitted p) - m - 1"
    have i: "i < length (w_admitted p)" "length (w_admitted p) = m + 1 + i"
      using False by (auto simp: i_def)
    have "fst (until_at_most m now w) = w_admitted p ! i + window_span p"
      using False len i
      by (simp add: until_at_most_def used_def Let_def sat_u32_id leaves_at_def flip: p_def i_def)
    then show ?thesis
      using prune_length_iff [OF op i(1), of t] i(2) u by auto
  qed
qed

lemma until_at_most_ge:
  assumes "ordered w"
  shows "now \<le> fst (until_at_most m now w)"
  using prune_live [OF assms, of _ now] nth_mem
  by (fastforce simp: until_at_most_def used_def Let_def leaves_at_def intro: less_imp_le)

lemma next_free_until: "0 < w_limit w \<Longrightarrow> next_free now w = until_at_most (w_limit w - 1) now w"
proof -
  assume l: "0 < w_limit w"
  have "n < w_limit w \<longleftrightarrow> n \<le> w_limit w - 1" "n - w_limit w = n - (w_limit w - 1) - 1" for n
    using l by auto
  then show ?thesis
    by (simp add: next_free_def until_at_most_def used_def Let_def)
qed

lemma try_take_iff_used: "fst (try_take t w) \<longleftrightarrow> fst (used t w) < w_limit w"
  by (simp add: try_take_cases fst_used)

lemma next_free_iff:
  assumes "ordered w" "length (w_admitted w) \<le> u32_max" "0 < w_limit w" "now \<le> t"
  shows "fst (try_take t w) \<longleftrightarrow> fst (next_free now w) \<le> t"
  using until_at_most_iff [OF assms(1,2,4), of "w_limit w - 1"] assms(3)
  by (auto simp: next_free_until try_take_iff_used)

subsection \<open>The rolling bound of one window\<close>

text \<open>
  Every operation of a window as a step; the limit may be replaced by one of at most \<open>L\<close>, and a
  successful take may be undone at once, as the all-or-nothing acquire does.
\<close>

inductive window_step :: "nat \<Rightarrow> window \<Rightarrow> instant \<Rightarrow> bool \<Rightarrow> window \<Rightarrow> bool" for L where
  ws_take: "try_take now w = (g, w') \<Longrightarrow> window_step L w now g w'"
| ws_undo: "try_take now w = (True, w') \<Longrightarrow> window_step L w now False (rollback w')"
| ws_used: "window_step L w now False (snd (used now w))"
| ws_next_free: "window_step L w now False (snd (next_free now w))"
| ws_until: "window_step L w now False (snd (until_at_most m now w))"
| ws_sync: "window_step L w now False (sync c now w)"
| ws_limit: "l \<le> L \<Longrightarrow> window_step L w now False (w\<lparr>w_limit := l\<rparr>)"

inductive_simps window_step_grant: "window_step L w now True w'"

text \<open>What a step keeps of a window of \<open>n\<close> seconds and at most \<open>L\<close> per span.\<close>

definition window_inv :: "nat \<Rightarrow> nat \<Rightarrow> window \<Rightarrow> bool" where
  "window_inv n L w = (w_seconds w = n \<and> w_limit w \<le> L \<and> L \<le> u32_max)"

lemma count_since_try_take:
  assumes "now < x + window_span w"
  shows "count_since x (w_admitted (snd (try_take now w))) =
    count_since x (w_admitted w) + (if fst (try_take now w) \<and> x \<le> now then 1 else 0)"
  using count_since_prune [OF assms] by (simp add: try_take_cases)

lemma count_since_sync:
  "now < x + window_span w \<Longrightarrow> count_since x (w_admitted w) \<le> count_since x (w_admitted (sync c now w))"
  using count_since_prune [of now x w] by (simp add: sync_eq)

lemma try_take_room:
  assumes "fst (try_take now w)" "w_limit w \<le> u32_max" "now < x + window_span w"
  shows "count_since x (w_admitted w) < w_limit w"
proof -
  have "count_since x (w_admitted w) \<le> length (w_admitted (prune now w))"
    using count_since_prune [OF assms(3)] count_since_le_length by metis
  also have "\<dots> < w_limit w"
    using assms(1,2) by (simp add: try_take_iff_used fst_used sat_u32_less_iff)
  finally show ?thesis .
qed

lemma window_step_remembers:
  assumes "window_step L w now g w'" "now < x + window_span w"
  shows "count_since x (w_admitted w) \<le> count_since x (w_admitted w')"
  using assms
  by cases (use count_since_try_take [of now x w] count_since_prune [of now x w] rollback_try_take
      count_since_sync in \<open>auto simp: le_Suc_eq\<close>)

lemma window_step_inv: "window_inv n L w \<Longrightarrow> window_step L w now g w' \<Longrightarrow> window_inv n L w'"
  by (auto simp: window_inv_def elim!: window_step.cases)
    (metis try_take_fields snd_conv)+

interpretation win: rolling_log "of_secs n" L w_admitted "window_inv n L" "window_step L" for n L
proof
  fix w now g w' x
  assume inv: "window_inv n L w" and step: "window_step L w now g w'"
  then have span: "window_span w = of_secs n"
    by (simp add: window_inv_def window_span_def)
  show "window_inv n L w'"
    by (rule window_step_inv [OF inv step])
  show "count_since x (w_admitted w) \<le> count_since x (w_admitted w')" if "now < x + of_secs n"
    using window_step_remembers [OF step] that span by simp
next
  fix w now w' x
  assume inv: "window_inv n L w" and step: "window_step L w now True w'" and x: "now < x + of_secs n"
  then have take: "try_take now w = (True, w')" and span: "now < x + window_span w"
    by (auto simp: window_step_grant window_inv_def window_span_def)
  show "count_since x (w_admitted w) < count_since x (w_admitted w')" if "x \<le> now"
    using count_since_try_take [OF span] take that by simp
  show "count_since x (w_admitted w) < L"
    using try_take_room [OF _ _ span] take inv by (force simp: window_inv_def)
qed

section \<open>Reconfiguration\<close>

abbreviation of_length :: "nat \<Rightarrow> window list \<Rightarrow> window list" where
  "of_length n ws \<equiv> filter (\<lambda>w. w_seconds w = n) ws"

abbreviation specs_of_length :: "nat \<Rightarrow> limit_window list \<Rightarrow> limit_window list" where
  "specs_of_length n ls \<equiv> filter (\<lambda>s. lw_seconds s = n) ls"

lemma window_new_fields [simp]:
  "w_seconds (window_new sp) = lw_seconds sp" "w_limit (window_new sp) = lw_limit sp"
  "w_admitted (window_new sp) = []"
  by (simp_all add: window_new_def)

lemma position_Some: "position P xs = Some i \<Longrightarrow> i < length xs \<and> P (xs ! i)"
  by (induction xs arbitrary: i) (auto split: if_splits)

lemma position_None: "position P xs = None \<longleftrightarrow> (\<forall>x \<in> set xs. \<not> P x)"
  by (induction xs) auto

lemma mset_swap_remove:
  assumes "i < length xs"
  shows "mset (snd (swap_remove i xs)) = mset xs - {#xs ! i#}"
proof -
  obtain ys y where xs: "xs = ys @ [y]"
    using assms by (cases xs rule: rev_cases) auto
  show ?thesis
  proof (cases "i < length ys")
    case True
    then show ?thesis
      by (simp add: swap_remove_def xs list_update_append nth_append butlast_append mset_update
          add_mset_commute flip: diff_union_swap2)
  next
    case False
    then have "i = length ys"
      using assms xs by simp
    then show ?thesis
      by (simp add: swap_remove_def xs)
  qed
qed

lemma of_length_swap_remove:
  assumes "i < length ws" "w_seconds (ws ! i) \<noteq> n" "of_length n ws = [w]"
  shows "of_length n (snd (swap_remove i ws)) = [w]"
proof -
  have "mset (of_length n (snd (swap_remove i ws))) = filter_mset (\<lambda>w. w_seconds w = n) (mset ws - {#ws ! i#})"
    by (simp add: mset_swap_remove [OF assms(1)])
  also have "\<dots> = filter_mset (\<lambda>w. w_seconds w = n) (mset ws)"
    using assms(2) by simp
  also have "\<dots> = mset (of_length n ws)"
    by simp
  finally have "mset (of_length n (snd (swap_remove i ws))) = {#w#}"
    using assms(3) by simp
  then show ?thesis
    by (simp only: mset_single_iff)
qed

lemma of_length_swap_remove_empty:
  assumes "i < length ws" "of_length n ws = []"
  shows "of_length n (snd (swap_remove i ws)) = []"
proof -
  have "set (snd (swap_remove i ws)) \<subseteq> set ws"
    using mset_swap_remove [OF assms(1)] by (metis in_diffD set_mset_mset subsetI)
  then show ?thesis
    using assms(2) by (auto simp: filter_empty_conv)
qed

lemma adopt_seconds: "map w_seconds (adopt old ls) = map lw_seconds ls"
  by (induction old ls rule: adopt.induct)
    (auto simp: swap_remove_def Let_def split: option.splits dest!: position_Some)

lemma adopt_specs: "map window_spec (adopt old ls) = ls"
  by (induction old ls rule: adopt.induct)
    (auto simp: swap_remove_def Let_def window_spec_def split: option.splits dest!: position_Some)

lemma of_length_seconds: "of_length n ws = [] \<longleftrightarrow> n \<notin> set (map w_seconds ws)"
  by (auto simp: filter_empty_conv)

lemma specs_of_length_seconds: "specs_of_length n ls = [] \<longleftrightarrow> n \<notin> set (map lw_seconds ls)"
  by (auto simp: filter_empty_conv)

text \<open>The one window of a length takes the new limit and keeps its admissions.\<close>

lemma adopt_keeps:
  "of_length n old = [w] \<Longrightarrow> specs_of_length n ls = [sp] \<Longrightarrow>
     of_length n (adopt old ls) = [w\<lparr>w_limit := lw_limit sp\<rparr>]"
proof (induction old ls rule: adopt.induct)
  case (2 old spec rest)
  show ?case
  proof (cases "lw_seconds spec = n")
    case True
    then have rest: "specs_of_length n rest = []" and sp: "sp = spec"
      using 2(4) by auto
    have "n \<in> set (map w_seconds old)"
      using 2(3) of_length_seconds [of n old] by simp
    then obtain i where i: "position (\<lambda>w. w_seconds w = lw_seconds spec) old = Some i"
      using True position_None [of "\<lambda>w. w_seconds w = lw_seconds spec" old] by (auto simp: image_iff)
    then have "old ! i \<in> set (of_length n old)"
      using position_Some [OF i] True by auto
    then have "old ! i = w"
      by (simp add: 2(3))
    moreover have "of_length n (adopt (snd (swap_remove i old)) rest) = []"
      using rest by (simp add: of_length_seconds specs_of_length_seconds adopt_seconds del: set_map)
    moreover have "w_seconds w = n"
      using 2(3) by (auto simp: filter_eq_Cons_iff)
    ultimately show ?thesis
      using i True by (simp add: sp swap_remove_def Let_def)
  next
    case False
    then have ls: "specs_of_length n rest = [sp]"
      using 2(4) by simp
    show ?thesis
    proof (cases "position (\<lambda>w. w_seconds w = lw_seconds spec) old")
      case None
      then show ?thesis
        using 2(1) [OF None 2(3) ls] False by simp
    next
      case (Some i)
      then have i: "i < length old" "w_seconds (old ! i) = lw_seconds spec"
        using position_Some [OF Some] by auto
      then have "of_length n (snd (swap_remove i old)) = [w]"
        using of_length_swap_remove [OF i(1) _ 2(3)] False by simp
      then show ?thesis
        using 2(2) [OF Some _ _ _ ls] False i Some by (simp add: swap_remove_def)
    qed
  qed
qed simp

lemma adopt_new_empty:
  "of_length n old = [] \<Longrightarrow> w \<in> set (of_length n (adopt old ls)) \<Longrightarrow> w_admitted w = []"
proof (induction old ls rule: adopt.induct)
  case (2 old spec rest)
  show ?case
  proof (cases "position (\<lambda>w. w_seconds w = lw_seconds spec) old")
    case None
    then show ?thesis using 2 by (auto split: if_splits)
  next
    case (Some i)
    then have i: "i < length old" "w_seconds (old ! i) = lw_seconds spec"
      using position_Some [OF Some] by auto
    then have "lw_seconds spec \<noteq> n"
      using 2(3) nth_mem [OF i(1)] by (auto simp: filter_empty_conv)
    then show ?thesis
      using 2(2) [OF Some _ refl] of_length_swap_remove_empty [OF i(1) 2(3)] 2(4) Some i
      by (simp add: swap_remove_def)
  qed
qed simp

lemma reconfigure_specs: "specs (snd (reconfigure new s)) = sort_key lw_seconds new"
  by (simp add: reconfigure_def specs_def adopt_specs Let_def)

lemma specs_of_length_sort: "mset (specs_of_length n (sort_key lw_seconds ls)) = mset (specs_of_length n ls)"
  by simp

lemma specs_of_length_sort_one:
  "specs_of_length n ls = [sp] \<Longrightarrow> specs_of_length n (sort_key lw_seconds ls) = [sp]"
  using specs_of_length_sort [of n ls] by (metis mset_single_iff mset_single_iff_right mset.simps)

lemma of_length_specs: "specs_of_length n (map window_spec ws) = map window_spec (of_length n ws)"
  by (simp add: filter_map comp_def window_spec_def)

lemma reconfigure_keeps_one:
  assumes "of_length n (windows s) = [w]" "specs_of_length n new = [sp]"
  shows "of_length n (windows (snd (reconfigure new s))) = [w\<lparr>w_limit := lw_limit sp\<rparr>]"
proof (cases "specs s = sort_key lw_seconds new")
  case True
  then have "map window_spec (of_length n (windows s)) = [sp]"
    using specs_of_length_sort_one [OF assms(2)] by (simp add: specs_def flip: of_length_specs)
  then have "w\<lparr>w_limit := lw_limit sp\<rparr> = w"
    using assms(1) by (auto simp: window_spec_def)
  then show ?thesis
    using True assms(1) by (simp add: reconfigure_def)
next
  case False
  then show ?thesis
    using adopt_keeps [OF assms(1) specs_of_length_sort_one [OF assms(2)]]
    by (simp add: reconfigure_def)
qed

end
