(* ===== verification/Api_Error.thy ===== *)
theory Api_Error
  imports Text_Ops
begin

text \<open>
  The error envelope of every route, \<^verbatim>\<open>src/http/error.rs\<close>: the closed set of codes, their
  statuses, and the constructors. A fallible function of the program is a function into
  \<open>api_error + 'a\<close>. The request id in scope is an argument; logging and the ring of recent errors
  are left out here.
\<close>

datatype error_code =
  Unauthorized | Forbidden | QuotaExceeded | NotFound | UpstreamError | RateLimited | BadRegion |
  Validation | Internal

definition ERROR_CODES :: "error_code list" where
  "ERROR_CODES = [Unauthorized, Forbidden, QuotaExceeded, NotFound, UpstreamError, RateLimited, BadRegion,
     Validation, Internal]"

fun error_code_as_str :: "error_code \<Rightarrow> string" where
  "error_code_as_str Unauthorized = ''UNAUTHORIZED''"
| "error_code_as_str Forbidden = ''FORBIDDEN''"
| "error_code_as_str QuotaExceeded = ''QUOTA_EXCEEDED''"
| "error_code_as_str NotFound = ''NOT_FOUND''"
| "error_code_as_str UpstreamError = ''UPSTREAM_ERROR''"
| "error_code_as_str RateLimited = ''RATE_LIMITED''"
| "error_code_as_str BadRegion = ''BAD_REGION''"
| "error_code_as_str Validation = ''VALIDATION''"
| "error_code_as_str Internal = ''INTERNAL''"

fun default_status :: "error_code \<Rightarrow> nat" where
  "default_status Unauthorized = 401"
| "default_status Forbidden = 403"
| "default_status QuotaExceeded = 429"
| "default_status NotFound = 404"
| "default_status UpstreamError = 502"
| "default_status RateLimited = 503"
| "default_status BadRegion = 400"
| "default_status Validation = 400"
| "default_status Internal = 500"

record api_error =
  code :: error_code
  message :: string
  status :: nat
  err_retry_after :: "nat option"

definition api_error_new :: "error_code \<Rightarrow> string \<Rightarrow> api_error" where
  "api_error_new c msg = \<lparr>code = c, message = msg, status = default_status c, err_retry_after = None\<rparr>"

definition with_status :: "nat \<Rightarrow> api_error \<Rightarrow> api_error" where
  "with_status s e = e\<lparr>status := s\<rparr>"

definition with_retry_after :: "nat \<Rightarrow> api_error \<Rightarrow> api_error" where
  "with_retry_after seconds e = e\<lparr>err_retry_after := Some seconds\<rparr>"

definition not_found :: "string \<Rightarrow> api_error" where
  "not_found msg = api_error_new NotFound msg"

definition unauthorized :: api_error where
  "unauthorized = api_error_new Unauthorized ''Missing or invalid API key''"

definition bad_region :: "string \<Rightarrow> api_error" where
  "bad_region msg = api_error_new BadRegion msg"

definition rate_limited_error :: "nat \<Rightarrow> api_error" where
  "rate_limited_error seconds =
     with_retry_after seconds (api_error_new RateLimited ''Upstream rate limit budget exceeded'')"

definition upstream_error :: api_error where
  "upstream_error = api_error_new UpstreamError ''Upstream request failed''"

definition internal_error :: api_error where
  "internal_error = api_error_new Internal ''Internal server error''"

text \<open>The JSON body of the envelope: a field that is \<open>None\<close> is not written.\<close>

record envelope =
  env_code :: error_code
  env_message :: string
  env_request_id :: "string option"
  env_retry_after :: "nat option"

definition envelope_of :: "string option \<Rightarrow> api_error \<Rightarrow> envelope" where
  "envelope_of request_id e =
     \<lparr>env_code = code e, env_message = message e, env_request_id = request_id,
      env_retry_after = err_retry_after e\<rparr>"

text \<open>\<^verbatim>\<open>into_response\<close>: status, envelope, and the \<^verbatim>\<open>Retry-After\<close> header.\<close>

definition into_response :: "string option \<Rightarrow> api_error \<Rightarrow> nat \<times> envelope \<times> nat option" where
  "into_response request_id e = (status e, envelope_of request_id e, err_retry_after e)"

lemma error_code_as_str_inj: "error_code_as_str a = error_code_as_str b \<longleftrightarrow> a = b"
  by (cases a; cases b) simp_all

lemma ERROR_CODES_all: "c \<in> set ERROR_CODES"
  by (cases c) (simp_all add: ERROR_CODES_def)

lemma api_error_new_fields [simp]:
  "code (api_error_new c m) = c" "message (api_error_new c m) = m" "status (api_error_new c m) = default_status c"
  "err_retry_after (api_error_new c m) = None"
  by (simp_all add: api_error_new_def)

end
