(* ===== verification/Consumers.thy ===== *)
theory Consumers
  imports Api_Error
begin

text \<open>
  Consumer keys and the table of consumers, \<^verbatim>\<open>src/consumers.rs\<close>. The table is the list of its
  rows; an operation that writes is one transaction on it. SHA-256, the random key, the ULID and
  the clock are arguments, and so is the JSON of the scopes column.
\<close>

definition KEY_PREFIX :: string where
  "KEY_PREFIX = ''rpx_''"

definition DEFAULT_QUOTA_PER_MIN :: nat where
  "DEFAULT_QUOTA_PER_MIN = 600"

definition BOOTSTRAP_NAME :: string where
  "BOOTSTRAP_NAME = ''bootstrap-admin''"

datatype scope = Read | Admin

datatype consumer_error =
  ConsumerDb
| ConsumerInvalid string
| DuplicateName string
| ConsumerNotFound string
| ConsumerRandom
| Corrupt string

definition scope_parse :: "string \<Rightarrow> consumer_error + scope" where
  "scope_parse s =
     (if trim s = ''read'' then Inr Read
      else if trim s = ''admin'' then Inr Admin
      else Inl (ConsumerInvalid (''unknown scope '' @ [CHR 0x27] @ trim s @ [CHR 0x27] @ '' (expected read or admin)'')))"

fun scope_str :: "scope \<Rightarrow> string" where
  "scope_str Read = ''read''"
| "scope_str Admin = ''admin''"

record consumer_row =
  cr_id :: string
  cr_name :: string
  cr_scopes :: string
  cr_quota_per_min :: nat
  cr_created_at :: int
  cr_revoked_at :: "int option"

text \<open>A row with its key hash, as the table has it.\<close>

record 'h consumer_db_row =
  db_row :: consumer_row
  db_hash :: 'h

record stored_consumer =
  sc_id :: string
  sc_name :: string
  sc_scopes :: "scope list"
  sc_quota_per_min :: nat
  sc_created_at :: int
  sc_revoked_at :: "int option"

record new_consumer =
  nc_name :: string
  nc_scopes :: "scope list"
  nc_quota_per_min :: nat
  nc_key :: "string option"

definition validate_new :: "new_consumer \<Rightarrow> consumer_error + unit" where
  "validate_new new =
     (if trim (nc_name new) = [] then Inl (ConsumerInvalid ''name must not be empty'')
      else if nc_scopes new = [] then Inl (ConsumerInvalid ''at least one scope is required'')
      else if nc_quota_per_min new = 0 then Inl (ConsumerInvalid ''quota must be at least 1 request per minute'')
      else
        (case nc_key new of
           Some key \<Rightarrow>
             if length key < 8 then Inl (ConsumerInvalid ''an imported key must be at least 8 characters'')
             else Inr ()
         | None \<Rightarrow> Inr ()))"

text \<open>\<^verbatim>\<open>scopes.sort(); scopes.dedup();\<close> with \<open>Read < Admin\<close>.\<close>

definition sorted_scopes :: "scope list \<Rightarrow> scope list" where
  "sorted_scopes ss = (if Read \<in> set ss then [Read] else []) @ (if Admin \<in> set ss then [Admin] else [])"

text \<open>\<open>generated\<close> is what \<^verbatim>\<open>generate_key\<close> returned, \<open>new_id\<close> the ULID, \<open>now\<close> the clock.\<close>

definition insert_consumer ::
  "(string \<Rightarrow> 'h) \<Rightarrow> (scope list \<Rightarrow> string) \<Rightarrow> consumer_error + string \<Rightarrow> string \<Rightarrow> int \<Rightarrow> new_consumer \<Rightarrow>
     'h consumer_db_row list \<Rightarrow> (consumer_error + stored_consumer \<times> string) \<times> 'h consumer_db_row list" where
  "insert_consumer hash_key to_json generated new_id now new db =
     (case validate_new new of
        Inl e \<Rightarrow> (Inl e, db)
      | Inr _ \<Rightarrow>
          (case (case nc_key new of Some key \<Rightarrow> Inr key | None \<Rightarrow> generated) of
             Inl e \<Rightarrow> (Inl e, db)
           | Inr key \<Rightarrow>
               (let scopes = sorted_scopes (nc_scopes new);
                    c = \<lparr>sc_id = new_id, sc_name = trim (nc_name new), sc_scopes = scopes,
                         sc_quota_per_min = nc_quota_per_min new, sc_created_at = now, sc_revoked_at = None\<rparr>;
                    row = \<lparr>db_row = \<lparr>cr_id = new_id, cr_name = sc_name c, cr_scopes = to_json scopes,
                             cr_quota_per_min = nc_quota_per_min new, cr_created_at = now, cr_revoked_at = None\<rparr>,
                           db_hash = hash_key key\<rparr> in
                if list_ex (\<lambda>r. cr_id (db_row r) = new_id) db then (Inl ConsumerDb, db)
                else if list_ex (\<lambda>r. cr_name (db_row r) = sc_name c) db then (Inl (DuplicateName (sc_name c)), db)
                else if list_ex (\<lambda>r. db_hash r = hash_key key) db
                then (Inl (ConsumerInvalid ''that key is already registered''), db)
                else (Inr (c, key), db @ [row]))))"

definition with_scopes :: "(string \<Rightarrow> scope list option) \<Rightarrow> consumer_row \<Rightarrow> consumer_error + stored_consumer" where
  "with_scopes from_json r =
     (case from_json (cr_scopes r) of
        Some ss \<Rightarrow> Inr \<lparr>sc_id = cr_id r, sc_name = cr_name r, sc_scopes = ss,
          sc_quota_per_min = cr_quota_per_min r, sc_created_at = cr_created_at r, sc_revoked_at = cr_revoked_at r\<rparr>
      | None \<Rightarrow> Inl (Corrupt (cr_id r)))"

text \<open>\<^verbatim>\<open>found.map(with_scopes).transpose()\<close>\<close>

definition found_with_scopes ::
  "(string \<Rightarrow> scope list option) \<Rightarrow> 'h consumer_db_row option \<Rightarrow> consumer_error + stored_consumer option" where
  "found_with_scopes from_json found =
     (case found of
        None \<Rightarrow> Inr None
      | Some r \<Rightarrow> (case with_scopes from_json (db_row r) of Inr c \<Rightarrow> Inr (Some c) | Inl e \<Rightarrow> Inl e))"

definition find_active_by_hash ::
  "(string \<Rightarrow> scope list option) \<Rightarrow> 'h \<Rightarrow> 'h consumer_db_row list \<Rightarrow> consumer_error + stored_consumer option" where
  "find_active_by_hash from_json hash db =
     found_with_scopes from_json (find (\<lambda>r. db_hash r = hash \<and> cr_revoked_at (db_row r) = None) db)"

definition find_by_id_and_hash ::
  "(string \<Rightarrow> scope list option) \<Rightarrow> string \<Rightarrow> 'h \<Rightarrow> 'h consumer_db_row list \<Rightarrow> consumer_error + stored_consumer option" where
  "find_by_id_and_hash from_json cid hash db =
     found_with_scopes from_json (find (\<lambda>r. cr_id (db_row r) = cid \<and> db_hash r = hash) db)"

text \<open>\<^verbatim>\<open>UPDATE consumers SET revoked_at = at WHERE id = id\<close>\<close>

definition set_revoked :: "int \<Rightarrow> string \<Rightarrow> 'h consumer_db_row list \<Rightarrow> 'h consumer_db_row list" where
  "set_revoked now cid db =
     map (\<lambda>r. if cr_id (db_row r) = cid then r\<lparr>db_row := (db_row r)\<lparr>cr_revoked_at := Some now\<rparr>\<rparr> else r) db"

definition revoke ::
  "(string \<Rightarrow> scope list option) \<Rightarrow> int \<Rightarrow> string \<Rightarrow> 'h consumer_db_row list \<Rightarrow>
     (consumer_error + stored_consumer) \<times> 'h consumer_db_row list" where
  "revoke from_json now id_or_name db =
     (case find (\<lambda>r. cr_id (db_row r) = id_or_name \<or> cr_name (db_row r) = id_or_name) db of
        None \<Rightarrow> (Inl (ConsumerNotFound id_or_name), db)
      | Some r \<Rightarrow>
          (case with_scopes from_json (db_row r) of
             Inl e \<Rightarrow> (Inl e, db)
           | Inr c \<Rightarrow>
               if sc_revoked_at c \<noteq> None
               then (Inl (ConsumerInvalid ([CHR 0x27] @ sc_name c @ [CHR 0x27] @ '' is already revoked'')), db)
               else (Inr (c\<lparr>sc_revoked_at := Some now\<rparr>), set_revoked now (sc_id c) db)))"

text \<open>The hash is 32 bytes in every row the program writes; the length check of a foreign row is not
  modelled.\<close>

definition revoke_by_id ::
  "(string \<Rightarrow> scope list option) \<Rightarrow> int \<Rightarrow> string \<Rightarrow> 'h consumer_db_row list \<Rightarrow>
     (consumer_error + (stored_consumer \<times> 'h) option) \<times> 'h consumer_db_row list" where
  "revoke_by_id from_json now cid db =
     (case find (\<lambda>r. cr_id (db_row r) = cid \<and> cr_revoked_at (db_row r) = None) db of
        None \<Rightarrow> (Inr None, db)
      | Some r \<Rightarrow>
          (case with_scopes from_json (db_row r) of
             Inl e \<Rightarrow> (Inl e, db)
           | Inr c \<Rightarrow> (Inr (Some (c\<lparr>sc_revoked_at := Some now\<rparr>, db_hash r)), set_revoked now (sc_id c) db)))"

text \<open>\<^verbatim>\<open>ORDER BY created_at, rowid\<close>: rows are in rowid order, and the sort is stable.\<close>

fun sequence_sum :: "('e + 'a) list \<Rightarrow> 'e + 'a list" where
  "sequence_sum [] = Inr []"
| "sequence_sum (Inl e # rs) = Inl e"
| "sequence_sum (Inr a # rs) = (case sequence_sum rs of Inr as \<Rightarrow> Inr (a # as) | Inl e \<Rightarrow> Inl e)"

definition list_consumers ::
  "(string \<Rightarrow> scope list option) \<Rightarrow> 'h consumer_db_row list \<Rightarrow> consumer_error + stored_consumer list" where
  "list_consumers from_json db =
     sequence_sum (map (with_scopes from_json \<circ> db_row) (sort_key (cr_created_at \<circ> db_row) db))"

definition bootstrap_admin ::
  "(string \<Rightarrow> 'h) \<Rightarrow> (scope list \<Rightarrow> string) \<Rightarrow> consumer_error + string \<Rightarrow> string \<Rightarrow> int \<Rightarrow> string option \<Rightarrow>
     'h consumer_db_row list \<Rightarrow> (consumer_error + (stored_consumer \<times> string) option) \<times> 'h consumer_db_row list" where
  "bootstrap_admin hash_key to_json generated new_id now import_key db =
     (if length db > 0 then (Inr None, db)
      else
        (case insert_consumer hash_key to_json generated new_id now
            \<lparr>nc_name = BOOTSTRAP_NAME, nc_scopes = [Read, Admin], nc_quota_per_min = DEFAULT_QUOTA_PER_MIN,
             nc_key = import_key\<rparr> db of
           (Inl e, db') \<Rightarrow> (Inl e, db')
         | (Inr c, db') \<Rightarrow> (Inr (Some c), db')))"

section \<open>The table's invariant\<close>

text \<open>The unique columns, and what the check of a new consumer leaves in the table.\<close>

definition consumers_ok :: "'h consumer_db_row list \<Rightarrow> bool" where
  "consumers_ok db \<longleftrightarrow> distinct (map (cr_id \<circ> db_row) db) \<and> distinct (map (cr_name \<circ> db_row) db) \<and>
     distinct (map db_hash db) \<and> list_all (\<lambda>r. cr_quota_per_min (db_row r) > 0 \<and> cr_name (db_row r) \<noteq> []) db"

inductive consumers_reach ::
  "(string \<Rightarrow> 'h) \<Rightarrow> (scope list \<Rightarrow> string) \<Rightarrow> (string \<Rightarrow> scope list option) \<Rightarrow> 'h consumer_db_row list \<Rightarrow>
     'h consumer_db_row list \<Rightarrow> bool"
  for hash_key to_json from_json db0
where
  cs_start: "consumers_reach hash_key to_json from_json db0 db0"
| cs_insert: "consumers_reach hash_key to_json from_json db0 db \<Longrightarrow>
    consumers_reach hash_key to_json from_json db0 (snd (insert_consumer hash_key to_json generated new_id now new db))"
| cs_revoke: "consumers_reach hash_key to_json from_json db0 db \<Longrightarrow>
    consumers_reach hash_key to_json from_json db0 (snd (revoke from_json now id_or_name db))"
| cs_revoke_by_id: "consumers_reach hash_key to_json from_json db0 db \<Longrightarrow>
    consumers_reach hash_key to_json from_json db0 (snd (revoke_by_id from_json now cid db))"
| cs_bootstrap: "consumers_reach hash_key to_json from_json db0 db \<Longrightarrow>
    consumers_reach hash_key to_json from_json db0
      (snd (bootstrap_admin hash_key to_json generated new_id now import_key db))"

lemma set_revoked_keys [simp]:
  "map (cr_id \<circ> db_row) (set_revoked now cid db) = map (cr_id \<circ> db_row) db"
  "map (cr_name \<circ> db_row) (set_revoked now cid db) = map (cr_name \<circ> db_row) db"
  "map db_hash (set_revoked now cid db) = map db_hash db"
  by (simp_all add: set_revoked_def)

lemma set_revoked_hashes [simp]: "db_hash ` set (set_revoked now cid db) = db_hash ` set db"
  by (metis list.set_map set_revoked_keys(3))

lemma consumers_ok_revoked: "consumers_ok db \<Longrightarrow> consumers_ok (set_revoked now cid db)"
  by (auto simp: consumers_ok_def list_all_iff) (auto simp: set_revoked_def)

lemma insert_consumer_Inr:
  assumes "insert_consumer hash_key to_json generated new_id now new db = (Inr (c, key), db')"
  shows "\<exists>row. db' = db @ [row] \<and> db_hash row = hash_key key \<and> cr_id (db_row row) = new_id \<and>
    cr_name (db_row row) = trim (nc_name new) \<and> cr_revoked_at (db_row row) = None \<and>
    \<not> list_ex (\<lambda>r. cr_id (db_row r) = new_id) db \<and> \<not> list_ex (\<lambda>r. cr_name (db_row r) = trim (nc_name new)) db \<and>
    \<not> list_ex (\<lambda>r. db_hash r = hash_key key) db \<and> cr_quota_per_min (db_row row) > 0 \<and> cr_name (db_row row) \<noteq> []"
proof -
  have "validate_new new = Inr ()"
    using assms by (auto simp: insert_consumer_def split: sum.splits)
  then have "nc_quota_per_min new > 0" "trim (nc_name new) \<noteq> []"
    by (auto simp: validate_new_def split: if_splits)
  then show ?thesis
    using assms
    by (auto simp: insert_consumer_def Let_def split: sum.splits option.splits if_splits)
qed

lemma insert_consumer_cases:
  obtains (added) c key where "fst (insert_consumer hash_key to_json generated new_id now new db) = Inr (c, key)"
  | (same) "snd (insert_consumer hash_key to_json generated new_id now new db) = db"
proof (cases "fst (insert_consumer hash_key to_json generated new_id now new db)")
  case (Inl e)
  then show thesis
    by (intro same) (auto simp: insert_consumer_def Let_def split: sum.splits option.splits if_splits)
next
  case (Inr ck)
  then show thesis
    using added by (cases ck) simp
qed

lemma consumers_ok_insert:
  assumes "consumers_ok db"
  shows "consumers_ok (snd (insert_consumer hash_key to_json generated new_id now new db))"
proof (cases rule: insert_consumer_cases [of hash_key to_json generated new_id now new db])
  case (added c key)
  then have "insert_consumer hash_key to_json generated new_id now new db =
      (Inr (c, key), snd (insert_consumer hash_key to_json generated new_id now new db))"
    by (simp add: prod_eq_iff)
  from insert_consumer_Inr [OF this] show ?thesis
    using assms by (auto simp: consumers_ok_def list_ex_iff) metis+
next
  case same
  then show ?thesis
    using assms by simp
qed

lemma snd_bootstrap:
  "snd (bootstrap_admin hash_key to_json generated new_id now import_key db) \<in>
     {db, snd (insert_consumer hash_key to_json generated new_id now
        \<lparr>nc_name = BOOTSTRAP_NAME, nc_scopes = [Read, Admin], nc_quota_per_min = DEFAULT_QUOTA_PER_MIN,
         nc_key = import_key\<rparr> db)}"
  by (auto simp: bootstrap_admin_def split: sum.splits prod.splits)

lemma snd_revoke: "snd (revoke from_json now x db) \<in> insert db (range (\<lambda>i. set_revoked now i db))"
  by (auto simp: revoke_def split: option.splits sum.splits)

lemma snd_revoke_by_id: "snd (revoke_by_id from_json now x db) \<in> insert db (range (\<lambda>i. set_revoked now i db))"
  by (auto simp: revoke_by_id_def split: option.splits sum.splits)

lemma consumers_reach_ok:
  "consumers_reach hash_key to_json from_json db0 db \<Longrightarrow> consumers_ok db0 \<Longrightarrow> consumers_ok db"
proof (induction rule: consumers_reach.induct)
  case (cs_revoke db now x)
  then show ?case
    using snd_revoke [of from_json now x db] by (auto intro: consumers_ok_revoked)
next
  case (cs_revoke_by_id db now x)
  then show ?case
    using snd_revoke_by_id [of from_json now x db] by (auto intro: consumers_ok_revoked)
next
  case (cs_bootstrap db generated new_id now import_key)
  then show ?case
    using snd_bootstrap [of hash_key to_json generated new_id now import_key db]
    by (auto intro: consumers_ok_insert)
qed (auto intro: consumers_ok_insert)

section \<open>Revocation\<close>

text \<open>A hash that is in the table, revoked, stays so.\<close>

definition hash_dead :: "'h \<Rightarrow> 'h consumer_db_row list \<Rightarrow> bool" where
  "hash_dead h db \<longleftrightarrow> h \<in> db_hash ` set db \<and> (\<forall>r \<in> set db. db_hash r = h \<longrightarrow> cr_revoked_at (db_row r) \<noteq> None)"

lemma hash_dead_revoked: "hash_dead h db \<Longrightarrow> hash_dead h (set_revoked now cid db)"
  by (simp add: hash_dead_def) (auto simp: set_revoked_def)

lemma hash_dead_insert:
  assumes "hash_dead h db"
  shows "hash_dead h (snd (insert_consumer hash_key to_json generated new_id now new db))"
proof (cases rule: insert_consumer_cases [of hash_key to_json generated new_id now new db])
  case (added c key)
  then have "insert_consumer hash_key to_json generated new_id now new db =
      (Inr (c, key), snd (insert_consumer hash_key to_json generated new_id now new db))"
    by (simp add: prod_eq_iff)
  from insert_consumer_Inr [OF this] show ?thesis
    using assms by (auto simp: hash_dead_def list_ex_iff)
next
  case same
  then show ?thesis
    using assms by simp
qed

lemma hash_dead_reach:
  "consumers_reach hash_key to_json from_json db0 db \<Longrightarrow> hash_dead h db0 \<Longrightarrow> hash_dead h db"
proof (induction rule: consumers_reach.induct)
  case (cs_revoke db now x)
  then show ?case
    using snd_revoke [of from_json now x db] by (auto intro: hash_dead_revoked)
next
  case (cs_revoke_by_id db now x)
  then show ?case
    using snd_revoke_by_id [of from_json now x db] by (auto intro: hash_dead_revoked)
next
  case (cs_bootstrap db generated new_id now import_key)
  then show ?case
    using snd_bootstrap [of hash_key to_json generated new_id now import_key db]
    by (auto intro: hash_dead_insert)
qed (auto intro: hash_dead_insert)

lemma hash_dead_lookup: "hash_dead h db \<Longrightarrow> find_active_by_hash from_json h db = Inr None"
proof -
  assume "hash_dead h db"
  then have "find (\<lambda>r. db_hash r = h \<and> cr_revoked_at (db_row r) = None) db = None"
    by (auto simp: find_None_iff hash_dead_def)
  then show ?thesis
    by (simp add: find_active_by_hash_def found_with_scopes_def)
qed

lemma find_in_set: "find P xs = Some x \<Longrightarrow> x \<in> set xs \<and> P x"
  by (auto simp: find_Some_iff)

lemma revoke_by_id_dead:
  assumes "consumers_ok db" "revoke_by_id from_json now cid db = (Inr (Some (c, h)), db')"
  shows "hash_dead h db'"
proof -
  obtain r where r: "find (\<lambda>r. cr_id (db_row r) = cid \<and> cr_revoked_at (db_row r) = None) db = Some r"
    and h: "h = db_hash r" and db': "db' = set_revoked now cid db"
    using assms(2) by (auto simp: revoke_by_id_def with_scopes_def split: option.splits sum.splits)
      (auto dest!: find_in_set)
  have mem: "r \<in> set db" "cr_id (db_row r) = cid"
    using find_in_set [OF r] by auto
  have uniq: "db_hash r' = db_hash r \<longrightarrow> r' = r" if "r' \<in> set db" for r'
    using assms(1) that mem(1) by (auto simp: consumers_ok_def distinct_map inj_on_def)
  show ?thesis
    using mem uniq by (simp add: hash_dead_def h db') (auto simp: set_revoked_def)
qed

text \<open>C30. Names and keys are unique in every reachable table, and a revoked key is dead for good: whatever
  consumers are created or revoked afterwards, looking the key up finds no active consumer, and the same
  key can never be registered again.\<close>

theorem revoked_key_stays_dead:
  assumes "consumers_ok db" "revoke_by_id from_json now cid db = (Inr (Some (c, hash_key key)), db')"
    and "consumers_reach hash_key to_json from_json db' db''"
  shows "consumers_ok db'' \<and> find_active_by_hash from_json (hash_key key) db'' = Inr None \<and>
    (\<forall>new_id t new s k. fst (insert_consumer hash_key to_json (Inr key) new_id t new db'') = Inr (s, k) \<longrightarrow>
      hash_key k \<noteq> hash_key key)"
proof (intro conjI allI impI)
  have dead: "hash_dead (hash_key key) db''"
    using hash_dead_reach [OF assms(3) revoke_by_id_dead [OF assms(1,2)]] .
  have "db' = snd (revoke_by_id from_json now cid db)"
    using assms(2) by simp
  then have "consumers_ok db'"
    using snd_revoke_by_id [of from_json now cid db] assms(1) consumers_ok_revoked by auto
  then show "consumers_ok db''"
    by (rule consumers_reach_ok [OF assms(3)])
  show "find_active_by_hash from_json (hash_key key) db'' = Inr None"
    by (rule hash_dead_lookup [OF dead])
  show "hash_key k \<noteq> hash_key key"
    if "fst (insert_consumer hash_key to_json (Inr key) new_id t new db'') = Inr (s, k)" for new_id t new s k
    using insert_consumer_Inr [of hash_key to_json "Inr key" new_id t new db'' s k] that dead
    by (auto simp: hash_dead_def prod_eq_iff list_ex_iff)
qed

definition sample_consumers :: "string consumer_db_row list" where
  "sample_consumers = [\<lparr>db_row = \<lparr>cr_id = ''1'', cr_name = ''web'', cr_scopes = ''r'', cr_quota_per_min = 600,
     cr_created_at = 0, cr_revoked_at = None\<rparr>, db_hash = ''rpx_secret''\<rparr>]"

theorem revoked_key_stays_dead_witness:
  "find_active_by_hash (\<lambda>_. Some [Read]) ''rpx_secret''
     (snd (revoke_by_id (\<lambda>_. Some [Read]) 9 ''1'' sample_consumers)) = Inr None"
proof -
  have "fst (revoke_by_id (\<lambda>_. Some [Read]) 9 ''1'' sample_consumers) =
      Inr (Some (\<lparr>sc_id = ''1'', sc_name = ''web'', sc_scopes = [Read], sc_quota_per_min = 600, sc_created_at = 0,
        sc_revoked_at = Some 9\<rparr>, ''rpx_secret''))" "consumers_ok sample_consumers"
    by (simp_all add: revoke_by_id_def sample_consumers_def with_scopes_def consumers_ok_def)
  then show ?thesis
    using revoked_key_stays_dead [where hash_key = "\<lambda>k. k" and key = "''rpx_secret''" and
        db = sample_consumers and now = 9 and cid = "''1''" and from_json = "\<lambda>_. Some [Read]" and
        to_json = "\<lambda>_. ''r''", OF _ _ cs_start]
    by (metis prod.collapse)
qed

end
