(* ===== verification/Quota.thy ===== *)
theory Quota
  imports Bucket Consumers
begin

text \<open>
  The per-consumer quota, \<^verbatim>\<open>src/http/quota.rs\<close>: a sliding window of one minute per consumer. The
  concurrent map of windows is an association list; the lock of a window makes one check one step.
\<close>

definition WINDOW_SECONDS :: nat where
  "WINDOW_SECONDS = 60"

text \<open>\<^verbatim>\<open>Consumer\<close> of \<^verbatim>\<open>src/http/auth.rs\<close>, what a request runs as.\<close>

record consumer =
  c_id :: string
  c_name :: string
  c_scopes :: "scope list"
  c_quota_per_min :: nat

record quota_state =
  q_limit :: nat
  q_remaining :: nat
  q_reset_secs :: nat

record quota_use =
  qu_consumer :: string
  qu_limit :: nat
  qu_used :: nat
  qu_reset_secs :: nat

type_synonym quotas = "(string \<times> window) list"

definition quota_headers :: "quota_state \<Rightarrow> (string \<times> string) list" where
  "quota_headers q =
     [(''x-ratelimit-limit'', show_nat (q_limit q)),
      (''x-ratelimit-remaining'', show_nat (q_remaining q)),
      (''x-ratelimit-reset'', show_nat (q_reset_secs q))]"

definition oldest_leaves :: "instant \<Rightarrow> window \<Rightarrow> instant" where
  "oldest_leaves now w = (case w_admitted w of t # _ \<Rightarrow> t + of_secs WINDOW_SECONDS | [] \<Rightarrow> now)"

definition quota_window :: "string \<Rightarrow> nat \<Rightarrow> quotas \<Rightarrow> window" where
  "quota_window cid limit qs =
     (case map_of qs cid of
        Some w \<Rightarrow> w
      | None \<Rightarrow> window_new \<lparr>lw_limit = limit, lw_seconds = WINDOW_SECONDS\<rparr>)"

definition quota_limit :: "consumer \<Rightarrow> nat" where
  "quota_limit c = max (c_quota_per_min c) 1"

definition quota_check ::
  "consumer \<Rightarrow> instant \<Rightarrow> quotas \<Rightarrow> (api_error \<times> quota_state + quota_state) \<times> quotas" where
  "quota_check c now qs =
     (let limit = quota_limit c;
          w = (quota_window (c_id c) limit qs)\<lparr>w_limit := limit\<rparr>;
          (taken, w1) = try_take now w;
          (n, w2) = used now w1;
          (free, w3) = next_free now w2;
          state = \<lparr>q_limit = limit, q_remaining = limit - n,
            q_reset_secs = secs_up ((if taken then oldest_leaves now w3 else free) - now)\<rparr>;
          qs' = AList.update (c_id c) w3 qs in
      if taken then (Inr state, qs')
      else (Inl (with_retry_after (max (q_reset_secs state) 1)
              (api_error_new QuotaExceeded (''Quota of '' @ show_nat limit @ ''/min exceeded'')), state), qs'))"

definition quota_usage :: "instant \<Rightarrow> quotas \<Rightarrow> quota_use list \<times> quotas" where
  "quota_usage now qs =
     (let out = map (\<lambda>(cid, w).
            let (n, w') = used now w in
            \<lparr>qu_consumer = cid, qu_limit = w_limit w', qu_used = n,
             qu_reset_secs = secs_up (oldest_leaves now w' - now)\<rparr>) qs in
      (sort_key (\<lambda>u. - int (qu_used u)) (sort_key qu_consumer out), map (\<lambda>(cid, w). (cid, snd (used now w))) qs))"

section \<open>The rolling bound\<close>

text \<open>The steps that touch the quotas, as the consumer \<open>cid\<close> with at most \<open>Q\<close> per minute sees them.\<close>

inductive quota_step :: "string \<Rightarrow> nat \<Rightarrow> quotas \<Rightarrow> instant \<Rightarrow> bool \<Rightarrow> quotas \<Rightarrow> bool" for cid Q where
  qs_check: "quota_check c now qs = (r, qs') \<Longrightarrow> (c_id c = cid \<longrightarrow> quota_limit c \<le> Q) \<Longrightarrow>
    g \<longleftrightarrow> c_id c = cid \<and> (\<exists>st. r = Inr st) \<Longrightarrow> quota_step cid Q qs now g qs'"
| qs_usage: "quota_step cid Q qs now False (snd (quota_usage now qs))"

definition quota_held :: "string \<Rightarrow> quotas \<Rightarrow> instant list" where
  "quota_held cid qs = (case map_of qs cid of Some w \<Rightarrow> w_admitted w | None \<Rightarrow> [])"

definition quota_inv :: "string \<Rightarrow> nat \<Rightarrow> quotas \<Rightarrow> bool" where
  "quota_inv cid Q qs = (Q \<le> u32_max \<and> (case map_of qs cid of Some w \<Rightarrow> w_seconds w = WINDOW_SECONDS | None \<Rightarrow> True))"

text \<open>The window a check works on, and the window it leaves.\<close>

abbreviation checked_window :: "consumer \<Rightarrow> quotas \<Rightarrow> window" where
  "checked_window c qs \<equiv>
     (quota_window (c_id c) (quota_limit c) qs)\<lparr>w_limit := quota_limit c\<rparr>"

lemma quota_check_window:
  "snd (quota_check c now qs) = AList.update (c_id c) (prune now (snd (try_take now (checked_window c qs)))) qs"
  "(\<exists>st. fst (quota_check c now qs) = Inr st) \<longleftrightarrow> fst (try_take now (checked_window c qs))"
  by (simp_all add: quota_check_def case_prod_unfold Let_def)

lemma count_since_checked:
  assumes "now < x + window_span w"
  shows "count_since x (w_admitted (prune now (snd (try_take now w)))) =
    count_since x (w_admitted w) + (if fst (try_take now w) \<and> x \<le> now then 1 else 0)"
proof -
  have "window_span (snd (try_take now w)) = window_span w"
    by (simp add: window_span_def)
  then show ?thesis
    using count_since_try_take [OF assms] count_since_prune [of now x "snd (try_take now w)"] assms by simp
qed

lemma held_checked: "w_admitted (checked_window c qs) = quota_held (c_id c) qs"
  by (simp add: quota_window_def quota_held_def split: option.splits)

lemma span_checked:
  "quota_inv (c_id c) Q qs \<Longrightarrow> window_span (checked_window c qs) = of_secs WINDOW_SECONDS"
  by (auto simp: quota_window_def quota_inv_def window_span_def split: option.splits)

lemma map_of_usage: "map_of (snd (quota_usage now qs)) cid = map_option (prune now) (map_of qs cid)"
  unfolding quota_usage_def Let_def snd_conv by (induction qs) auto

lemma held_after_check:
  "quota_held cid (snd (quota_check c now qs)) =
     (if c_id c = cid then w_admitted (prune now (snd (try_take now (checked_window c qs)))) else quota_held cid qs)"
  by (simp add: quota_held_def quota_check_window update_conv')

interpretation quo: rolling_log "of_secs WINDOW_SECONDS" Q "quota_held cid" "quota_inv cid Q" "quota_step cid Q"
  for cid Q
proof
  fix qs now g qs' x
  assume inv: "quota_inv cid Q qs" and step: "quota_step cid Q qs now g qs'"
  show "quota_inv cid Q qs'"
    using step
  proof cases
    case (qs_check c r)
    have "qs' = snd (quota_check c now qs)"
      using qs_check(1) by simp
    moreover have "w_seconds (checked_window c qs) = WINDOW_SECONDS" if "c_id c = cid"
      using inv that by (auto simp: quota_window_def quota_inv_def split: option.splits)
    ultimately show ?thesis
      using inv by (auto simp: quota_check_window quota_inv_def update_conv')
  next
    case qs_usage
    then show ?thesis
      using inv by (auto simp: quota_inv_def map_of_usage split: option.splits)
  qed
  show "count_since x (quota_held cid qs) \<le> count_since x (quota_held cid qs')" if x: "now < x + of_secs WINDOW_SECONDS"
    using step
  proof cases
    case (qs_check c r)
    have qs': "qs' = snd (quota_check c now qs)"
      using qs_check(1) by simp
    show ?thesis
    proof (cases "c_id c = cid")
      case True
      then show ?thesis
        using count_since_checked [of now x "checked_window c qs"] span_checked [of c Q qs] inv x held_checked [of c qs]
        by (simp add: qs' held_after_check)
    next
      case False
      then show ?thesis
        by (simp add: qs' held_after_check)
    qed
  next
    case qs_usage
    then show ?thesis
      using inv x count_since_prune [of now x]
      by (auto simp: quota_held_def map_of_usage quota_inv_def window_span_def split: option.splits)
  qed
next
  fix qs now qs' x
  assume inv: "quota_inv cid Q qs" and step: "quota_step cid Q qs now True qs'" and x: "now < x + of_secs WINDOW_SECONDS"
  obtain c r where c: "quota_check c now qs = (r, qs')" "c_id c = cid" "quota_limit c \<le> Q" "\<exists>st. r = Inr st"
    using step by (auto elim!: quota_step.cases)
  have taken: "fst (try_take now (checked_window c qs))"
    using quota_check_window(2) [of c now qs] c(1,4) by simp
  have span: "now < x + window_span (checked_window c qs)"
    using span_checked [of c Q qs] inv c(2) x by simp
  have qs': "qs' = snd (quota_check c now qs)"
    using c(1) by simp
  show "count_since x (quota_held cid qs) < count_since x (quota_held cid qs')" if "x \<le> now"
    using count_since_checked [OF span] taken that c(2) held_checked [of c qs] by (simp add: qs' held_after_check)
  show "count_since x (quota_held cid qs) < Q"
    using try_take_room [OF taken _ span] c(2,3) inv held_checked [of c qs] by (fastforce simp: quota_inv_def)
qed

section \<open>Properties\<close>

text \<open>C31. Whatever checks and reports run, and however often a consumer's quota is changed, a consumer whose
  quota never exceeds \<open>Q\<close> is granted at most \<open>Q\<close> requests in any sixty seconds.\<close>

theorem quota_rolling_limit:
  assumes "logged_run (quota_step cid Q) qs0 now grants qs" "quota_inv cid Q qs0"
  shows "count_in x (x + of_secs 60) grants \<le> Q"
  using quo.rolling_bound [OF assms] by (simp add: WINDOW_SECONDS_def)

definition sample_consumer :: consumer where
  "sample_consumer = \<lparr>c_id = ''a'', c_name = ''a'', c_scopes = [Read], c_quota_per_min = 3\<rparr>"

theorem quota_rolling_limit_witness:
  "logged_run (quota_step ''a'' 3) [] 5 [5] (snd (quota_check sample_consumer 5 [])) \<and>
   count_in 0 (0 + of_secs 60) [5] \<le> 3"
proof -
  have "fst (try_take 5 (checked_window sample_consumer []))"
    by (simp add: sample_consumer_def quota_limit_def quota_window_def try_take_cases prune_def sat_u32_def)
  then have "\<exists>st. fst (quota_check sample_consumer 5 []) = Inr st"
    by (simp only: quota_check_window(2))
  then have "quota_step ''a'' 3 [] 5 True (snd (quota_check sample_consumer 5 []))"
    by (intro qs_check [where c = sample_consumer and r = "fst (quota_check sample_consumer 5 [])"])
      (simp_all add: sample_consumer_def quota_limit_def)
  then have run: "logged_run (quota_step ''a'' 3) [] 5 ([] @ [5]) (snd (quota_check sample_consumer 5 []))"
    by (rule run_grant [OF run_start order.refl])
  then show ?thesis
    using quota_rolling_limit [OF run, of 0] by (simp add: quota_inv_def u32_max_def)
qed

text \<open>What a metered request is told: over quota it gets \<open>QUOTA_EXCEEDED\<close> (429) whose \<open>Retry-After\<close> is the
  reset, at least one second; either way the headers' limit is the consumer's quota, at least one, and the
  remaining count is what the window still admits.\<close>

theorem quota_check_reports:
  "let w = checked_window c qs; (r, qs') = quota_check c now qs in
   (case r of
      Inr st \<Rightarrow> fst (try_take now w) \<and> q_limit st = quota_limit c \<and>
        q_remaining st = q_limit st - fst (used now (snd (try_take now w)))
    | Inl (e, st) \<Rightarrow> \<not> fst (try_take now w) \<and> code e = QuotaExceeded \<and> status e = 429 \<and>
        err_retry_after e = Some (max (q_reset_secs st) 1) \<and> q_limit st = quota_limit c \<and>
        q_remaining st = 0 \<and> q_reset_secs st = secs_up (fst (next_free now w) - now))"
proof -
  define w where "w = checked_window c qs"
  have lim: "w_limit w = quota_limit c"
    by (simp add: w_def)
  show ?thesis
  proof (cases "fst (try_take now w)")
    case True
    then show ?thesis
      by (simp add: quota_check_def case_prod_unfold Let_def flip: w_def)
  next
    case False
    then have "quota_limit c \<le> fst (used now w)"
      by (simp add: try_take_iff_used lim)
    then show ?thesis
      using False by (simp add: quota_check_def case_prod_unfold Let_def with_retry_after_def snd_try_take flip: w_def)
  qed
qed

end
