(* ===== verification/Auth.thy ===== *)
theory Auth
  imports Net Quota
begin

text \<open>
  Authentication and authorisation, \<^verbatim>\<open>src/http/auth.rs\<close>, with the path rule of
  \<^verbatim>\<open>src/http/cors.rs\<close> and the request ids of \<^verbatim>\<open>src/http/request_id.rs\<close>. A request's headers are
  a function from lower-case names to values; the cache of lookups (crate \<^verbatim>\<open>moka\<close>) and the database
  appear as what they answered. Shifts are those of a release build, where the amount wraps.
\<close>

definition AUTH_CACHE_TTL :: duration where
  "AUTH_CACHE_TTL = of_secs 60"

definition NEGATIVE_AUTH_TTL :: duration where
  "NEGATIVE_AUTH_TTL = of_secs 30"

definition dev_local :: consumer where
  "dev_local = \<lparr>c_id = ''dev-local'', c_name = ''dev-local'', c_scopes = [Read, Admin], c_quota_per_min = 100000\<rparr>"

definition has_scope :: "consumer \<Rightarrow> scope \<Rightarrow> bool" where
  "has_scope c s = (s \<in> set (c_scopes c))"

section \<open>Addresses\<close>

datatype allow_entry = Addr ip_addr | Cidr ip_addr nat

fun normalise :: "ip_addr \<Rightarrow> ip_addr" where
  "normalise (V6 v6) = (case to_ipv4_mapped v6 of Some a \<Rightarrow> V4 a | None \<Rightarrow> V6 v6)"
| "normalise (V4 a) = V4 a"

fun is_ipv4 :: "ip_addr \<Rightarrow> bool" where
  "is_ipv4 (V4 _) = True"
| "is_ipv4 (V6 _) = False"

definition allow_entry_parse :: "string \<Rightarrow> allow_entry option" where
  "allow_entry_parse raw =
     (case split_once CHR ''/'' (trim raw) of
        None \<Rightarrow> map_option (\<lambda>a. Addr (normalise a)) (parse_ip (trim raw))
      | Some (base_text, bits_text) \<Rightarrow>
          (case parse_ip (trim base_text) of
             None \<Rightarrow> None
           | Some base \<Rightarrow>
               (case parse_u8 (trim bits_text) of
                  None \<Rightarrow> None
                | Some bits \<Rightarrow>
                    if bits \<le> (if is_ipv4 base then 32 else 128) then Some (Cidr (normalise base) bits) else None)))"

text \<open>\<^verbatim>\<open>u32::MAX << (32 - bits)\<close>: the difference wraps at 32 bits and the shift takes it modulo the width.\<close>

definition mask32 :: "nat \<Rightarrow> 32 word" where
  "mask32 bits = (if bits = 0 then 0 else push_bit ((2 ^ 32 + 32 - bits) mod 32) (- 1))"

definition mask128 :: "nat \<Rightarrow> 128 word" where
  "mask128 bits = (if bits = 0 then 0 else push_bit ((2 ^ 32 + 128 - bits) mod 2 ^ 32 mod 128) (- 1))"

fun entry_matches :: "allow_entry \<Rightarrow> ip_addr \<Rightarrow> bool" where
  "entry_matches (Addr a) addr = (a = addr)"
| "entry_matches (Cidr (V4 base) bits) (V4 a) = (a AND mask32 bits = base AND mask32 bits)"
| "entry_matches (Cidr (V4 base) bits) (V6 _) = False"
| "entry_matches (Cidr (V6 base) bits) (V6 a) = (a AND mask128 bits = base AND mask128 bits)"
| "entry_matches (Cidr (V6 base) bits) (V4 _) = False"

definition ip_allowed :: "ip_addr option \<Rightarrow> allow_entry list \<Rightarrow> bool" where
  "ip_allowed remote allowlist =
     (if allowlist = [] then True
      else (case map_option normalise remote of
              None \<Rightarrow> False
            | Some addr \<Rightarrow> list_ex (\<lambda>e. entry_matches e addr) allowlist))"

section \<open>Requests\<close>

text \<open>\<^verbatim>\<open>HeaderValue::to_str\<close>: visible ASCII and tabs.\<close>

definition to_str :: "string \<Rightarrow> string option" where
  "to_str v = (if list_all (\<lambda>c. (32 \<le> (of_char c :: nat) \<and> (of_char c :: nat) < 127) \<or> of_char c = (9 :: nat)) v
     then Some v else None)"

record request =
  r_headers :: "string \<Rightarrow> string option"
  r_query :: "string option"
  r_path :: string
  r_peer :: "ip_addr option"

definition client_ip :: "request \<Rightarrow> bool \<Rightarrow> ip_addr option" where
  "client_ip req trust_proxy =
     (let forwarded =
        (if trust_proxy then
           Option.bind (Option.bind (r_headers req ''x-forwarded-for'') to_str)
             (\<lambda>v. parse_ip (trim (hd (split_on CHR '','' v))))
         else None) in
      case forwarded of Some a \<Rightarrow> Some a | None \<Rightarrow> r_peer req)"

definition header_bearer :: "request \<Rightarrow> string option" where
  "header_bearer req =
     (case Option.bind (Option.bind (r_headers req ''authorization'') to_str) (split_once CHR '' '') of
        Some (scheme, token) \<Rightarrow>
          if eq_ignore_case scheme ''bearer'' \<and> trim token \<noteq> [] then Some (trim token) else None
      | None \<Rightarrow> None)"

definition query_token :: "string \<Rightarrow> string option" where
  "query_token q =
     (case find (\<lambda>(k, _). k = ''token'') (List.map_filter (split_once CHR ''='') (split_on CHR ''&'' q)) of
        Some (_, v) \<Rightarrow> if v \<noteq> [] then Some v else None
      | None \<Rightarrow> None)"

definition bearer :: "request \<Rightarrow> string option" where
  "bearer req =
     (case header_bearer req of
        Some t \<Rightarrow> Some t
      | None \<Rightarrow> Option.bind (r_query req) query_token)"

section \<open>The policy\<close>

record auth =
  au_disabled :: bool
  au_allowlist :: "allow_entry list"
  au_trust_proxy :: bool
  au_status_allow :: "allow_entry list"

definition auth_new :: "bool \<Rightarrow> string list \<Rightarrow> bool \<Rightarrow> string list \<Rightarrow> auth" where
  "auth_new disabled admin_ip_allowlist trust_proxy status_allow_cidr =
     \<lparr>au_disabled = disabled, au_allowlist = List.map_filter allow_entry_parse admin_ip_allowlist,
      au_trust_proxy = trust_proxy, au_status_allow = List.map_filter allow_entry_parse status_allow_cidr\<rparr>"

definition CF_CONNECTING_IP :: string where
  "CF_CONNECTING_IP = ''cf-connecting-ip''"

definition FORWARDING_HEADERS :: "string list" where
  "FORWARDING_HEADERS = [CF_CONNECTING_IP, ''x-forwarded-for'', ''forwarded'', ''x-real-ip'']"

definition status_local :: "auth \<Rightarrow> request \<Rightarrow> bool" where
  "status_local au req =
     (case map_option normalise (r_peer req) of
        None \<Rightarrow> False
      | Some addr \<Rightarrow>
          \<not> list_ex (\<lambda>h. r_headers req h \<noteq> None) FORWARDING_HEADERS \<and>
          list_ex (\<lambda>e. entry_matches e addr) (au_status_allow au))"

text \<open>How long the cache keeps a lookup.\<close>

definition auth_ttl :: "consumer option \<Rightarrow> duration" where
  "auth_ttl cached = (if cached \<noteq> None then AUTH_CACHE_TTL else NEGATIVE_AUTH_TTL)"

text \<open>\<open>hit\<close> is what the cache held, \<open>found\<close> what the database answers on a miss; the second component is
  what is put into the cache.\<close>

definition resolve ::
  "consumer option option \<Rightarrow> consumer_error + stored_consumer option \<Rightarrow>
     (api_error + consumer option) \<times> consumer option option" where
  "resolve hit found =
     (case hit of
        Some c \<Rightarrow> (Inr c, None)
      | None \<Rightarrow>
          (case found of
             Inl _ \<Rightarrow> (Inl internal_error, None)
           | Inr f \<Rightarrow>
               (let cached = map_option (\<lambda>c. \<lparr>c_id = sc_id c, c_name = sc_name c, c_scopes = sc_scopes c,
                    c_quota_per_min = sc_quota_per_min c\<rparr>) f in
                (Inr cached, Some cached))))"

record ask =
  ask_token :: "string option"
  ask_ip :: "ip_addr option"

definition ask_from :: "request \<Rightarrow> bool \<Rightarrow> ask" where
  "ask_from req trust_proxy = \<lparr>ask_token = bearer req, ask_ip = client_ip req trust_proxy\<rparr>"

text \<open>\<open>lookup\<close> is \<^verbatim>\<open>resolve\<close> for a key.\<close>

definition authorise ::
  "auth \<Rightarrow> (string \<Rightarrow> api_error + consumer option) \<Rightarrow> ask \<Rightarrow> scope \<Rightarrow> api_error + consumer" where
  "authorise au lookup a required =
     (if au_disabled au then Inr dev_local
      else
        (case ask_token a of
           None \<Rightarrow> Inl unauthorized
         | Some token \<Rightarrow>
             (case lookup token of
                Inl e \<Rightarrow> Inl e
              | Inr None \<Rightarrow> Inl unauthorized
              | Inr (Some c) \<Rightarrow>
                  if \<not> has_scope c required then
                    Inl (api_error_new Forbidden (''This key lacks the '' @ [CHR 0x27] @ scope_str required @ [CHR 0x27] @ '' scope''))
                  else if required = Admin \<and> \<not> ip_allowed (ask_ip a) (au_allowlist au) then
                    Inl (api_error_new Forbidden ''Admin access is not permitted from this address'')
                  else Inr c)))"

definition socket ::
  "auth \<Rightarrow> (string \<Rightarrow> api_error + consumer option) \<Rightarrow> request \<Rightarrow> api_error + consumer \<times> bool" where
  "socket au lookup req =
     (if au_disabled au then Inr (dev_local, True)
      else
        (case bearer req of
           None \<Rightarrow> Inl unauthorized
         | Some token \<Rightarrow>
             (case lookup token of
                Inl e \<Rightarrow> Inl e
              | Inr None \<Rightarrow> Inl unauthorized
              | Inr (Some c) \<Rightarrow>
                  Inr (c, has_scope c Admin \<and> ip_allowed (client_ip req (au_trust_proxy au)) (au_allowlist au)))))"

text \<open>What the guard in front of a route decides: an error and no call of the route, or the route runs as a
  consumer, its answer carrying the quota headers.\<close>

datatype guarded = Refused api_error "quota_state option" | Runs consumer "quota_state option" | RunsLocal

definition guard ::
  "auth \<Rightarrow> (string \<Rightarrow> api_error + consumer option) \<Rightarrow> scope \<Rightarrow> request \<Rightarrow> instant \<Rightarrow> quotas \<Rightarrow> guarded \<times> quotas" where
  "guard au lookup required req now qs =
     (case authorise au lookup (ask_from req (au_trust_proxy au)) required of
        Inl e \<Rightarrow> (Refused e None, qs)
      | Inr c \<Rightarrow>
          (case quota_check c now qs of
             (Inr q, qs') \<Rightarrow> (Runs c (Some q), qs')
           | (Inl (e, q), qs') \<Rightarrow> (Refused e (Some q), qs')))"

definition require_status :: "auth \<Rightarrow> (string \<Rightarrow> api_error + consumer option) \<Rightarrow> request \<Rightarrow> guarded" where
  "require_status au lookup req =
     (if bearer req = None \<and> status_local au req then RunsLocal
      else
        (case authorise au lookup (ask_from req (au_trust_proxy au)) Admin of
           Inl e \<Rightarrow> Refused e None
         | Inr c \<Rightarrow> Runs c None))"

section \<open>Cross-origin paths and request ids\<close>

definition cors_covers :: "string \<Rightarrow> bool" where
  "cors_covers path =
     (starts_with ''/v1/admin/'' path \<or> path = ''/v1/ws'' \<or> path = ''/healthz'' \<or> path = ''/readyz'')"

definition MAX_INBOUND_LEN :: nat where
  "MAX_INBOUND_LEN = 128"

definition request_id_from_inbound :: "string \<Rightarrow> string option" where
  "request_id_from_inbound value =
     (case to_str value of
        None \<Rightarrow> None
      | Some s \<Rightarrow>
          if s \<noteq> [] \<and> length s \<le> MAX_INBOUND_LEN \<and>
             list_all (\<lambda>b. is_alnum b \<or> b \<in> {CHR ''-'', CHR ''_'', CHR ''.'', CHR '':''}) s
          then Some s else None)"

definition request_id :: "(string \<Rightarrow> string option) \<Rightarrow> string \<Rightarrow> string" where
  "request_id headers generated =
     (case Option.bind (headers ''x-request-id'') request_id_from_inbound of
        Some s \<Rightarrow> s
      | None \<Rightarrow> generated)"

section \<open>Masks\<close>

lemma mask32_eq: "0 < bits \<Longrightarrow> bits \<le> 32 \<Longrightarrow> mask32 bits = push_bit (32 - bits) (- 1)"
proof -
  assume b: "0 < bits" "bits \<le> 32"
  have "(2 ^ 32 + 32 - bits) mod 32 = (32 - bits) mod (32 :: nat)"
  proof -
    have "(2 ^ 32 + 32 - bits :: nat) = (32 - bits) + 32 * 2 ^ 27"
      using b by simp
    then show ?thesis
      by (metis mod_mult_self2)
  qed
  then show ?thesis
    using b by (simp add: mask32_def)
qed

lemma mask128_eq: "0 < bits \<Longrightarrow> bits \<le> 128 \<Longrightarrow> mask128 bits = push_bit (128 - bits) (- 1)"
proof -
  assume b: "0 < bits" "bits \<le> 128"
  have "(2 ^ 32 + 128 - bits) mod 2 ^ 32 = (128 - bits :: nat)"
  proof -
    have "(2 ^ 32 + 128 - bits :: nat) = (128 - bits) + 2 ^ 32 * 1"
      using b by simp
    then have "(2 ^ 32 + 128 - bits) mod 2 ^ 32 = (128 - bits) mod (2 ^ 32 :: nat)"
      by (metis mod_mult_self2)
    then show ?thesis
      by simp
  qed
  then show ?thesis
    using b by (simp add: mask128_def)
qed

lemma and_high_mask:
  fixes a b :: "'a::len word"
  assumes "n \<le> LENGTH('a)"
  shows "a AND push_bit n (- 1) = b AND push_bit n (- 1) \<longleftrightarrow> drop_bit n a = drop_bit n b"
proof
  assume eq: "a AND push_bit n (- 1) = b AND push_bit n (- 1)"
  show "drop_bit n a = drop_bit n b"
  proof (rule bit_word_eqI)
    fix i
    assume "i < LENGTH('a)"
    have "bit (a AND push_bit n (- 1)) (n + i) = bit (b AND push_bit n (- 1)) (n + i)"
      using eq by simp
    then show "bit (drop_bit n a) i = bit (drop_bit n b) i"
      by (auto simp: bit_and_iff bit_push_bit_iff bit_drop_bit_eq bit_simps dest: bit_imp_le_length)
  qed
next
  assume eq: "drop_bit n a = drop_bit n b"
  show "a AND push_bit n (- 1) = b AND push_bit n (- 1)"
  proof (rule bit_word_eqI)
    fix i
    assume "i < LENGTH('a)"
    have "n \<le> i \<Longrightarrow> bit (drop_bit n a) (i - n) = bit (drop_bit n b) (i - n)"
      using eq by simp
    then show "bit (a AND push_bit n (- 1)) i = bit (b AND push_bit n (- 1)) i"
      by (auto simp: bit_and_iff bit_push_bit_iff bit_drop_bit_eq bit_simps)
  qed
qed

lemma mask_0 [simp]: "mask32 0 = 0" "mask128 0 = 0"
  by (simp_all add: mask32_def mask128_def)

lemma drop_all: "drop_bit LENGTH('a) (a :: 'a::len word) = 0"
  by (rule bit_word_eqI) (auto simp: bit_drop_bit_eq dest: bit_imp_le_length)

section \<open>Properties\<close>

text \<open>A CIDR entry means its prefix: an IPv4 entry of up to 32 bits, and an IPv6 entry of up to 128, matches an
  address of its family exactly when the leading bits agree, zero bits matching every address.\<close>

theorem cidr_matches_prefix:
  "(bits4 \<le> 32 \<longrightarrow> entry_matches (Cidr (V4 base4) bits4) (V4 a4) =
      (drop_bit (32 - bits4) a4 = drop_bit (32 - bits4) base4)) \<and>
   (bits6 \<le> 128 \<longrightarrow> entry_matches (Cidr (V6 base6) bits6) (V6 a6) =
      (drop_bit (128 - bits6) a6 = drop_bit (128 - bits6) base6)) \<and>
   \<not> entry_matches (Cidr (V4 base4) bits4) (V6 a6) \<and> \<not> entry_matches (Cidr (V6 base6) bits6) (V4 a4)"
  using and_high_mask [of "32 - bits4" a4 base4] and_high_mask [of "128 - bits6" a6 base6] mask32_eq [of bits4] mask128_eq [of bits6]
    drop_all [of a4] drop_all [of base4] drop_all [of a6] drop_all [of base6]
  by (cases "bits4 = 0"; cases "bits6 = 0") auto

theorem cidr_matches_prefix_witness:
  "entry_matches (Cidr (V4 0x0A000000) 8) (V4 0x0A010203) \<and> \<not> entry_matches (Cidr (V4 0x0A000000) 8) (V4 0x0B000000)"
proof -
  have "drop_bit 24 (0x0A010203 :: 32 word) = drop_bit 24 0x0A000000"
    "drop_bit 24 (0x0B000000 :: 32 word) \<noteq> drop_bit 24 0x0A000000"
    by (simp_all add: drop_bit_eq_div)
  then show ?thesis
    using cidr_matches_prefix [of 8 "0x0A000000" "0x0A010203" 0 0 0] cidr_matches_prefix [of 8 "0x0A000000" "0x0B000000" 0 0 0]
    by simp
qed


lemma authorise_Inr:
  "authorise au lookup a required = Inr c \<longleftrightarrow>
     (if au_disabled au then c = dev_local
      else (\<exists>token. ask_token a = Some token \<and> lookup token = Inr (Some c)) \<and> required \<in> set (c_scopes c) \<and>
        (required = Admin \<longrightarrow> ip_allowed (ask_ip a) (au_allowlist au)))"
  by (auto simp: authorise_def has_scope_def split: option.splits sum.splits)

text \<open>C33. With authentication on, a route runs as a consumer exactly when the request carries a key that resolves
  to that consumer, the consumer has the route's scope, for an admin route the client's address is allowed,
  and the consumer's quota admits the request; an admin route never runs for an address outside a non-empty
  allowlist.\<close>

theorem guard_runs_iff:
  assumes "\<not> au_disabled au"
  shows "(\<exists>q. fst (guard au lookup required req now qs) = Runs c q) \<longleftrightarrow>
    (\<exists>token. bearer req = Some token \<and> lookup token = Inr (Some c)) \<and> required \<in> set (c_scopes c) \<and>
    (required = Admin \<longrightarrow> ip_allowed (client_ip req (au_trust_proxy au)) (au_allowlist au)) \<and>
    fst (try_take now (checked_window c qs))"
proof -
  have "(\<exists>q. fst (guard au lookup required req now qs) = Runs c q) \<longleftrightarrow>
      authorise au lookup (ask_from req (au_trust_proxy au)) required = Inr c \<and> (\<exists>st. fst (quota_check c now qs) = Inr st)"
    by (auto simp: guard_def split: sum.splits prod.splits)
  then show ?thesis
    using assms by (simp add: authorise_Inr ask_from_def quota_check_window(2))
qed

definition sample_request :: request where
  "sample_request = \<lparr>r_headers = (\<lambda>h. if h = ''authorization'' then Some ''Bearer k'' else None), r_query = None,
     r_path = ''/v1/x'', r_peer = Some (V4 1)\<rparr>"

theorem guard_runs_iff_witness:
  "\<exists>q. fst (guard (auth_new False [] False []) (\<lambda>t. if t = ''k'' then Inr (Some sample_consumer) else Inr None) Read
     sample_request 5 []) = Runs sample_consumer q"
proof -
  have "bearer sample_request = Some ''k''"
    by code_simp
  moreover have "fst (try_take 5 (checked_window sample_consumer []))" "Read \<in> set (c_scopes sample_consumer)"
    by (simp_all add: sample_consumer_def quota_limit_def quota_window_def try_take_cases prune_def sat_u32_def)
  ultimately show ?thesis
    by (subst guard_runs_iff) (simp_all add: auth_new_def)
qed

text \<open>The status page without a key is local only: it never runs keyless for a request that carries a
  forwarding header or whose TCP peer is unknown or outside the configured ranges, whatever
  \<open>X-Forwarded-For\<close> says, and with no ranges configured it never runs keyless at all.\<close>

theorem status_keyless_is_local:
  assumes "require_status au lookup req = RunsLocal"
  shows "bearer req = None \<and> (\<forall>h \<in> {''cf-connecting-ip'', ''x-forwarded-for'', ''forwarded'', ''x-real-ip''}. r_headers req h = None) \<and>
    (\<exists>peer e. r_peer req = Some peer \<and> e \<in> set (au_status_allow au) \<and> entry_matches e (normalise peer))"
proof -
  have "bearer req = None" "status_local au req"
    using assms by (auto simp: require_status_def split: if_splits sum.splits)
  then show ?thesis
    by (auto simp: status_local_def FORWARDING_HEADERS_def CF_CONNECTING_IP_def list_ex_iff split: option.splits)
qed

theorem status_keyless_is_local_witness:
  "require_status \<lparr>au_disabled = False, au_allowlist = [], au_trust_proxy = True, au_status_allow = [Cidr (V4 0) 0]\<rparr>
     (\<lambda>_. Inr None) \<lparr>r_headers = (\<lambda>_. None), r_query = None, r_path = ''/status'', r_peer = Some (V4 7)\<rparr> = RunsLocal \<and>
   r_headers \<lparr>r_headers = (\<lambda>_. None), r_query = None, r_path = ''/status'', r_peer = Some (V4 7)\<rparr> ''forwarded'' = (None :: string option)"
proof -
  have run: "require_status \<lparr>au_disabled = False, au_allowlist = [], au_trust_proxy = True, au_status_allow = [Cidr (V4 0) 0]\<rparr>
     (\<lambda>_. Inr None) \<lparr>r_headers = (\<lambda>_. None), r_query = None, r_path = ''/status'', r_peer = Some (V4 7)\<rparr> = RunsLocal"
    by (simp add: require_status_def bearer_def header_bearer_def status_local_def FORWARDING_HEADERS_def)
  then show ?thesis
    using status_keyless_is_local [OF run] by simp
qed

end
