(* ===== verification/Routing.thy ===== *)
theory Routing
  imports Api_Error
begin

text \<open>
  Host routing, \<^verbatim>\<open>src/riot/routing.rs\<close>, and the ranked ladder's values,
  \<^verbatim>\<open>src/riot/ladder.rs\<close>.
\<close>

section \<open>Platforms and regions\<close>

datatype platform =
  Na1 | Br1 | La1 | La2 | Euw1 | Eun1 | Tr1 | Ru | Kr | Jp1 | Oc1 | Ph2 | Sg2 | Th2 | Tw2 | Vn2

datatype region = Americas | Europe | Asia | Sea

definition PLATFORMS :: "platform list" where
  "PLATFORMS = [Na1, Br1, La1, La2, Euw1, Eun1, Tr1, Ru, Kr, Jp1, Oc1, Ph2, Sg2, Th2, Tw2, Vn2]"

fun platform_as_str :: "platform \<Rightarrow> string" where
  "platform_as_str Na1 = ''na1''"
| "platform_as_str Br1 = ''br1''"
| "platform_as_str La1 = ''la1''"
| "platform_as_str La2 = ''la2''"
| "platform_as_str Euw1 = ''euw1''"
| "platform_as_str Eun1 = ''eun1''"
| "platform_as_str Tr1 = ''tr1''"
| "platform_as_str Ru = ''ru''"
| "platform_as_str Kr = ''kr''"
| "platform_as_str Jp1 = ''jp1''"
| "platform_as_str Oc1 = ''oc1''"
| "platform_as_str Ph2 = ''ph2''"
| "platform_as_str Sg2 = ''sg2''"
| "platform_as_str Th2 = ''th2''"
| "platform_as_str Tw2 = ''tw2''"
| "platform_as_str Vn2 = ''vn2''"

fun platform_label :: "platform \<Rightarrow> string" where
  "platform_label Na1 = ''North America''"
| "platform_label Br1 = ''Brazil''"
| "platform_label La1 = ''LATAM North''"
| "platform_label La2 = ''LATAM South''"
| "platform_label Euw1 = ''EU West''"
| "platform_label Eun1 = ''EU Nordic & East''"
| "platform_label Tr1 = ''T'' @ [CHR 0xFC] @ ''rkiye''"
| "platform_label Ru = ''Russia''"
| "platform_label Kr = ''Korea''"
| "platform_label Jp1 = ''Japan''"
| "platform_label Oc1 = ''Oceania''"
| "platform_label Ph2 = ''Philippines''"
| "platform_label Sg2 = ''Singapore''"
| "platform_label Th2 = ''Thailand''"
| "platform_label Tw2 = ''Taiwan''"
| "platform_label Vn2 = ''Vietnam''"

fun platform_region :: "platform \<Rightarrow> region" where
  "platform_region Na1 = Americas"
| "platform_region Br1 = Americas"
| "platform_region La1 = Americas"
| "platform_region La2 = Americas"
| "platform_region Euw1 = Europe"
| "platform_region Eun1 = Europe"
| "platform_region Tr1 = Europe"
| "platform_region Ru = Europe"
| "platform_region Kr = Asia"
| "platform_region Jp1 = Asia"
| "platform_region Oc1 = Sea"
| "platform_region Ph2 = Sea"
| "platform_region Sg2 = Sea"
| "platform_region Th2 = Sea"
| "platform_region Tw2 = Sea"
| "platform_region Vn2 = Sea"

definition REGIONS :: "region list" where
  "REGIONS = [Americas, Europe, Asia, Sea]"

definition ACCOUNT_REGIONS :: "region list" where
  "ACCOUNT_REGIONS = [Americas, Asia, Europe]"

definition ACCOUNT_PICK :: "region list" where
  "ACCOUNT_PICK = [Asia, Americas, Europe]"

fun region_as_str :: "region \<Rightarrow> string" where
  "region_as_str Americas = ''americas''"
| "region_as_str Europe = ''europe''"
| "region_as_str Asia = ''asia''"
| "region_as_str Sea = ''sea''"

fun region_label :: "region \<Rightarrow> string" where
  "region_label Americas = ''Americas''"
| "region_label Europe = ''Europe''"
| "region_label Asia = ''Asia''"
| "region_label Sea = ''Southeast Asia''"

fun region_account_region :: "region \<Rightarrow> region" where
  "region_account_region Sea = Asia"
| "region_account_region other = other"

definition platform_account_region :: "platform \<Rightarrow> region" where
  "platform_account_region p = region_account_region (platform_region p)"

definition platform_host :: "platform \<Rightarrow> string" where
  "platform_host p = platform_as_str p @ ''.api.riotgames.com''"

definition region_host :: "region \<Rightarrow> string" where
  "region_host r = region_as_str r @ ''.api.riotgames.com''"

definition names_list :: "('a \<Rightarrow> string) \<Rightarrow> 'a list \<Rightarrow> string" where
  "names_list name xs = join '', '' (map name xs)"

text \<open>\<^verbatim>\<open>FromStr\<close>, case-insensitive.\<close>

definition platform_parse :: "string \<Rightarrow> api_error + platform" where
  "platform_parse value =
     (case find (\<lambda>p. platform_as_str p = lowercase value) PLATFORMS of
        Some p \<Rightarrow> Inr p
      | None \<Rightarrow> Inl (bad_region (''Unknown platform '' @ [CHR 0x27] @ value @ [CHR 0x27] @
          ''. Expected one of: '' @ names_list platform_as_str PLATFORMS)))"

definition region_parse :: "string \<Rightarrow> api_error + region" where
  "region_parse value =
     (case find (\<lambda>r. region_as_str r = lowercase value) REGIONS of
        Some r \<Rightarrow> Inr r
      | None \<Rightarrow> Inl (bad_region (''Unknown region '' @ [CHR 0x27] @ value @ [CHR 0x27] @
          ''. Expected one of: '' @ names_list region_as_str REGIONS)))"

definition platform_from_match_id :: "string \<Rightarrow> platform option" where
  "platform_from_match_id match_id =
     (case split_once CHR ''_'' match_id of
        None \<Rightarrow> None
      | Some (prefix, _) \<Rightarrow> (case platform_parse prefix of Inr p \<Rightarrow> Some p | Inl _ \<Rightarrow> None))"

definition MATCH_ONLY_PREFIXES :: "(string \<times> region) list" where
  "MATCH_ONLY_PREFIXES = [(''ME1'', Europe)]"

definition region_from_match_id :: "string \<Rightarrow> region option" where
  "region_from_match_id match_id =
     (case map_option platform_region (platform_from_match_id match_id) of
        Some r \<Rightarrow> Some r
      | None \<Rightarrow>
          (case split_once CHR ''_'' match_id of
             None \<Rightarrow> None
           | Some (prefix, _) \<Rightarrow>
               map_option snd (find (\<lambda>(p, _). eq_ignore_case p prefix) MATCH_ONLY_PREFIXES)))"

definition region_platforms :: "region \<Rightarrow> platform list" where
  "region_platforms r = filter (\<lambda>p. platform_region p = r) PLATFORMS"

section \<open>The ladder's values\<close>

definition RANKED_QUEUES :: "string list" where
  "RANKED_QUEUES = [''RANKED_SOLO_5x5'', ''RANKED_FLEX_SR'']"

definition PAGED_TIERS :: "string list" where
  "PAGED_TIERS = [''IRON'', ''BRONZE'', ''SILVER'', ''GOLD'', ''PLATINUM'', ''EMERALD'', ''DIAMOND'']"

definition APEX_TIERS :: "string list" where
  "APEX_TIERS = [''MASTER'', ''GRANDMASTER'', ''CHALLENGER'']"

definition RIOT_APEX_LIST_CAP :: nat where
  "RIOT_APEX_LIST_CAP = 10000"

definition DIVISIONS :: "string list" where
  "DIVISIONS = [''I'', ''II'', ''III'', ''IV'']"

definition QUEUE_IDS :: "(string \<times> nat) list" where
  "QUEUE_IDS = [(''RANKED_SOLO_5x5'', 420), (''RANKED_FLEX_SR'', 440)]"

definition ENTRIES_PER_PAGE :: nat where
  "ENTRIES_PER_PAGE = 205"

definition tiers :: "string list" where
  "tiers = PAGED_TIERS @ APEX_TIERS"

definition is_tier :: "string \<Rightarrow> bool" where
  "is_tier tier = list_ex (\<lambda>t. t = tier) tiers"

definition tiers_at_or_above :: "string \<Rightarrow> string list" where
  "tiers_at_or_above floor_tier = dropWhile (\<lambda>t. t \<noteq> floor_tier) tiers"

definition queue_id :: "string \<Rightarrow> nat option" where
  "queue_id queue = map_option snd (find (\<lambda>(q, _). q = queue) QUEUE_IDS)"

definition apex_endpoint :: "string \<Rightarrow> string option" where
  "apex_endpoint tier =
     (if tier = ''MASTER'' then Some ''league.master''
      else if tier = ''GRANDMASTER'' then Some ''league.grandmaster''
      else if tier = ''CHALLENGER'' then Some ''league.challenger''
      else None)"

section \<open>Lemmas\<close>

lemma PLATFORMS_all [simp]: "p \<in> set PLATFORMS"
  by (cases p) (simp_all add: PLATFORMS_def)

lemma REGIONS_all [simp]: "r \<in> set REGIONS"
  by (cases r) (simp_all add: REGIONS_def)

lemma platform_as_str_inj [simp]: "platform_as_str p = platform_as_str q \<longleftrightarrow> p = q"
  by (cases p; cases q) simp_all

lemma region_as_str_inj [simp]: "region_as_str p = region_as_str q \<longleftrightarrow> p = q"
  by (cases p; cases q) simp_all

text \<open>Looking a value up by an injective name.\<close>

lemma find_by_name:
  assumes "\<And>x y. name x = name y \<longleftrightarrow> x = y" "\<And>x. x \<in> set xs"
  shows "find (\<lambda>x. name x = s) xs = Some x \<longleftrightarrow> name x = s"
proof
  assume "find (\<lambda>x. name x = s) xs = Some x"
  then show "name x = s"
    by (auto simp: find_Some_iff)
next
  assume s: "name x = s"
  then obtain y where y: "find (\<lambda>x. name x = s) xs = Some y"
    using assms(2) [of x] by (cases "find (\<lambda>x. name x = s) xs") (auto simp: find_None_iff)
  then have "name y = s"
    by (auto simp: find_Some_iff)
  then show "find (\<lambda>x. name x = s) xs = Some x"
    using y s assms(1) by metis
qed

lemma platform_parse_Inr: "platform_parse s = Inr p \<longleftrightarrow> lowercase s = platform_as_str p"
  using find_by_name [OF platform_as_str_inj PLATFORMS_all, of "lowercase s" p]
  by (cases "find (\<lambda>p. platform_as_str p = lowercase s) PLATFORMS") (auto simp: platform_parse_def)

lemma region_parse_Inr: "region_parse s = Inr r \<longleftrightarrow> lowercase s = region_as_str r"
  using find_by_name [OF region_as_str_inj REGIONS_all, of "lowercase s" r]
  by (cases "find (\<lambda>r. region_as_str r = lowercase s) REGIONS") (auto simp: region_parse_def)

lemma lowercase_platform [simp]: "lowercase (platform_as_str p) = platform_as_str p"
  by (cases p) (simp_all add: lowercase_def lower_char_def is_upper_def)

lemma platform_from_match_id_Some:
  "platform_from_match_id m = Some p \<longleftrightarrow>
     (\<exists>a b. m = a @ CHR ''_'' # b \<and> CHR ''_'' \<notin> set a \<and> lowercase a = platform_as_str p)"
proof (cases "split_once CHR ''_'' m")
  case None
  then have "CHR ''_'' \<notin> set m"
    by (simp add: split_once_None)
  then show ?thesis
    by (auto simp: platform_from_match_id_def None)
next
  case (Some ab)
  obtain a b where ab: "ab = (a, b)"
    by fastforce
  have "(\<exists>a b. m = a @ CHR ''_'' # b \<and> CHR ''_'' \<notin> set a \<and> lowercase a = platform_as_str p) \<longleftrightarrow>
      lowercase a = platform_as_str p"
    using Some by (metis ab split_once_Some option.inject prod.inject)
  then show ?thesis
    using platform_parse_Inr [of a p]
    by (cases "platform_parse a") (auto simp: platform_from_match_id_def Some ab)
qed

section \<open>Properties\<close>

text \<open>Parsing a platform or a region accepts exactly the spellings that are its name up to ASCII case,
  and every other text is the \<open>BAD_REGION\<close> error with status 400.\<close>

theorem routing_parse_exact:
  "(platform_parse s = Inr p \<longleftrightarrow> lowercase s = platform_as_str p) \<and>
   (region_parse s = Inr r \<longleftrightarrow> lowercase s = region_as_str r) \<and>
   (case platform_parse s of Inl e \<Rightarrow> code e = BadRegion \<and> status e = 400 | Inr _ \<Rightarrow> True) \<and>
   (case region_parse s of Inl e \<Rightarrow> code e = BadRegion \<and> status e = 400 | Inr _ \<Rightarrow> True)"
  by (simp add: platform_parse_Inr region_parse_Inr)
    (simp add: platform_parse_def region_parse_def bad_region_def split: option.splits)

end
