(* ===== verification/F64.thy ===== *)
theory F64
  imports Text_Ops "HOL-Library.Log_Nat"
begin

text \<open>
  Rust's \<^verbatim>\<open>f64\<close> arithmetic, as far as the sources use it: IEEE 754 binary64 with rounding to
  nearest, ties to even. A value is the rational number it denotes, and every operation is the
  exact operation followed by \<open>f64_round\<close>. The values the program forms (shares of a limit,
  jitter factors, seconds) are far inside the normal range, so overflow to infinity and
  subnormal numbers are not modelled.

  The clients rely on two laws only, the locale \<open>float_rounding\<close>; \<open>f64_round\<close> satisfies it.
\<close>

type_synonym f64 = rat

definition round_half_even :: "rat \<Rightarrow> int" where
  "round_half_even x =
     (let f = \<lfloor>x\<rfloor>; r = x - of_int f in
      if r < 1/2 then f else if r > 1/2 then f + 1 else if even f then f else f + 1)"

text \<open>The binary exponent of a positive rational.\<close>

definition floor_log2 :: "rat \<Rightarrow> int" where
  "floor_log2 x =
     (let (a, b) = quotient_of x; e = bitlen a - bitlen b in
      if 2 powi e \<le> x then e else e - 1)"

definition f64_round_pos :: "rat \<Rightarrow> f64" where
  "f64_round_pos x =
     (let u = 2 powi (floor_log2 x - 52) in of_int (round_half_even (x / u)) * u)"

definition f64_round :: "rat \<Rightarrow> f64" where
  "f64_round x =
     (if x = 0 then 0 else if 0 < x then f64_round_pos x else - f64_round_pos (- x))"

definition f64_mul :: "f64 \<Rightarrow> f64 \<Rightarrow> f64" where
  "f64_mul a b = f64_round (a * b)"

definition f64_add :: "f64 \<Rightarrow> f64 \<Rightarrow> f64" where
  "f64_add a b = f64_round (a + b)"

definition f64_div :: "f64 \<Rightarrow> f64 \<Rightarrow> f64" where
  "f64_div a b = f64_round (a / b)"

text \<open>\<^verbatim>\<open>x as u32\<close> of a non-negative value: truncation, saturating.\<close>

definition f64_as_u32 :: "f64 \<Rightarrow> nat" where
  "f64_as_u32 x = sat_u32 (nat \<lfloor>x\<rfloor>)"

text \<open>
  \<^verbatim>\<open>str::parse::<f64>\<close>: an optional sign, then \<open>inf\<close>, \<open>infinity\<close> or \<open>nan\<close> in any case, or digits with an
  optional point (one digit at least) and an optional exponent. The nearest double of a value at or beyond
  \<open>2^1024 - 2^970\<close> is infinite.
\<close>

datatype parsed_f64 = Finite f64 | Not_finite

definition parse_sign :: "string \<Rightarrow> bool \<times> string" where
  "parse_sign s =
     (case s of
        c # cs \<Rightarrow> if c = CHR ''-'' then (True, cs) else if c = CHR ''+'' then (False, cs) else (False, s)
      | [] \<Rightarrow> (False, s))"

definition parse_exponent :: "string \<Rightarrow> int option" where
  "parse_exponent s =
     (if s = [] then Some 0
      else if lower_char (hd s) = CHR ''e'' then
        (case parse_sign (tl s) of (neg, ds) \<Rightarrow>
           if ds \<noteq> [] \<and> list_all is_digit ds then Some (if neg then - int (digits_val ds) else int (digits_val ds)) else None)
      else None)"

definition parse_f64 :: "string \<Rightarrow> parsed_f64 option" where
  "parse_f64 s =
     (case parse_sign s of (neg, t) \<Rightarrow>
        if lowercase t = ''inf'' \<or> lowercase t = ''infinity'' \<or> lowercase t = ''nan'' then Some Not_finite
        else
          let whole = takeWhile is_digit t; t1 = dropWhile is_digit t;
              t2 = (if starts_char CHR ''.'' t1 then tl t1 else t1);
              frac = (if starts_char CHR ''.'' t1 then takeWhile is_digit t2 else []);
              t3 = (if starts_char CHR ''.'' t1 then dropWhile is_digit t2 else t1) in
          if whole = [] \<and> frac = [] then None
          else
            (case parse_exponent t3 of
               None \<Rightarrow> None
             | Some e \<Rightarrow>
                 let x = of_nat (digits_val (whole @ frac)) * 10 powi (e - int (length frac)) in
                 Some (if x \<ge> 2 ^ 1024 - 2 ^ 970 then Not_finite else Finite (f64_round (if neg then - x else x)))))"

text \<open>\<^verbatim>\<open>x as u64\<close> of a non-negative value.\<close>

definition f64_as_u64 :: "f64 \<Rightarrow> nat" where
  "f64_as_u64 x = min (nat \<lfloor>x\<rfloor>) u64_max"

section \<open>The laws\<close>

locale float_rounding =
  fixes rnd :: "rat \<Rightarrow> rat"
  assumes rnd_mono: "x \<le> y \<Longrightarrow> rnd x \<le> rnd y"
    and rnd_nat: "n \<le> 2 ^ 53 \<Longrightarrow> rnd (of_nat n) = of_nat n"
begin

lemma share_le: "n \<le> 2 ^ 53 \<Longrightarrow> c \<le> 1 \<Longrightarrow> rnd (of_nat n * c) \<le> of_nat n"
  using rnd_mono [of "of_nat n * c" "of_nat n"] rnd_nat [of n] mult_left_le [of c "of_nat n"]
  by (simp add: mult.commute)

lemma share_nonneg: "0 \<le> c \<Longrightarrow> 0 \<le> rnd (of_nat n * c)"
  using rnd_mono [of 0 "of_nat n * c"] rnd_nat [of 0] by simp

lemma share_mono: "c \<le> d \<Longrightarrow> rnd (of_nat n * c) \<le> rnd (of_nat n * d)"
  by (intro rnd_mono mult_left_mono) auto

end

section \<open>Rounding to an integer\<close>

lemma round_half_even_bounds: "\<lfloor>x\<rfloor> \<le> round_half_even x" "round_half_even x \<le> \<lfloor>x\<rfloor> + 1"
  by (auto simp: round_half_even_def Let_def)

lemma round_half_even_of_int [simp]: "round_half_even (of_int n) = n"
  by (simp add: round_half_even_def)

lemma round_half_even_mono:
  assumes "x \<le> y"
  shows "round_half_even x \<le> round_half_even y"
proof (cases "\<lfloor>x\<rfloor> = \<lfloor>y\<rfloor>")
  case True
  then show ?thesis
    using assms by (auto simp: round_half_even_def Let_def)
next
  case False
  then have "\<lfloor>x\<rfloor> + 1 \<le> \<lfloor>y\<rfloor>"
    using floor_mono [OF assms] by linarith
  then show ?thesis
    using round_half_even_bounds [of x] round_half_even_bounds [of y] by linarith
qed

section \<open>The exponent\<close>

lemma powi_2_mono: "a \<le> b \<Longrightarrow> (2 :: rat) powi a \<le> 2 powi b"
  by (simp add: power_int_increasing)

lemma powi_2_pos [simp]: "0 < (2 :: rat) powi a"
  by simp

lemma bitlen_powi:
  assumes "0 < a"
  shows "2 powi (bitlen a - 1) \<le> (of_int a :: rat)" "(of_int a :: rat) < 2 powi bitlen a"
proof -
  have b: "2 ^ nat (bitlen a - 1) \<le> a \<and> a < 2 ^ nat (bitlen a)"
    by (rule bitlen_bounds [OF assms])
  have p: "0 < bitlen a"
    using b assms bitlen_nonneg [of a] by (cases "bitlen a = 0") auto
  have "(of_int (2 ^ nat (bitlen a - 1)) :: rat) \<le> of_int a"
    using b by (simp only: of_int_le_iff)
  then show "2 powi (bitlen a - 1) \<le> (of_int a :: rat)"
    using p by (simp add: power_int_def)
  have "(of_int a :: rat) < of_int (2 ^ nat (bitlen a))"
    using b by (simp only: of_int_less_iff)
  then show "(of_int a :: rat) < 2 powi bitlen a"
    using p by (simp add: power_int_def)
qed

lemma floor_log2_bounds:
  assumes "0 < x"
  shows "2 powi floor_log2 x \<le> x" "x < 2 powi (floor_log2 x + 1)"
proof -
  obtain a b where q: "quotient_of x = (a, b)"
    by fastforce
  have b: "0 < b" and x: "x = of_int a / of_int b"
    using quotient_of_denom_pos [OF q] quotient_of_div [OF q] by auto
  then have a: "0 < a"
    using assms by (simp add: zero_less_divide_iff)
  define e where "e = bitlen a - bitlen b"
  have "2 powi (bitlen a - 1) / 2 powi bitlen b < x"
    unfolding x using bitlen_powi [OF a] bitlen_powi [OF b] b
    by (intro frac_less2) auto
  then have lo: "2 powi (e - 1) \<le> x"
    by (simp add: e_def algebra_simps flip: power_int_diff)
  have "x < 2 powi bitlen a / 2 powi (bitlen b - 1)"
    unfolding x using bitlen_powi [OF a] bitlen_powi [OF b] a
    by (intro frac_less) auto
  then have hi: "x < 2 powi (e + 1)"
    by (simp add: e_def algebra_simps flip: power_int_diff)
  show "2 powi floor_log2 x \<le> x" "x < 2 powi (floor_log2 x + 1)"
    using lo hi by (auto simp: floor_log2_def q Let_def simp flip: e_def)
qed

lemma powi_2_less_iff: "(2 :: rat) powi a < 2 powi b \<longleftrightarrow> a < b"
  using power_int_strict_increasing [of a b "2 :: rat"] power_int_increasing [of b a "2 :: rat"]
  by fastforce

lemma floor_log2_mono:
  assumes "0 < x" "x \<le> y"
  shows "floor_log2 x \<le> floor_log2 y"
proof -
  have "(2 :: rat) powi floor_log2 x < 2 powi (floor_log2 y + 1)"
    using floor_log2_bounds [of x] floor_log2_bounds [of y] assms by linarith
  then show ?thesis
    by (simp add: powi_2_less_iff)
qed

section \<open>The rounding\<close>

lemma f64_round_pos_binade:
  assumes "0 < x"
  shows "2 powi floor_log2 x \<le> f64_round_pos x" "f64_round_pos x \<le> 2 powi (floor_log2 x + 1)"
proof -
  define e where "e = floor_log2 x"
  define u :: rat where "u = 2 powi (e - 52)"
  have u: "0 < u" "2 powi e = of_int (2 ^ 52) * u" "2 powi (e + 1) = of_int (2 ^ 53) * u"
    by (simp_all add: u_def power_int_diff power_int_add)
  have "of_int (2 ^ 52) \<le> x / u" "x / u \<le> of_int (2 ^ 53)"
    using floor_log2_bounds [OF assms] u by (simp_all add: field_simps flip: e_def)
  then have "2 ^ 52 \<le> round_half_even (x / u)" "round_half_even (x / u) \<le> 2 ^ 53"
    using round_half_even_mono [of "of_int (2 ^ 52)" "x / u"]
      round_half_even_mono [of "x / u" "of_int (2 ^ 53)"] by (metis round_half_even_of_int)+
  then have "(of_int (2 ^ 52) :: rat) \<le> of_int (round_half_even (x / u))"
    "(of_int (round_half_even (x / u)) :: rat) \<le> of_int (2 ^ 53)"
    by (simp_all only: of_int_le_iff)
  then show "2 powi floor_log2 x \<le> f64_round_pos x" "f64_round_pos x \<le> 2 powi (floor_log2 x + 1)"
    using u by (simp_all add: f64_round_pos_def Let_def flip: e_def u_def)
qed

lemma f64_round_pos_mono:
  assumes "0 < x" "x \<le> y"
  shows "f64_round_pos x \<le> f64_round_pos y"
proof (cases "floor_log2 x = floor_log2 y")
  case True
  define u :: rat where "u = 2 powi (floor_log2 y - 52)"
  have u: "0 < u"
    by (simp add: u_def)
  have "round_half_even (x / u) \<le> round_half_even (y / u)"
    using assms(2) u by (intro round_half_even_mono divide_right_mono) auto
  then show ?thesis
    using u True by (simp add: f64_round_pos_def Let_def flip: u_def)
next
  case False
  then have "floor_log2 x + 1 \<le> floor_log2 y"
    using floor_log2_mono [OF assms] by linarith
  then have "(2 :: rat) powi (floor_log2 x + 1) \<le> 2 powi floor_log2 y"
    by (rule powi_2_mono)
  then show ?thesis
    using f64_round_pos_binade [of x] f64_round_pos_binade [of y] assms by linarith
qed

lemma f64_round_pos_pos: "0 < x \<Longrightarrow> 0 < f64_round_pos x"
  using f64_round_pos_binade(1) [of x] powi_2_pos [of "floor_log2 x"] by linarith

lemma f64_round_mono: "x \<le> y \<Longrightarrow> f64_round x \<le> f64_round y"
  using f64_round_pos_mono [of x y] f64_round_pos_mono [of "- y" "- x"]
    f64_round_pos_pos [of y] f64_round_pos_pos [of "- x"]
  by (auto simp: f64_round_def)

lemma f64_round_nat:
  assumes "n \<le> 2 ^ 53"
  shows "f64_round (of_nat n) = of_nat n"
proof (cases "n = 0")
  case False
  define e where "e = floor_log2 (of_nat n)"
  have bounds: "2 powi e \<le> (of_nat n :: rat)" "(of_nat n :: rat) < 2 powi (e + 1)"
    using False floor_log2_bounds [of "of_nat n"] by (simp_all add: e_def)
  have "1 < (2 :: rat) powi (e + 1)"
    using bounds(2) False by (simp add: less_le_trans)
  then have e0: "0 \<le> e"
    using powi_2_less_iff [of 0 "e + 1"] by simp
  have "(2 :: rat) powi e < 2 powi 54"
    using bounds(1) assms by (rule_tac le_less_trans) (auto simp: power_int_def)
  then have e53: "e \<le> 53"
    by (simp only: powi_2_less_iff)
  have "\<exists>m :: int. (of_nat n :: rat) / 2 powi (e - 52) = of_int m"
  proof (cases "e \<le> 52")
    case True
    have "(of_nat n :: rat) / 2 powi (e - 52) = of_nat n * 2 powi (52 - e)"
      using power_int_minus [of "2 :: rat" "52 - e"] by (simp add: field_simps)
    also have "\<dots> = of_int (int n * 2 ^ nat (52 - e))"
      using True by (simp add: power_int_def)
    finally show ?thesis by blast
  next
    case False
    then have "e = 53"
      using e53 by simp
    then have "n = 2 ^ 53"
      using bounds(1) assms by (simp add: power_int_def)
    then show ?thesis
      using \<open>e = 53\<close> by (intro exI [of _ "2 ^ 52"]) simp
  qed
  then obtain m :: int where m: "(of_nat n :: rat) / 2 powi (e - 52) = of_int m"
    by blast
  then have "f64_round_pos (of_nat n) = of_int m * 2 powi (e - 52)"
    by (simp add: f64_round_pos_def Let_def flip: e_def)
  also have "\<dots> = of_nat n"
    by (simp flip: m)
  finally show ?thesis
    using False by (simp add: f64_round_def)
qed (simp add: f64_round_def)

interpretation ieee: float_rounding f64_round
  by unfold_locales (fact f64_round_mono f64_round_nat)+

end
