(* ===== verification/Endpoints.thy ===== *)
theory Endpoints
  imports Routing F64
begin

text \<open>
  The registry of Riot methods, \<^verbatim>\<open>src/riot/endpoints.rs\<close>: each method's host family, path template, cache
  times and override key, the building and reading of paths, and the times in force under the running
  configuration. A \<^verbatim>\<open>Duration\<close> that would overflow panics in Rust, so \<open>ttls\<close> is an option.

  The lemmas show that a path leads back to its method and its values, that no two methods share a path,
  that account methods never go to \<open>sea\<close>, and which times a configuration gives.
\<close>

section \<open>The registry\<close>

definition STALE_MULTIPLIER :: nat where
  "STALE_MULTIPLIER = 4"

datatype host_kind = OnPlatform | Regional | OnAccount

datatype neg_ttl = NoNeg | NegDefault | NegAccount

record endpoint =
  ep_id :: string
  ep_host :: host_kind
  path_template :: string
  ep_query :: "string list"
  method_scope_key :: string
  override_key :: string
  soft_ttl :: "duration option"
  persist_l2 :: bool
  immutable :: bool
  ep_negative :: neg_ttl

definition secs :: "nat \<Rightarrow> duration option" where
  "secs s = Some (of_secs s)"

definition ep ::
  "string \<Rightarrow> host_kind \<Rightarrow> string \<Rightarrow> string list \<Rightarrow> string \<Rightarrow> duration option \<Rightarrow> bool \<Rightarrow> neg_ttl \<Rightarrow> endpoint" where
  "ep i host tpl query key soft l2 neg =
     \<lparr>ep_id = i, ep_host = host, path_template = tpl, ep_query = query, method_scope_key = i,
      override_key = key, soft_ttl = soft, persist_l2 = l2, immutable = (soft = None), ep_negative = neg\<rparr>"

definition ENDPOINTS_HEAD :: "endpoint list" where
  "ENDPOINTS_HEAD = [
     ep ''account.byRiotId'' OnAccount ''/riot/account/v1/accounts/by-riot-id/{gameName}/{tagLine}'' [] ''account'' (secs 86400) True NegAccount,
     ep ''account.byPuuid'' OnAccount ''/riot/account/v1/accounts/by-puuid/{puuid}'' [] ''account'' (secs 86400) True NegAccount,
     ep ''summoner.byPuuid'' OnPlatform ''/lol/summoner/v4/summoners/by-puuid/{puuid}'' [] ''summoner'' (secs 3600) True NegDefault,
     ep ''league.entriesByPuuid'' OnPlatform ''/lol/league/v4/entries/by-puuid/{puuid}'' [] ''league'' (secs 300) False NegDefault,
     ep ''league.challenger'' OnPlatform ''/lol/league/v4/challengerleagues/by-queue/{queue}'' [] ''ladder'' (secs 120) True NoNeg,
     ep ''league.grandmaster'' OnPlatform ''/lol/league/v4/grandmasterleagues/by-queue/{queue}'' [] ''ladder'' (secs 120) True NoNeg,
     ep ''league.master'' OnPlatform ''/lol/league/v4/masterleagues/by-queue/{queue}'' [] ''ladder'' (secs 120) True NoNeg,
     ep ''league.entriesByTier'' OnPlatform ''/lol/league/v4/entries/{queue}/{tier}/{division}'' [''page''] ''ladder'' (secs 120) True NoNeg,
     ep ''match.idsByPuuid'' Regional ''/lol/match/v5/matches/by-puuid/{puuid}/ids'' [''start'', ''count'', ''queue'', ''type'', ''startTime'', ''endTime''] ''matchIds'' (secs 120) False NegDefault]"

definition ENDPOINTS_TAIL :: "endpoint list" where
  "ENDPOINTS_TAIL = [
     ep ''match.byId'' Regional ''/lol/match/v5/matches/{matchId}'' [] ''match'' None False NegDefault,
     ep ''match.timeline'' Regional ''/lol/match/v5/matches/{matchId}/timeline'' [] ''timeline'' None False NegDefault,
     ep ''spectator.activeGame'' OnPlatform ''/lol/spectator/v5/active-games/by-summoner/{puuid}'' [] ''spectator'' (secs 30) False NegDefault,
     ep ''mastery.byPuuid'' OnPlatform ''/lol/champion-mastery/v4/champion-masteries/by-puuid/{puuid}'' [] ''mastery'' (secs 3600) True NegDefault,
     ep ''mastery.topByPuuid'' OnPlatform ''/lol/champion-mastery/v4/champion-masteries/by-puuid/{puuid}/top'' [''count''] ''mastery'' (secs 3600) True NegDefault,
     ep ''platform.championRotations'' OnPlatform ''/lol/platform/v3/champion-rotations'' [] ''rotations'' (secs 21600) False NoNeg,
     ep ''status.platformData'' OnPlatform ''/lol/status/v4/platform-data'' [] ''status'' (secs 60) False NoNeg,
     ep ''league.expEntries'' OnPlatform ''/lol/league-exp/v4/entries/{queue}/{tier}/{division}'' [''page''] ''ladder'' (secs 120) False NoNeg,
     ep ''account.regionByPuuid'' OnAccount ''/riot/account/v1/region/by-game/{game}/by-puuid/{puuid}'' [] ''account'' (secs 86400) True NegAccount]"

definition ENDPOINTS :: "endpoint list" where
  "ENDPOINTS = ENDPOINTS_HEAD @ ENDPOINTS_TAIL"

definition V2_ADDED :: "string list" where
  "V2_ADDED = [''league.expEntries'', ''account.regionByPuuid'']"

datatype path_error = Arity string nat nat

datatype target = TPlatform platform | TRegion region

fun target_host :: "target \<Rightarrow> string" where
  "target_host (TPlatform p) = platform_host p"
| "target_host (TRegion r) = region_host r"

fun target_scope :: "target \<Rightarrow> string" where
  "target_scope (TPlatform p) = platform_as_str p"
| "target_scope (TRegion r) = region_as_str r"

definition by_id :: "string \<Rightarrow> endpoint option" where
  "by_id i = List.find (\<lambda>e. ep_id e = i) ENDPOINTS"

section \<open>Paths\<close>

definition is_param :: "string \<Rightarrow> bool" where
  "is_param t = (starts_char CHR ''{'' t \<and> ends_char CHR ''}'' t)"

fun parse_segments :: "(string \<times> string) list \<Rightarrow> string list \<Rightarrow> string list option" where
  "parse_segments [] params = Some params"
| "parse_segments ((t, g) # rest) params =
     (if is_param t then (if g = [] then None else parse_segments rest (params @ [g]))
      else if t \<noteq> g then None else parse_segments rest params)"

definition parse_path :: "endpoint \<Rightarrow> string \<Rightarrow> string list option" where
  "parse_path e p =
     (let tpl = split_on CHR ''/'' (path_template e); got = split_on CHR ''/'' p in
      if length tpl \<noteq> length got then None else parse_segments (zip tpl got) [])"

definition param_name :: "string \<Rightarrow> string option" where
  "param_name seg = Option.bind (strip_prefix ''{'' seg) (strip_suffix ''}'')"

definition path_params :: "endpoint \<Rightarrow> string list" where
  "path_params e = List.map_filter param_name (split_on CHR ''/'' (path_template e))"

definition unreserved :: "nat \<Rightarrow> bool" where
  "unreserved b = (is_alnum (char_of b) \<or> char_of b \<in> set (''-_.!~*()'' @ [CHR 0x27]))"

definition encode_byte :: "nat \<Rightarrow> string" where
  "encode_byte b = (if unreserved b then [char_of b] else [CHR ''%'', hex_upper (b div 16), hex_upper (b mod 16)])"

definition encode_component :: "string \<Rightarrow> string" where
  "encode_component value = concat (map encode_byte (utf8 value))"

text \<open>The closure over the iterator of values: a segment that opens a brace takes the next one.\<close>

fun fill :: "string list \<Rightarrow> string list \<Rightarrow> string list" where
  "fill [] values = []"
| "fill (seg # segs) values =
     (if starts_char CHR ''{'' seg then
        (case values of [] \<Rightarrow> [] # fill segs [] | v # vs \<Rightarrow> encode_component v # fill segs vs)
      else seg # fill segs values)"

definition path :: "endpoint \<Rightarrow> string list \<Rightarrow> path_error + string" where
  "path e values =
     (let expected = length (path_params e) in
      if length values \<noteq> expected then Inl (Arity (ep_id e) expected (length values))
      else Inr (join ''/'' (fill (split_on CHR ''/'' (path_template e)) values)))"

definition target_for_platform :: "endpoint \<Rightarrow> platform \<Rightarrow> target" where
  "target_for_platform e p =
     (case ep_host e of
        OnPlatform \<Rightarrow> TPlatform p
      | Regional \<Rightarrow> TRegion (platform_region p)
      | OnAccount \<Rightarrow> TRegion (platform_account_region p))"

definition target_for_region :: "endpoint \<Rightarrow> region \<Rightarrow> target option" where
  "target_for_region e r =
     (case ep_host e of
        OnPlatform \<Rightarrow> None
      | Regional \<Rightarrow> Some (TRegion r)
      | OnAccount \<Rightarrow> Some (TRegion (region_account_region r)))"

section \<open>Cache times\<close>

text \<open>A \<^verbatim>\<open>BTreeMap\<close> is an association list; its iteration order is the order of its keys.\<close>

definition override_of :: "string \<Rightarrow> (string \<times> nat) option" where
  "override_of pair =
     (case split_once CHR ''='' (trim pair) of
        None \<Rightarrow> None
      | Some (k, v) \<Rightarrow>
          if trim k = [] then None
          else
            (case parse_f64 (trim v) of
               Some (Finite seconds) \<Rightarrow> if seconds \<ge> 0 then Some (trim k, f64_as_u64 seconds) else None
             | _ \<Rightarrow> None))"

definition parse_ttl_overrides :: "string \<Rightarrow> (string \<times> nat) list" where
  "parse_ttl_overrides csv =
     fold (\<lambda>pair out. case override_of pair of None \<Rightarrow> out | Some (k, s) \<Rightarrow> AList.update k s out) (split_on CHR '','' csv) []"

record ttl_times =
  t_soft :: "duration option"
  t_hard :: "duration option"
  t_negative :: "duration option"

record ttl_policy =
  overrides :: "(string \<times> nat) list"
  neg_default :: duration
  neg_account :: duration
  stale_while_revalidate :: bool

text \<open>The fields of the configuration are the arguments.\<close>

definition ttl_policy_from_config :: "string \<Rightarrow> nat \<Rightarrow> nat \<Rightarrow> bool \<Rightarrow> ttl_policy" where
  "ttl_policy_from_config cache_ttl_overrides neg_ttl_seconds neg_ttl_account_seconds swr =
     \<lparr>overrides = parse_ttl_overrides cache_ttl_overrides, neg_default = of_secs neg_ttl_seconds,
      neg_account = of_secs neg_ttl_account_seconds, stale_while_revalidate = swr\<rparr>"

text \<open>\<^verbatim>\<open>Duration * u32\<close>: panics when the seconds no longer fit.\<close>

definition duration_max :: duration where
  "duration_max = of_secs u64_max + 999999999"

definition duration_mul :: "duration \<Rightarrow> nat \<Rightarrow> duration option" where
  "duration_mul d n = (if d * n \<le> duration_max then Some (d * n) else None)"

definition ttls :: "ttl_policy \<Rightarrow> endpoint \<Rightarrow> ttl_times option" where
  "ttls pol e =
     (let soft = map_option (\<lambda>ttl. case map_of (overrides pol) (override_key e) of None \<Rightarrow> ttl | Some s \<Rightarrow> of_secs s) (soft_ttl e);
          multiplier = (if stale_while_revalidate pol then STALE_MULTIPLIER else 1);
          negative = (case ep_negative e of NoNeg \<Rightarrow> None | NegDefault \<Rightarrow> Some (neg_default pol) | NegAccount \<Rightarrow> Some (neg_account pol)) in
      (case soft of
         None \<Rightarrow> Some \<lparr>t_soft = None, t_hard = None, t_negative = negative\<rparr>
       | Some s \<Rightarrow> map_option (\<lambda>h. \<lparr>t_soft = Some s, t_hard = Some h, t_negative = negative\<rparr>) (duration_mul s multiplier)))"

definition ineffective_overrides :: "ttl_policy \<Rightarrow> string list" where
  "ineffective_overrides pol =
     filter (\<lambda>k. \<not> list_ex (\<lambda>e. override_key e = k \<and> \<not> immutable e) ENDPOINTS) (sort (map fst (overrides pol)))"

section \<open>The templates\<close>

text \<open>Two templates are apart when their lengths differ or some segment is a different literal in each.\<close>

definition apart :: "string \<Rightarrow> string \<Rightarrow> bool" where
  "apart t t' =
     (let tpl = split_on CHR ''/'' t; tpl' = split_on CHR ''/'' t' in
      length tpl \<noteq> length tpl' \<or>
      list_ex (\<lambda>(t, u). \<not> is_param t \<and> \<not> is_param u \<and> t \<noteq> u) (zip tpl tpl'))"

fun pairwise_apart :: "string list \<Rightarrow> bool" where
  "pairwise_apart [] = True"
| "pairwise_apart (t # ts) = (list_all (apart t) ts \<and> pairwise_apart ts)"

lemma ep_sel: "ep_id (ep i h t q k s l n) = i" "path_template (ep i h t q k s l n) = t"
  by (simp_all add: ep_def)

lemmas registry = ENDPOINTS_def ENDPOINTS_HEAD_def ENDPOINTS_TAIL_def map_append list.map append.simps ep_sel

lemma ids_distinct: "distinct (map ep_id ENDPOINTS)"
  unfolding registry by code_simp

lemma templates_braced:
  "list_all (\<lambda>t. list_all (\<lambda>t. starts_char CHR ''{'' t = is_param t) (split_on CHR ''/'' t)) (map path_template ENDPOINTS)"
  unfolding registry by code_simp

lemma templates_apart: "pairwise_apart (map path_template ENDPOINTS)"
  unfolding registry by code_simp

lemma apart_nth:
  "apart t t' \<longleftrightarrow>
     (let tpl = split_on CHR ''/'' t; tpl' = split_on CHR ''/'' t' in
      length tpl = length tpl' \<longrightarrow>
      (\<exists>i < length tpl. \<not> is_param (tpl ! i) \<and> \<not> is_param (tpl' ! i) \<and> tpl ! i \<noteq> tpl' ! i))"
  unfolding apart_def Let_def list_ex_iff set_zip by fastforce

lemma apart_sym: "apart t t' \<Longrightarrow> apart t' t"
  unfolding apart_nth Let_def by metis

lemma pairwise_apart_map:
  assumes "pairwise_apart (map f xs)" "x \<in> set xs" "y \<in> set xs"
  shows "x = y \<or> apart (f x) (f y)"
  using assms
proof (induction xs)
  case (Cons a xs)
  then have "\<forall>z \<in> set xs. apart (f a) (f z)"
    by (simp add: list_all_iff)
  then show ?case
    using Cons apart_sym by (cases "x = a"; cases "y = a") auto
qed simp

lemma is_param_name: "is_param t \<longleftrightarrow> param_name t \<noteq> None"
proof -
  have "is_param t \<longleftrightarrow> (\<exists>m. t = CHR ''{'' # m @ ''}'')" (is "_ \<longleftrightarrow> ?braced")
  proof
    assume p: "is_param t"
    then obtain r where r: "t = CHR ''{'' # r"
      by (cases t) (auto simp: is_param_def starts_char_def)
    with p have "r \<noteq> []" "last r = CHR ''}''"
      by (auto simp: is_param_def ends_char_def split: if_splits)
    then show ?braced
      using r append_butlast_last_id [of r] by metis
  qed (auto simp: is_param_def starts_char_def ends_char_def)
  also have "\<dots> \<longleftrightarrow> param_name t \<noteq> None"
    by (auto simp: param_name_def strip_suffix_Some strip_prefix_Some bind_eq_Some_conv)
  finally show ?thesis .
qed

lemma length_params: "length (List.map_filter param_name segs) = length (filter is_param segs)"
  by (induction segs) (auto simp: List.map_filter_simps is_param_name split: option.splits)

section \<open>Encoding\<close>

lemma hex_upper_inj: "a < 16 \<Longrightarrow> b < 16 \<Longrightarrow> hex_upper a = hex_upper b \<Longrightarrow> a = b"
  by (auto simp: hex_upper_def split: if_splits dest: arg_cong [of _ _ "of_char :: char \<Rightarrow> nat"])

lemma percent_reserved: "unreserved b \<Longrightarrow> char_of b \<noteq> CHR ''%''"
proof
  assume "unreserved b" "char_of b = CHR ''%''"
  then have "is_alnum CHR ''%''"
    by (simp add: unreserved_def)
  then show False
    by code_simp
qed

lemma encode_byte_prefix:
  assumes "a < 256" "b < 256" "encode_byte a @ u = encode_byte b @ v"
  shows "a = b"
proof -
  have byte: "char_of a = (char_of b :: char) \<Longrightarrow> a = b"
    using assms(1,2) by (metis mod_less of_char_of)
  show ?thesis
  proof (cases "unreserved a \<or> unreserved b")
    case True
    then show ?thesis
      using assms(3) percent_reserved [of a] percent_reserved [of b] byte by (auto simp: encode_byte_def split: if_splits)
  next
    case False
    then have "hex_upper (a div 16) = hex_upper (b div 16)" "hex_upper (a mod 16) = hex_upper (b mod 16)"
      using assms(3) by (auto simp: encode_byte_def)
    then have "a div 16 = b div 16" "a mod 16 = b mod 16"
      using assms(1,2) by (auto intro!: hex_upper_inj)
    then show ?thesis
      by (metis div_mult_mod_eq)
  qed
qed

lemma encode_component_inj:
  assumes "encode_component v = encode_component w"
  shows "v = w"
proof -
  have "utf8 v = utf8 w"
  proof (rule concat_map_inj [of "{..<256}" encode_byte])
    show "x = y" if "x \<in> {..<256}" "y \<in> {..<256}" "encode_byte x @ u = encode_byte y @ v" for x y u v
      using that encode_byte_prefix by blast
  qed (use assms in \<open>auto simp: encode_component_def encode_byte_def utf8_bytes\<close>)
  then show ?thesis
    by (rule utf8_inj)
qed

lemma encode_component_nonempty: "v \<noteq> [] \<Longrightarrow> encode_component v \<noteq> []"
  using encode_component_inj [of v "[]"] by (auto simp: encode_component_def utf8_def)

text \<open>The characters an encoded value can have; none of them separates anything in a path, query or key.\<close>

definition encode_safe :: "char \<Rightarrow> bool" where
  "encode_safe c = (is_alnum c \<or> c \<in> set (''-_.!~*()%'' @ [CHR 0x27]))"

lemma hex_upper_alnum: "d < 16 \<Longrightarrow> is_alnum (hex_upper d)"
  by (auto simp: hex_upper_def is_alnum_def is_digit_def is_upper_def)

lemma encode_byte_safe: "b < 256 \<Longrightarrow> c \<in> set (encode_byte b) \<Longrightarrow> encode_safe c"
  using less_mult_imp_div_less [of b 16 16] mod_less_divisor [of 16 b]
  by (auto simp: encode_byte_def encode_safe_def unreserved_def hex_upper_alnum split: if_splits)

lemma encode_component_safe: "c \<in> set (encode_component v) \<Longrightarrow> encode_safe c"
  by (auto simp: encode_component_def dest!: utf8_bytes intro: encode_byte_safe)

lemma separators_not_safe:
  "\<not> encode_safe CHR ''/''" "\<not> encode_safe CHR '':''" "\<not> encode_safe CHR ''&''" "\<not> encode_safe CHR ''=''"
  by code_simp+

lemma encode_component_no_slash: "CHR ''/'' \<notin> set (encode_component v)"
  using encode_component_safe separators_not_safe(1) by blast

section \<open>Paths lead back\<close>

lemma length_fill [simp]: "length (fill segs vs) = length segs"
  by (induction segs arbitrary: vs) (auto split: list.splits)

lemma fill_no_slash: "\<forall>s \<in> set segs. CHR ''/'' \<notin> set s \<Longrightarrow> s \<in> set (fill segs vs) \<Longrightarrow> CHR ''/'' \<notin> set s"
  by (induction segs arbitrary: vs) (auto simp: encode_component_no_slash split: list.splits if_splits)

lemma parse_segments_fill:
  assumes "\<forall>s \<in> set segs. starts_char CHR ''{'' s = is_param s" "length vs = length (filter is_param segs)" "[] \<notin> set vs"
  shows "parse_segments (zip segs (fill segs vs)) acc = Some (acc @ map encode_component vs)"
  using assms
proof (induction segs arbitrary: vs acc)
  case (Cons s segs)
  then show ?case
    by (cases vs) (auto simp: encode_component_nonempty split: if_splits)
qed simp

lemma parse_segments_literal:
  "parse_segments ps acc = Some r \<Longrightarrow> (t, g) \<in> set ps \<Longrightarrow> \<not> is_param t \<Longrightarrow> t = g"
  by (induction ps acc rule: parse_segments.induct) (auto split: if_splits)

lemma parse_path_apart:
  assumes "parse_path e p = Some vs" "parse_path e' p = Some vs'"
  shows "\<not> apart (path_template e) (path_template e')"
proof
  assume "apart (path_template e) (path_template e')"
  moreover define tpl tpl' got where "tpl = split_on CHR ''/'' (path_template e)"
    and "tpl' = split_on CHR ''/'' (path_template e')" and "got = split_on CHR ''/'' p"
  moreover have len: "length tpl = length got" "length tpl' = length got"
    using assms by (auto simp: parse_path_def Let_def tpl_def tpl'_def got_def split: if_splits)
  ultimately obtain i where i: "i < length got" "\<not> is_param (tpl ! i)" "\<not> is_param (tpl' ! i)" "tpl ! i \<noteq> tpl' ! i"
    by (auto simp: apart_nth Let_def)
  then have "(tpl ! i, got ! i) \<in> set (zip tpl got)" "(tpl' ! i, got ! i) \<in> set (zip tpl' got)"
    using len by (auto simp: set_zip)
  then have "tpl ! i = got ! i" "tpl' ! i = got ! i"
    using assms i parse_segments_literal
    by (force simp: parse_path_def Let_def tpl_def tpl'_def got_def split: if_splits)+
  then show False
    using i by simp
qed

text \<open>A request's path determines the request: building a method's path from values that are not empty
  and reading it back gives those values, percent-encoded; two different lists of values never give the same
  path, and no other method of the registry recognises it. So a path never answers, or fills the cache, for
  another method or other values.\<close>

theorem path_determines_request:
  assumes "e \<in> set ENDPOINTS" "path e vs = Inr p" "[] \<notin> set vs"
  shows "parse_path e p = Some (map encode_component vs) \<and>
    (\<forall>ws. path e ws = Inr p \<and> [] \<notin> set ws \<longrightarrow> ws = vs) \<and>
    (\<forall>e' \<in> set ENDPOINTS. parse_path e' p \<noteq> None \<longrightarrow> e' = e)"
proof -
  have read: "parse_path e p = Some (map encode_component ws)" if "path e ws = Inr p" "[] \<notin> set ws" for ws
  proof -
    define segs where "segs = split_on CHR ''/'' (path_template e)"
    have p: "p = join ''/'' (fill segs ws)" and ws: "length ws = length (filter is_param segs)"
      using that by (auto simp: path_def path_params_def length_params segs_def Let_def split: if_splits)
    have segs: "\<forall>s \<in> set segs. starts_char CHR ''{'' s = is_param s" "segs \<noteq> []"
      using templates_braced assms(1) by (auto simp: list_all_iff segs_def)
    have "fill segs ws \<noteq> []"
      using segs(2) length_fill [of segs ws] by (metis length_0_conv)
    moreover have "CHR ''/'' \<notin> set s" if "s \<in> set (fill segs ws)" for s
      using fill_no_slash [OF _ that] split_on_parts [where d = "CHR ''/''"] by (auto simp: segs_def)
    ultimately have "split_on CHR ''/'' p = fill segs ws"
      unfolding p by (intro split_on_join) auto
    then show ?thesis
      using parse_segments_fill [OF segs(1) ws that(2), of "[]"] by (simp add: parse_path_def segs_def)
  qed
  have "ws = vs" if "path e ws = Inr p" "[] \<notin> set ws" for ws
    using read [OF that] read [OF assms(2,3)] inj_map_eq_map [of encode_component ws vs]
    by (auto simp: inj_def dest: encode_component_inj)
  moreover have "e' = e" if "e' \<in> set ENDPOINTS" "parse_path e' p \<noteq> None" for e'
    using that parse_path_apart read [OF assms(2,3)] pairwise_apart_map [OF templates_apart assms(1) that(1)] by fastforce
  ultimately show ?thesis
    using read [OF assms(2,3)] by blast
qed

lemma by_id_registry: "e \<in> set ENDPOINTS \<Longrightarrow> by_id (ep_id e) = Some e"
  using ids_distinct by (auto simp: by_id_def find_Some_iff distinct_map inj_on_def in_set_conv_nth distinct_conv_nth)

definition sample_endpoint :: endpoint where
  "sample_endpoint = ep ''match.timeline'' Regional ''/lol/match/v5/matches/{matchId}/timeline'' [] ''timeline'' None False NegDefault"

theorem path_determines_request_witness:
  "path sample_endpoint [''EUW1_1''] = Inr ''/lol/match/v5/matches/EUW1_1/timeline'' \<and>
   parse_path sample_endpoint ''/lol/match/v5/matches/EUW1_1/timeline'' = Some [encode_component ''EUW1_1'']"
proof -
  have "sample_endpoint \<in> set ENDPOINTS"
    by (simp add: sample_endpoint_def ENDPOINTS_def ENDPOINTS_TAIL_def)
  moreover have "path sample_endpoint [''EUW1_1''] = Inr ''/lol/match/v5/matches/EUW1_1/timeline''"
    by code_simp
  ultimately show ?thesis
    using path_determines_request [of sample_endpoint "[''EUW1_1'']"] by simp
qed

section \<open>Hosts and times\<close>

lemma account_region_not_sea: "region_account_region r \<noteq> Sea"
  by (cases r) simp_all

text \<open>Where a method goes: a platform method to the platform's own host, a regional one to the platform's
  region, an account one to a region that serves accounts, never \<open>sea\<close>; and a method can be addressed by a
  region exactly when it is not hosted on a platform.\<close>

theorem target_of_method:
  "(case target_for_platform e p of TPlatform q \<Rightarrow> ep_host e = OnPlatform \<and> q = p
    | TRegion r \<Rightarrow> ep_host e \<noteq> OnPlatform \<and> (ep_host e = OnAccount \<and> r \<in> set ACCOUNT_REGIONS \<or> ep_host e = Regional \<and> r = platform_region p)) \<and>
   (case target_for_region e r of None \<Rightarrow> ep_host e = OnPlatform
    | Some t \<Rightarrow> ep_host e \<noteq> OnPlatform \<and> t \<noteq> TPlatform p \<and> (ep_host e = OnAccount \<and> t \<noteq> TRegion Sea \<or> ep_host e = Regional \<and> t = TRegion r))"
  by (cases "ep_host e"; cases p; cases r)
     (simp_all add: target_for_platform_def target_for_region_def platform_account_region_def ACCOUNT_REGIONS_def)

lemma registry_ttls: "e \<in> set ENDPOINTS \<Longrightarrow> soft_ttl e = Some d \<Longrightarrow> d \<le> of_secs 86400"
  by (auto simp: ENDPOINTS_def ENDPOINTS_HEAD_def ENDPOINTS_TAIL_def ep_def secs_def of_secs_def)

lemma registry_immutable: "e \<in> set ENDPOINTS \<Longrightarrow> immutable e \<longleftrightarrow> soft_ttl e = None"
  by (auto simp: ENDPOINTS_def ENDPOINTS_HEAD_def ENDPOINTS_TAIL_def ep_def secs_def)

lemma of_secs_mult: "of_secs (s * n) = n * of_secs s"
  by (simp add: of_secs_def)

lemma duration_mul_secs: "duration_mul (of_secs s) n = (if s * n \<le> u64_max then Some (of_secs (s * n)) else None)"
  by (auto simp: duration_mul_def duration_max_def of_secs_def u64_max_def)

lemma override_of_bound: "override_of pair = Some (k, s) \<Longrightarrow> s \<le> u64_max"
  by (auto simp: override_of_def f64_as_u64_def split: option.splits prod.splits if_splits parsed_f64.splits)

lemma override_bound:
  assumes "map_of (parse_ttl_overrides csv) k = Some s"
  shows "s \<le> u64_max"
proof -
  define put where "put = (\<lambda>pair out. case override_of pair of None \<Rightarrow> out | Some (k, s) \<Rightarrow> AList.update k s out)"
  have "map_of (fold put ps out) k = Some s \<Longrightarrow> \<forall>s. map_of out k = Some s \<longrightarrow> s \<le> u64_max \<Longrightarrow> s \<le> u64_max" for ps out
  proof (induction ps arbitrary: out)
    case (Cons pair ps)
    have "\<forall>s. map_of (put pair out) k = Some s \<longrightarrow> s \<le> u64_max"
      using Cons.prems(2) override_of_bound [of pair]
      by (auto simp: put_def update_conv' split: option.splits prod.splits if_splits)
    then show ?case
      using Cons by simp
  qed simp
  then show ?thesis
    using assms unfolding parse_ttl_overrides_def put_def [symmetric] by simp
qed

text \<open>The times in force for a method of the registry: an immutable method has none; any other is fresh for
  its override's seconds, or its own time without one, and servable as stale for four times that when stale
  answers are on, never less than the fresh time. The computation panics exactly when stale answers are on and
  an override names more than a quarter of the largest number of seconds.\<close>

theorem ttls_in_force:
  assumes "e \<in> set ENDPOINTS" "map_of (parse_ttl_overrides csv) (override_key e) = ov"
  shows "case ttls (ttl_policy_from_config csv neg neg_acc swr) e of
      None \<Rightarrow> swr \<and> \<not> immutable e \<and> (\<exists>s. ov = Some s \<and> u64_max < 4 * s)
    | Some t \<Rightarrow>
        (if immutable e then t_soft t = None \<and> t_hard t = None
         else t_soft t = (case ov of None \<Rightarrow> soft_ttl e | Some s \<Rightarrow> Some (of_secs s)) \<and>
           t_hard t = map_option (\<lambda>d. if swr then 4 * d else d) (t_soft t) \<and>
           \<not> (swr \<and> (\<exists>s. ov = Some s \<and> u64_max < 4 * s))) \<and>
        t_negative t = (case ep_negative e of NoNeg \<Rightarrow> None | NegDefault \<Rightarrow> Some (of_secs neg) | NegAccount \<Rightarrow> Some (of_secs neg_acc))"
proof (cases "soft_ttl e")
  case None
  then show ?thesis
    using registry_immutable [OF assms(1)] by (simp add: ttls_def ttl_policy_from_config_def split: neg_ttl.split)
next
  case (Some d)
  have fits: "duration_mul d n = Some (n * d)" if "n \<le> 4" for n
  proof -
    have "d * n \<le> of_secs 86400 * 4"
      using registry_ttls [OF assms(1) Some] that by (rule mult_le_mono)
    also have "\<dots> \<le> duration_max"
      by (simp add: duration_max_def of_secs_def u64_max_def)
    finally show ?thesis
      by (simp add: duration_mul_def mult.commute)
  qed
  have "\<not> immutable e"
    using registry_immutable [OF assms(1)] Some by simp
  moreover have "s \<le> u64_max" if "ov = Some s" for s
    using override_bound assms(2) that by metis
  ultimately show ?thesis
    using Some fits [of 1] fits [of 4] assms(2)
    by (cases ov) (auto simp: ttls_def ttl_policy_from_config_def STALE_MULTIPLIER_def duration_mul_secs of_secs_mult mult.commute split: neg_ttl.split)
qed

theorem ttls_in_force_witness:
  "case ttls (ttl_policy_from_config ''timeline=5'' 60 300 True) sample_endpoint of
     None \<Rightarrow> False | Some t \<Rightarrow> t_soft t = None \<and> t_negative t = Some (of_secs 60)"
proof -
  have "sample_endpoint \<in> set ENDPOINTS" "immutable sample_endpoint" "ep_negative sample_endpoint = NegDefault"
    by (simp_all add: sample_endpoint_def ep_def ENDPOINTS_def ENDPOINTS_TAIL_def)
  then show ?thesis
    using ttls_in_force [of sample_endpoint "''timeline=5''" _ True 60 300] by (auto split: option.splits)
qed

end
