(* ===== verification/Lanes.thy ===== *)
theory Lanes
  imports Endpoints
begin

text \<open>
  The job kinds and priorities of \<^verbatim>\<open>src/jobs/mod.rs\<close> and the rate-limit lane of a job, \<^verbatim>\<open>src/jobs/lanes.rs\<close>. A
  payload is a JSON value of \<^verbatim>\<open>serde_json\<close>; all the code reads of it is the text under a key
  (\<^verbatim>\<open>payload.get(key).and_then(Value::as_str)\<close>), the argument \<open>field\<close>.
\<close>

abbreviation POLL_LIVE :: string where "POLL_LIVE \<equiv> ''poll:live''"
abbreviation POLL_RANK :: string where "POLL_RANK \<equiv> ''poll:rank''"
abbreviation POLL_MATCHES :: string where "POLL_MATCHES \<equiv> ''poll:matches''"
abbreviation ARCHIVE_MATCH :: string where "ARCHIVE_MATCH \<equiv> ''archive:match''"
abbreviation BACKFILL_PLAYER :: string where "BACKFILL_PLAYER \<equiv> ''backfill:player''"
abbreviation DDRAGON_SYNC :: string where "DDRAGON_SYNC \<equiv> ''ddragon:sync''"
abbreviation LADDER_CRAWL :: string where "LADDER_CRAWL \<equiv> ''ladder:crawl''"
abbreviation LADDER_APEX :: string where "LADDER_APEX \<equiv> ''ladder:apex''"
abbreviation LADDER_WALK :: string where "LADDER_WALK \<equiv> ''ladder:walk''"
abbreviation LADDER_COLLECT :: string where "LADDER_COLLECT \<equiv> ''ladder:collect''"
abbreviation LADDER_ARCHIVE :: string where "LADDER_ARCHIVE \<equiv> ''ladder:archive''"
abbreviation RANKS_LOOKUP :: string where "RANKS_LOOKUP \<equiv> ''ranks:lookup''"
abbreviation NAMES_BACKFILL :: string where "NAMES_BACKFILL \<equiv> ''names:backfill''"
abbreviation AGGREGATE_ANALYTICS :: string where "AGGREGATE_ANALYTICS \<equiv> ''aggregate:analytics''"
abbreviation AGGREGATE_DELTA :: string where "AGGREGATE_DELTA \<equiv> ''aggregate:delta''"
abbreviation FACTS_REEXTRACT :: string where "FACTS_REEXTRACT \<equiv> ''facts:reextract''"
abbreviation BUILDS_EXTRACT :: string where "BUILDS_EXTRACT \<equiv> ''builds:extract''"
abbreviation TIERS_BACKFILL :: string where "TIERS_BACKFILL \<equiv> ''tiers:backfill''"
abbreviation MAINTENANCE :: string where "MAINTENANCE \<equiv> ''maintenance''"
abbreviation TIMELINES_BACKFILL :: string where "TIMELINES_BACKFILL \<equiv> ''timelines:backfill''"
abbreviation ARCHIVE_OFFLOAD :: string where "ARCHIVE_OFFLOAD \<equiv> ''archive:offload''"
abbreviation ARCHIVE_INDEX_SNAPSHOT :: string where "ARCHIVE_INDEX_SNAPSHOT \<equiv> ''archive:index-snapshot''"

definition KINDS :: "string list" where
  "KINDS = [POLL_LIVE, POLL_RANK, POLL_MATCHES, ARCHIVE_MATCH, BACKFILL_PLAYER, DDRAGON_SYNC, LADDER_CRAWL,
     LADDER_APEX, LADDER_WALK, LADDER_COLLECT, LADDER_ARCHIVE, RANKS_LOOKUP, NAMES_BACKFILL,
     AGGREGATE_ANALYTICS, AGGREGATE_DELTA, FACTS_REEXTRACT, BUILDS_EXTRACT, TIERS_BACKFILL, MAINTENANCE,
     TIMELINES_BACKFILL, ARCHIVE_OFFLOAD, ARCHIVE_INDEX_SNAPSHOT]"

abbreviation PRIORITY_INTERACTIVE :: int where "PRIORITY_INTERACTIVE \<equiv> 0"
abbreviation PRIORITY_ARCHIVE_DEPTH :: int where "PRIORITY_ARCHIVE_DEPTH \<equiv> 100"
abbreviation PRIORITY_POLL :: int where "PRIORITY_POLL \<equiv> 10000"
abbreviation PRIORITY_BACKFILL :: int where "PRIORITY_BACKFILL \<equiv> 20000"
abbreviation PRIORITY_CATCH_UP :: int where "PRIORITY_CATCH_UP \<equiv> PRIORITY_BACKFILL + 4"
abbreviation PRIORITY_MAINTENANCE :: int where "PRIORITY_MAINTENANCE \<equiv> 30000"
abbreviation PRIORITY_TIMELINE_BACKFILL :: int where "PRIORITY_TIMELINE_BACKFILL \<equiv> 40000"

record lane =
  l_lane :: string
  l_method :: string

definition lane_on :: "string \<Rightarrow> platform \<Rightarrow> lane option" where
  "lane_on m p =
     (case by_id m of
        None \<Rightarrow> None
      | Some e \<Rightarrow> Some \<lparr>l_lane = target_scope (target_for_platform e p), l_method = method_scope_key e\<rparr>)"

definition lane_on_region :: "string \<Rightarrow> region \<Rightarrow> lane option" where
  "lane_on_region m r =
     (case by_id m of
        None \<Rightarrow> None
      | Some e \<Rightarrow>
          (case target_for_region e r of
             None \<Rightarrow> None
           | Some t \<Rightarrow> Some \<lparr>l_lane = target_scope t, l_method = method_scope_key e\<rparr>))"

text \<open>\<^verbatim>\<open>Result::ok\<close>\<close>

definition ok :: "'e + 'a \<Rightarrow> 'a option" where
  "ok r = (case r of Inl e \<Rightarrow> None | Inr a \<Rightarrow> Some a)"

definition lane_of :: "('j \<Rightarrow> string \<Rightarrow> string option) \<Rightarrow> string \<Rightarrow> 'j \<Rightarrow> lane option" where
  "lane_of field kind payload =
     (let plat = Option.bind (field payload ''platform'') (\<lambda>p. ok (platform_parse p)) in
      if kind = POLL_LIVE then Option.bind plat (lane_on ''spectator.activeGame'')
      else if kind = POLL_RANK \<or> kind = RANKS_LOOKUP then Option.bind plat (lane_on ''league.entriesByPuuid'')
      else if kind = POLL_MATCHES \<or> kind = BACKFILL_PLAYER \<or> kind = LADDER_COLLECT
      then Option.bind plat (lane_on ''match.idsByPuuid'')
      else if kind = ARCHIVE_MATCH
      then Option.bind (Option.bind (field payload ''matchId'') region_from_match_id) (lane_on_region ''match.byId'')
      else if kind = LADDER_WALK then Option.bind plat (lane_on ''league.entriesByTier'')
      else if kind = LADDER_APEX
      then Option.bind (Option.bind (field payload ''tier'') apex_endpoint) (\<lambda>m. Option.bind plat (lane_on m))
      else if kind = TIMELINES_BACKFILL
      then Option.bind (Option.bind (field payload ''region'') (\<lambda>r. ok (region_parse r))) (lane_on_region ''match.timeline'')
      else None)"

definition LANED :: "string list" where
  "LANED = [POLL_LIVE, POLL_RANK, RANKS_LOOKUP, POLL_MATCHES, BACKFILL_PLAYER, LADDER_COLLECT, ARCHIVE_MATCH,
     LADDER_WALK, LADDER_APEX, TIMELINES_BACKFILL]"

definition all_lanes :: "string list" where
  "all_lanes = map platform_as_str PLATFORMS @ map region_as_str REGIONS"

section \<open>Lanes\<close>

lemma target_scope_in_all: "target_scope t \<in> set all_lanes"
proof (cases t)
  case (TPlatform p)
  then show ?thesis
    by (cases p) (simp_all add: all_lanes_def PLATFORMS_def REGIONS_def)
next
  case (TRegion r)
  then show ?thesis
    by (cases r) (simp_all add: all_lanes_def PLATFORMS_def REGIONS_def)
qed

lemma lane_on_in_all: "lane_on m p = Some l \<Longrightarrow> l_lane l \<in> set all_lanes"
  by (auto simp: lane_on_def target_scope_in_all split: option.splits)

lemma lane_on_region_in_all: "lane_on_region m r = Some l \<Longrightarrow> l_lane l \<in> set all_lanes"
  by (auto simp: lane_on_region_def target_scope_in_all split: option.splits)

lemma if_SomeE:
  assumes "(if b then x else y) = Some l" "b \<Longrightarrow> x = Some l \<Longrightarrow> P" "\<not> b \<Longrightarrow> y = Some l \<Longrightarrow> P"
  shows P
  using assms by (cases b) simp_all

lemma bind_lane_in_all:
  "Option.bind x (lane_on m) = Some l \<Longrightarrow> l_lane l \<in> set all_lanes"
  "Option.bind y (lane_on_region m) = Some l \<Longrightarrow> l_lane l \<in> set all_lanes"
  "Option.bind z (\<lambda>m. Option.bind x (lane_on m)) = Some l \<Longrightarrow> l_lane l \<in> set all_lanes"
  by (auto simp: bind_eq_Some_conv lane_on_in_all lane_on_region_in_all)

lemma lane_of_in_all: "lane_of field kind payload = Some l \<Longrightarrow> l_lane l \<in> set all_lanes"
  unfolding lane_of_def Let_def by (elim if_SomeE bind_lane_in_all) (simp only: option.distinct)

lemma lane_of_laned: "lane_of field kind payload = Some l \<Longrightarrow> kind \<in> set LANED"
  unfolding lane_of_def Let_def LANED_def
  by (elim if_SomeE disjE) (simp_all only: list.set insert_iff simp_thms option.distinct)

text \<open>No lane has a space in its name, so the text \<^verbatim>\<open>lane method\<close> of the claim names one pair.\<close>

lemma all_lanes_no_space: "l \<in> set all_lanes \<Longrightarrow> CHR '' '' \<notin> set l"
proof -
  have "list_all (\<lambda>l. CHR '' '' \<notin> set l) all_lanes"
    by code_simp
  then show "l \<in> set all_lanes \<Longrightarrow> CHR '' '' \<notin> set l"
    by (simp add: list_all_iff)
qed

lemma lane_pair_inj:
  assumes "a \<in> set all_lanes" "b \<in> set all_lanes" "a @ '' '' @ m = b @ '' '' @ n"
  shows "a = b \<and> m = n"
proof -
  have "Some (a, m) = split_once CHR '' '' (a @ '' '' @ m)"
    using split_once_append [OF all_lanes_no_space [OF assms(1)], of m] by simp
  also have "\<dots> = Some (b, n)"
    unfolding assms(3) using split_once_append [OF all_lanes_no_space [OF assms(2)], of n] by simp
  finally show ?thesis
    by simp
qed

end
