(* ===== verification/Btree.thy ===== *)
theory Btree
  imports Prelude
begin

text \<open>
  Rust's \<^verbatim>\<open>BTreeMap\<close> where its order shows: an association list with its keys in strict order.
\<close>

text \<open>Collecting into a \<^verbatim>\<open>BTreeMap\<close>: keys in order, the last value of a key wins.\<close>

fun btree_insert :: "'k::linorder \<Rightarrow> 'v \<Rightarrow> ('k \<times> 'v) list \<Rightarrow> ('k \<times> 'v) list" where
  "btree_insert k v [] = [(k, v)]"
| "btree_insert k v ((j, w) # m) =
     (if k < j then (k, v) # (j, w) # m else if k = j then (k, v) # m else (j, w) # btree_insert k v m)"

definition btree_of :: "('k::linorder \<times> 'v) list \<Rightarrow> ('k \<times> 'v) list" where
  "btree_of kvs = fold (\<lambda>(k, v). btree_insert k v) kvs []"

lemma btree_insert_keys: "fst ` set (btree_insert k v m) = insert k (fst ` set m)"
proof (induction m)
  case (Cons x m)
  then show ?case
    by (cases x) (simp add: insert_commute)
qed simp

lemma btree_insert_sorted: "sorted_wrt (<) (map fst m) \<Longrightarrow> sorted_wrt (<) (map fst (btree_insert k v m))"
proof (induction m)
  case (Cons x m)
  then show ?case
    by (cases x) (auto simp: btree_insert_keys)
qed simp

lemma btree_of_sorted: "sorted_wrt (<) (map fst (btree_of kvs))"
proof -
  have "sorted_wrt (<) (map fst (fold (\<lambda>(k, v). btree_insert k v) kvs m))" if "sorted_wrt (<) (map fst m)" for m
    using that by (induction kvs arbitrary: m) (auto simp: btree_insert_sorted)
  then show ?thesis
    by (simp add: btree_of_def)
qed

lemma btree_insert_all: "list_all P m \<Longrightarrow> P (k, v) \<Longrightarrow> list_all P (btree_insert k v m)"
  by (induction k v m rule: btree_insert.induct) auto

lemma btree_of_all: "list_all P kvs \<Longrightarrow> list_all P (btree_of kvs)"
proof -
  have "list_all P kvs \<Longrightarrow> list_all P m \<Longrightarrow> list_all P (fold (\<lambda>(k, v). btree_insert k v) kvs m)" for m
    by (induction kvs arbitrary: m) (auto simp: btree_insert_all)
  then show "list_all P kvs \<Longrightarrow> list_all P (btree_of kvs)"
    by (simp add: btree_of_def)
qed

lemma btree_of_distinct: "distinct (map fst (btree_of kvs))"
  using btree_of_sorted [of kvs] by (simp add: strict_sorted_iff)

end
