(* ===== verification/Config.thy ===== *)
theory Config
  imports Auth Lanes F64 Btree "HOL-Library.State_Monad"
begin

text \<open>
  The configuration, \<^verbatim>\<open>src/config.rs\<close>: reading \<^verbatim>\<open>.env\<close>, merging the layers, the typed pass that parses and validates every
  variable and collects every error, and the view of it the admin API shows. The typed pass threads its map of variables
  and its list of errors through many readers, so it is written in the state monad. A path is its text. Merging the
  layers is the \<^verbatim>\<open>figment\<close> library's and reading a time the \<^verbatim>\<open>jiff\<close> library's: both are arguments.
\<close>

section \<open>Values\<close>

definition RETIRED_TLS_VAR :: string where
  "RETIRED_TLS_VAR = ''TLS''"

definition LEGACY_ENV_VAR :: string where
  "LEGACY_ENV_VAR = ''NODE_ENV''"

definition DEFAULT_USER_AGENT :: string where
  "DEFAULT_USER_AGENT = ''riot-proxy/2.0 (+https://github.com/NinjaGoldfinch/riot-proxy)''"

definition DB_FILE_NAME :: string where
  "DB_FILE_NAME = ''riot-proxy.db''"

definition DEFAULT_BULK_IDLE_CEILING :: f64 where
  "DEFAULT_BULK_IDLE_CEILING = f64_round (95 / 100)"

definition DEFAULT_STATUS_ALLOW_CIDR :: string where
  "DEFAULT_STATUS_ALLOW_CIDR = ''127.0.0.1/32,::1/128''"

definition DEFAULT_JOB_KIND_LIMITS :: string where
  "DEFAULT_JOB_KIND_LIMITS = ''aggregate:analytics=1,archive:offload=1''"

definition REDACTED :: string where
  "REDACTED = ''[REDACTED]''"

definition u16_max :: nat where
  "u16_max = 65535"

type_synonym file_path = string

text \<open>\<^verbatim>\<open>PathBuf::join\<close> with a relative path.\<close>

definition path_join :: "file_path \<Rightarrow> string \<Rightarrow> file_path" where
  "path_join p n = (if p = [] \<or> ends_char CHR ''/'' p then p @ n else p @ ''/'' @ n)"

datatype config_error =
    Invalid "string list"
  | DotEnvIo file_path string
  | DotEnv file_path nat string
  | Merge string
  | DataDir file_path string

datatype secret = Secret (expose: string)

text \<open>\<^verbatim>\<open>Debug\<close> and \<^verbatim>\<open>Display\<close>.\<close>

definition secret_fmt :: "secret \<Rightarrow> string" where
  "secret_fmt s = REDACTED"

datatype environment = Development | Testing | Production

fun environment_as_str :: "environment \<Rightarrow> string" where
  "environment_as_str Development = ''development''"
| "environment_as_str Testing = ''test''"
| "environment_as_str Production = ''production''"

definition environment_from_str :: "string \<Rightarrow> string + environment" where
  "environment_from_str s =
     (let l = lowercase s in
      if l = ''development'' then Inr Development
      else if l = ''test'' then Inr Testing
      else if l = ''production'' then Inr Production
      else Inl ''expected one of development, test, production'')"

datatype role = Role_all | Role_api | Role_worker

fun role_as_str :: "role \<Rightarrow> string" where
  "role_as_str Role_all = ''all''"
| "role_as_str Role_api = ''api''"
| "role_as_str Role_worker = ''worker''"

definition role_from_str :: "string \<Rightarrow> string + role" where
  "role_from_str s =
     (let l = lowercase s in
      if l = ''all'' then Inr Role_all
      else if l = ''api'' then Inr Role_api
      else if l = ''worker'' then Inr Role_worker
      else Inl ''expected one of all, api, worker'')"

datatype log_format = Log_json | Log_pretty

fun log_format_as_str :: "log_format \<Rightarrow> string" where
  "log_format_as_str Log_json = ''json''"
| "log_format_as_str Log_pretty = ''pretty''"

definition log_format_from_str :: "string \<Rightarrow> string + log_format" where
  "log_format_from_str s =
     (let l = lowercase s in
      if l = ''json'' then Inr Log_json
      else if l = ''pretty'' then Inr Log_pretty
      else Inl ''expected one of json, pretty'')"

datatype database = Sqlite file_path | Postgres secret

datatype object_url = S3 string | File file_path

fun object_url_fmt :: "object_url \<Rightarrow> string" where
  "object_url_fmt (S3 bucket) = ''s3://'' @ bucket"
| "object_url_fmt (File dir) = ''file://'' @ dir"

text \<open>
  \<^verbatim>\<open>Display\<close> of an \<^verbatim>\<open>f64\<close> from 0 to 1: the shortest decimal that reads back as the same value. The search ends: a normal
  double has at most 17 significant digits after at most 308 zeros.
\<close>

definition decimal_places :: "f64 \<Rightarrow> nat" where
  "decimal_places x =
     (case find (\<lambda>k. f64_round (of_int (round_half_even (x * 10 ^ k)) / 10 ^ k) = x) [0..<330] of Some k \<Rightarrow> k | None \<Rightarrow> 330)"

definition show_f64 :: "f64 \<Rightarrow> string" where
  "show_f64 x =
     (let k = decimal_places x; n = nat (round_half_even (x * 10 ^ k)) in
      if k = 0 then show_nat n else show_nat (n div 10 ^ k) @ ''.'' @ pad k (n mod 10 ^ k))"

section \<open>Every variable\<close>

definition VARS :: "string list" where
  "VARS =
    [
     ''RIOT_API_KEY'', ''RIOT_USER_AGENT'', ''KEY_SCOPE'', ''ENV'', ''HOST'', ''PORT'', ''LOG_LEVEL'', ''LOG_FORMAT'',
     ''DATA_DIR'', ''DATABASE_URL'', ''ROLE'', ''JOB_CONCURRENCY'', ''JOB_KIND_LIMITS'', ''JOB_YIELD_BUDGET_MS'',
     ''CACHE_TTL_OVERRIDES'', ''CACHE_L1_MAX_MB'', ''NEG_TTL_SECONDS'', ''NEG_TTL_ACCOUNT_SECONDS'',
     ''CLIENT_WAIT_BUDGET_MS'', ''BULK_USAGE_CEILING'', ''BULK_IDLE_CEILING'', ''BULK_IDLE_AFTER_S'',
     ''STALE_WHILE_REVALIDATE'', ''METRICS_INTERVAL_S'', ''METRICS_HISTORY_INTERVAL_S'', ''TRACK_POLL_LIVE_S'',
     ''TRACK_POLL_RANK_S'', ''TRACK_POLL_MATCH_S'', ''DDRAGON_SYNC_S'', ''ARCHIVE_TIMELINES'',
     ''TIMELINE_BACKFILL_PATCHES'', ''BACKUP_KEEP'', ''ARCHIVE_OBJECT_URL'', ''ARCHIVE_OBJECT_ENDPOINT'',
     ''ARCHIVE_OBJECT_REGION'', ''ARCHIVE_OBJECT_ACCESS_KEY'', ''ARCHIVE_OBJECT_SECRET_KEY'',
     ''ARCHIVE_OBJECT_CONCURRENCY'', ''ARCHIVE_OBJECT_READ_ONLY'', ''ARCHIVE_BODY_LOCAL_DAYS'',
     ''ARCHIVE_PACK_TARGET_BYTES'', ''ARCHIVE_OFFLOAD_PACE_MS'', ''LOOKUP_BACKFILL_LIMIT'', ''TRACK_CATCHUP_LIMIT'',
     ''LADDER_CRAWL_S'', ''LADDER_QUEUES'', ''LADDER_PLATFORMS'', ''LADDER_TIER_FLOOR'', ''LADDER_BACKFILL_LIMIT'',
     ''LADDER_CRAWL_MATCH_LIMIT'', ''LADDER_COLLECT_OVERLAP_S'', ''RANK_LOOKUP_LIMIT'', ''RANK_LOOKUP_RECHECK_S'',
     ''TIER_LATE_STAMP_DAYS'', ''FACTS_REEXTRACT_BATCH'', ''AGGREGATE_PATCH_LIMIT'', ''ANALYTICS_CACHE_ENTRIES'',
     ''AGGREGATE_INTERVAL_S'', ''AGGREGATE_DELTA_S'', ''AGGREGATE_DELTA_TARGET_MS'', ''AGGREGATE_DELTA_BATCH'',
     ''DDRAGON_DIR'', ''DDRAGON_LOCALE'', ''ADMIN_IP_ALLOWLIST'', ''TRUST_PROXY'', ''STATUS_ALLOW_CIDR'',
     ''STATUS_CHECK_INTERVAL_S'', ''STATUS_CHECK_PLATFORMS'', ''RIOT_API_KEY_EXPIRES_AT'', ''ADMIN_CORS_ORIGINS'',
     ''BOOTSTRAP_ADMIN_KEY'', ''AUTH_DISABLED'', ''DEV_UI'', ''DOCS_UI'', ''DASHBOARD_UI'', ''RIOT_BASE_URL'',
     ''DDRAGON_BASE_URL'']"

record config =
  cf_riot_api_key :: secret
  cf_key_scope :: "string option"
  cf_riot_user_agent :: string
  cf_env :: environment
  cf_host :: string
  cf_port :: nat
  cf_log_level :: string
  cf_log_format :: log_format
  cf_data_dir :: file_path
  cf_database :: database
  cf_role :: role
  cf_job_concurrency :: nat
  cf_job_kind_limits :: "(string \<times> nat) list"
  cf_job_yield_budget_ms :: nat
  cf_cache_ttl_overrides :: string
  cf_cache_l1_max_mb :: nat
  cf_neg_ttl_seconds :: nat
  cf_neg_ttl_account_seconds :: nat
  cf_client_wait_budget_ms :: nat
  cf_bulk_usage_ceiling :: f64
  cf_bulk_idle_ceiling :: f64
  cf_bulk_idle_after_s :: nat
  cf_stale_while_revalidate :: bool
  cf_metrics_interval_s :: nat
  cf_metrics_history_interval_s :: nat
  cf_track_poll_live_s :: nat
  cf_track_poll_rank_s :: nat
  cf_track_poll_match_s :: nat
  cf_ddragon_sync_s :: nat
  cf_archive_timelines :: bool
  cf_timeline_backfill_patches :: nat
  cf_backup_keep :: nat
  cf_archive_object_url :: "object_url option"
  cf_archive_object_endpoint :: "string option"
  cf_archive_object_region :: string
  cf_archive_object_access_key :: "secret option"
  cf_archive_object_secret_key :: "secret option"
  cf_archive_object_concurrency :: nat
  cf_archive_object_read_only :: bool
  cf_archive_body_local_days :: nat
  cf_archive_pack_target_bytes :: nat
  cf_archive_offload_pace_ms :: nat
  cf_lookup_backfill_limit :: nat
  cf_track_catchup_limit :: nat
  cf_ladder_crawl_s :: nat
  cf_ladder_queues :: "string list"
  cf_ladder_platforms :: "platform list"
  cf_ladder_tier_floor :: string
  cf_ladder_backfill_limit :: nat
  cf_ladder_crawl_match_limit :: nat
  cf_ladder_collect_overlap_s :: nat
  cf_rank_lookup_limit :: nat
  cf_rank_lookup_recheck_s :: nat
  cf_tier_late_stamp_days :: nat
  cf_facts_reextract_batch :: nat
  cf_aggregate_patch_limit :: nat
  cf_analytics_cache_entries :: nat
  cf_aggregate_interval_s :: nat
  cf_aggregate_delta_s :: nat
  cf_aggregate_delta_target_ms :: nat
  cf_aggregate_delta_batch :: nat
  cf_ddragon_dir :: file_path
  cf_ddragon_locale :: string
  cf_admin_ip_allowlist :: "string list"
  cf_trust_proxy :: bool
  cf_status_allow_cidr :: "string list"
  cf_status_check_interval_s :: nat
  cf_status_check_platforms :: "platform list"
  cf_riot_api_key_expires_at_ms :: "int option"
  cf_admin_cors_origins :: "string list"
  cf_bootstrap_admin_key :: "secret option"
  cf_auth_disabled :: bool
  cf_dev_ui :: bool
  cf_dev_ui_ignored :: bool
  cf_docs_ui :: bool
  cf_dashboard_ui :: bool
  cf_riot_base_url :: "string option"
  cf_ddragon_base_url :: "string option"

section \<open>The typed pass\<close>

text \<open>The merged variables and every validation error seen so far.\<close>

record vars =
  va_map :: "string \<rightharpoonup> string"
  va_errors :: "string list"

definition v_errors_push :: "string \<Rightarrow> (vars, unit) state" where
  "v_errors_push e = State (\<lambda>v. ((), v\<lparr>va_errors := va_errors v @ [e]\<rparr>))"

definition v_push :: "string \<Rightarrow> string \<Rightarrow> (vars, unit) state" where
  "v_push name m = v_errors_push (name @ '': '' @ m)"

definition v_opt_string :: "string \<Rightarrow> (vars, string option) state" where
  "v_opt_string name = State (\<lambda>v. (va_map v name, v))"

definition v_string :: "string \<Rightarrow> string \<Rightarrow> (vars, string) state" where
  "v_string name dflt =
     do { raw \<leftarrow> v_opt_string name; State_Monad.return (case raw of Some s \<Rightarrow> s | None \<Rightarrow> dflt) }"

text \<open>Record an error and give a placeholder.\<close>

definition v_fail :: "string \<Rightarrow> string \<Rightarrow> 'a \<Rightarrow> (vars, 'a) state" where
  "v_fail name m x = do { v_push name m; State_Monad.return x }"

definition quote :: "string \<Rightarrow> string" where
  "quote raw = [CHR 0x27] @ raw @ [CHR 0x27]"

definition v_parse_or :: "(string \<Rightarrow> string + 'a) \<Rightarrow> string \<Rightarrow> string \<Rightarrow> 'a \<Rightarrow> (vars, 'a) state" where
  "v_parse_or parse name raw fallback =
     (case parse raw of
        Inr x \<Rightarrow> State_Monad.return x
      | Inl e \<Rightarrow> v_fail name (quote raw @ '': '' @ e) fallback)"

definition v_parsed :: "(string \<Rightarrow> string + 'a) \<Rightarrow> string \<Rightarrow> 'a \<Rightarrow> (vars, 'a) state" where
  "v_parsed parse name dflt =
     do {
       raw \<leftarrow> v_opt_string name;
       case raw of Some r \<Rightarrow> v_parse_or parse name r dflt | None \<Rightarrow> State_Monad.return dflt
     }"

definition v_range_error :: "('a \<Rightarrow> string) \<Rightarrow> string \<Rightarrow> string \<Rightarrow> 'a \<Rightarrow> 'a \<Rightarrow> 'a \<Rightarrow> (vars, 'a) state" where
  "v_range_error fmt name raw lo hi dflt = v_fail name (quote raw @ '' is outside '' @ fmt lo @ ''..='' @ fmt hi) dflt"

text \<open>The first argument is the largest value of the type.\<close>

definition v_int :: "nat \<Rightarrow> string \<Rightarrow> nat \<Rightarrow> nat \<Rightarrow> nat \<Rightarrow> (vars, nat) state" where
  "v_int tmax name dflt lo hi =
     do {
       o_raw \<leftarrow> v_opt_string name;
       case o_raw of
         None \<Rightarrow> State_Monad.return dflt
       | Some raw \<Rightarrow>
           (case parse_uint tmax (trim raw) of
              Some n \<Rightarrow> if lo \<le> n \<and> n \<le> hi then State_Monad.return n else v_range_error show_nat name raw lo hi dflt
            | None \<Rightarrow> v_fail name (quote raw @ '' is not a whole number'') dflt)
     }"

definition v_float :: "string \<Rightarrow> f64 \<Rightarrow> f64 \<Rightarrow> f64 \<Rightarrow> (vars, f64) state" where
  "v_float name dflt lo hi =
     do {
       o_raw \<leftarrow> v_opt_string name;
       case o_raw of
         None \<Rightarrow> State_Monad.return dflt
       | Some raw \<Rightarrow>
           (case parse_f64 (trim raw) of
              Some (Finite n) \<Rightarrow> if lo \<le> n \<and> n \<le> hi then State_Monad.return n else v_range_error show_f64 name raw lo hi dflt
            | Some Not_finite \<Rightarrow> v_range_error show_f64 name raw lo hi dflt
            | None \<Rightarrow> v_fail name (quote raw @ '' is not a number'') dflt)
     }"

definition v_opt_bool :: "string \<Rightarrow> (vars, bool option) state" where
  "v_opt_bool name =
     do {
       o_raw \<leftarrow> v_opt_string name;
       case o_raw of
         None \<Rightarrow> State_Monad.return None
       | Some raw \<Rightarrow>
           (let l = lowercase (trim raw) in
            if l = ''true'' \<or> l = ''1'' then State_Monad.return (Some True)
            else if l = ''false'' \<or> l = ''0'' then State_Monad.return (Some False)
            else v_fail name (quote raw @ '' is not a boolean (true/false/1/0)'') None)
     }"

definition v_bool :: "string \<Rightarrow> bool \<Rightarrow> (vars, bool) state" where
  "v_bool name dflt = do { b \<leftarrow> v_opt_bool name; State_Monad.return (case b of Some x \<Rightarrow> x | None \<Rightarrow> dflt) }"

definition csv :: "string \<Rightarrow> string list" where
  "csv raw = filter (\<lambda>s. s \<noteq> []) (map trim (split_on CHR '','' raw))"

definition v_platform :: "string \<Rightarrow> string \<Rightarrow> (vars, platform) state" where
  "v_platform name raw =
     (case platform_parse raw of Inr p \<Rightarrow> State_Monad.return p | Inl e \<Rightarrow> v_fail name (message e) Euw1)"

definition push_new :: "platform \<Rightarrow> platform list \<Rightarrow> platform list" where
  "push_new p out = (if p \<in> set out then out else out @ [p])"

definition v_status_platforms :: "platform list \<Rightarrow> (vars, platform list) state" where
  "v_status_platforms ladder =
     do {
       o_raw \<leftarrow> v_opt_string ''STATUS_CHECK_PLATFORMS'';
       listed \<leftarrow> (case o_raw of
           None \<Rightarrow> State_Monad.return ladder
         | Some raw \<Rightarrow>
             if eq_ignore_case (trim raw) ''none'' then State_Monad.return []
             else traverse_list (v_platform ''STATUS_CHECK_PLATFORMS'') (csv raw));
       State_Monad.return (fold push_new listed [])
     }"

definition v_timestamp_ms :: "(string \<Rightarrow> int option) \<Rightarrow> string \<Rightarrow> (vars, int option) state" where
  "v_timestamp_ms parse_time name =
     do {
       o_raw \<leftarrow> v_opt_string name;
       case o_raw of
         None \<Rightarrow> State_Monad.return None
       | Some raw \<Rightarrow>
           (case parse_time (trim raw) of
              Some t \<Rightarrow> State_Monad.return (Some t)
            | None \<Rightarrow> v_fail name (quote raw @ '' is not an RFC 3339 time like 2026-11-07T09:00:00Z'') None)
     }"

definition v_cidrs :: "string \<Rightarrow> string \<Rightarrow> (vars, string list) state" where
  "v_cidrs name dflt =
     do {
       raw \<leftarrow> v_string name dflt;
       if trim raw = ''none'' then State_Monad.return []
       else
         do {
           traverse_list
             (\<lambda>entry. if allow_entry_parse entry = None then v_push name (quote entry @ '' is not an IP address or CIDR'')
                      else State_Monad.return ()) (csv raw);
           State_Monad.return (csv raw)
         }
     }"

definition origin_ok :: "string \<Rightarrow> bool" where
  "origin_ok og =
     (case (case strip_prefix ''https://'' og of Some h \<Rightarrow> Some h | None \<Rightarrow> strip_prefix ''http://'' og) of
        None \<Rightarrow> False
      | Some h \<Rightarrow> h \<noteq> [] \<and> \<not> list_ex (\<lambda>c. c \<in> set ''/?#* '') h \<and> list_all (\<lambda>c. (of_char c :: nat) < 128) h)"

definition v_origin :: "string \<Rightarrow> string \<Rightarrow> (vars, string list) state" where
  "v_origin name og =
     (if og = ''*'' then v_fail name (quote ''*'' @ '' is refused; list each origin'') []
      else if \<not> origin_ok og then v_fail name (quote og @ '' is not an origin like https://admin.example.com'') []
      else State_Monad.return [og])"

definition v_origins :: "string \<Rightarrow> (vars, string list) state" where
  "v_origins name =
     do { raw \<leftarrow> v_string name []; out \<leftarrow> traverse_list (v_origin name) (csv raw); State_Monad.return (concat out) }"

text \<open>One \<^verbatim>\<open>kind=n\<close> of the list.\<close>

definition v_kind_limit :: "string \<Rightarrow> string \<Rightarrow> (vars, (string \<times> nat) option) state" where
  "v_kind_limit name item =
     (case split_once CHR ''='' item of
        None \<Rightarrow> v_fail name (quote item @ '' is not kind=n'') None
      | Some (k0, n0) \<Rightarrow>
          (let kind = trim k0; n = trim n0 in
           if kind \<notin> set KINDS then v_fail name (quote kind @ '' is not a job kind'') None
           else if kind \<in> set LANED then v_fail name (quote kind @ '' calls Riot; the rate limiter paces it'') None
           else
             (case parse_u32 n of
                Some m \<Rightarrow> if 1 \<le> m then State_Monad.return (Some (kind, m))
                          else v_fail name (quote n @ '' for '' @ kind @ '' is not a whole number of at least 1'') None
              | None \<Rightarrow> v_fail name (quote n @ '' for '' @ kind @ '' is not a whole number of at least 1'') None)))"

definition v_kind_limits :: "string \<Rightarrow> string \<Rightarrow> (vars, (string \<times> nat) list) state" where
  "v_kind_limits name dflt =
     do {
       raw \<leftarrow> v_string name dflt;
       if eq_ignore_case (trim raw) ''none'' then State_Monad.return []
       else do { items \<leftarrow> traverse_list (v_kind_limit name) (csv raw); State_Monad.return (btree_of (List.map_filter (\<lambda>x. x) items)) }
     }"

definition v_ranked_queue :: "string \<Rightarrow> string \<Rightarrow> (vars, bool) state" where
  "v_ranked_queue name raw =
     (if raw \<in> set RANKED_QUEUES then State_Monad.return True
      else v_fail name (quote raw @ '' is not one of '' @ join '', '' RANKED_QUEUES) False)"

definition v_ranked_queues :: "string \<Rightarrow> string \<Rightarrow> (vars, string list) state" where
  "v_ranked_queues name dflt =
     do {
       raw \<leftarrow> v_string name dflt;
       kept \<leftarrow> traverse_list (\<lambda>q. do { ok \<leftarrow> v_ranked_queue name q; State_Monad.return (q, ok) }) (csv raw);
       State_Monad.return (map fst (filter snd kept))
     }"

definition v_tier :: "string \<Rightarrow> string \<Rightarrow> (vars, string) state" where
  "v_tier name dflt =
     do {
       raw \<leftarrow> v_string name dflt;
       let tier = uppercase (trim raw) in
       if is_tier tier then State_Monad.return tier
       else v_fail name (quote raw @ '' is not one of '' @ join '', '' tiers) dflt
     }"

section \<open>The object store\<close>

definition bucket_char :: "char \<Rightarrow> bool" where
  "bucket_char c = (is_lower c \<or> is_digit c)"

definition parse_object_url :: "string \<Rightarrow> string + object_url" where
  "parse_object_url raw =
     (case strip_prefix ''s3://'' raw of
        Some b0 \<Rightarrow>
          (let bucket = (case strip_suffix ''/'' b0 of Some b \<Rightarrow> b | None \<Rightarrow> b0) in
           if 3 \<le> length (utf8 bucket) \<and> length (utf8 bucket) \<le> 63 \<and>
              list_all (\<lambda>c. bucket_char c \<or> c = CHR ''.'' \<or> c = CHR ''-'') bucket \<and>
              bucket_char (hd bucket) \<and> bucket_char (last bucket)
           then Inr (S3 bucket) else Inl ''is not s3://<bucket> with a valid bucket name and no path'')
      | None \<Rightarrow>
          (case strip_prefix ''file://'' raw of
             Some p \<Rightarrow> if starts_char CHR ''/'' p then Inr (File p) else Inl ''needs an absolute path, like file:///var/lib/riot-proxy/objects''
           | None \<Rightarrow> Inl ''must start with s3:// or file://''))"

definition check_endpoint :: "string \<Rightarrow> bool \<Rightarrow> string + string" where
  "check_endpoint raw production =
     (let trimmed = (case strip_suffix ''/'' raw of Some t \<Rightarrow> t | None \<Rightarrow> raw) in
      case (case (strip_prefix ''https://'' trimmed, strip_prefix ''http://'' trimmed) of
              (Some h, _) \<Rightarrow> Inr h
            | (None, Some h) \<Rightarrow> if production then Inl ''must be https:// when ENV=production'' else Inr h
            | (None, None) \<Rightarrow> Inr []) of
        Inl e \<Rightarrow> Inl e
      | Inr h \<Rightarrow>
          if h = [] \<or> \<not> list_all (\<lambda>c. (of_char c :: nat) < 128) h \<or> list_ex (\<lambda>c. c \<in> set ''/?# @'') h
          then Inl (quote raw @ '' is not an endpoint like https://s3.example.com'')
          else Inr trimmed)"

record object_vars =
  ov_url :: "object_url option"
  ov_endpoint :: "string option"
  ov_access_key :: "secret option"
  ov_secret_key :: "secret option"

definition v_when :: "bool \<Rightarrow> (vars, unit) state \<Rightarrow> (vars, unit) state" where
  "v_when c m = (if c then m else State_Monad.return ())"

definition v_object_store :: "environment \<Rightarrow> (vars, object_vars) state" where
  "v_object_store env =
     do {
       let production = (env = Production);
       url_raw \<leftarrow> v_opt_string ''ARCHIVE_OBJECT_URL'';
       url \<leftarrow> (case url_raw of
           None \<Rightarrow> State_Monad.return None
         | Some raw \<Rightarrow>
             (case parse_object_url raw of
                Inr u \<Rightarrow> State_Monad.return (Some u)
              | Inl m \<Rightarrow> v_fail ''ARCHIVE_OBJECT_URL'' (quote raw @ '' '' @ m) None));
       endpoint_raw \<leftarrow> v_opt_string ''ARCHIVE_OBJECT_ENDPOINT'';
       endpoint \<leftarrow> (case endpoint_raw of
           None \<Rightarrow> State_Monad.return None
         | Some raw \<Rightarrow>
             (case check_endpoint raw production of
                Inr e \<Rightarrow> State_Monad.return (Some e)
              | Inl m \<Rightarrow> v_fail ''ARCHIVE_OBJECT_ENDPOINT'' m None));
       access \<leftarrow> v_opt_string ''ARCHIVE_OBJECT_ACCESS_KEY'';
       secret \<leftarrow> v_opt_string ''ARCHIVE_OBJECT_SECRET_KEY'';
       v_when ((access \<noteq> None) \<noteq> (secret \<noteq> None))
         (v_errors_push ''ARCHIVE_OBJECT_ACCESS_KEY and ARCHIVE_OBJECT_SECRET_KEY: set both or neither'');
       (case url of
          Some (S3 b) \<Rightarrow>
            do {
              v_when (endpoint_raw = None) (v_push ''ARCHIVE_OBJECT_ENDPOINT'' ''is required with an s3:// ARCHIVE_OBJECT_URL'');
              v_when (production \<and> (access = None \<or> secret = None))
                (v_push ''ARCHIVE_OBJECT_URL'' ''needs ARCHIVE_OBJECT_ACCESS_KEY and ARCHIVE_OBJECT_SECRET_KEY when ENV=production'')
            }
        | Some (File d) \<Rightarrow> v_when production (v_push ''ARCHIVE_OBJECT_URL'' ''file:// cannot be used when ENV=production'')
        | None \<Rightarrow> State_Monad.return ());
       State_Monad.return \<lparr>ov_url = url, ov_endpoint = endpoint, ov_access_key = map_option Secret access, ov_secret_key = map_option Secret secret\<rparr>
     }"

section \<open>From the map of variables to the configuration\<close>

definition v_riot_api_key :: "(vars, string) state" where
  "v_riot_api_key =
     do {
       raw \<leftarrow> v_opt_string ''RIOT_API_KEY'';
       case raw of
         Some key \<Rightarrow> if 8 \<le> length (utf8 key) then State_Monad.return key else v_fail ''RIOT_API_KEY'' ''must be at least 8 characters'' []
       | None \<Rightarrow> v_fail ''RIOT_API_KEY'' ''is required'' []
     }"

definition scope_char :: "char \<Rightarrow> bool" where
  "scope_char c = (let n = (of_char c :: nat) in 48 \<le> n \<and> n \<le> 57 \<or> 97 \<le> n \<and> n \<le> 102)"

definition v_key_scope :: "(vars, string option) state" where
  "v_key_scope =
     do {
       o_raw \<leftarrow> v_opt_string ''KEY_SCOPE'';
       case o_raw of
         None \<Rightarrow> State_Monad.return None
       | Some raw \<Rightarrow>
           if length (utf8 raw) = 8 \<and> list_all scope_char raw then State_Monad.return (Some raw)
           else v_fail ''KEY_SCOPE'' (quote raw @ '' must be 8 lowercase hex characters'') None
     }"

definition v_env :: "(vars, environment) state" where
  "v_env =
     do {
       raw \<leftarrow> v_opt_string ''ENV'';
       legacy \<leftarrow> v_opt_string LEGACY_ENV_VAR;
       case (raw, legacy) of
         (Some r, _) \<Rightarrow> v_parse_or environment_from_str ''ENV'' r Development
       | (None, Some r) \<Rightarrow> v_parse_or environment_from_str LEGACY_ENV_VAR r Development
       | (None, None) \<Rightarrow> State_Monad.return Development
     }"

definition v_database :: "file_path \<Rightarrow> (vars, database) state" where
  "v_database data_dir =
     do {
       raw \<leftarrow> v_opt_string ''DATABASE_URL'';
       case raw of
         None \<Rightarrow> State_Monad.return (Sqlite (path_join data_dir DB_FILE_NAME))
       | Some u \<Rightarrow>
           (case strip_prefix ''sqlite://'' u of
              Some p \<Rightarrow> State_Monad.return (Sqlite p)
            | None \<Rightarrow>
                if starts_with ''postgres://'' u \<or> starts_with ''postgresql://'' u then
                  v_fail ''DATABASE_URL'' ''postgres:// needs a build with the `postgres` feature (not available yet)'' (Postgres (Secret u))
                else v_fail ''DATABASE_URL'' ''must start with sqlite:// or postgres://'' (Sqlite (path_join data_dir DB_FILE_NAME)))
     }"

definition v_role :: "database \<Rightarrow> (vars, role) state" where
  "v_role database =
     do {
       role \<leftarrow> v_parsed role_from_str ''ROLE'' Role_all;
       v_when (role \<noteq> Role_all \<and> (case database of Postgres s \<Rightarrow> False | _ \<Rightarrow> True))
         (v_push ''ROLE'' ''api and worker need DATABASE_URL=postgres://; SQLite supports only all'');
       State_Monad.return role
     }"

definition v_auth_disabled :: "environment \<Rightarrow> (vars, bool) state" where
  "v_auth_disabled env =
     do {
       auth_disabled \<leftarrow> v_bool ''AUTH_DISABLED'' False;
       v_when (auth_disabled \<and> env = Production) (v_errors_push ''AUTH_DISABLED cannot be enabled when ENV=production'');
       State_Monad.return auth_disabled
     }"

text \<open>The two settings that point the program at other hosts.\<close>

definition v_base_urls :: "environment \<Rightarrow> (vars, string option \<times> string option) state" where
  "v_base_urls env =
     do {
       riot_base_url \<leftarrow> v_opt_string ''RIOT_BASE_URL'';
       ddragon_base_url \<leftarrow> v_opt_string ''DDRAGON_BASE_URL'';
       v_when (riot_base_url \<noteq> None \<and> env = Production) (v_errors_push ''RIOT_BASE_URL cannot be set when ENV=production'');
       v_when (ddragon_base_url \<noteq> None \<and> env = Production) (v_errors_push ''DDRAGON_BASE_URL cannot be set when ENV=production'');
       State_Monad.return (riot_base_url, ddragon_base_url)
     }"

definition v_read_only :: "object_vars \<Rightarrow> (vars, bool) state" where
  "v_read_only objects =
     do {
       read_only \<leftarrow> v_bool ''ARCHIVE_OBJECT_READ_ONLY'' False;
       v_when (read_only \<and> ov_url objects = None)
         (v_push ''ARCHIVE_OBJECT_READ_ONLY'' ''needs ARCHIVE_OBJECT_URL: there is no bucket to read'');
       State_Monad.return read_only
     }"

text \<open>The literal that builds the configuration: its readers run in the order of its fields in the source.\<close>

definition v_config ::
  "string \<Rightarrow> string option \<Rightarrow> environment \<Rightarrow> log_format \<Rightarrow> file_path \<Rightarrow> database \<Rightarrow> role \<Rightarrow> object_vars \<Rightarrow> bool \<Rightarrow> platform list \<Rightarrow>
     platform list \<Rightarrow> int option \<Rightarrow> bool \<Rightarrow> bool \<Rightarrow> bool \<Rightarrow> string option \<Rightarrow> string option \<Rightarrow> (vars, config) state" where
  "v_config riot_api_key key_scope env log_format data_dir database role objects archive_object_read_only ladder_platforms
       status_check_platforms riot_api_key_expires_at_ms auth_disabled dev_ui dev_ui_set riot_base_url ddragon_base_url =
     do {
       riot_user_agent \<leftarrow> v_string ''RIOT_USER_AGENT'' DEFAULT_USER_AGENT;
       host \<leftarrow> v_string ''HOST'' ''0.0.0.0'';
       port \<leftarrow> v_int u16_max ''PORT'' 8080 1 u16_max;
       log_level \<leftarrow> v_string ''LOG_LEVEL'' ''info'';
       ddragon_dir \<leftarrow> v_opt_string ''DDRAGON_DIR'';
       job_concurrency \<leftarrow> v_int u32_max ''JOB_CONCURRENCY'' 8 1 u32_max;
       job_kind_limits \<leftarrow> v_kind_limits ''JOB_KIND_LIMITS'' DEFAULT_JOB_KIND_LIMITS;
       job_yield_budget_ms \<leftarrow> v_int u64_max ''JOB_YIELD_BUDGET_MS'' 1000 0 900000;
       cache_ttl_overrides \<leftarrow> v_string ''CACHE_TTL_OVERRIDES'' [];
       cache_l1_max_mb \<leftarrow> v_int u32_max ''CACHE_L1_MAX_MB'' 128 1 1048576;
       neg_ttl_seconds \<leftarrow> v_int u32_max ''NEG_TTL_SECONDS'' 30 1 u32_max;
       neg_ttl_account_seconds \<leftarrow> v_int u32_max ''NEG_TTL_ACCOUNT_SECONDS'' 300 1 u32_max;
       client_wait_budget_ms \<leftarrow> v_int u64_max ''CLIENT_WAIT_BUDGET_MS'' 2000 0 u64_max;
       bulk_usage_ceiling \<leftarrow> v_float ''BULK_USAGE_CEILING'' (f64_round (8 / 10)) 0 1;
       bulk_idle_ceiling \<leftarrow> v_float ''BULK_IDLE_CEILING'' DEFAULT_BULK_IDLE_CEILING 0 1;
       bulk_idle_after_s \<leftarrow> v_int u32_max ''BULK_IDLE_AFTER_S'' 30 0 86400;
       stale_while_revalidate \<leftarrow> v_bool ''STALE_WHILE_REVALIDATE'' True;
       metrics_interval_s \<leftarrow> v_int u32_max ''METRICS_INTERVAL_S'' 5 1 300;
       metrics_history_interval_s \<leftarrow> v_int u32_max ''METRICS_HISTORY_INTERVAL_S'' 60 10 3600;
       track_poll_live_s \<leftarrow> v_int u32_max ''TRACK_POLL_LIVE_S'' 60 10 u32_max;
       track_poll_rank_s \<leftarrow> v_int u32_max ''TRACK_POLL_RANK_S'' 600 30 u32_max;
       track_poll_match_s \<leftarrow> v_int u32_max ''TRACK_POLL_MATCH_S'' 300 30 u32_max;
       ddragon_sync_s \<leftarrow> v_int u32_max ''DDRAGON_SYNC_S'' 3600 60 u32_max;
       archive_timelines \<leftarrow> v_bool ''ARCHIVE_TIMELINES'' True;
       timeline_backfill_patches \<leftarrow> v_int u32_max ''TIMELINE_BACKFILL_PATCHES'' 0 0 1000;
       backup_keep \<leftarrow> v_int u32_max ''BACKUP_KEEP'' 14 0 365;
       archive_object_region \<leftarrow> v_string ''ARCHIVE_OBJECT_REGION'' ''auto'';
       archive_object_concurrency \<leftarrow> v_int u32_max ''ARCHIVE_OBJECT_CONCURRENCY'' 16 1 256;
       archive_body_local_days \<leftarrow> v_int u32_max ''ARCHIVE_BODY_LOCAL_DAYS'' 14 0 365;
       archive_pack_target_bytes \<leftarrow> v_int u64_max ''ARCHIVE_PACK_TARGET_BYTES'' 67108864 1048576 1073741824;
       archive_offload_pace_ms \<leftarrow> v_int u64_max ''ARCHIVE_OFFLOAD_PACE_MS'' 50 0 60000;
       lookup_backfill_limit \<leftarrow> v_int u32_max ''LOOKUP_BACKFILL_LIMIT'' u32_max 0 u32_max;
       track_catchup_limit \<leftarrow> v_int u32_max ''TRACK_CATCHUP_LIMIT'' 500 0 10000;
       ladder_crawl_s \<leftarrow> v_int u32_max ''LADDER_CRAWL_S'' 0 0 604800;
       ladder_queues \<leftarrow> v_ranked_queues ''LADDER_QUEUES'' ''RANKED_SOLO_5x5'';
       ladder_tier_floor \<leftarrow> v_tier ''LADDER_TIER_FLOOR'' ''MASTER'';
       ladder_backfill_limit \<leftarrow> v_int u32_max ''LADDER_BACKFILL_LIMIT'' 100 0 10000;
       ladder_crawl_match_limit \<leftarrow> v_int u32_max ''LADDER_CRAWL_MATCH_LIMIT'' 0 0 100000000;
       ladder_collect_overlap_s \<leftarrow> v_int u32_max ''LADDER_COLLECT_OVERLAP_S'' 7200 0 86400;
       rank_lookup_limit \<leftarrow> v_int u32_max ''RANK_LOOKUP_LIMIT'' 50000 0 10000000;
       rank_lookup_recheck_s \<leftarrow> v_int u32_max ''RANK_LOOKUP_RECHECK_S'' 604800 0 31536000;
       tier_late_stamp_days \<leftarrow> v_int u32_max ''TIER_LATE_STAMP_DAYS'' 14 0 365;
       facts_reextract_batch \<leftarrow> v_int u32_max ''FACTS_REEXTRACT_BATCH'' 500 1 10000;
       aggregate_patch_limit \<leftarrow> v_int u32_max ''AGGREGATE_PATCH_LIMIT'' 4 0 100;
       analytics_cache_entries \<leftarrow> v_int u32_max ''ANALYTICS_CACHE_ENTRIES'' 512 0 4096;
       aggregate_interval_s \<leftarrow> v_int u32_max ''AGGREGATE_INTERVAL_S'' 0 0 604800;
       aggregate_delta_s \<leftarrow> v_int u32_max ''AGGREGATE_DELTA_S'' 60 0 86400;
       aggregate_delta_target_ms \<leftarrow> v_int u32_max ''AGGREGATE_DELTA_TARGET_MS'' 100 20 1000;
       aggregate_delta_batch \<leftarrow> v_int u32_max ''AGGREGATE_DELTA_BATCH'' 500 5 5000;
       ddragon_locale \<leftarrow> v_string ''DDRAGON_LOCALE'' ''en_US'';
       admin_ip_allowlist \<leftarrow> v_string ''ADMIN_IP_ALLOWLIST'' [];
       trust_proxy \<leftarrow> v_bool ''TRUST_PROXY'' False;
       status_allow_cidr \<leftarrow> v_cidrs ''STATUS_ALLOW_CIDR'' DEFAULT_STATUS_ALLOW_CIDR;
       status_check_interval_s \<leftarrow> v_int u32_max ''STATUS_CHECK_INTERVAL_S'' 30 1 3600;
       admin_cors_origins \<leftarrow> v_origins ''ADMIN_CORS_ORIGINS'';
       bootstrap_admin_key \<leftarrow> v_opt_string ''BOOTSTRAP_ADMIN_KEY'';
       docs_ui \<leftarrow> v_bool ''DOCS_UI'' True;
       dashboard_ui \<leftarrow> v_bool ''DASHBOARD_UI'' True;
       State_Monad.return
         \<lparr>cf_riot_api_key = Secret riot_api_key, cf_key_scope = key_scope, cf_riot_user_agent = riot_user_agent, cf_env = env,
          cf_host = host, cf_port = port, cf_log_level = log_level, cf_log_format = log_format, cf_data_dir = data_dir,
          cf_database = database, cf_role = role, cf_job_concurrency = job_concurrency, cf_job_kind_limits = job_kind_limits,
          cf_job_yield_budget_ms = job_yield_budget_ms, cf_cache_ttl_overrides = cache_ttl_overrides,
          cf_cache_l1_max_mb = cache_l1_max_mb, cf_neg_ttl_seconds = neg_ttl_seconds,
          cf_neg_ttl_account_seconds = neg_ttl_account_seconds, cf_client_wait_budget_ms = client_wait_budget_ms,
          cf_bulk_usage_ceiling = bulk_usage_ceiling, cf_bulk_idle_ceiling = bulk_idle_ceiling,
          cf_bulk_idle_after_s = bulk_idle_after_s, cf_stale_while_revalidate = stale_while_revalidate,
          cf_metrics_interval_s = metrics_interval_s, cf_metrics_history_interval_s = metrics_history_interval_s,
          cf_track_poll_live_s = track_poll_live_s, cf_track_poll_rank_s = track_poll_rank_s,
          cf_track_poll_match_s = track_poll_match_s, cf_ddragon_sync_s = ddragon_sync_s, cf_archive_timelines = archive_timelines,
          cf_timeline_backfill_patches = timeline_backfill_patches, cf_backup_keep = backup_keep,
          cf_archive_object_url = ov_url objects, cf_archive_object_endpoint = ov_endpoint objects,
          cf_archive_object_region = archive_object_region, cf_archive_object_access_key = ov_access_key objects,
          cf_archive_object_secret_key = ov_secret_key objects, cf_archive_object_concurrency = archive_object_concurrency,
          cf_archive_object_read_only = archive_object_read_only, cf_archive_body_local_days = archive_body_local_days,
          cf_archive_pack_target_bytes = archive_pack_target_bytes, cf_archive_offload_pace_ms = archive_offload_pace_ms,
          cf_lookup_backfill_limit = lookup_backfill_limit, cf_track_catchup_limit = track_catchup_limit,
          cf_ladder_crawl_s = ladder_crawl_s, cf_ladder_queues = ladder_queues, cf_ladder_platforms = ladder_platforms,
          cf_ladder_tier_floor = ladder_tier_floor, cf_ladder_backfill_limit = ladder_backfill_limit,
          cf_ladder_crawl_match_limit = ladder_crawl_match_limit, cf_ladder_collect_overlap_s = ladder_collect_overlap_s,
          cf_rank_lookup_limit = rank_lookup_limit, cf_rank_lookup_recheck_s = rank_lookup_recheck_s,
          cf_tier_late_stamp_days = tier_late_stamp_days, cf_facts_reextract_batch = facts_reextract_batch,
          cf_aggregate_patch_limit = aggregate_patch_limit, cf_analytics_cache_entries = analytics_cache_entries,
          cf_aggregate_interval_s = aggregate_interval_s, cf_aggregate_delta_s = aggregate_delta_s,
          cf_aggregate_delta_target_ms = aggregate_delta_target_ms, cf_aggregate_delta_batch = aggregate_delta_batch,
          cf_ddragon_dir = (case ddragon_dir of Some d \<Rightarrow> d | None \<Rightarrow> path_join data_dir ''ddragon''),
          cf_ddragon_locale = ddragon_locale, cf_admin_ip_allowlist = csv admin_ip_allowlist, cf_trust_proxy = trust_proxy,
          cf_status_allow_cidr = status_allow_cidr, cf_status_check_interval_s = status_check_interval_s,
          cf_status_check_platforms = status_check_platforms, cf_riot_api_key_expires_at_ms = riot_api_key_expires_at_ms,
          cf_admin_cors_origins = admin_cors_origins, cf_bootstrap_admin_key = map_option Secret bootstrap_admin_key,
          cf_auth_disabled = auth_disabled, cf_dev_ui = (dev_ui \<and> env \<noteq> Production),
          cf_dev_ui_ignored = (dev_ui \<and> env = Production \<and> dev_ui_set), cf_docs_ui = docs_ui,
          cf_dashboard_ui = dashboard_ui, cf_riot_base_url = riot_base_url, cf_ddragon_base_url = ddragon_base_url\<rparr>
     }"

text \<open>The ceiling for bulk work on an idle scope is never below the ceiling on a busy one.\<close>

definition v_ceilings :: "bool \<Rightarrow> config \<Rightarrow> (vars, config) state" where
  "v_ceilings idle_set c =
     (let idle = cf_bulk_idle_ceiling c; busy = cf_bulk_usage_ceiling c in
      if \<not> idle_set then State_Monad.return (c\<lparr>cf_bulk_idle_ceiling := max idle busy\<rparr>)
      else if 1 \<le> idle then v_fail ''BULK_IDLE_CEILING'' (quote (show_f64 idle) @ '' must be below 1'') c
      else if idle < busy then
        v_fail ''BULK_IDLE_CEILING'' (quote (show_f64 idle) @ '' is below BULK_USAGE_CEILING ('' @ show_f64 busy @ '')'') c
      else State_Monad.return c)"

definition v_all :: "(string \<Rightarrow> int option) \<Rightarrow> bool \<Rightarrow> (vars, config) state" where
  "v_all parse_time stdout_is_tty =
     do {
       riot_api_key \<leftarrow> v_riot_api_key;
       key_scope \<leftarrow> v_key_scope;
       env \<leftarrow> v_env;
       data_dir \<leftarrow> v_string ''DATA_DIR'' ''./data'';
       database \<leftarrow> v_database data_dir;
       role \<leftarrow> v_role database;
       log_format \<leftarrow> v_parsed log_format_from_str ''LOG_FORMAT'' (if stdout_is_tty then Log_pretty else Log_json);
       auth_disabled \<leftarrow> v_auth_disabled env;
       dev_ui_flag \<leftarrow> v_opt_bool ''DEV_UI'';
       tls \<leftarrow> v_bool RETIRED_TLS_VAR False;
       v_when tls (v_push RETIRED_TLS_VAR ''built-in TLS was removed; terminate HTTPS in a reverse proxy'');
       (riot_base_url, ddragon_base_url) \<leftarrow> v_base_urls env;
       platforms_raw \<leftarrow> v_string ''LADDER_PLATFORMS'' [];
       ladder_platforms \<leftarrow> traverse_list (v_platform ''LADDER_PLATFORMS'') (csv platforms_raw);
       status_check_platforms \<leftarrow> v_status_platforms ladder_platforms;
       expires \<leftarrow> v_timestamp_ms parse_time ''RIOT_API_KEY_EXPIRES_AT'';
       objects \<leftarrow> v_object_store env;
       read_only \<leftarrow> v_read_only objects;
       idle_raw \<leftarrow> v_opt_string ''BULK_IDLE_CEILING'';
       c \<leftarrow> v_config riot_api_key key_scope env log_format data_dir database role objects read_only ladder_platforms
              status_check_platforms expires auth_disabled (dev_ui_flag \<noteq> Some False) (dev_ui_flag \<noteq> None) riot_base_url ddragon_base_url;
       v_ceilings (idle_raw \<noteq> None) c
     }"

definition config_from_map :: "(string \<Rightarrow> int option) \<Rightarrow> (string \<rightharpoonup> string) \<Rightarrow> bool \<Rightarrow> config_error + config" where
  "config_from_map parse_time m stdout_is_tty =
     (case run_state (v_all parse_time stdout_is_tty) \<lparr>va_map = m, va_errors = []\<rparr> of
        (c, v) \<Rightarrow> if va_errors v = [] then Inr c else Inl (Invalid (va_errors v)))"


section \<open>What the admin API shows\<close>

definition show_bool :: "bool \<Rightarrow> string" where
  "show_bool b = (if b then ''true'' else ''false'')"

definition redacted_kind_limits :: "config \<Rightarrow> string" where
  "redacted_kind_limits c =
     (if cf_job_kind_limits c = [] then ''none''
      else join '','' (map (\<lambda>(k, n). k @ ''='' @ show_nat n) (cf_job_kind_limits c)))"

definition redacted_database :: "config \<Rightarrow> string" where
  "redacted_database c = (case cf_database c of Sqlite p \<Rightarrow> ''sqlite://'' @ p | Postgres _ \<Rightarrow> REDACTED)"

text \<open>The pairs in the order of the source; printing a time is the \<^verbatim>\<open>jiff\<close> library's.\<close>

definition redacted_pairs :: "(int \<Rightarrow> string) \<Rightarrow> config \<Rightarrow> (string \<times> string option) list" where
  "redacted_pairs rfc3339 c =
      [(''RIOT_USER_AGENT'', Some (cf_riot_user_agent c)),
       (''KEY_SCOPE'', cf_key_scope c),
       (''ENV'', Some (environment_as_str (cf_env c))),
       (''HOST'', Some (cf_host c)),
       (''PORT'', Some (show_nat (cf_port c))),
       (''LOG_LEVEL'', Some (cf_log_level c)),
       (''LOG_FORMAT'', Some (log_format_as_str (cf_log_format c))),
       (''DATA_DIR'', Some (cf_data_dir c)),
       (''DATABASE_URL'', Some (redacted_database c)),
       (''ROLE'', Some (role_as_str (cf_role c))),
       (''JOB_CONCURRENCY'', Some (show_nat (cf_job_concurrency c))),
       (''JOB_KIND_LIMITS'', Some (redacted_kind_limits c)),
       (''JOB_YIELD_BUDGET_MS'', Some (show_nat (cf_job_yield_budget_ms c))),
       (''CACHE_TTL_OVERRIDES'', Some (cf_cache_ttl_overrides c)),
       (''CACHE_L1_MAX_MB'', Some (show_nat (cf_cache_l1_max_mb c))),
       (''NEG_TTL_SECONDS'', Some (show_nat (cf_neg_ttl_seconds c))),
       (''NEG_TTL_ACCOUNT_SECONDS'', Some (show_nat (cf_neg_ttl_account_seconds c))),
       (''CLIENT_WAIT_BUDGET_MS'', Some (show_nat (cf_client_wait_budget_ms c))),
       (''BULK_USAGE_CEILING'', Some (show_f64 (cf_bulk_usage_ceiling c))),
       (''BULK_IDLE_CEILING'', Some (show_f64 (cf_bulk_idle_ceiling c))),
       (''BULK_IDLE_AFTER_S'', Some (show_nat (cf_bulk_idle_after_s c))),
       (''STALE_WHILE_REVALIDATE'', Some (show_bool (cf_stale_while_revalidate c))),
       (''METRICS_INTERVAL_S'', Some (show_nat (cf_metrics_interval_s c))),
       (''METRICS_HISTORY_INTERVAL_S'', Some (show_nat (cf_metrics_history_interval_s c))),
       (''TRACK_POLL_LIVE_S'', Some (show_nat (cf_track_poll_live_s c))),
       (''TRACK_POLL_RANK_S'', Some (show_nat (cf_track_poll_rank_s c))),
       (''TRACK_POLL_MATCH_S'', Some (show_nat (cf_track_poll_match_s c))),
       (''DDRAGON_SYNC_S'', Some (show_nat (cf_ddragon_sync_s c))),
       (''ARCHIVE_TIMELINES'', Some (show_bool (cf_archive_timelines c))),
       (''TIMELINE_BACKFILL_PATCHES'', Some (show_nat (cf_timeline_backfill_patches c))),
       (''BACKUP_KEEP'', Some (show_nat (cf_backup_keep c))),
       (''ARCHIVE_OBJECT_URL'', map_option object_url_fmt (cf_archive_object_url c)),
       (''ARCHIVE_OBJECT_ENDPOINT'', cf_archive_object_endpoint c),
       (''ARCHIVE_OBJECT_REGION'', Some (cf_archive_object_region c)),
       (''ARCHIVE_OBJECT_ACCESS_KEY'', map_option (\<lambda>_. REDACTED) (cf_archive_object_access_key c)),
       (''ARCHIVE_OBJECT_SECRET_KEY'', map_option (\<lambda>_. REDACTED) (cf_archive_object_secret_key c)),
       (''ARCHIVE_OBJECT_CONCURRENCY'', Some (show_nat (cf_archive_object_concurrency c))),
       (''ARCHIVE_OBJECT_READ_ONLY'', Some (show_bool (cf_archive_object_read_only c))),
       (''ARCHIVE_BODY_LOCAL_DAYS'', Some (show_nat (cf_archive_body_local_days c))),
       (''ARCHIVE_PACK_TARGET_BYTES'', Some (show_nat (cf_archive_pack_target_bytes c))),
       (''ARCHIVE_OFFLOAD_PACE_MS'', Some (show_nat (cf_archive_offload_pace_ms c))),
       (''LOOKUP_BACKFILL_LIMIT'', Some (show_nat (cf_lookup_backfill_limit c))),
       (''TRACK_CATCHUP_LIMIT'', Some (show_nat (cf_track_catchup_limit c))),
       (''LADDER_CRAWL_S'', Some (show_nat (cf_ladder_crawl_s c))),
       (''LADDER_QUEUES'', Some (join '','' (cf_ladder_queues c))),
       (''LADDER_PLATFORMS'', Some (join '','' (map platform_as_str (cf_ladder_platforms c)))),
       (''LADDER_TIER_FLOOR'', Some (cf_ladder_tier_floor c)),
       (''LADDER_BACKFILL_LIMIT'', Some (show_nat (cf_ladder_backfill_limit c))),
       (''LADDER_CRAWL_MATCH_LIMIT'', Some (show_nat (cf_ladder_crawl_match_limit c))),
       (''LADDER_COLLECT_OVERLAP_S'', Some (show_nat (cf_ladder_collect_overlap_s c))),
       (''RANK_LOOKUP_LIMIT'', Some (show_nat (cf_rank_lookup_limit c))),
       (''RANK_LOOKUP_RECHECK_S'', Some (show_nat (cf_rank_lookup_recheck_s c))),
       (''TIER_LATE_STAMP_DAYS'', Some (show_nat (cf_tier_late_stamp_days c))),
       (''FACTS_REEXTRACT_BATCH'', Some (show_nat (cf_facts_reextract_batch c))),
       (''AGGREGATE_PATCH_LIMIT'', Some (show_nat (cf_aggregate_patch_limit c))),
       (''ANALYTICS_CACHE_ENTRIES'', Some (show_nat (cf_analytics_cache_entries c))),
       (''AGGREGATE_INTERVAL_S'', Some (show_nat (cf_aggregate_interval_s c))),
       (''AGGREGATE_DELTA_S'', Some (show_nat (cf_aggregate_delta_s c))),
       (''AGGREGATE_DELTA_TARGET_MS'', Some (show_nat (cf_aggregate_delta_target_ms c))),
       (''AGGREGATE_DELTA_BATCH'', Some (show_nat (cf_aggregate_delta_batch c))),
       (''DDRAGON_DIR'', Some (cf_ddragon_dir c)),
       (''DDRAGON_LOCALE'', Some (cf_ddragon_locale c)),
       (''ADMIN_IP_ALLOWLIST'', Some (join '','' (cf_admin_ip_allowlist c))),
       (''TRUST_PROXY'', Some (show_bool (cf_trust_proxy c))),
       (''STATUS_ALLOW_CIDR'', Some (if cf_status_allow_cidr c = [] then ''none'' else join '','' (cf_status_allow_cidr c))),
       (''STATUS_CHECK_INTERVAL_S'', Some (show_nat (cf_status_check_interval_s c))),
       (''STATUS_CHECK_PLATFORMS'', Some (if cf_status_check_platforms c = [] then ''none'' else join '','' (map platform_as_str (cf_status_check_platforms c)))),
       (''RIOT_API_KEY_EXPIRES_AT'', map_option rfc3339 (cf_riot_api_key_expires_at_ms c)),
       (''ADMIN_CORS_ORIGINS'', Some (join '','' (cf_admin_cors_origins c))),
       (''BOOTSTRAP_ADMIN_KEY'', map_option (\<lambda>_. REDACTED) (cf_bootstrap_admin_key c)),
       (''AUTH_DISABLED'', Some (show_bool (cf_auth_disabled c))),
       (''DEV_UI'', Some (show_bool (cf_dev_ui c))),
       (''DOCS_UI'', Some (show_bool (cf_docs_ui c))),
       (''DASHBOARD_UI'', Some (show_bool (cf_dashboard_ui c))),
       (''RIOT_BASE_URL'', cf_riot_base_url c),
       (''DDRAGON_BASE_URL'', cf_ddragon_base_url c)]"

definition redacted :: "(int \<Rightarrow> string) \<Rightarrow> config \<Rightarrow> (string \<times> string option) list" where
  "redacted rfc3339 c = btree_of (redacted_pairs rfc3339 c)"

section \<open>The layers\<close>

record config_args =
  ca_host :: "string option"
  ca_port :: "nat option"
  ca_data_dir :: "file_path option"
  ca_database_url :: "string option"
  ca_environment :: "string option"
  ca_role :: "string option"
  ca_job_concurrency :: "nat option"
  ca_analytics_cache_entries :: "nat option"
  ca_log_level :: "string option"
  ca_log_format :: "string option"

definition overrides :: "config_args \<Rightarrow> string \<rightharpoonup> string" where
  "overrides a =
     map_of (List.map_filter (\<lambda>(k, v). map_option (Pair k) v)
       [(''HOST'', ca_host a), (''PORT'', map_option show_nat (ca_port a)), (''DATA_DIR'', ca_data_dir a),
        (''DATABASE_URL'', ca_database_url a), (''ENV'', ca_environment a), (''ROLE'', ca_role a),
        (''JOB_CONCURRENCY'', map_option show_nat (ca_job_concurrency a)),
        (''ANALYTICS_CACHE_ENTRIES'', map_option show_nat (ca_analytics_cache_entries a)),
        (''LOG_LEVEL'', ca_log_level a), (''LOG_FORMAT'', ca_log_format a)])"

record config_sources =
  so_dotenv :: "(string \<times> string) list"
  so_env :: "(string \<times> string) list"
  so_args :: config_args
  so_stdout_is_tty :: bool

text \<open>Unknown and empty variables are dropped; of several values of one name the last is kept.\<close>

definition known :: "(string \<times> string) list \<Rightarrow> string \<rightharpoonup> string" where
  "known kvs =
     map_of (rev (filter (\<lambda>(k, v). v \<noteq> [] \<and> (k \<in> set VARS \<or> k = LEGACY_ENV_VAR \<or> k = RETIRED_TLS_VAR)) kvs))"

type_synonym merger = "(string \<rightharpoonup> string) list \<Rightarrow> string + (string \<rightharpoonup> string)"

definition from_sources :: "merger \<Rightarrow> (string \<Rightarrow> int option) \<Rightarrow> config_sources \<Rightarrow> config_error + config" where
  "from_sources merge parse_time s =
     (case merge [known (so_dotenv s), known (so_env s), overrides (so_args s)] of
        Inl e \<Rightarrow> Inl (Merge e)
      | Inr merged \<Rightarrow> config_from_map parse_time merged (so_stdout_is_tty s))"

section \<open>The .env file\<close>

text \<open>\<^verbatim>\<open>str::lines\<close>: without the line ends, and no line after the last one.\<close>

definition strip_cr :: "string \<Rightarrow> string" where
  "strip_cr l = (if ends_char (CHR 0x0D) l then butlast l else l)"

definition text_lines :: "string \<Rightarrow> string list" where
  "text_lines t =
     (let parts = split_on (CHR 0x0A) t in
      if last parts = [] then map strip_cr (butlast parts) else map strip_cr (butlast parts) @ [last parts])"

definition trim_start :: "string \<Rightarrow> string" where
  "trim_start = dropWhile is_ws"

definition env_name_char :: "char \<Rightarrow> bool" where
  "env_name_char c = (is_alnum c \<or> c = CHR ''_'' \<or> c = CHR ''.'' \<or> c = CHR ''-'')"

text \<open>\<^verbatim>\<open>replace("\\n", newline)\<close>, on the two characters of the escape.\<close>

fun expand_newlines :: "string \<Rightarrow> string" where
  "expand_newlines (a # b # s) =
     (if a = CHR 0x5C \<and> b = CHR ''n'' then CHR 0x0A # expand_newlines s else a # expand_newlines (b # s))"
| "expand_newlines s = s"

text \<open>What stands before the first \<^verbatim>\<open>" #"\<close>.\<close>

fun before_comment :: "string \<Rightarrow> string" where
  "before_comment (a # b # s) = (if a = CHR '' '' \<and> b = CHR ''#'' then [] else a # before_comment (b # s))"
| "before_comment s = s"

definition quote_marks :: string where
  "quote_marks = [CHR 0x22, CHR 0x27, CHR 0x60]"

definition dotenv_value :: "string \<Rightarrow> string + string" where
  "dotenv_value value =
     (case value of
        q # inner \<Rightarrow>
          if q \<in> set quote_marks then
            (if q \<notin> set inner then Inl (''unterminated '' @ [q] @ ''-quoted value'')
             else
               (let body = takeWhile (\<lambda>c. c \<noteq> q) inner; rest = trim (tl (dropWhile (\<lambda>c. c \<noteq> q) inner)) in
                if \<not> (rest = [] \<or> starts_char CHR ''#'' rest) then Inl ''unexpected text after the closing quote''
                else Inr (if q = CHR 0x22 then expand_newlines body else body)))
          else Inr (trim (before_comment value))
      | [] \<Rightarrow> Inr (trim (before_comment value)))"

definition dotenv_line :: "string \<Rightarrow> string + (string \<times> string) option" where
  "dotenv_line raw =
     (let line = trim raw in
      if line = [] \<or> starts_char CHR ''#'' line then Inr None
      else
        (let line = (case strip_prefix ''export '' line of Some l \<Rightarrow> trim_start l | None \<Rightarrow> line) in
         case split_once CHR ''='' line of
           None \<Rightarrow> Inl ''expected KEY=VALUE''
         | Some (k0, v0) \<Rightarrow>
             (let key = trim k0 in
              if key = [] \<or> \<not> list_all env_name_char key then Inl (''invalid variable name '' @ quote key)
              else
                (case dotenv_value (trim v0) of
                   Inl e \<Rightarrow> Inl e
                 | Inr v \<Rightarrow> Inr (Some (key, v))))))"

fun dotenv_loop :: "nat \<Rightarrow> string list \<Rightarrow> (string \<times> string) list \<Rightarrow> nat \<times> string + (string \<times> string) list" where
  "dotenv_loop i [] out = Inr out"
| "dotenv_loop i (l # ls) out =
     (case dotenv_line l of
        Inl e \<Rightarrow> Inl (i + 1, e)
      | Inr None \<Rightarrow> dotenv_loop (i + 1) ls out
      | Inr (Some kv) \<Rightarrow> dotenv_loop (i + 1) ls (out @ [kv]))"

definition parse_dotenv :: "string \<Rightarrow> nat \<times> string + (string \<times> string) list" where
  "parse_dotenv t = dotenv_loop 0 (text_lines t) []"

definition read_dotenv :: "file_path \<Rightarrow> string + string \<Rightarrow> config_error + (string \<times> string) list" where
  "read_dotenv p file =
     (case file of
        Inl e \<Rightarrow> Inl (DotEnvIo p e)
      | Inr t \<Rightarrow>
          (case parse_dotenv t of
             Inl (line, m) \<Rightarrow> Inl (DotEnv p line m)
           | Inr kvs \<Rightarrow> Inr kvs))"

section \<open>Loading\<close>

text \<open>
  The file at the path given, when there is one (\<open>file\<close> is \<open>None\<close> where it does not exist, and what reading it gives
  otherwise), the environment and the flags; \<open>mkdir\<close> creates the data directory or gives the error.
\<close>

definition load_with ::
  "merger \<Rightarrow> (string \<Rightarrow> int option) \<Rightarrow> (file_path \<Rightarrow> string option) \<Rightarrow> (file_path \<times> (string + string) option) option \<Rightarrow>
     (string \<times> string) list \<Rightarrow> config_args \<Rightarrow> bool \<Rightarrow> config_error + config" where
  "load_with merge parse_time mkdir dotenv env args tty =
     (case (case dotenv of Some (p, Some file) \<Rightarrow> read_dotenv p file | _ \<Rightarrow> Inr []) of
        Inl e \<Rightarrow> Inl e
      | Inr kvs \<Rightarrow>
          (case from_sources merge parse_time \<lparr>so_dotenv = kvs, so_env = env, so_args = args, so_stdout_is_tty = tty\<rparr> of
             Inl e \<Rightarrow> Inl e
           | Inr c \<Rightarrow> (case mkdir (cf_data_dir c) of Some e \<Rightarrow> Inl (DataDir (cf_data_dir c) e) | None \<Rightarrow> Inr c)))"

definition is_production :: "config \<Rightarrow> bool" where
  "is_production c = (cf_env c = Production)"

end
