(* ===== verification/Config_Props.thy ===== *)
theory Config_Props
  imports Config "HOL-Library.Sublist"
begin

text \<open>
  The theorems about the configuration: what every accepted one satisfies, that every bad number is reported, that the
  view for the admin API hides the secrets, and that a quoted \<^verbatim>\<open>.env\<close> file reads back as it was written.
\<close>

section \<open>What a reader of variables does\<close>

text \<open>A reader leaves the variables alone and only adds errors; when it adds none, its value has the property \<open>P\<close>.\<close>

named_theorems reads_intros

definition reads :: "(vars, 'a) state \<Rightarrow> ((string \<rightharpoonup> string) \<Rightarrow> 'a \<Rightarrow> bool) \<Rightarrow> bool" where
  "reads m P =
     (\<forall>v x v'. run_state m v = (x, v') \<longrightarrow>
        va_map v' = va_map v \<and> prefix (va_errors v) (va_errors v') \<and> (va_errors v' = va_errors v \<longrightarrow> P (va_map v) x))"

lemma reads_mono: "reads m P \<Longrightarrow> (\<And>mp x. P mp x \<Longrightarrow> Q mp x) \<Longrightarrow> reads m Q"
  unfolding reads_def by metis

lemma reads_return: "(\<And>mp. P mp x) \<Longrightarrow> reads (State_Monad.return x) P"
  by (simp add: reads_def)

lemma reads_bind:
  assumes "reads m P" "\<And>x. reads (f x) (\<lambda>mp y. P mp x \<longrightarrow> Q mp y)"
  shows "reads (State_Monad.bind m f) Q"
  unfolding reads_def
proof (intro allI impI)
  fix v y v2
  assume run: "run_state (State_Monad.bind m f) v = (y, v2)"
  obtain x v1 where one: "run_state m v = (x, v1)" and two: "run_state (f x) v1 = (y, v2)"
    using run by (cases "run_state m v") simp
  have fst: "va_map v1 = va_map v" "prefix (va_errors v) (va_errors v1)" "va_errors v1 = va_errors v \<Longrightarrow> P (va_map v) x"
    using assms(1) one unfolding reads_def by blast+
  have snd: "va_map v2 = va_map v1" "prefix (va_errors v1) (va_errors v2)" "va_errors v2 = va_errors v1 \<Longrightarrow> P (va_map v1) x \<longrightarrow> Q (va_map v1) y"
    using assms(2) two unfolding reads_def by blast+
  show "va_map v2 = va_map v \<and> prefix (va_errors v) (va_errors v2) \<and> (va_errors v2 = va_errors v \<longrightarrow> Q (va_map v) y)"
    using fst snd prefix_order.order_trans prefix_order.antisym by metis
qed

lemma reads_errors_push [reads_intros]: "reads (v_errors_push e) (\<lambda>_ _. False)"
  by (auto simp: reads_def v_errors_push_def)

lemma reads_push [reads_intros]: "reads (v_push name e) (\<lambda>_ _. False)"
  by (simp add: v_push_def reads_errors_push)

lemma reads_fail: "reads (v_fail name e x) (\<lambda>_ _. False)"
  unfolding v_fail_def by (rule reads_bind, rule reads_push, rule reads_return) simp

lemma reads_fail_any: "reads (v_fail name e x) P"
  by (rule reads_mono [OF reads_fail]) simp

lemma reads_when [reads_intros]: "reads m (\<lambda>_ _. False) \<Longrightarrow> reads (v_when c m) (\<lambda>_ _. \<not> c)"
  by (auto simp: v_when_def intro: reads_return reads_mono)

lemma reads_opt_string [reads_intros]: "reads (v_opt_string name) (\<lambda>mp x. x = mp name)"
  by (simp add: reads_def v_opt_string_def)

lemma reads_string [reads_intros]: "reads (v_string name dflt) (\<lambda>_ _. True)"
  by (simp add: reads_def v_string_def v_opt_string_def)

lemma reads_parse_or: "(\<And>x. parse raw = Inr x \<Longrightarrow> P x) \<Longrightarrow> reads (v_parse_or parse name raw dflt) (\<lambda>_. P)"
  unfolding v_parse_or_def by (auto intro: reads_return reads_fail_any split: sum.split)

lemma reads_parsed [reads_intros]: "reads (v_parsed parse name dflt) (\<lambda>_ _. True)"
  unfolding v_parsed_def
  by (rule reads_bind, rule reads_opt_string) (auto split: option.split intro: reads_return reads_mono [OF reads_parse_or])

lemma reads_int:
  assumes "lo \<le> dflt" "dflt \<le> hi"
  shows "reads (v_int tmax name dflt lo hi) (\<lambda>_ n. lo \<le> n \<and> n \<le> hi)"
  unfolding v_int_def v_range_error_def
  by (rule reads_bind, rule reads_opt_string)
    (use assms in \<open>auto split: option.split intro!: reads_return reads_fail_any\<close>)

lemma reads_float:
  assumes "lo \<le> dflt" "dflt \<le> hi"
  shows "reads (v_float name dflt lo hi) (\<lambda>mp x. lo \<le> x \<and> x \<le> hi \<and> (mp name = None \<longrightarrow> x = dflt))"
  unfolding v_float_def v_range_error_def
  by (rule reads_bind, rule reads_opt_string)
    (use assms in \<open>auto split: option.split parsed_f64.split intro!: reads_return reads_fail_any\<close>)

lemma reads_opt_bool [reads_intros]: "reads (v_opt_bool name) (\<lambda>_ _. True)"
  unfolding v_opt_bool_def
  by (rule reads_bind, rule reads_opt_string) (auto simp: Let_def split: option.split intro!: reads_return reads_fail_any)

lemma reads_bool [reads_intros]: "reads (v_bool name dflt) (\<lambda>_ _. True)"
  unfolding v_bool_def by (rule reads_bind, rule reads_opt_bool, rule reads_return) simp

lemma reads_traverse: "(\<And>x. reads (f x) (\<lambda>_ y. P x y)) \<Longrightarrow> reads (traverse_list f xs) (\<lambda>_ ys. list_all2 P xs ys)"
proof (induction xs)
  case (Cons x xs)
  show ?case
    unfolding traverse_list.simps
    by (rule reads_bind, rule Cons.prems, rule reads_bind, rule Cons.IH [OF Cons.prems], rule reads_return) simp
qed (simp add: reads_return)

section \<open>What every accepted configuration satisfies\<close>

definition config_bounds :: "config \<Rightarrow> bool" where
  "config_bounds c =
     (1 \<le> cf_port c \<and> cf_port c \<le> u16_max \<and>
      1 \<le> cf_job_concurrency c \<and> cf_job_concurrency c \<le> u32_max \<and>
      cf_job_yield_budget_ms c \<le> 900000 \<and>
      1 \<le> cf_cache_l1_max_mb c \<and> cf_cache_l1_max_mb c \<le> 1048576 \<and>
      1 \<le> cf_neg_ttl_seconds c \<and> cf_neg_ttl_seconds c \<le> u32_max \<and>
      1 \<le> cf_neg_ttl_account_seconds c \<and> cf_neg_ttl_account_seconds c \<le> u32_max \<and>
      cf_client_wait_budget_ms c \<le> u64_max \<and>
      cf_bulk_idle_after_s c \<le> 86400 \<and>
      1 \<le> cf_metrics_interval_s c \<and> cf_metrics_interval_s c \<le> 300 \<and>
      10 \<le> cf_metrics_history_interval_s c \<and> cf_metrics_history_interval_s c \<le> 3600 \<and>
      10 \<le> cf_track_poll_live_s c \<and> cf_track_poll_live_s c \<le> u32_max \<and>
      30 \<le> cf_track_poll_rank_s c \<and> cf_track_poll_rank_s c \<le> u32_max \<and>
      30 \<le> cf_track_poll_match_s c \<and> cf_track_poll_match_s c \<le> u32_max \<and>
      60 \<le> cf_ddragon_sync_s c \<and> cf_ddragon_sync_s c \<le> u32_max \<and>
      cf_timeline_backfill_patches c \<le> 1000 \<and>
      cf_backup_keep c \<le> 365 \<and>
      1 \<le> cf_archive_object_concurrency c \<and> cf_archive_object_concurrency c \<le> 256 \<and>
      cf_archive_body_local_days c \<le> 365 \<and>
      1048576 \<le> cf_archive_pack_target_bytes c \<and> cf_archive_pack_target_bytes c \<le> 1073741824 \<and>
      cf_archive_offload_pace_ms c \<le> 60000 \<and>
      cf_lookup_backfill_limit c \<le> u32_max \<and>
      cf_track_catchup_limit c \<le> 10000 \<and>
      cf_ladder_crawl_s c \<le> 604800 \<and>
      cf_ladder_backfill_limit c \<le> 10000 \<and>
      cf_ladder_crawl_match_limit c \<le> 100000000 \<and>
      cf_ladder_collect_overlap_s c \<le> 86400 \<and>
      cf_rank_lookup_limit c \<le> 10000000 \<and>
      cf_rank_lookup_recheck_s c \<le> 31536000 \<and>
      cf_tier_late_stamp_days c \<le> 365 \<and>
      1 \<le> cf_facts_reextract_batch c \<and> cf_facts_reextract_batch c \<le> 10000 \<and>
      cf_aggregate_patch_limit c \<le> 100 \<and>
      cf_analytics_cache_entries c \<le> 4096 \<and>
      cf_aggregate_interval_s c \<le> 604800 \<and>
      cf_aggregate_delta_s c \<le> 86400 \<and>
      20 \<le> cf_aggregate_delta_target_ms c \<and> cf_aggregate_delta_target_ms c \<le> 1000 \<and>
      5 \<le> cf_aggregate_delta_batch c \<and> cf_aggregate_delta_batch c \<le> 5000 \<and>
      1 \<le> cf_status_check_interval_s c \<and> cf_status_check_interval_s c \<le> 3600)"

definition kind_limits_ok :: "(string \<times> nat) list \<Rightarrow> bool" where
  "kind_limits_ok ls = (sorted_wrt (<) (map fst ls) \<and> list_all (\<lambda>(k, n). k \<in> set KINDS \<and> k \<notin> set LANED \<and> 1 \<le> n \<and> n \<le> u32_max) ls)"

definition config_lists :: "config \<Rightarrow> bool" where
  "config_lists c =
     (kind_limits_ok (cf_job_kind_limits c) \<and> set (cf_ladder_queues c) \<subseteq> set RANKED_QUEUES \<and> is_tier (cf_ladder_tier_floor c) \<and>
      list_all (\<lambda>e. allow_entry_parse e \<noteq> None) (cf_status_allow_cidr c) \<and> distinct (cf_status_check_platforms c) \<and>
      list_all origin_ok (cf_admin_cors_origins c))"

definition objects_ok :: "environment \<Rightarrow> object_url option \<Rightarrow> string option \<Rightarrow> secret option \<Rightarrow> secret option \<Rightarrow> bool" where
  "objects_ok env u endpoint access secret =
     ((access = None) = (secret = None) \<and>
      (case u of
         Some (S3 b) \<Rightarrow> endpoint \<noteq> None \<and> (env = Production \<longrightarrow> access \<noteq> None \<and> starts_with ''https://'' (the endpoint))
       | Some (File d) \<Rightarrow> env \<noteq> Production \<and> starts_char CHR ''/'' d
       | None \<Rightarrow> True))"

definition config_store :: "config \<Rightarrow> bool" where
  "config_store c =
     (cf_role c = Role_all \<and> (\<exists>p. cf_database c = Sqlite p) \<and>
      objects_ok (cf_env c) (cf_archive_object_url c) (cf_archive_object_endpoint c) (cf_archive_object_access_key c) (cf_archive_object_secret_key c) \<and>
      (cf_archive_object_read_only c \<longrightarrow> cf_archive_object_url c \<noteq> None))"

definition config_guards :: "config \<Rightarrow> bool" where
  "config_guards c =
     (8 \<le> length (utf8 (expose (cf_riot_api_key c))) \<and>
      (case cf_key_scope c of Some s \<Rightarrow> length s = 8 \<and> list_all scope_char s | None \<Rightarrow> True) \<and>
      (cf_env c = Production \<longrightarrow>
         \<not> cf_auth_disabled c \<and> \<not> cf_dev_ui c \<and> cf_riot_base_url c = None \<and> cf_ddragon_base_url c = None))"

definition config_ceilings :: "config \<Rightarrow> bool" where
  "config_ceilings c =
     (0 \<le> cf_bulk_usage_ceiling c \<and> cf_bulk_usage_ceiling c \<le> cf_bulk_idle_ceiling c \<and> cf_bulk_idle_ceiling c \<le> 1 \<and>
      (cf_bulk_idle_ceiling c < 1 \<or> cf_bulk_idle_ceiling c = cf_bulk_usage_ceiling c))"

section \<open>The readers, one by one\<close>

lemma list_all2_right: "list_all2 (\<lambda>_. Q) xs ys \<Longrightarrow> list_all Q ys"
  by (induction rule: list_all2_induct) simp_all

lemma list_all2_left: "list_all2 (\<lambda>x _. Q x) xs ys \<Longrightarrow> list_all Q xs"
  by (induction rule: list_all2_induct) simp_all

lemma scope_char_ascii: "scope_char c \<Longrightarrow> length (utf8_char c) = 1"
  by (auto simp: scope_char_def utf8_char_def Let_def)

lemma scope_bytes: "list_all scope_char s \<Longrightarrow> length (utf8 s) = length s"
  by (induction s) (auto simp: utf8_def scope_char_ascii)

lemma reads_key [reads_intros]: "reads v_riot_api_key (\<lambda>_ k. 8 \<le> length (utf8 k))"
  unfolding v_riot_api_key_def
  by (rule reads_bind, rule reads_opt_string) (auto split: option.split intro!: reads_return reads_fail_any)

lemma reads_key_scope [reads_intros]:
  "reads v_key_scope (\<lambda>_ s. case s of Some s \<Rightarrow> length s = 8 \<and> list_all scope_char s | None \<Rightarrow> True)"
  unfolding v_key_scope_def
  by (rule reads_bind, rule reads_opt_string) (auto simp: scope_bytes split: option.split intro!: reads_return reads_fail_any)

lemma reads_env [reads_intros]: "reads v_env (\<lambda>_ _. True)"
  unfolding v_env_def
  by (rule reads_bind, rule reads_opt_string, rule reads_bind, rule reads_opt_string)
    (auto split: option.split intro!: reads_return reads_mono [OF reads_parse_or])

lemma reads_database [reads_intros]: "reads (v_database d) (\<lambda>_ db. \<exists>p. db = Sqlite p)"
  unfolding v_database_def
  by (rule reads_bind, rule reads_opt_string) (auto split: option.split intro!: reads_return reads_fail_any)

lemma reads_role [reads_intros]: "reads (v_role db) (\<lambda>_ r. (\<exists>p. db = Sqlite p) \<longrightarrow> r = Role_all)"
  unfolding v_role_def
  by (rule reads_bind, rule reads_parsed, rule reads_bind, rule reads_when, rule reads_push, rule reads_return) auto

lemma reads_auth_disabled [reads_intros]: "reads (v_auth_disabled env) (\<lambda>_ b. env = Production \<longrightarrow> \<not> b)"
  unfolding v_auth_disabled_def
  by (rule reads_bind, rule reads_bool, rule reads_bind, rule reads_when, rule reads_errors_push, rule reads_return) auto

lemma reads_base_urls [reads_intros]: "reads (v_base_urls env) (\<lambda>_ (a, b). env = Production \<longrightarrow> a = None \<and> b = None)"
  unfolding v_base_urls_def
  by (rule reads_bind, rule reads_opt_string, rule reads_bind, rule reads_opt_string, rule reads_bind, rule reads_when, rule reads_errors_push,
      rule reads_bind, rule reads_when, rule reads_errors_push, rule reads_return) auto

lemma reads_platform: "reads (v_platform name raw) (\<lambda>_ _. True)"
  unfolding v_platform_def by (auto split: sum.split intro: reads_return reads_fail_any)

lemma reads_platforms [reads_intros]: "reads (traverse_list (v_platform name) raws) (\<lambda>_ _. True)"
  by (rule reads_mono [OF reads_traverse [OF reads_platform]]) simp

lemma push_new_distinct: "distinct out \<Longrightarrow> distinct (fold push_new ps out)"
  by (induction ps arbitrary: out) (auto simp: push_new_def)

lemma reads_status_platforms [reads_intros]: "reads (v_status_platforms ladder) (\<lambda>_ ps. distinct ps)"
  unfolding v_status_platforms_def
proof (rule reads_bind, rule reads_opt_string, rule reads_bind)
  show "reads (case x of None \<Rightarrow> State_Monad.return ladder
      | Some raw \<Rightarrow> if eq_ignore_case (trim raw) ''none'' then State_Monad.return []
          else traverse_list (v_platform ''STATUS_CHECK_PLATFORMS'') (csv raw)) (\<lambda>_ _. True)" for x
    by (auto split: option.split intro: reads_return reads_platforms)
qed (rule reads_return, simp add: push_new_distinct)

lemma reads_timestamp [reads_intros]: "reads (v_timestamp_ms parse_time name) (\<lambda>_ _. True)"
  unfolding v_timestamp_ms_def
  by (rule reads_bind, rule reads_opt_string) (auto split: option.split intro!: reads_return reads_fail_any)

lemma reads_cidrs [reads_intros]:
  "reads (v_cidrs name dflt) (\<lambda>_ es. list_all (\<lambda>e. allow_entry_parse e \<noteq> None) es)"
proof -
  have each: "reads (if allow_entry_parse e = None then v_push name (quote e @ '' is not an IP address or CIDR'') else State_Monad.return ())
      (\<lambda>_ _. allow_entry_parse e \<noteq> None)" for e
    by (auto intro: reads_return reads_mono [OF reads_push])
  show ?thesis
    unfolding v_cidrs_def
  proof (rule reads_bind, rule reads_string, split if_split, intro conjI impI)
    show "reads (do { traverse_list (\<lambda>e. if allow_entry_parse e = None then v_push name (quote e @ '' is not an IP address or CIDR'')
          else State_Monad.return ()) (csv raw); State_Monad.return (csv raw) })
        (\<lambda>_ es. True \<longrightarrow> list_all (\<lambda>e. allow_entry_parse e \<noteq> None) es)" for raw
      by (rule reads_bind, rule reads_traverse, rule each, rule reads_return) (auto dest: list_all2_left)
  qed (rule reads_return, simp)
qed

lemma reads_origins [reads_intros]: "reads (v_origins name) (\<lambda>_ os. list_all origin_ok os)"
proof -
  have each: "reads (v_origin name og) (\<lambda>_ os. list_all origin_ok os)" for og
    unfolding v_origin_def by (auto intro!: reads_return reads_fail_any)
  show ?thesis
    unfolding v_origins_def
    by (rule reads_bind, rule reads_string, rule reads_bind, rule reads_traverse, rule each, rule reads_return)
      (auto simp: list_all_iff dest!: list_all2_right)
qed

lemma reads_kind_limits [reads_intros]: "reads (v_kind_limits name dflt) (\<lambda>_ ls. kind_limits_ok ls)"
proof -
  let ?ok = "\<lambda>o_kn. case o_kn of Some (k, n) \<Rightarrow> k \<in> set KINDS \<and> k \<notin> set LANED \<and> 1 \<le> n \<and> n \<le> u32_max | None \<Rightarrow> True"
  have each: "reads (v_kind_limit name item) (\<lambda>_. ?ok)" for item
    unfolding v_kind_limit_def Let_def
    by (auto split: option.split intro!: reads_return reads_fail_any dest: parse_uint_bound)
  have all: "kind_limits_ok (btree_of (List.map_filter (\<lambda>x. x) items))" if "list_all ?ok items" for items
  proof -
    have "list_all (\<lambda>(k, n). k \<in> set KINDS \<and> k \<notin> set LANED \<and> 1 \<le> n \<and> n \<le> u32_max) (List.map_filter (\<lambda>x. x) items)"
      using that by (induction items) (auto simp: List.map_filter_def split: option.splits)
    then show ?thesis
      by (simp add: kind_limits_ok_def btree_of_sorted btree_of_all)
  qed
  show ?thesis
    unfolding v_kind_limits_def
  proof (rule reads_bind, rule reads_string, split if_split, intro conjI impI)
    show "reads (do { items \<leftarrow> traverse_list (v_kind_limit name) (csv raw); State_Monad.return (btree_of (List.map_filter (\<lambda>x. x) items)) })
        (\<lambda>_ ls. True \<longrightarrow> kind_limits_ok ls)" for raw
      by (rule reads_bind, rule reads_traverse, rule each, rule reads_return) (auto dest!: list_all2_right intro: all)
  qed (rule reads_return, simp add: kind_limits_ok_def)
qed

lemma reads_ranked_queues [reads_intros]: "reads (v_ranked_queues name dflt) (\<lambda>_ qs. set qs \<subseteq> set RANKED_QUEUES)"
proof -
  have each: "reads (do { ok \<leftarrow> v_ranked_queue name q; State_Monad.return (q, ok) }) (\<lambda>_ (p, b). p \<in> set RANKED_QUEUES)" for q
    by (rule reads_bind [where P = "\<lambda>_ b. q \<in> set RANKED_QUEUES"]) (auto simp: v_ranked_queue_def intro!: reads_return reads_fail_any)
  show ?thesis
    unfolding v_ranked_queues_def
    by (rule reads_bind, rule reads_string, rule reads_bind, rule reads_traverse, rule each, rule reads_return)
      (auto simp: list_all_iff dest!: list_all2_right)
qed

lemma reads_tier [reads_intros]: "reads (v_tier name dflt) (\<lambda>_ t. is_tier t)"
  unfolding v_tier_def by (rule reads_bind, rule reads_string) (auto simp: Let_def intro!: reads_return reads_fail_any)

lemma reads_read_only [reads_intros]: "reads (v_read_only objects) (\<lambda>_ b. b \<longrightarrow> ov_url objects \<noteq> None)"
  unfolding v_read_only_def
  by (rule reads_bind, rule reads_bool, rule reads_bind, rule reads_when, rule reads_push, rule reads_return) auto

section \<open>The object store\<close>

lemma parse_object_url_file: "parse_object_url raw = Inr (File d) \<Longrightarrow> starts_char CHR ''/'' d"
  by (auto simp: parse_object_url_def Let_def split: option.splits if_splits)

lemma check_endpoint_https: "check_endpoint raw True = Inr e \<Longrightarrow> starts_with ''https://'' e"
  by (auto simp: check_endpoint_def Let_def starts_with_def strip_prefix_def split: option.splits if_splits)

lemma reads_object_store [reads_intros]:
  "reads (v_object_store env) (\<lambda>_ ov. objects_ok env (ov_url ov) (ov_endpoint ov) (ov_access_key ov) (ov_secret_key ov))"
proof -
  have u: "reads (case raw of None \<Rightarrow> State_Monad.return None
      | Some r \<Rightarrow> (case parse_object_url r of Inr u \<Rightarrow> State_Monad.return (Some u) | Inl m \<Rightarrow> v_fail ''ARCHIVE_OBJECT_URL'' (quote r @ '' '' @ m) None))
      (\<lambda>_ u. case u of Some (File d) \<Rightarrow> starts_char CHR ''/'' d | _ \<Rightarrow> True)" for raw
    by (auto split: option.split sum.split object_url.split intro!: reads_return reads_fail_any dest: parse_object_url_file)
  have ep: "reads (case raw of None \<Rightarrow> State_Monad.return None
      | Some r \<Rightarrow> (case check_endpoint r (env = Production) of Inr e \<Rightarrow> State_Monad.return (Some e) | Inl m \<Rightarrow> v_fail ''ARCHIVE_OBJECT_ENDPOINT'' m None))
      (\<lambda>_ e. (raw \<noteq> None \<longrightarrow> e \<noteq> None) \<and> (env = Production \<longrightarrow> e \<noteq> None \<longrightarrow> starts_with ''https://'' (the e)))" for raw
    by (auto split: option.split sum.split intro!: reads_return reads_fail_any dest: check_endpoint_https)
  have pair: "reads (case u of
          Some (S3 b) \<Rightarrow> do { v_when a m1; v_when b' m2 }
        | Some (File d) \<Rightarrow> v_when c m3
        | None \<Rightarrow> State_Monad.return ()) (\<lambda>_ _. case u of Some (S3 b) \<Rightarrow> \<not> a \<and> \<not> b' | Some (File d) \<Rightarrow> \<not> c | None \<Rightarrow> True)"
    if "reads m1 (\<lambda>_ _. False)" "reads m2 (\<lambda>_ _. False)" "reads m3 (\<lambda>_ _. False)" for u a b' c m1 m2 m3
  proof -
    have "reads (do { v_when a m1; v_when b' m2 }) (\<lambda>_ _. \<not> a \<and> \<not> b')"
      by (rule reads_bind, rule reads_when [OF that(1)], rule reads_mono [OF reads_when [OF that(2)]]) simp
    then show ?thesis
      using reads_when [OF that(3)] by (auto split: option.split object_url.split intro: reads_return)
  qed
  show ?thesis
    unfolding v_object_store_def Let_def
    by (rule reads_bind, rule reads_opt_string, rule reads_bind, rule u, rule reads_bind, rule reads_opt_string, rule reads_bind, rule ep,
        rule reads_bind, rule reads_opt_string, rule reads_bind, rule reads_opt_string, rule reads_bind, rule reads_when, rule reads_errors_push,
        rule reads_bind, rule pair, rule reads_push, rule reads_push, rule reads_push, rule reads_return)
      (auto simp: objects_ok_def split: option.split object_url.splits)
qed

section \<open>The whole configuration\<close>

lemma default_ceilings: "0 \<le> f64_round (4 / 5)" "f64_round (4 / 5) \<le> 1" "0 \<le> DEFAULT_BULK_IDLE_CEILING" "DEFAULT_BULK_IDLE_CEILING \<le> 1" "DEFAULT_BULK_IDLE_CEILING < 1"
  by code_simp+

lemma reads_config_bounds:
  "reads (v_config k s env lf dir db r objs ro lp sp ex ad du dus rb ddb) (\<lambda>mp c. config_bounds c)"
  unfolding v_config_def
  apply (rule reads_bind, ((rule reads_int; simp add: u16_max_def u32_max_def u64_max_def) | (rule reads_float; simp add: default_ceilings) | rule reads_intros))+
  apply (rule reads_return)
  apply (simp add: config_bounds_def)
  done

lemma reads_config_rest:
  "reads (v_config k s env lf dir db r objs ro lp sp ex ad du dus rb ddb)
     (\<lambda>mp c. cf_riot_api_key c = Secret k \<and> cf_key_scope c = s \<and> cf_env c = env \<and> cf_database c = db \<and> cf_role c = r \<and>
        cf_archive_object_url c = ov_url objs \<and> cf_archive_object_endpoint c = ov_endpoint objs \<and>
        cf_archive_object_access_key c = ov_access_key objs \<and> cf_archive_object_secret_key c = ov_secret_key objs \<and>
        cf_archive_object_read_only c = ro \<and> cf_auth_disabled c = ad \<and> (cf_env c = Production \<longrightarrow> \<not> cf_dev_ui c) \<and>
        cf_riot_base_url c = rb \<and> cf_ddragon_base_url c = ddb \<and> (distinct sp \<longrightarrow> config_lists c) \<and>
        0 \<le> cf_bulk_usage_ceiling c \<and> cf_bulk_usage_ceiling c \<le> 1 \<and> 0 \<le> cf_bulk_idle_ceiling c \<and> cf_bulk_idle_ceiling c \<le> 1 \<and>
        (mp ''BULK_IDLE_CEILING'' = None \<longrightarrow> cf_bulk_idle_ceiling c = DEFAULT_BULK_IDLE_CEILING))"
  unfolding v_config_def
  apply (rule reads_bind, ((rule reads_int; simp add: u16_max_def u32_max_def u64_max_def) | (rule reads_float; simp add: default_ceilings) | rule reads_intros))+
  apply (rule reads_return)
  apply (intro impI, simp add: config_lists_def)
  done

lemma reads_ceilings:
  "reads (v_ceilings idle_set c)
     (\<lambda>_ c'. (\<exists>x. c' = c\<lparr>cf_bulk_idle_ceiling := x\<rparr>) \<and>
        (0 \<le> cf_bulk_usage_ceiling c \<longrightarrow> cf_bulk_usage_ceiling c \<le> 1 \<longrightarrow> cf_bulk_idle_ceiling c \<le> 1 \<longrightarrow>
         (\<not> idle_set \<longrightarrow> cf_bulk_idle_ceiling c = DEFAULT_BULK_IDLE_CEILING) \<longrightarrow> config_ceilings c'))"
proof -
  define P where "P c' = (\<exists>x. c' = c\<lparr>cf_bulk_idle_ceiling := x\<rparr>)" for c'
  have P: "P c" "P (c\<lparr>cf_bulk_idle_ceiling := x\<rparr>)" for x
    unfolding P_def by (rule exI [of _ "cf_bulk_idle_ceiling c"], simp) blast
  show ?thesis
    unfolding P_def [symmetric] v_ceilings_def Let_def
    using default_ceilings by (auto intro!: reads_return reads_fail_any simp: P config_ceilings_def max_def)
qed

definition config_ok :: "config \<Rightarrow> bool" where
  "config_ok c = (config_guards c \<and> config_bounds c \<and> config_lists c \<and> config_store c \<and> config_ceilings c)"

lemma config_ok_idle:
  "config_bounds (c\<lparr>cf_bulk_idle_ceiling := x\<rparr>) = config_bounds c" "config_lists (c\<lparr>cf_bulk_idle_ceiling := x\<rparr>) = config_lists c"
  "config_store (c\<lparr>cf_bulk_idle_ceiling := x\<rparr>) = config_store c" "config_guards (c\<lparr>cf_bulk_idle_ceiling := x\<rparr>) = config_guards c"
  by (simp_all add: config_bounds_def config_lists_def config_store_def config_guards_def)

lemma reads_both: "reads m P \<Longrightarrow> reads m Q \<Longrightarrow> reads m (\<lambda>mp x. P mp x \<and> Q mp x)"
  unfolding reads_def by metis

lemma reads_all: "reads (v_all parse_time tty) (\<lambda>_. config_ok)"
  unfolding v_all_def
  apply (rule reads_bind, ((rule reads_when, rule reads_push) | rule reads_intros))+
  apply (simp only: split_paired_all prod.case)
  apply (rule reads_bind, rule reads_intros)+
  apply (rule reads_bind, rule reads_both, rule reads_config_bounds, rule reads_config_rest)
  apply (rule reads_mono, rule reads_ceilings)
  apply (elim conjE exE)
  apply (intro impI)
  apply (simp add: config_ok_def config_ok_idle config_guards_def config_store_def)
  done


text \<open>For the witness: a reader of a variable that is not set adds no error.\<close>

named_theorems unset_readers

lemma unset_string [unset_readers]: "va_map v name = None \<Longrightarrow> run_state (v_string name d) v = (d, v)"
  by (simp add: v_string_def v_opt_string_def)

lemma unset_parsed [unset_readers]: "va_map v name = None \<Longrightarrow> run_state (v_parsed parse name d) v = (d, v)"
  by (simp add: v_parsed_def v_opt_string_def)

lemma unset_int [unset_readers]: "va_map v name = None \<Longrightarrow> run_state (v_int tmax name d lo hi) v = (d, v)"
  by (simp add: v_int_def v_opt_string_def)

lemma unset_float [unset_readers]: "va_map v name = None \<Longrightarrow> run_state (v_float name d lo hi) v = (d, v)"
  by (simp add: v_float_def v_opt_string_def)

lemma unset_opt_bool [unset_readers]: "va_map v name = None \<Longrightarrow> run_state (v_opt_bool name) v = (None, v)"
  by (simp add: v_opt_bool_def v_opt_string_def)

lemma unset_bool [unset_readers]: "va_map v name = None \<Longrightarrow> run_state (v_bool name d) v = (d, v)"
  by (simp add: v_bool_def unset_opt_bool)

lemma unset_timestamp [unset_readers]: "va_map v name = None \<Longrightarrow> run_state (v_timestamp_ms parse_time name) v = (None, v)"
  by (simp add: v_timestamp_ms_def v_opt_string_def)

lemma unset_status [unset_readers]: "va_map v ''STATUS_CHECK_PLATFORMS'' = None \<Longrightarrow> run_state (v_status_platforms []) v = ([], v)"
  by (simp add: v_status_platforms_def v_opt_string_def)

lemma csv_empty: "csv [] = []"
  by code_simp

lemma unset_origins [unset_readers]: "va_map v name = None \<Longrightarrow> run_state (v_origins name) v = ([], v)"
  by (simp add: v_origins_def unset_string csv_empty)

lemma no_cidrs [unset_readers]: "va_map v name = Some ''none'' \<Longrightarrow> run_state (v_cidrs name d) v = ([], v)"
proof -
  have "trim ''none'' = ''none''"
    by code_simp
  then show "va_map v name = Some ''none'' \<Longrightarrow> ?thesis"
    by (simp add: v_cidrs_def v_string_def v_opt_string_def)
qed

lemma unset_kind_limits [unset_readers]:
  "va_map v name = None \<Longrightarrow> run_state (v_kind_limits name DEFAULT_JOB_KIND_LIMITS) v = ([(''aggregate:analytics'', 1), (''archive:offload'', 1)], v)"
proof -
  have "\<not> eq_ignore_case (trim DEFAULT_JOB_KIND_LIMITS) ''none''" "csv DEFAULT_JOB_KIND_LIMITS = [''aggregate:analytics=1'', ''archive:offload=1'']"
    by code_simp+
  moreover have "v_kind_limit name ''aggregate:analytics=1'' = State_Monad.return (Some (''aggregate:analytics'', 1))"
    "v_kind_limit name ''archive:offload=1'' = State_Monad.return (Some (''archive:offload'', 1))"
  proof -
    have "split_once CHR ''='' ''aggregate:analytics=1'' = Some (''aggregate:analytics'', ''1'')" "split_once CHR ''='' ''archive:offload=1'' = Some (''archive:offload'', ''1'')"
      "trim ''aggregate:analytics'' = ''aggregate:analytics''" "trim ''archive:offload'' = ''archive:offload''" "trim ''1'' = ''1''"
      "''aggregate:analytics'' \<in> set KINDS" "''aggregate:analytics'' \<notin> set LANED" "''archive:offload'' \<in> set KINDS" "''archive:offload'' \<notin> set LANED"
      by code_simp+
    moreover have "parse_u32 ''1'' = Some 1"
      by (simp add: parse_uint_def is_digit_def digits_val_def digit_val_def u32_max_def)
    ultimately show "v_kind_limit name ''aggregate:analytics=1'' = State_Monad.return (Some (''aggregate:analytics'', 1))"
      "v_kind_limit name ''archive:offload=1'' = State_Monad.return (Some (''archive:offload'', 1))"
      by (simp_all add: v_kind_limit_def Let_def)
  qed
  moreover have "btree_of [(''aggregate:analytics'', 1 :: nat), (''archive:offload'', 1)] = [(''aggregate:analytics'', 1), (''archive:offload'', 1)]"
    by code_simp
  ultimately show "va_map v name = None \<Longrightarrow> ?thesis"
    by (simp add: v_kind_limits_def unset_string List.map_filter_def)
qed

lemma unset_queues [unset_readers]: "va_map v name = None \<Longrightarrow> run_state (v_ranked_queues name ''RANKED_SOLO_5x5'') v = ([''RANKED_SOLO_5x5''], v)"
proof -
  have "csv ''RANKED_SOLO_5x5'' = [''RANKED_SOLO_5x5'']" "''RANKED_SOLO_5x5'' \<in> set RANKED_QUEUES"
    by code_simp+
  then show "va_map v name = None \<Longrightarrow> ?thesis"
    by (simp add: v_ranked_queues_def v_ranked_queue_def unset_string)
qed

lemma unset_tier [unset_readers]: "va_map v name = None \<Longrightarrow> run_state (v_tier name ''MASTER'') v = (''MASTER'', v)"
proof -
  have "uppercase (trim ''MASTER'') = ''MASTER''" "is_tier ''MASTER''"
    by code_simp+
  then show "va_map v name = None \<Longrightarrow> ?thesis"
    by (simp add: v_tier_def unset_string)
qed

lemma unset_opt_string [unset_readers]: "run_state (v_opt_string name) v = (va_map v name, v)"
  by (simp add: v_opt_string_def)

definition few_vars :: "string \<rightharpoonup> string" where
  "few_vars name = (if name = ''RIOT_API_KEY'' then Some ''RGAPI-0123'' else if name = ''STATUS_ALLOW_CIDR'' then Some ''none'' else None)"

lemma few_vars_config:
  "\<exists>c. run_state (v_config k s env lf dir db r objs ro lp sp ex ad du dus rb ddb) \<lparr>va_map = few_vars, va_errors = []\<rparr> =
     (c, \<lparr>va_map = few_vars, va_errors = []\<rparr>)"
  unfolding v_config_def
  by (simp add: unset_readers few_vars_def)

lemma few_vars_all: "va_errors (snd (run_state (v_all pt tty) \<lparr>va_map = few_vars, va_errors = []\<rparr>)) = []"
proof -
  obtain c where c: "run_state (v_config ''RGAPI-0123'' None Development (if tty then Log_pretty else Log_json) ''./data''
      (Sqlite (path_join ''./data'' DB_FILE_NAME)) Role_all
      \<lparr>ov_url = None, ov_endpoint = None, ov_access_key = None, ov_secret_key = None\<rparr> False [] [] None False True False None None)
      \<lparr>va_map = few_vars, va_errors = []\<rparr> = (c, \<lparr>va_map = few_vars, va_errors = []\<rparr>)"
    using few_vars_config by blast
  have "8 \<le> length (utf8 ''RGAPI-0123'')"
    by code_simp
  then show ?thesis
    using c unfolding v_all_def
    by (simp add: unset_readers few_vars_def v_riot_api_key_def v_key_scope_def v_env_def LEGACY_ENV_VAR_def v_database_def v_role_def v_when_def
        v_auth_disabled_def RETIRED_TLS_VAR_def v_base_urls_def csv_empty v_object_store_def v_read_only_def v_ceilings_def)
qed


section \<open>Every bad number is reported\<close>

text \<open>The numeric variables: the name, the largest value of the type, the default and the range.\<close>

definition INT_VARS :: "(string \<times> nat \<times> nat \<times> nat \<times> nat) list" where
  "INT_VARS =
    [(''PORT'', u16_max, 8080, 1, u16_max),
     (''JOB_CONCURRENCY'', u32_max, 8, 1, u32_max),
     (''JOB_YIELD_BUDGET_MS'', u64_max, 1000, 0, 900000),
     (''CACHE_L1_MAX_MB'', u32_max, 128, 1, 1048576),
     (''NEG_TTL_SECONDS'', u32_max, 30, 1, u32_max),
     (''NEG_TTL_ACCOUNT_SECONDS'', u32_max, 300, 1, u32_max),
     (''CLIENT_WAIT_BUDGET_MS'', u64_max, 2000, 0, u64_max),
     (''BULK_IDLE_AFTER_S'', u32_max, 30, 0, 86400),
     (''METRICS_INTERVAL_S'', u32_max, 5, 1, 300),
     (''METRICS_HISTORY_INTERVAL_S'', u32_max, 60, 10, 3600),
     (''TRACK_POLL_LIVE_S'', u32_max, 60, 10, u32_max),
     (''TRACK_POLL_RANK_S'', u32_max, 600, 30, u32_max),
     (''TRACK_POLL_MATCH_S'', u32_max, 300, 30, u32_max),
     (''DDRAGON_SYNC_S'', u32_max, 3600, 60, u32_max),
     (''TIMELINE_BACKFILL_PATCHES'', u32_max, 0, 0, 1000),
     (''BACKUP_KEEP'', u32_max, 14, 0, 365),
     (''ARCHIVE_OBJECT_CONCURRENCY'', u32_max, 16, 1, 256),
     (''ARCHIVE_BODY_LOCAL_DAYS'', u32_max, 14, 0, 365),
     (''ARCHIVE_PACK_TARGET_BYTES'', u64_max, 67108864, 1048576, 1073741824),
     (''ARCHIVE_OFFLOAD_PACE_MS'', u64_max, 50, 0, 60000),
     (''LOOKUP_BACKFILL_LIMIT'', u32_max, u32_max, 0, u32_max),
     (''TRACK_CATCHUP_LIMIT'', u32_max, 500, 0, 10000),
     (''LADDER_CRAWL_S'', u32_max, 0, 0, 604800),
     (''LADDER_BACKFILL_LIMIT'', u32_max, 100, 0, 10000),
     (''LADDER_CRAWL_MATCH_LIMIT'', u32_max, 0, 0, 100000000),
     (''LADDER_COLLECT_OVERLAP_S'', u32_max, 7200, 0, 86400),
     (''RANK_LOOKUP_LIMIT'', u32_max, 50000, 0, 10000000),
     (''RANK_LOOKUP_RECHECK_S'', u32_max, 604800, 0, 31536000),
     (''TIER_LATE_STAMP_DAYS'', u32_max, 14, 0, 365),
     (''FACTS_REEXTRACT_BATCH'', u32_max, 500, 1, 10000),
     (''AGGREGATE_PATCH_LIMIT'', u32_max, 4, 0, 100),
     (''ANALYTICS_CACHE_ENTRIES'', u32_max, 512, 0, 4096),
     (''AGGREGATE_INTERVAL_S'', u32_max, 0, 0, 604800),
     (''AGGREGATE_DELTA_S'', u32_max, 60, 0, 86400),
     (''AGGREGATE_DELTA_TARGET_MS'', u32_max, 100, 20, 1000),
     (''AGGREGATE_DELTA_BATCH'', u32_max, 500, 5, 5000),
     (''STATUS_CHECK_INTERVAL_S'', u32_max, 30, 1, 3600)]"

definition int_complaint :: "nat \<Rightarrow> nat \<Rightarrow> nat \<Rightarrow> string \<Rightarrow> string option" where
  "int_complaint tmax lo hi raw =
     (case parse_uint tmax (trim raw) of
        None \<Rightarrow> Some (quote raw @ '' is not a whole number'')
      | Some n \<Rightarrow> if lo \<le> n \<and> n \<le> hi then None else Some (quote raw @ '' is outside '' @ show_nat lo @ ''..='' @ show_nat hi))"

definition int_errors :: "(string \<rightharpoonup> string) \<Rightarrow> string \<Rightarrow> nat \<Rightarrow> nat \<Rightarrow> nat \<Rightarrow> string set" where
  "int_errors mp name tmax lo hi = {name @ '': '' @ e | e raw. mp name = Some raw \<and> int_complaint tmax lo hi raw = Some e}"

text \<open>A reader that reports at least the errors \<open>E\<close> of the variables \<open>mp\<close>.\<close>

definition collects :: "(string \<rightharpoonup> string) \<Rightarrow> string set \<Rightarrow> (vars, 'a) state \<Rightarrow> bool" where
  "collects mp E m = (reads m (\<lambda>_ _. True) \<and> (\<forall>v x v'. va_map v = mp \<longrightarrow> run_state m v = (x, v') \<longrightarrow> E \<subseteq> set (va_errors v')))"

lemma collects_bind:
  assumes "collects mp E m" "\<And>x. collects mp F (f x)"
  shows "collects mp (E \<union> F) (State_Monad.bind m f)"
proof -
  have "reads (State_Monad.bind m f) (\<lambda>_ _. True)"
    using assms by (intro reads_bind [where P = "\<lambda>_ _. True"]) (simp_all add: collects_def)
  moreover have "E \<union> F \<subseteq> set (va_errors v2)" if v: "va_map v = mp" and run: "run_state (State_Monad.bind m f) v = (y, v2)" for v y v2
  proof -
    obtain x v1 where one: "run_state m v = (x, v1)" and two: "run_state (f x) v1 = (y, v2)"
      using run by (cases "run_state m v") simp
    have "E \<subseteq> set (va_errors v1)" "va_map v1 = mp"
      using assms(1) one v unfolding collects_def reads_def by blast+
    moreover have "F \<subseteq> set (va_errors v2)" "prefix (va_errors v1) (va_errors v2)"
      using assms(2) two calculation(2) unfolding collects_def reads_def by blast+
    ultimately show ?thesis
      using set_mono_prefix by blast
  qed
  ultimately show ?thesis
    by (simp add: collects_def)
qed

lemma collects_none: "reads m P \<Longrightarrow> collects mp {} m"
  by (auto simp: collects_def elim: reads_mono)

lemma collects_int: "lo \<le> d \<Longrightarrow> d \<le> hi \<Longrightarrow> collects mp (int_errors mp name tmax lo hi) (v_int tmax name d lo hi)"
  unfolding collects_def
  by (intro conjI reads_mono [OF reads_int])
    (auto simp: v_int_def v_opt_string_def int_errors_def int_complaint_def v_range_error_def v_fail_def v_push_def v_errors_push_def
      split: option.splits if_splits)

abbreviation all_int_errors :: "(string \<rightharpoonup> string) \<Rightarrow> string set" where
  "all_int_errors mp \<equiv> (\<Union>(name, tmax, d, lo, hi) \<in> set INT_VARS. int_errors mp name tmax lo hi)"

lemma collects_config: "collects mp (all_int_errors mp) (v_config k s env lf dir db r objs ro lp sp ex ad du dus rb ddb)"
proof -
  have "\<exists>E. all_int_errors mp = E \<and> collects mp E (v_config k s env lf dir db r objs ro lp sp ex ad du dus rb ddb)"
    unfolding v_config_def
    apply (rule exI, rule conjI [rotated])
     apply (rule collects_bind, ((rule collects_int; simp add: u16_max_def u32_max_def u64_max_def) |
         (rule collects_none, rule reads_float; simp add: default_ceilings) | (rule collects_none, rule reads_intros)))+
     apply (rule collects_none, rule reads_return, rule TrueI)
    apply (simp add: INT_VARS_def)
    done
  then show ?thesis
    by blast
qed

lemma collects_all: "collects mp (all_int_errors mp) (v_all parse_time tty)"
proof -
  have "\<exists>E. all_int_errors mp = E \<and> collects mp E (v_all parse_time tty)"
    unfolding v_all_def
    apply (rule exI, rule conjI [rotated])
     apply (rule collects_bind, ((rule collects_none, rule reads_when, rule reads_push) | (rule collects_none, rule reads_intros)))+
     apply (simp only: split_paired_all prod.case)
     apply (rule collects_bind, ((rule collects_none, rule reads_intros) | rule collects_config))+
     apply (rule collects_none, rule reads_ceilings)
    apply simp
    done
  then show ?thesis
    by blast
qed



section \<open>Secrets stay hidden\<close>

lemma redacted_names: "map fst (redacted_pairs f c) = tl VARS"
  by (simp add: redacted_pairs_def VARS_def)

lemma btree_of_keys: "fst ` set (btree_of kvs) = fst ` set kvs"
proof -
  have "fst ` set (fold (\<lambda>(k, v). btree_insert k v) kvs m) = fst ` set kvs \<union> fst ` set m" for m
  proof (induction kvs arbitrary: m)
    case (Cons kv kvs)
    then show ?case
      by (cases kv) (simp add: btree_insert_keys)
  qed simp
  then show ?thesis
    by (simp add: btree_of_def)
qed

definition with_secrets :: "secret \<Rightarrow> secret \<Rightarrow> secret \<Rightarrow> secret \<Rightarrow> secret \<Rightarrow> config \<Rightarrow> config" where
  "with_secrets key access object_key admin db c =
     c\<lparr>cf_riot_api_key := key, cf_archive_object_access_key := map_option (\<lambda>_. access) (cf_archive_object_access_key c),
       cf_archive_object_secret_key := map_option (\<lambda>_. object_key) (cf_archive_object_secret_key c),
       cf_bootstrap_admin_key := map_option (\<lambda>_. admin) (cf_bootstrap_admin_key c),
       cf_database := (case cf_database c of Postgres _ \<Rightarrow> Postgres db | Sqlite p \<Rightarrow> Sqlite p)\<rparr>"

text \<open>C25. The view of the configuration the admin API shows names every variable once but the Riot API key, and none of its values depends on a secret: two configurations that differ only in the Riot key, the object store's keys, the bootstrap admin key or a database URL with a password are shown alike.\<close>

theorem redacted_hides_secrets:
  "redacted f (with_secrets key access object_key admin db c) = redacted f (with_secrets key' access' object_key' admin' db' c) \<and>
   fst ` set (redacted f c) = set VARS - {''RIOT_API_KEY''} \<and> distinct (map fst (redacted f c))"
proof (intro conjI)
  have "redacted_pairs f (with_secrets key access object_key admin db c) = redacted_pairs f (with_secrets key' access' object_key' admin' db' c)"
    unfolding redacted_pairs_def with_secrets_def
    by (simp add: redacted_kind_limits_def redacted_database_def option.map_comp comp_def split: database.split)
  then show "redacted f (with_secrets key access object_key admin db c) = redacted f (with_secrets key' access' object_key' admin' db' c)"
    by (simp only: redacted_def)
  have "''RIOT_API_KEY'' \<notin> set (tl VARS)" "hd VARS = ''RIOT_API_KEY''" "VARS \<noteq> []"
    by code_simp+
  then have "set (tl VARS) = set VARS - {''RIOT_API_KEY''}"
    by (metis Diff_insert_absorb list.collapse list.simps(15))
  then show "fst ` set (redacted f c) = set VARS - {''RIOT_API_KEY''}"
    unfolding redacted_def btree_of_keys by (metis redacted_names set_map)
  show "distinct (map fst (redacted f c))"
    using btree_of_sorted [of "redacted_pairs f c"] by (simp add: redacted_def strict_sorted_iff)
qed

section \<open>The .env file\<close>

definition dotenv_print :: "char \<Rightarrow> string \<times> string \<Rightarrow> string" where
  "dotenv_print q kv = fst kv @ ''='' @ [q] @ snd kv @ [q]"

definition dotenv_pair_ok :: "char \<Rightarrow> string \<times> string \<Rightarrow> bool" where
  "dotenv_pair_ok q kv = (fst kv \<noteq> [] \<and> list_all env_name_char (fst kv) \<and> q \<notin> set (snd kv) \<and> CHR 0x0A \<notin> set (snd kv))"

lemma env_name_char_plain: "env_name_char c \<Longrightarrow> \<not> is_ws c \<and> c \<noteq> CHR ''='' \<and> c \<noteq> CHR ''#'' \<and> c \<noteq> CHR '' '' \<and> c \<noteq> CHR 0x0A"
  by (auto simp: env_name_char_def is_alnum_def is_digit_def is_lower_def is_upper_def is_ws_def Let_def)

lemma trim_ends:
  assumes "s \<noteq> []" "\<not> is_ws (hd s)" "\<not> is_ws (last s)"
  shows "trim s = s"
proof -
  have "dropWhile is_ws s = s"
    using assms by (cases s) simp_all
  moreover have "dropWhile is_ws (rev s) = rev s"
    using assms by (cases "rev s") (simp_all add: last_rev hd_rev [symmetric] del: hd_rev) 
  ultimately show ?thesis
    by (simp add: trim_def)
qed

lemma quote_mark_plain: "q \<in> set quote_marks \<Longrightarrow> \<not> is_ws q \<and> q \<noteq> CHR 0x0A \<and> q \<noteq> CHR 0x0D"
  by (auto simp: quote_marks_def is_ws_def Let_def)

lemma dotenv_value_quoted:
  assumes "q \<in> set quote_marks" "q \<noteq> CHR 0x22" "q \<notin> set v"
  shows "dotenv_value (trim ([q] @ v @ [q])) = Inr v"
proof -
  have "trim ([q] @ v @ [q]) = q # v @ [q]"
    using assms quote_mark_plain [of q] by (subst trim_ends) simp_all
  moreover have "takeWhile (\<lambda>c. c \<noteq> q) (v @ [q]) = v" "dropWhile (\<lambda>c. c \<noteq> q) (v @ [q]) = [q]"
    using assms(3) by (induction v) auto
  moreover have "trim [] = []"
    by (simp add: trim_def)
  ultimately show ?thesis
    using assms by (simp add: dotenv_value_def)
qed

lemma dotenv_line_print:
  assumes "q \<in> set quote_marks" "q \<noteq> CHR 0x22" "dotenv_pair_ok q kv"
  shows "dotenv_line (dotenv_print q kv) = Inr (Some kv)"
proof -
  let ?l = "dotenv_print q kv"
  have k: "fst kv \<noteq> []" "\<forall>c \<in> set (fst kv). env_name_char c"
    using assms(3) by (simp_all add: dotenv_pair_ok_def list_all_iff)
  have hd_l: "hd ?l \<in> set (fst kv)" "?l \<noteq> []" "last ?l = q"
    using k(1) by (auto simp: dotenv_print_def hd_append)
  have trim_l: "trim ?l = ?l"
    using hd_l k(2) env_name_char_plain quote_mark_plain [OF assms(1)] by (intro trim_ends) auto
  have hash: "\<not> starts_char CHR ''#'' ?l"
    using hd_l k(2) env_name_char_plain by (auto simp: starts_char_def)
  have export: "strip_prefix ''export '' ?l = None"
  proof (rule ccontr)
    assume "strip_prefix ''export '' ?l \<noteq> None"
    then obtain r where "?l = ''export '' @ r"
      by (auto simp: strip_prefix_Some)
    then have r: "fst kv @ CHR ''='' # (q # snd kv @ [q]) = ''export'' @ CHR '' '' # r"
      by (simp add: dotenv_print_def)
    have "CHR '' '' \<notin> set (fst kv)" "CHR ''='' \<notin> set ''export''"
      using k(2) env_name_char_plain by auto
    with r show False
      by (auto simp: append_eq_append_conv2 append_eq_Cons_conv Cons_eq_append_conv)
  qed
  have split: "split_once CHR ''='' ?l = Some (fst kv, [q] @ snd kv @ [q])"
    using k(2) env_name_char_plain by (auto simp: dotenv_print_def intro!: split_once_append)
  have key: "trim (fst kv) = fst kv"
    using k env_name_char_plain by (intro trim_id) blast
  have val: "dotenv_value (trim ([q] @ snd kv @ [q])) = Inr (snd kv)"
    using assms by (intro dotenv_value_quoted) (simp_all add: dotenv_pair_ok_def)
  show ?thesis
    using k hd_l(2) hash val unfolding dotenv_line_def Let_def trim_l export option.case split prod.case key
    by (simp add: list_all_iff)
qed

lemma text_lines_print:
  assumes "\<And>l. l \<in> set ls \<Longrightarrow> CHR 0x0A \<notin> set l \<and> \<not> ends_char (CHR 0x0D) l"
  shows "text_lines (concat (map (\<lambda>l. l @ [CHR 0x0A]) ls)) = ls"
proof -
  have "split_on (CHR 0x0A) (concat (map (\<lambda>l. l @ [CHR 0x0A]) ls)) = ls @ [[]]"
    using assms
  proof (induction ls)
    case (Cons l ls)
    have "split_on (CHR 0x0A) (l @ CHR 0x0A # concat (map (\<lambda>l. l @ [CHR 0x0A]) ls)) = l # ls @ [[]]"
      using Cons by (subst split_on_append) simp_all
    then show ?case
      by simp
  qed simp
  moreover have "map strip_cr ls = ls"
    using assms by (induction ls) (auto simp: strip_cr_def)
  ultimately show ?thesis
    by (simp add: text_lines_def)
qed

lemma dotenv_loop_print:
  "(\<And>l kv. (l, kv) \<in> set ps \<Longrightarrow> dotenv_line l = Inr (Some kv)) \<Longrightarrow> dotenv_loop i (map fst ps) out = Inr (out @ map snd ps)"
proof (induction ps arbitrary: i out)
  case (Cons p ps)
  have "dotenv_line (fst p) = Inr (Some (snd p))"
    using Cons.prems [of "fst p" "snd p"] by simp
  moreover have "dotenv_loop (i + 1) (map fst ps) (out @ [snd p]) = Inr ((out @ [snd p]) @ map snd ps)"
    using Cons.prems by (intro Cons.IH) (metis list.set_intros(2))
  ultimately show ?case
    by simp
qed simp

text \<open>A file of quoted assignments, one per line with single quotes or backticks, is read back as exactly the pairs it was written from, whatever characters the values hold but the quote mark and a line end: spaces, comment signs, equal signs and quotes of the other kinds are kept.\<close>

theorem dotenv_round_trip:
  assumes "q = CHR 0x27 \<or> q = CHR 0x60" "\<forall>kv \<in> set kvs. dotenv_pair_ok q kv"
  shows "parse_dotenv (concat (map (\<lambda>kv. dotenv_print q kv @ [CHR 0x0A]) kvs)) = Inr kvs"
proof -
  have q: "q \<in> set quote_marks" "q \<noteq> CHR 0x22"
    using assms(1) by (auto simp: quote_marks_def)
  have "CHR 0x0A \<notin> set (dotenv_print q kv)" "\<not> ends_char (CHR 0x0D) (dotenv_print q kv)" if "kv \<in> set kvs" for kv
    using assms(2) that quote_mark_plain [OF q(1)] env_name_char_plain
    by (auto simp: dotenv_print_def dotenv_pair_ok_def ends_char_def list_all_iff)
  then have lines: "text_lines (concat (map (\<lambda>l. l @ [CHR 0x0A]) (map (dotenv_print q) kvs))) = map (dotenv_print q) kvs"
    by (intro text_lines_print) auto
  have "dotenv_loop 0 (map fst (map (\<lambda>kv. (dotenv_print q kv, kv)) kvs)) [] = Inr ([] @ map snd (map (\<lambda>kv. (dotenv_print q kv, kv)) kvs))"
    using assms(2) dotenv_line_print [OF q] by (intro dotenv_loop_print) auto
  then show ?thesis
    using lines by (simp add: parse_dotenv_def comp_def)
qed

theorem dotenv_round_trip_witness:
  "parse_dotenv (concat (map (\<lambda>kv. dotenv_print (CHR 0x27) kv @ [CHR 0x0A]) [(''HOST'', ''a # b'')])) = Inr [(''HOST'', ''a # b'')]"
  by (rule dotenv_round_trip) (simp_all add: dotenv_pair_ok_def env_name_char_def is_alnum_def is_upper_def)

end
