(* ===== verification/Keyed_Store.thy ===== *)
theory Keyed_Store
  imports Main
begin

text \<open>
  A table with a key, as its readers and writers rely on it: a row is read by its key, and a write changes the row of
  one key by a function of the row it finds.
\<close>

locale keyed_store =
  fixes get_row :: "'k \<Rightarrow> 't \<Rightarrow> 'r option"
    and write_row :: "'k \<Rightarrow> ('r \<Rightarrow> 'r) \<Rightarrow> 't \<Rightarrow> 't"
    and keeps :: "('r \<Rightarrow> 'r) \<Rightarrow> bool"
  assumes get_write: "keeps f \<Longrightarrow> get_row k' (write_row k f t) = (if k' = k then map_option f (get_row k t) else get_row k' t)"
begin

lemma get_writes_other:
  "(\<And>k f. (k, f) \<in> set ws \<Longrightarrow> keeps f \<and> k \<noteq> k0) \<Longrightarrow> get_row k0 (fold (\<lambda>(k, f). write_row k f) ws t) = get_row k0 t"
proof (induction ws arbitrary: t)
  case (Cons w ws)
  obtain k f where w: "w = (k, f)"
    by (cases w)
  have "keeps f" "k \<noteq> k0"
    using Cons.prems [of k f] by (simp_all add: w)
  moreover have "get_row k0 (fold (\<lambda>(k, f). write_row k f) ws (write_row k f t)) = get_row k0 (write_row k f t)"
    using Cons.prems by (intro Cons.IH) (metis list.set_intros(2))
  ultimately show ?case
    by (simp add: w get_write)
qed simp

lemma get_writes_same:
  "(\<And>f. f \<in> set fs \<Longrightarrow> keeps f) \<Longrightarrow> get_row k (fold (write_row k) fs t) = map_option (fold (\<lambda>f. f) fs) (get_row k t)"
proof (induction fs arbitrary: t)
  case (Cons f fs)
  then show ?case
    by (simp add: get_write option.map_comp comp_def)
qed (simp add: option.map_id)

end

end
