(* ===== verification/Players.thy ===== *)
theory Players
  imports Keyed_Store Prelude "HOL-Library.Product_Lexorder"
begin

text \<open>
  The table of players, \<^verbatim>\<open>src/players.rs\<close>: every player a key scope has looked up or tracks. The table is the list of its
  rows, each with its key scope; the statements are functions on it. The columns \<open>backfill_state\<close> and \<open>last_rank\<close> hold JSON
  text.
\<close>

section \<open>The table\<close>

record upsert =
  up_puuid :: string
  up_platform :: string
  up_game_name :: "string option"
  up_tag_line :: "string option"
  up_tracked :: "bool option"

record player =
  py_scope :: string
  py_puuid :: string
  py_platform :: string
  py_game_name :: "string option"
  py_tag_line :: "string option"
  py_tracked :: bool
  py_last_seen :: "string option"
  py_backfill :: "string option"
  py_updated_at :: int
  py_in_game :: "int option"
  py_last_rank :: "string option"

definition py_key :: "player \<Rightarrow> string \<times> string" where
  "py_key p = (py_scope p, py_puuid p)"

text \<open>SQL's \<^verbatim>\<open>coalesce\<close> of two.\<close>

definition coalesce :: "'a option \<Rightarrow> 'a option \<Rightarrow> 'a option" where
  "coalesce x y = (case x of Some v \<Rightarrow> Some v | None \<Rightarrow> y)"

definition write_player :: "string \<times> string \<Rightarrow> (player \<Rightarrow> player) \<Rightarrow> player list \<Rightarrow> player list" where
  "write_player k f rows = map (\<lambda>p. if py_key p = k then f p else p) rows"

definition players_get :: "string \<times> string \<Rightarrow> player list \<Rightarrow> player option" where
  "players_get k rows = find (\<lambda>p. py_key p = k) rows"

definition upserted :: "upsert \<Rightarrow> int \<Rightarrow> player \<Rightarrow> player" where
  "upserted u now_ms p =
     p\<lparr>py_platform := up_platform u, py_game_name := coalesce (up_game_name u) (py_game_name p),
       py_tag_line := coalesce (up_tag_line u) (py_tag_line p),
       py_tracked := (case up_tracked u of Some t \<Rightarrow> t | None \<Rightarrow> py_tracked p), py_updated_at := now_ms\<rparr>"

definition new_player :: "string \<Rightarrow> upsert \<Rightarrow> int \<Rightarrow> player" where
  "new_player scope u now_ms =
     \<lparr>py_scope = scope, py_puuid = up_puuid u, py_platform = up_platform u, py_game_name = up_game_name u,
      py_tag_line = up_tag_line u, py_tracked = (case up_tracked u of Some t \<Rightarrow> t | None \<Rightarrow> False), py_last_seen = None,
      py_backfill = None, py_updated_at = now_ms, py_in_game = None, py_last_rank = None\<rparr>"

definition players_upsert :: "string \<Rightarrow> upsert \<Rightarrow> int \<Rightarrow> player list \<Rightarrow> player \<times> player list" where
  "players_upsert scope u now_ms rows =
     (case players_get (scope, up_puuid u) rows of
        Some p \<Rightarrow> (upserted u now_ms p, write_player (scope, up_puuid u) (upserted u now_ms) rows)
      | None \<Rightarrow> (new_player scope u now_ms, rows @ [new_player scope u now_ms]))"

definition players_list :: "string \<Rightarrow> player list \<Rightarrow> player list" where
  "players_list scope rows = sort_key (\<lambda>p. (- py_updated_at p, py_puuid p)) (filter (\<lambda>p. py_scope p = scope) rows)"

definition list_tracked :: "string \<Rightarrow> player list \<Rightarrow> player list" where
  "list_tracked scope rows = sort_key py_puuid (filter (\<lambda>p. py_scope p = scope \<and> py_tracked p) rows)"

definition set_tracked :: "string \<Rightarrow> string \<Rightarrow> bool \<Rightarrow> int \<Rightarrow> player list \<Rightarrow> bool \<times> player list" where
  "set_tracked scope puuid tracked now_ms rows =
     (players_get (scope, puuid) rows \<noteq> None,
      write_player (scope, puuid) (\<lambda>p. p\<lparr>py_tracked := tracked, py_updated_at := now_ms\<rparr>) rows)"

datatype poll_state = InGame "int option" | LastRank string | LastSeenMatch string

fun with_poll_state :: "poll_state \<Rightarrow> player \<Rightarrow> player" where
  "with_poll_state (InGame g) p = p\<lparr>py_in_game := g\<rparr>"
| "with_poll_state (LastRank j) p = p\<lparr>py_last_rank := Some j\<rparr>"
| "with_poll_state (LastSeenMatch m) p = p\<lparr>py_last_seen := Some m\<rparr>"

definition set_poll_state :: "string \<Rightarrow> string \<Rightarrow> poll_state \<Rightarrow> player list \<Rightarrow> bool \<times> player list" where
  "set_poll_state scope puuid st rows =
     (players_get (scope, puuid) rows \<noteq> None, write_player (scope, puuid) (with_poll_state st) rows)"

definition player_counts :: "string \<Rightarrow> player list \<Rightarrow> nat \<times> nat" where
  "player_counts scope rows =
     (length (filter (\<lambda>p. py_scope p = scope) rows), length (filter (\<lambda>p. py_scope p = scope \<and> py_tracked p) rows))"

section \<open>Its contract\<close>

definition keeps_key :: "(player \<Rightarrow> player) \<Rightarrow> bool" where
  "keeps_key f = (\<forall>p. py_key (f p) = py_key p)"

interpretation players: keyed_store players_get write_player keeps_key
proof
  fix f k k' and t :: "player list"
  assume "keeps_key f"
  then show "players_get k' (write_player k f t) = (if k' = k then map_option f (players_get k t) else players_get k' t)"
    by (induction t) (auto simp: players_get_def write_player_def keeps_key_def)
qed

lemma keeps_key_ops [simp]:
  "keeps_key (upserted u now_ms)" "keeps_key (with_poll_state st)" "keeps_key (\<lambda>p. p\<lparr>py_backfill := b\<rparr>)"
  "keeps_key (\<lambda>p. p\<lparr>py_tracked := t, py_updated_at := now_ms\<rparr>)"
  by (cases st; simp add: keeps_key_def py_key_def upserted_def)+

definition players_ok :: "player list \<Rightarrow> bool" where
  "players_ok rows = distinct (map py_key rows)"

lemma write_player_keys: "keeps_key f \<Longrightarrow> map py_key (write_player k f rows) = map py_key rows"
  by (simp add: write_player_def keeps_key_def)

lemma players_ok_write [simp]: "keeps_key f \<Longrightarrow> players_ok (write_player k f rows) = players_ok rows"
  by (simp add: players_ok_def write_player_keys)

lemma players_get_None: "players_get k rows = None \<longleftrightarrow> k \<notin> py_key ` set rows"
  by (auto simp: players_get_def find_None_iff)

lemma players_get_append: "players_get k (rows @ [p]) = (case players_get k rows of Some q \<Rightarrow> Some q | None \<Rightarrow> if py_key p = k then Some p else None)"
  by (induction rows) (auto simp: players_get_def)

text \<open>Upserting a player keeps one row per key scope and player, returns the row it stored, never blanks a Riot id or a tracking flag the caller does not give, and leaves the poll and backfill state and every other row as they were.\<close>

theorem upsert_never_blanks:
  assumes "players_ok rows" "players_upsert scope u now_ms rows = (p, rows')"
  shows "players_ok rows' \<and> players_get (scope, up_puuid u) rows' = Some p \<and>
    (\<forall>k. k \<noteq> (scope, up_puuid u) \<longrightarrow> players_get k rows' = players_get k rows) \<and>
    (case players_get (scope, up_puuid u) rows of
       None \<Rightarrow> p = new_player scope u now_ms
     | Some q \<Rightarrow> (up_game_name u = None \<longrightarrow> py_game_name p = py_game_name q) \<and> (up_tag_line u = None \<longrightarrow> py_tag_line p = py_tag_line q) \<and>
         (up_tracked u = None \<longrightarrow> py_tracked p = py_tracked q) \<and> py_last_seen p = py_last_seen q \<and> py_backfill p = py_backfill q \<and>
         py_in_game p = py_in_game q \<and> py_last_rank p = py_last_rank q)"
proof (cases "players_get (scope, up_puuid u) rows")
  case None
  have p: "p = new_player scope u now_ms" "rows' = rows @ [p]" "py_key p = (scope, up_puuid u)"
    using assms(2) None by (auto simp: players_upsert_def py_key_def new_player_def)
  have "players_ok rows'"
    using assms(1) None by (simp add: p(2) players_ok_def p(3) players_get_None)
  moreover have "players_get k rows' = players_get k rows" if "k \<noteq> (scope, up_puuid u)" for k
    using that by (simp add: p(2,3) players_get_append split: option.split)
  ultimately show ?thesis
    using None p by (simp add: players_get_append)
next
  case (Some q)
  then have "p = upserted u now_ms q" "rows' = write_player (scope, up_puuid u) (upserted u now_ms) rows"
    using assms(2) by (auto simp: players_upsert_def)
  then show ?thesis
    using assms(1) Some by (simp add: players.get_write) (simp add: upserted_def coalesce_def)
qed

theorem upsert_never_blanks_witness:
  "players_ok [] \<and> players_upsert ''s'' \<lparr>up_puuid = ''p'', up_platform = ''oc1'', up_game_name = None, up_tag_line = None, up_tracked = None\<rparr> 5 [] =
     (new_player ''s'' \<lparr>up_puuid = ''p'', up_platform = ''oc1'', up_game_name = None, up_tag_line = None, up_tracked = None\<rparr> 5,
      [new_player ''s'' \<lparr>up_puuid = ''p'', up_platform = ''oc1'', up_game_name = None, up_tag_line = None, up_tracked = None\<rparr> 5])"
  using upsert_never_blanks [of "[]" "''s''" "\<lparr>up_puuid = ''p'', up_platform = ''oc1'', up_game_name = None, up_tag_line = None, up_tracked = None\<rparr>" 5]
  by (simp add: players_ok_def players_upsert_def players_get_def)

end
