(* ===== verification/Client.thy ===== *)
theory Client
  imports Endpoints Headers
begin

text \<open>
  One call to Riot, \<^verbatim>\<open>src/riot/client.rs\<close>: the request resolved to a host, path and query, the
  classification of what came back, what a client of the proxy is told of a failure, and the watch that the
  status page reads. The exchange itself belongs to the HTTP library: its outcome, a status with headers and
  a body or a failure, is the argument \<open>outcome\<close> of \<open>send_as\<close>. Log lines and counters are left out.

  A body is a list of bytes, written as characters.
\<close>

type_synonym bytes = string
type_synonym header_map = "string \<Rightarrow> string option"

section \<open>Requests\<close>

record riot_request =
  rq_endpoint :: endpoint
  rq_target :: target
  rq_path :: string
  rq_params :: "string list"
  rq_query :: "(string \<times> string) list"
  pick_cluster :: bool

datatype request_error = PathErr path_error | UnknownQuery string string

definition riot_request_new :: "endpoint \<Rightarrow> target \<Rightarrow> string list \<Rightarrow> request_error + riot_request" where
  "riot_request_new e t params =
     (case path e params of
        Inl err \<Rightarrow> Inl (PathErr err)
      | Inr p \<Rightarrow> Inr \<lparr>rq_endpoint = e, rq_target = t, rq_path = p, rq_params = map encode_component params,
          rq_query = [], pick_cluster = False\<rparr>)"

definition riot_request_account :: "endpoint \<Rightarrow> string list \<Rightarrow> request_error + riot_request" where
  "riot_request_account e params =
     (case riot_request_new e (TRegion (hd ACCOUNT_PICK)) params of
        Inl err \<Rightarrow> Inl err
      | Inr req \<Rightarrow> Inr (req\<lparr>pick_cluster := (ep_host e = OnAccount)\<rparr>))"

definition request_targets :: "riot_request \<Rightarrow> target list" where
  "request_targets req = (if pick_cluster req then map TRegion ACCOUNT_PICK else [rq_target req])"

definition request_query :: "string \<Rightarrow> string option \<Rightarrow> riot_request \<Rightarrow> request_error + riot_request" where
  "request_query k v req =
     (case List.find (\<lambda>k'. k' = k) (ep_query (rq_endpoint req)) of
        None \<Rightarrow> Inl (UnknownQuery (ep_id (rq_endpoint req)) k)
      | Some k' \<Rightarrow>
          (case v of
             Some x \<Rightarrow> if x = [] then Inr req else Inr (req\<lparr>rq_query := rq_query req @ [(k', x)]\<rparr>)
           | None \<Rightarrow> Inr req))"

definition form_encode_byte :: "nat \<Rightarrow> string" where
  "form_encode_byte b =
     (if char_of b = CHR '' '' then ''+''
      else if is_alnum (char_of b) \<or> char_of b \<in> set ''*-._'' then [char_of b]
      else [CHR ''%'', hex_upper (b div 16), hex_upper (b mod 16)])"

definition form_encode :: "string \<Rightarrow> string" where
  "form_encode value = concat (map form_encode_byte (utf8 value))"

definition path_and_query :: "riot_request \<Rightarrow> string" where
  "path_and_query req =
     (if rq_query req = [] then rq_path req
      else rq_path req @ ''?'' @ join ''&'' (map (\<lambda>(k, v). form_encode k @ ''='' @ form_encode v) (rq_query req)))"

section \<open>Answers\<close>

record riot_response =
  rs_status :: nat
  rs_headers :: header_map
  rs_body :: bytes
  upstream_ms :: nat

datatype riot_error_kind =
  RiotNotFound | UpstreamAuth | RiotRateLimited "string option" "nat option" | UpstreamUnavailable | UnexpectedStatus

record riot_error =
  re_kind :: riot_error_kind
  re_method :: string
  re_host :: string
  re_status :: "nat option"
  re_headers :: header_map

definition to_api_error :: "riot_error \<Rightarrow> api_error" where
  "to_api_error e =
     (case re_kind e of
        RiotNotFound \<Rightarrow> not_found ''Resource not found upstream''
      | UpstreamAuth \<Rightarrow> api_error_new UpstreamError ''Upstream authentication failed''
      | RiotRateLimited _ retry \<Rightarrow>
          with_retry_after (case retry of None \<Rightarrow> 1 | Some s \<Rightarrow> s) (api_error_new RateLimited ''Upstream rate limited'')
      | UpstreamUnavailable \<Rightarrow> upstream_error
      | UnexpectedStatus \<Rightarrow> upstream_error)"

section \<open>The watch\<close>

record key_verdict =
  kv_accepted :: bool
  kv_status :: nat
  kv_method :: string
  kv_scope :: string
  kv_at_ms :: int

record upstream_watch =
  uw_last_success_ms :: int
  uw_key :: "key_verdict option"
  uw_traffic :: "string \<rightharpoonup> int"

definition watch_new :: upstream_watch where
  "watch_new = \<lparr>uw_last_success_ms = 0, uw_key = None, uw_traffic = Map.empty\<rparr>"

definition last_success_ms :: "upstream_watch \<Rightarrow> int option" where
  "last_success_ms w = (if uw_last_success_ms w > 0 then Some (uw_last_success_ms w) else None)"

definition last_traffic_ms :: "upstream_watch \<Rightarrow> string \<Rightarrow> int option" where
  "last_traffic_ms w scope = uw_traffic w scope"

definition is_success :: "nat \<Rightarrow> bool" where
  "is_success st = (200 \<le> st \<and> st < 300)"

definition answered :: "string \<Rightarrow> string \<Rightarrow> nat \<Rightarrow> bool \<Rightarrow> int \<Rightarrow> upstream_watch \<Rightarrow> bool \<times> upstream_watch" where
  "answered scope meth st probe at_ms w =
     (let accepted = is_success st;
          w1 = (if accepted then w\<lparr>uw_last_success_ms := max (uw_last_success_ms w) at_ms\<rparr> else w);
          judged = (accepted \<or> st = 401 \<or> st = 403);
          newly_rejected = (judged \<and> \<not> accepted \<and> (case uw_key w1 of None \<Rightarrow> True | Some k \<Rightarrow> kv_accepted k));
          w2 = (if judged then w1\<lparr>uw_key := Some \<lparr>kv_accepted = accepted, kv_status = st, kv_method = meth,
                  kv_scope = scope, kv_at_ms = at_ms\<rparr>\<rparr> else w1);
          w3 = (if \<not> probe then w2\<lparr>uw_traffic := (uw_traffic w2)(scope \<mapsto> at_ms)\<rparr> else w2) in
      (newly_rejected, w3))"

section \<open>Sending\<close>

datatype base = Https | Fixed string

definition url :: "base \<Rightarrow> riot_request \<Rightarrow> string" where
  "url b req =
     (case b of
        Https \<Rightarrow> ''https://'' @ target_host (rq_target req) @ path_and_query req
      | Fixed base \<Rightarrow> base @ path_and_query req)"

definition classify :: "nat \<Rightarrow> header_map \<Rightarrow> riot_error_kind" where
  "classify st headers =
     (if st = 404 then RiotNotFound
      else if st = 401 \<or> st = 403 then UpstreamAuth
      else if st = 429 then
        RiotRateLimited (headers X_RATE_LIMIT_TYPE)
          (Option.bind (headers RETRY_AFTER) (\<lambda>v. parse_u64 (trim v)))
      else if 500 \<le> st \<and> st \<le> 599 then UpstreamUnavailable
      else UnexpectedStatus)"

definition network_failure :: "riot_request \<Rightarrow> riot_error" where
  "network_failure req =
     \<lparr>re_kind = UpstreamUnavailable, re_method = ep_id (rq_endpoint req), re_host = target_host (rq_target req),
      re_status = None, re_headers = (\<lambda>_. None)\<rparr>"

definition send_as ::
  "(nat \<times> header_map \<times> bytes) option \<Rightarrow> duration \<Rightarrow> int \<Rightarrow> riot_request \<Rightarrow> bool \<Rightarrow> upstream_watch \<Rightarrow>
   (riot_error + riot_response) \<times> upstream_watch" where
  "send_as outcome elapsed at_ms req probe w =
     (case outcome of
        None \<Rightarrow> (Inl (network_failure req), w)
      | Some (st, headers, body) \<Rightarrow>
          let w' = snd (answered (target_scope (rq_target req)) (ep_id (rq_endpoint req)) st probe at_ms w) in
          if is_success st then
            (Inr \<lparr>rs_status = st, rs_headers = headers, rs_body = body, upstream_ms = as_millis elapsed\<rparr>, w')
          else
            (Inl \<lparr>re_kind = classify st headers, re_method = ep_id (rq_endpoint req),
               re_host = target_host (rq_target req), re_status = Some st, re_headers = headers\<rparr>, w'))"

end
