(* ===== verification/Cache_Keys.thy ===== *)
theory Cache_Keys
  imports Client "HOL-Library.Multiset"
begin

text \<open>
  Canonical cache keys, \<^verbatim>\<open>src/cache/keys.rs\<close>: the key scope, the key of a request, keys of derived reads,
  and the globs of an admin purge. SHA-256 (the crate \<^verbatim>\<open>sha2\<close>) is the argument \<open>sha256\<close>, from bytes to
  thirty-two bytes.

  The lemmas show that a key determines its request up to a collision of the query's hash, that the order of
  the query's parameters does not matter, that the backtracking matcher decides the glob's meaning, and
  that a purge stays inside its key scope.
\<close>

section \<open>Keys\<close>

text \<open>\<^verbatim>\<open>hex::encode\<close>\<close>

definition hex_encode :: "nat list \<Rightarrow> string" where
  "hex_encode bs = concat (map (\<lambda>b. [hex_lower (b div 16), hex_lower (b mod 16)]) bs)"

type_synonym key_scope = string

definition key_scope_from_key :: "(nat list \<Rightarrow> nat list) \<Rightarrow> string \<Rightarrow> key_scope" where
  "key_scope_from_key sha256 key = take 8 (hex_encode (sha256 (utf8 key)))"

definition key_scope_for_config :: "(nat list \<Rightarrow> nat list) \<Rightarrow> key_scope option \<Rightarrow> string \<Rightarrow> key_scope" where
  "key_scope_for_config sha256 pinned riot_api_key =
     (case pinned of Some p \<Rightarrow> p | None \<Rightarrow> key_scope_from_key sha256 riot_api_key)"

definition query_pairs :: "(string \<times> string) list \<Rightarrow> (string \<times> string) list" where
  "query_pairs query = sort_key (\<lambda>(k, v). [k, v]) (filter (\<lambda>(k, v). v \<noteq> []) query)"

definition query_text :: "string \<times> string \<Rightarrow> string" where
  "query_text = (\<lambda>(k, v). encode_component k @ ''='' @ encode_component v)"

definition canonical_query :: "(string \<times> string) list \<Rightarrow> string" where
  "canonical_query query = join ''&'' (map query_text (query_pairs query))"

definition short_hash :: "(nat list \<Rightarrow> nat list) \<Rightarrow> string \<Rightarrow> string" where
  "short_hash sha256 t = take 16 (hex_encode (sha256 (utf8 t)))"

definition key_host :: "riot_request \<Rightarrow> string" where
  "key_host req = (case ep_host (rq_endpoint req) of OnAccount \<Rightarrow> ''account'' | _ \<Rightarrow> target_host (rq_target req))"

definition cache_key :: "(nat list \<Rightarrow> nat list) \<Rightarrow> key_scope \<Rightarrow> riot_request \<Rightarrow> string" where
  "cache_key sha256 scope req =
     (let key = scope @ '':'' @ ep_id (rq_endpoint req) @ '':'' @ key_host req @ concat (map (\<lambda>p. '':'' @ p) (rq_params req));
          query = canonical_query (rq_query req) in
      if query \<noteq> [] then key @ '':'' @ short_hash sha256 query else key)"

definition derived_key :: "(nat list \<Rightarrow> nat list) \<Rightarrow> key_scope \<Rightarrow> string \<Rightarrow> string \<Rightarrow> string" where
  "derived_key sha256 scope part tgt = scope @ '':derived:'' @ part @ '':'' @ short_hash sha256 tgt"

definition lower_hex_byte :: "nat \<Rightarrow> bool" where
  "lower_hex_byte b = (is_hexdigit (char_of b) \<and> \<not> is_upper (char_of b))"

definition already_scoped :: "string \<Rightarrow> bool" where
  "already_scoped pattern =
     (let bs = utf8 pattern in length bs > 8 \<and> bs ! 8 = 58 \<and> list_all lower_hex_byte (take 8 bs))"

definition scoped_purge_pattern :: "key_scope \<Rightarrow> string \<Rightarrow> string" where
  "scoped_purge_pattern scope pattern = (if already_scoped pattern then pattern else scope @ '':'' @ pattern)"

section \<open>Globs\<close>

datatype tok = Star | Any | Lit char | Class bool "(char \<times> char) list"

fun tok_matches :: "tok \<Rightarrow> char \<Rightarrow> bool" where
  "tok_matches Star c = True"
| "tok_matches Any c = True"
| "tok_matches (Lit x) c = (x = c)"
| "tok_matches (Class negate ranges) c = (list_ex (\<lambda>(lo, hi). lo \<le> c \<and> c \<le> hi) ranges \<noteq> negate)"

text \<open>The inner loop of the compiler: the ranges of a class and the pattern left after it.\<close>

fun class_ranges :: "string \<Rightarrow> (char \<times> char) list \<Rightarrow> (char \<times> char) list \<times> string" where
  "class_ranges [] ranges = (ranges, [])"
| "class_ranges [c] ranges = (if c = CHR '']'' then (ranges, []) else (ranges @ [(c, c)], []))"
| "class_ranges (c # d # rest) ranges =
     (if c = CHR '']'' then (ranges, d # rest)
      else if c = CHR 0x5C then class_ranges rest (ranges @ [(d, d)])
      else if d = CHR ''-'' \<and> rest \<noteq> [] \<and> hd rest \<noteq> CHR '']'' then
        class_ranges (tl rest) (ranges @ [if c \<le> hd rest then (c, hd rest) else (hd rest, c)])
      else class_ranges (d # rest) (ranges @ [(c, c)]))"

lemma class_ranges_length: "length (snd (class_ranges p rs)) \<le> length p"
  by (induction p rs rule: class_ranges.induct) auto

text \<open>The outer loop, over the pattern left and the tokens so far.\<close>

function glob_toks :: "string \<Rightarrow> tok list \<Rightarrow> tok list" where
  "glob_toks p toks =
     (case p of
        [] \<Rightarrow> toks
      | c # rest \<Rightarrow>
          if c = CHR ''*'' then glob_toks rest (if toks \<noteq> [] \<and> last toks = Star then toks else toks @ [Star])
          else if c = CHR ''?'' then glob_toks rest (toks @ [Any])
          else if c = CHR ''['' then
            let negate = starts_char CHR 0x5E rest; r = class_ranges (if negate then tl rest else rest) [] in
            glob_toks (snd r) (toks @ [Class negate (fst r)])
          else if c = CHR 0x5C \<and> rest \<noteq> [] then glob_toks (tl rest) (toks @ [Lit (hd rest)])
          else glob_toks rest (toks @ [Lit c]))"
  by auto
termination
proof (relation "measure (\<lambda>(p, toks). length p)", goal_cases)
  case (4 p toks c rest negate r)
  have "length (snd r) \<le> length (if negate then tl rest else rest)"
    unfolding 4 by (rule class_ranges_length)
  also have "\<dots> \<le> length rest"
    by simp
  finally show ?case
    using 4 by simp
qed auto

declare glob_toks.simps [simp del]

type_synonym glob = "tok list"

definition glob_new :: "string \<Rightarrow> glob" where
  "glob_new pattern = glob_toks pattern []"

definition resume_token :: "(nat \<times> nat) option \<Rightarrow> nat \<Rightarrow> nat" where
  "resume_token resume n = (case resume of None \<Rightarrow> 0 | Some (after, end_at) \<Rightarrow> n - after)"

definition resume_key :: "(nat \<times> nat) option \<Rightarrow> nat \<Rightarrow> nat" where
  "resume_key resume n = (case resume of None \<Rightarrow> n + 1 | Some (after, end_at) \<Rightarrow> n - end_at)"

function glob_loop :: "tok list \<Rightarrow> string \<Rightarrow> nat \<Rightarrow> nat \<Rightarrow> (nat \<times> nat) option \<Rightarrow> bool" where
  "glob_loop t k ti ki resume =
     (if ki < length k then
        (if ti < length t \<and> t ! ti = Star then glob_loop t k (ti + 1) ki (Some (ti + 1, ki))
         else if ti < length t \<and> tok_matches (t ! ti) (k ! ki) then glob_loop t k (ti + 1) (ki + 1) resume
         else
           (case resume of
              Some (after, end_at) \<Rightarrow> glob_loop t k after (end_at + 1) (Some (after, end_at + 1))
            | None \<Rightarrow> False))
      else list_all (\<lambda>tok. tok = Star) (drop ti t))"
  by auto
termination
  by (relation "measures [\<lambda>(t, k, ti, ki, r). max (length t - ti) (resume_token r (length t)),
                          \<lambda>(t, k, ti, ki, r). resume_key r (length k), \<lambda>(t, k, ti, ki, r). length k - ki]")
     (auto simp: resume_token_def resume_key_def split: option.splits)

declare glob_loop.simps [simp del]

definition glob_matches :: "glob \<Rightarrow> string \<Rightarrow> bool" where
  "glob_matches g key = glob_loop g key 0 0 None"

section \<open>What a glob means\<close>

text \<open>The reference: a star takes any stretch of the key, every other token one character.\<close>

fun glob_sem :: "tok list \<Rightarrow> string \<Rightarrow> bool" where
  "glob_sem [] k = (k = [])"
| "glob_sem (tok # t) k =
     (if tok = Star then list_ex (\<lambda>n. glob_sem t (drop n k)) [0..<length k + 1]
      else k \<noteq> [] \<and> tok_matches tok (hd k) \<and> glob_sem t (tl k))"

lemma glob_sem_star: "glob_sem (Star # t) k \<longleftrightarrow> (\<exists>n \<le> length k. glob_sem t (drop n k))"
  by (auto simp: list_ex_iff less_Suc_eq_le simp del: upt_Suc)

lemma glob_sem_nil: "glob_sem t [] \<longleftrightarrow> list_all (\<lambda>tok. tok = Star) t"
  by (induction t) auto

lemma glob_sem_star_free:
  assumes "Star \<notin> set u" "glob_sem (u @ t) k"
  shows "length u \<le> length k \<and> glob_sem t (drop (length u) k)"
  using assms
proof (induction u arbitrary: k)
  case (Cons tok u)
  then have "k \<noteq> []" "glob_sem (u @ t) (tl k)"
    by auto
  with Cons show ?case
    by (cases k) auto
qed simp

text \<open>
  The matcher's invariant: since the last star the tokens are star-free and as many as the characters, so
  the only choices left are the ones that star has not tried.
\<close>

definition resume_ok :: "tok list \<Rightarrow> nat \<Rightarrow> nat \<Rightarrow> (nat \<times> nat) option \<Rightarrow> bool" where
  "resume_ok t ti ki resume =
     (case resume of
        None \<Rightarrow> True
      | Some (after, end_at) \<Rightarrow>
          after \<le> ti \<and> end_at \<le> ki \<and> ti - after = ki - end_at \<and> Star \<notin> set (take (ti - after) (drop after t)))"

definition untried :: "tok list \<Rightarrow> string \<Rightarrow> (nat \<times> nat) option \<Rightarrow> bool" where
  "untried t k resume =
     (case resume of
        None \<Rightarrow> False
      | Some (after, end_at) \<Rightarrow> (\<exists>n > end_at. n \<le> length k \<and> glob_sem (drop after t) (drop n k)))"

lemma untried_jump:
  assumes "resume_ok t ti ki resume" "untried t k resume" "ti \<le> length t"
  shows "\<exists>m > ki. m \<le> length k \<and> glob_sem (drop ti t) (drop m k)"
proof -
  obtain a e n where r: "resume = Some (a, e)" "n > e" "n \<le> length k" "glob_sem (drop a t) (drop n k)"
    using assms(2) by (auto simp: untried_def split: option.splits)
  define u where "u = take (ti - a) (drop a t)"
  have ok: "a \<le> ti" "e \<le> ki" "ti - a = ki - e" "Star \<notin> set u"
    using assms(1) r(1) by (auto simp: resume_ok_def u_def)
  have len: "length u = ti - a"
    using assms(3) ok(1) by (simp add: u_def)
  have "drop a t = u @ drop ti t"
    using ok(1) append_take_drop_id [of "ti - a" "drop a t"] by (simp add: u_def)
  then have "length u \<le> length k - n" "glob_sem (drop ti t) (drop (n + length u) k)"
    using glob_sem_star_free [OF ok(4), of "drop ti t" "drop n k"] r(4) by (auto simp: add.commute)
  then show ?thesis
    using ok r(2,3) len by (intro exI [of _ "n + length u"]) auto
qed

lemma glob_sem_star_at:
  assumes "ti < length t" "t ! ti = Star" "ki \<le> length k"
  shows "glob_sem (drop ti t) (drop ki k) \<longleftrightarrow> (\<exists>n \<ge> ki. n \<le> length k \<and> glob_sem (drop (ti + 1) t) (drop n k))"
proof -
  have "drop ti t = Star # drop (ti + 1) t"
    using assms(1,2) by (metis Cons_nth_drop_Suc Suc_eq_plus1)
  then have "glob_sem (drop ti t) (drop ki k) \<longleftrightarrow>
      (\<exists>n \<le> length k - ki. glob_sem (drop (ti + 1) t) (drop (n + ki) k))"
    using glob_sem_star by (simp add: add.commute del: glob_sem.simps)
  also have "\<dots> \<longleftrightarrow> (\<exists>n \<ge> ki. n \<le> length k \<and> glob_sem (drop (ti + 1) t) (drop n k))"
  proof
    assume "\<exists>n \<le> length k - ki. glob_sem (drop (ti + 1) t) (drop (n + ki) k)"
    then obtain n where "n \<le> length k - ki" "glob_sem (drop (ti + 1) t) (drop (n + ki) k)"
      by blast
    then show "\<exists>n \<ge> ki. n \<le> length k \<and> glob_sem (drop (ti + 1) t) (drop n k)"
      using assms(3) by (intro exI [of _ "n + ki"]) auto
  next
    assume "\<exists>n \<ge> ki. n \<le> length k \<and> glob_sem (drop (ti + 1) t) (drop n k)"
    then obtain n where "n \<ge> ki" "n \<le> length k" "glob_sem (drop (ti + 1) t) (drop n k)"
      by blast
    then show "\<exists>n \<le> length k - ki. glob_sem (drop (ti + 1) t) (drop (n + ki) k)"
      by (intro exI [of _ "n - ki"]) auto
  qed
  finally show ?thesis .
qed

lemma glob_sem_step_at:
  assumes "ki < length k" "ti < length t" "t ! ti \<noteq> Star"
  shows "glob_sem (drop ti t) (drop ki k) \<longleftrightarrow>
    tok_matches (t ! ti) (k ! ki) \<and> glob_sem (drop (ti + 1) t) (drop (ki + 1) k)"
proof -
  have "drop ti t = t ! ti # drop (ti + 1) t" "drop ki k = k ! ki # drop (ki + 1) k"
    using assms by (simp_all add: Cons_nth_drop_Suc)
  then show ?thesis
    using assms(3) by simp
qed

lemma untried_at_star:
  assumes "resume_ok t ti ki resume" "untried t k resume" "ti < length t" "t ! ti = Star" "ki \<le> length k"
  shows "glob_sem (drop ti t) (drop ki k)"
proof -
  obtain m where m: "m > ki" "m \<le> length k" "glob_sem (drop ti t) (drop m k)"
    using untried_jump [OF assms(1,2)] assms(3) by auto
  then obtain n where "n \<ge> m" "n \<le> length k" "glob_sem (drop (ti + 1) t) (drop n k)"
    using glob_sem_star_at [OF assms(3,4) m(2)] by blast
  then show ?thesis
    using glob_sem_star_at [OF assms(3-5)] m(1) by (meson less_imp_le order_trans)
qed

lemma resume_ok_step:
  assumes "resume_ok t ti ki resume" "ti < length t" "t ! ti \<noteq> Star"
  shows "resume_ok t (ti + 1) (ki + 1) resume"
proof (cases resume)
  case (Some r)
  then obtain a e where r: "resume = Some (a, e)"
    by (cases r) auto
  then have ok: "a \<le> ti" "e \<le> ki" "ti - a = ki - e" "Star \<notin> set (take (ti - a) (drop a t))"
    using assms(1) by (auto simp: resume_ok_def)
  have "take (ti + 1 - a) (drop a t) = take (ti - a) (drop a t) @ [t ! ti]"
    using ok(1) assms(2) by (simp add: Suc_diff_le take_Suc_conv_app_nth)
  then show ?thesis
    using r ok assms(3) by (auto simp: resume_ok_def)
qed (simp add: resume_ok_def)

lemma glob_loop_sem:
  assumes "resume_ok t ti ki resume" "ti \<le> length t" "ki \<le> length k"
  shows "glob_loop t k ti ki resume \<longleftrightarrow> glob_sem (drop ti t) (drop ki k) \<or> untried t k resume"
  using assms
proof (induction t k ti ki resume rule: glob_loop.induct)
  case (1 t k ti ki resume)
  note unfold = glob_loop.simps [of t k ti ki resume]
  consider (stop) "\<not> ki < length k" | (star) "ki < length k" "ti < length t" "t ! ti = Star"
    | (one) "ki < length k" "ti < length t" "t ! ti \<noteq> Star" "tok_matches (t ! ti) (k ! ki)"
    | (miss) "ki < length k" "ti < length t \<longrightarrow> t ! ti \<noteq> Star \<and> \<not> tok_matches (t ! ti) (k ! ki)"
    by blast
  then show ?case
  proof cases
    case stop
    then have "\<not> untried t k resume"
      using untried_jump [OF 1(4) _ 1(5), of k] 1(6) by auto
    then show ?thesis
      using stop unfolding unfold by (simp add: glob_sem_nil)
  next
    case star
    have "glob_loop t k ti ki resume \<longleftrightarrow> glob_sem (drop (ti + 1) t) (drop ki k) \<or> untried t k (Some (ti + 1, ki))"
      using star 1(1,6) unfolding unfold by (simp add: resume_ok_def)
    also have "\<dots> \<longleftrightarrow> glob_sem (drop ti t) (drop ki k)"
      using glob_sem_star_at [OF star(2,3) 1(6)] star(1) by (auto simp: untried_def le_less)
    finally show ?thesis
      using untried_at_star [OF 1(4) _ star(2,3) 1(6)] by blast
  next
    case one
    then have "resume_ok t (ti + 1) (ki + 1) resume"
      using resume_ok_step [OF 1(4)] by blast
    then show ?thesis
      using one 1(2) glob_sem_step_at [OF one(1-3)] unfolding unfold by simp
  next
    case miss
    have no: "\<not> glob_sem (drop ti t) (drop ki k)"
      using miss glob_sem_step_at [of ki k ti t] by (cases "ti < length t") auto
    show ?thesis
    proof (cases resume)
      case None
      then show ?thesis
        using miss no unfolding unfold by (auto simp: untried_def)
    next
      case (Some r)
      then obtain a e where r: "resume = Some (a, e)"
        by (cases r) auto
      then have "a \<le> ti" "e \<le> ki"
        using 1(4) by (auto simp: resume_ok_def)
      then have "glob_loop t k a (e + 1) (Some (a, e + 1)) \<longleftrightarrow>
          glob_sem (drop a t) (drop (e + 1) k) \<or> untried t k (Some (a, e + 1))"
        using 1(3) [OF miss(1) _ _ r refl] 1(5) miss by (auto simp: resume_ok_def)
      also have "\<dots> \<longleftrightarrow> untried t k resume"
        using \<open>e \<le> ki\<close> miss(1) r
        by (auto simp: untried_def) (metis Suc_leI Suc_lessD le_neq_implies_less order_le_less_trans)+
      finally show ?thesis
        using miss no r unfolding unfold by auto
    qed
  qed
qed

lemma glob_matches_eq: "glob_matches g key = glob_sem g key"
  using glob_loop_sem [of g 0 0 None key] by (simp add: glob_matches_def resume_ok_def untried_def)

text \<open>C35. The purge matcher, which backtracks to the last star only, decides exactly what the glob means: a
  star takes any stretch of the key, every other token one character it admits. It always returns.\<close>

theorem glob_matches_exact: "glob_matches g key = glob_sem g key"
  by (rule glob_matches_eq)

section \<open>Purges stay in their scope\<close>

definition plain_char :: "char \<Rightarrow> bool" where
  "plain_char c = (c \<notin> {CHR ''*'', CHR ''?'', CHR ''['', CHR 0x5C})"

lemma glob_toks_plain: "list_all plain_char p \<Longrightarrow> glob_toks (p @ r) toks = glob_toks r (toks @ map Lit p)"
proof (induction p arbitrary: toks)
  case (Cons c p)
  then have "glob_toks ((c # p) @ r) toks = glob_toks (p @ r) (toks @ [Lit c])"
    by (simp add: glob_toks.simps [of "c # p @ r"] plain_char_def)
  then show ?case
    using Cons by simp
qed simp

lemma glob_toks_step: "\<exists>q more. length q \<le> length rest \<and> glob_toks (c # rest) toks = glob_toks q (toks @ more)"
proof -
  note unfold = glob_toks.simps [of "c # rest" toks]
  consider "c = CHR ''*''" | "c = CHR ''?''" | "c = CHR ''[''" | "c = CHR 0x5C" "rest \<noteq> []"
    | "c \<notin> {CHR ''*'', CHR ''?'', CHR ''[''}" "c = CHR 0x5C \<longrightarrow> rest = []"
    by blast
  then show ?thesis
  proof cases
    case 1
    then have "glob_toks (c # rest) toks = glob_toks rest (toks @ (if toks \<noteq> [] \<and> last toks = Star then [] else [Star]))"
      unfolding unfold by simp
    then show ?thesis
      by blast
  next
    case 3
    define r where "r = class_ranges (if starts_char CHR 0x5E rest then tl rest else rest) []"
    have "length (snd r) \<le> length rest"
      using class_ranges_length [of rest "[]"] class_ranges_length [of "tl rest" "[]"] by (auto simp: r_def)
    moreover have "glob_toks (c # rest) toks = glob_toks (snd r) (toks @ [Class (starts_char CHR 0x5E rest) (fst r)])"
      using 3 unfolding unfold by (simp add: r_def Let_def)
    ultimately show ?thesis
      by blast
  next
    case 4
    then have "glob_toks (c # rest) toks = glob_toks (tl rest) (toks @ [Lit (hd rest)])" "length (tl rest) \<le> length rest"
      unfolding unfold by simp_all
    then show ?thesis
      by blast
  qed (unfold unfold, auto)
qed

lemma glob_toks_keeps: "\<exists>more. glob_toks p toks = toks @ more"
proof (induction "length p" arbitrary: p toks rule: less_induct)
  case less
  show ?case
  proof (cases p)
    case Nil
    then show ?thesis by (simp add: glob_toks.simps)
  next
    case (Cons c rest)
    obtain q more where "length q \<le> length rest" "glob_toks (c # rest) toks = glob_toks q (toks @ more)"
      using glob_toks_step by blast
    then have "length q < length p" "glob_toks p toks = glob_toks q (toks @ more)"
      by (simp_all add: Cons)
    then show ?thesis
      using less [of q "toks @ more"] by auto
  qed
qed

lemma glob_sem_lits: "glob_sem (map Lit p @ t) k \<longleftrightarrow> (\<exists>r. k = p @ r \<and> glob_sem t r)"
proof (induction p arbitrary: k)
  case (Cons c p)
  then show ?case by (cases k) auto
qed simp

lemma glob_new_plain_star:
  assumes "list_all plain_char p"
  shows "glob_new (p @ ''*'') = map Lit p @ [Star]"
proof -
  have "last (map Lit p) \<noteq> Star" if "p \<noteq> []"
    using that by (simp add: last_map)
  then show ?thesis
    using assms by (auto simp: glob_new_def glob_toks_plain glob_toks.simps [of "''*''"] glob_toks.simps [of "[]"])
qed

lemma glob_new_prefix:
  assumes "list_all plain_char p" "glob_sem (glob_new (p @ r)) k"
  shows "\<exists>rest. k = p @ rest"
proof -
  obtain more where "glob_new (p @ r) = map Lit p @ more"
    using glob_toks_keeps [of r "map Lit p"] assms(1) by (auto simp: glob_new_def glob_toks_plain)
  then show ?thesis
    using assms(2) by (auto simp: glob_sem_lits)
qed

text \<open>An admin purge stays in its key scope: under a scope with no glob characters, a pattern that does not
  itself begin with a scope removes only keys of that scope, and a plain text followed by a star removes
  exactly the keys of the scope that begin with the text.\<close>

theorem purge_stays_in_scope:
  assumes "list_all plain_char scope" "\<not> already_scoped pattern"
  shows "(glob_matches (glob_new (scoped_purge_pattern scope pattern)) key \<longrightarrow> (\<exists>rest. key = scope @ '':'' @ rest)) \<and>
    (list_all plain_char p \<and> pattern = p @ ''*'' \<longrightarrow>
      glob_matches (glob_new (scoped_purge_pattern scope pattern)) key = (\<exists>rest. key = scope @ '':'' @ p @ rest))"
proof -
  let ?s = "scope @ '':''"
  have s: "list_all plain_char ?s" "scoped_purge_pattern scope pattern = ?s @ pattern"
    using assms by (simp_all add: plain_char_def scoped_purge_pattern_def)
  have "\<exists>rest. key = ?s @ rest" if "glob_sem (glob_new (?s @ pattern)) key"
    using glob_new_prefix [OF s(1) that] .
  moreover have "glob_sem (glob_new (?s @ p @ ''*'')) key = (\<exists>rest. key = (?s @ p) @ rest)" if "list_all plain_char p"
  proof -
    have "glob_new ((?s @ p) @ ''*'') = map Lit (?s @ p) @ [Star]"
      using s(1) that by (intro glob_new_plain_star) simp
    moreover have "glob_sem [Star] r" for r
      unfolding glob_sem_star by (intro exI [of _ "length r"]) simp
    ultimately show ?thesis
      using glob_sem_lits [of "?s @ p" "[Star]" key] by (simp only: append_assoc) blast
  qed
  ultimately show ?thesis
    unfolding glob_matches_eq s(2) by auto
qed

theorem purge_stays_in_scope_witness:
  "glob_matches (glob_new (scoped_purge_pattern ''ab12cd34'' ''match*'')) ''ab12cd34:match.byId:x''"
  using purge_stays_in_scope [of "''ab12cd34''" "''match*''" "''ab12cd34:match.byId:x''" "''match''"]
  by (simp add: plain_char_def already_scoped_def utf8_def utf8_char_def)

section \<open>A key determines its request\<close>

lemma query_pairs_map: "map (\<lambda>(k, v). [k, v]) (query_pairs q) = sort (map (\<lambda>(k, v). [k, v]) (filter (\<lambda>(k, v). v \<noteq> []) q))"
  unfolding query_pairs_def by (simp add: sort_key_map comp_def)

lemma pair_list_inj: "inj (\<lambda>(k :: 'a, v). [k, v])"
  by (auto simp: inj_def)

lemma query_pairs_eq:
  "query_pairs q = query_pairs q' \<longleftrightarrow> mset (filter (\<lambda>(k, v). v \<noteq> []) q) = mset (filter (\<lambda>(k, v). v \<noteq> []) q')"
proof
  assume "query_pairs q = query_pairs q'"
  then show "mset (filter (\<lambda>(k, v). v \<noteq> []) q) = mset (filter (\<lambda>(k, v). v \<noteq> []) q')"
    unfolding query_pairs_def by (metis mset_sort)
next
  assume "mset (filter (\<lambda>(k, v). v \<noteq> []) q) = mset (filter (\<lambda>(k, v). v \<noteq> []) q')"
  then have "sort (map (\<lambda>(k, v). [k, v]) (filter (\<lambda>(k, v). v \<noteq> []) q)) = sort (map (\<lambda>(k, v). [k, v]) (filter (\<lambda>(k, v). v \<noteq> []) q'))"
    by (intro properties_for_sort) (simp_all add: mset_map)
  then show "query_pairs q = query_pairs q'"
    unfolding query_pairs_map [symmetric] using inj_map_eq_map [OF pair_list_inj] by blast
qed

lemma query_text_inj: "query_text p = query_text p' \<Longrightarrow> p = p'"
proof -
  assume eq: "query_text p = query_text p'"
  obtain k v k' v' where p: "p = (k, v)" "p' = (k', v')"
    by (cases p; cases p') auto
  have "split_once CHR ''='' (query_text (k, v)) = Some (encode_component k, encode_component v)" for k v
    using encode_component_safe separators_not_safe(4) by (auto simp: query_text_def intro!: split_once_append)
  then show "p = p'"
    using eq p encode_component_inj by (metis Pair_inject option.inject)
qed

lemma query_text_no_amp: "CHR ''&'' \<notin> set (query_text p)"
  using encode_component_safe separators_not_safe(3) by (cases p) (auto simp: query_text_def)

lemma canonical_query_empty: "canonical_query q = [] \<longleftrightarrow> query_pairs q = []"
proof (cases "query_pairs q")
  case (Cons p ps)
  then show ?thesis
    by (cases ps; cases p) (simp_all add: canonical_query_def query_text_def)
qed (simp add: canonical_query_def)

lemma canonical_query_inj: "canonical_query q = canonical_query q' \<Longrightarrow> query_pairs q = query_pairs q'"
proof (cases "query_pairs q = [] \<or> query_pairs q' = []")
  case False
  have split: "split_on CHR ''&'' (canonical_query q) = map query_text (query_pairs q)" if "query_pairs q \<noteq> []" for q
    unfolding canonical_query_def using that query_text_no_amp by (intro split_on_join) auto
  assume "canonical_query q = canonical_query q'"
  then have "map query_text (query_pairs q) = map query_text (query_pairs q')"
    using False split by metis
  then show ?thesis
    using inj_map_eq_map [of query_text] query_text_inj by (auto simp: inj_def)
qed (metis canonical_query_empty)

text \<open>The canonical query forgets exactly the order of the parameters and the empty ones: two queries have the
  same canonical text if and only if their parameters with a value are the same up to order.\<close>

theorem canonical_query_exact:
  "canonical_query q = canonical_query q' \<longleftrightarrow>
     mset (filter (\<lambda>(k, v). v \<noteq> []) q) = mset (filter (\<lambda>(k, v). v \<noteq> []) q')"
proof -
  have "canonical_query q = canonical_query q' \<longleftrightarrow> query_pairs q = query_pairs q'"
    using canonical_query_inj [of q q'] unfolding canonical_query_def by auto
  then show ?thesis
    by (simp only: query_pairs_eq)
qed

text \<open>The requests the constructors build: the values of a registered method, percent-encoded.\<close>

definition request_ok :: "riot_request \<Rightarrow> bool" where
  "request_ok req \<longleftrightarrow> rq_endpoint req \<in> set ENDPOINTS \<and>
     length (rq_params req) = length (path_params (rq_endpoint req)) \<and> list_all (list_all encode_safe) (rq_params req)"

lemma riot_request_new_ok: "e \<in> set ENDPOINTS \<Longrightarrow> riot_request_new e t vs = Inr req \<Longrightarrow> request_ok req"
  by (auto simp: riot_request_new_def request_ok_def path_def Let_def list_all_iff encode_component_safe
      split: sum.splits if_splits)

lemma riot_request_account_ok: "e \<in> set ENDPOINTS \<Longrightarrow> riot_request_account e vs = Inr req \<Longrightarrow> request_ok req"
  by (auto simp: riot_request_account_def request_ok_def dest!: riot_request_new_ok split: sum.splits)

lemma request_query_ok: "request_query k v req = Inr req' \<Longrightarrow> request_ok req \<Longrightarrow> request_ok req'"
  by (auto simp: request_query_def request_ok_def split: option.splits if_splits)

definition key_parts :: "(nat list \<Rightarrow> nat list) \<Rightarrow> key_scope \<Rightarrow> riot_request \<Rightarrow> string list" where
  "key_parts sha256 scope req = scope # ep_id (rq_endpoint req) # key_host req # rq_params req @
     (if canonical_query (rq_query req) \<noteq> [] then [short_hash sha256 (canonical_query (rq_query req))] else [])"

lemma join_colon: "join '':'' (a # bs) = a @ concat (map (\<lambda>p. '':'' @ p) bs)"
  by (induction bs arbitrary: a) auto

lemma cache_key_join: "cache_key sha256 scope req = join '':'' (key_parts sha256 scope req)"
  by (simp add: cache_key_def key_parts_def join_colon Let_def)

lemma ids_no_colon: "list_all (\<lambda>i. CHR '':'' \<notin> set i \<and> i \<noteq> ''derived'') (map ep_id ENDPOINTS)"
  unfolding registry by code_simp

lemma key_host_no_colon: "CHR '':'' \<notin> set (key_host req)"
proof -
  have "CHR '':'' \<notin> set (target_host t)" for t
  proof (cases t)
    case (TPlatform p)
    then show ?thesis by (cases p) (simp_all add: platform_host_def)
  next
    case (TRegion r)
    then show ?thesis by (cases r) (simp_all add: region_host_def)
  qed
  then show ?thesis
    by (simp add: key_host_def split: host_kind.split)
qed

definition sha256_bytes :: "(nat list \<Rightarrow> nat list) \<Rightarrow> bool" where
  "sha256_bytes sha256 \<longleftrightarrow> (\<forall>x. length (sha256 x) = 32 \<and> list_all (\<lambda>b. b < 256) (sha256 x))"

lemma hex_lower_alnum: "d < 16 \<Longrightarrow> is_alnum (hex_lower d)"
  by (auto simp: hex_lower_def is_alnum_def is_digit_def is_lower_def)

lemma short_hash_safe:
  assumes "sha256_bytes sha256" "c \<in> set (short_hash sha256 t)"
  shows "is_alnum c"
proof -
  have "c \<in> set (hex_encode (sha256 (utf8 t)))"
    using assms(2) unfolding short_hash_def by (rule in_set_takeD)
  then obtain b where "b \<in> set (sha256 (utf8 t))" "c = hex_lower (b div 16) \<or> c = hex_lower (b mod 16)"
    by (auto simp: hex_encode_def)
  moreover then have "b div 16 < 16" "b mod 16 < 16"
    using assms(1) less_mult_imp_div_less [of b 16 16] by (auto simp: sha256_bytes_def list_all_iff)
  ultimately show ?thesis
    using hex_lower_alnum by auto
qed

lemma colon_not_alnum: "\<not> is_alnum CHR '':''"
  by code_simp

lemma key_parts_split:
  assumes "request_ok req" "CHR '':'' \<notin> set scope" "sha256_bytes sha256"
  shows "split_on CHR '':'' (cache_key sha256 scope req) = key_parts sha256 scope req"
proof -
  have "CHR '':'' \<notin> set (ep_id (rq_endpoint req))"
    using ids_no_colon assms(1) by (auto simp: list_all_iff request_ok_def)
  moreover have "CHR '':'' \<notin> set p" if "p \<in> set (rq_params req)" for p
    using assms(1) that separators_not_safe(2) by (auto simp: list_all_iff request_ok_def)
  moreover have "CHR '':'' \<notin> set (short_hash sha256 t)" for t
    using short_hash_safe [OF assms(3)] colon_not_alnum by blast
  ultimately have "\<forall>p \<in> set (key_parts sha256 scope req). CHR '':'' \<notin> set p"
    using assms(2) key_host_no_colon by (auto simp: key_parts_def)
  then show ?thesis
    unfolding cache_key_join by (intro split_on_join) (auto simp: key_parts_def)
qed

text \<open>C34. A cache key determines its request: two requests with the same key have the same key scope, method,
  host (account methods count as one host) and path values, and the same parameters up to order, unless the
  truncated hashes of two different canonical queries collide. A derived read's key is never a request's.\<close>

theorem cache_key_determines:
  assumes "request_ok r" "request_ok r'" "CHR '':'' \<notin> set scope" "CHR '':'' \<notin> set scope'" "sha256_bytes sha256"
    and "cache_key sha256 scope r = cache_key sha256 scope' r'"
  shows "scope = scope' \<and> rq_endpoint r = rq_endpoint r' \<and> key_host r = key_host r' \<and> rq_params r = rq_params r' \<and>
    (query_pairs (rq_query r) = query_pairs (rq_query r') \<or>
     canonical_query (rq_query r) \<noteq> canonical_query (rq_query r') \<and>
     short_hash sha256 (canonical_query (rq_query r)) = short_hash sha256 (canonical_query (rq_query r'))) \<and>
    cache_key sha256 scope r \<noteq> derived_key sha256 scope part tgt"
proof -
  have parts: "key_parts sha256 scope r = key_parts sha256 scope' r'"
    using key_parts_split [OF assms(1,3,5)] key_parts_split [OF assms(2,4,5)] assms(6) by simp
  then have ids: "ep_id (rq_endpoint r) = ep_id (rq_endpoint r')"
    by (simp add: key_parts_def)
  then have e: "rq_endpoint r = rq_endpoint r'"
    using assms(1,2) by_id_registry by (metis option.inject request_ok_def)
  then have "length (rq_params r) = length (rq_params r')"
    using assms(1,2) by (simp add: request_ok_def)
  then have "rq_params r = rq_params r'" and q: "canonical_query (rq_query r) = [] \<longleftrightarrow> canonical_query (rq_query r') = []"
    "short_hash sha256 (canonical_query (rq_query r)) = short_hash sha256 (canonical_query (rq_query r')) \<or>
     canonical_query (rq_query r) = canonical_query (rq_query r')"
    using parts by (auto simp: key_parts_def split: if_splits)
  moreover have "cache_key sha256 scope r \<noteq> derived_key sha256 scope part tgt"
  proof
    assume "cache_key sha256 scope r = derived_key sha256 scope part tgt"
    moreover have "split_on CHR '':'' (derived_key sha256 scope part tgt) ! 1 = ''derived''"
      using assms(3) by (simp add: derived_key_def split_on_append)
    ultimately have "ep_id (rq_endpoint r) = ''derived''"
      using key_parts_split [OF assms(1,3,5)] by (simp add: key_parts_def)
    then show False
      using ids_no_colon assms(1) by (auto simp: list_all_iff request_ok_def)
  qed
  moreover have "scope = scope'" "key_host r = key_host r'"
    using parts by (simp_all add: key_parts_def)
  moreover have "query_pairs (rq_query r) = query_pairs (rq_query r')"
    if "canonical_query (rq_query r) = canonical_query (rq_query r')"
    using canonical_query_inj [OF that] .
  ultimately show ?thesis
    using e by blast
qed

definition sample_key_request :: riot_request where
  "sample_key_request = \<lparr>rq_endpoint = sample_endpoint, rq_target = TRegion Europe,
     rq_path = ''/lol/match/v5/matches/EUW1_1/timeline'', rq_params = [''EUW1_1''], rq_query = [], pick_cluster = False\<rparr>"

theorem cache_key_determines_witness:
  "cache_key (\<lambda>_. replicate 32 0) ''ab12cd34'' sample_key_request \<noteq>
   derived_key (\<lambda>_. replicate 32 0) ''ab12cd34'' ''names'' ''x''"
proof -
  have "length (path_params sample_endpoint) = 1" "list_all encode_safe ''EUW1_1''"
    by code_simp+
  then have "request_ok sample_key_request"
    by (simp add: request_ok_def sample_key_request_def sample_endpoint_def ENDPOINTS_def ENDPOINTS_TAIL_def)
  moreover have "sha256_bytes (\<lambda>_. replicate 32 0)"
    by (simp add: sha256_bytes_def list_all_iff)
  ultimately show ?thesis
    using cache_key_determines [of sample_key_request sample_key_request "''ab12cd34''" "''ab12cd34''" "\<lambda>_. replicate 32 0" "''names''" "''x''"]
    by simp
qed

end
