(* ===== verification/Clock.thy ===== *)
theory Clock
  imports Prelude
begin

text \<open>
  The pairing of tokio's monotonic clock with the wall clock, \<^verbatim>\<open>src/clock.rs\<close>: one reading of both anchors
  every conversion of a batch. The lemmas bound what a conversion there and back does to an instant.
\<close>

record clock =
  c_instant :: instant
  c_unix_ms :: int

definition to_unix_ms :: "clock \<Rightarrow> instant \<Rightarrow> int" where
  "to_unix_ms c t =
     (let ago = min (int (as_millis (c_instant c - t))) i64_max;
          ahead = min (int (as_millis (t - c_instant c))) i64_max in
      sat_i64 (sat_i64 (c_unix_ms c - ago) + ahead))"

definition to_instant :: "clock \<Rightarrow> int \<Rightarrow> instant" where
  "to_instant c ms =
     (let delta = ms - c_unix_ms c; magnitude = of_millis (nat \<bar>delta\<bar>) in
      if delta \<ge> 0 then c_instant c + magnitude
      else if magnitude \<le> c_instant c then c_instant c - magnitude else c_instant c)"

section \<open>Wall-clock time of an instant\<close>

text \<open>Nanoseconds of unix time, as one reading of both clocks gives them.\<close>

definition wall :: "clock \<Rightarrow> instant \<Rightarrow> int" where
  "wall c t = c_unix_ms c * 1000000 + int t - int (c_instant c)"

definition clock_ok :: "clock \<Rightarrow> bool" where
  "clock_ok c = (0 \<le> c_unix_ms c \<and> c_unix_ms c \<le> i64_max \<and> int (as_millis (c_instant c)) \<le> i64_max)"

lemma to_unix_ms_past:
  assumes "clock_ok c" "t \<le> c_instant c"
  shows "to_unix_ms c t = c_unix_ms c - int (as_millis (c_instant c - t))"
proof -
  have "as_millis (c_instant c - t) \<le> as_millis (c_instant c)"
    by (simp add: as_millis_def div_le_mono)
  then have "int (as_millis (c_instant c - t)) \<le> i64_max"
    using assms(1) by (simp add: clock_ok_def)
  moreover have "- i64_max \<le> c_unix_ms c - int (as_millis (c_instant c - t))"
    "c_unix_ms c - int (as_millis (c_instant c - t)) \<le> i64_max"
    using assms(1) calculation by (simp_all add: clock_ok_def)
  ultimately show ?thesis
    using assms(2) by (simp add: to_unix_ms_def Let_def sat_i64_def as_millis_def i64_max_def i64_min_def)
qed

lemma to_unix_ms_not_early:
  assumes "clock_ok c" "t \<le> c_instant c"
  shows "wall c t \<le> to_unix_ms c t * 1000000"
proof -
  have "int ((c_instant c - t) div 1000000) * 1000000 \<le> int (c_instant c - t)"
    by (metis div_times_less_eq_dividend of_nat_le_iff of_nat_mult of_nat_numeral)
  then show ?thesis
    using assms by (simp add: to_unix_ms_past wall_def as_millis_def of_nat_diff algebra_simps)
qed

lemma wall_now [simp]: "wall c (c_instant c) = c_unix_ms c * 1000000"
  by (simp add: wall_def)

lemma wall_to_instant: "ms * 1000000 \<le> wall c (to_instant c ms) \<or> wall c (to_instant c ms) = c_unix_ms c * 1000000"
proof (cases "0 \<le> ms - c_unix_ms c")
  case True
  then show ?thesis
    by (simp add: to_instant_def Let_def wall_def of_millis_def)
next
  case False
  then show ?thesis
    by (auto simp: to_instant_def Let_def wall_def of_millis_def of_nat_diff)
qed

lemma wall_to_instant_ge:
  "min (ms * 1000000) (c_unix_ms c * 1000000) \<le> wall c (to_instant c ms)"
  using wall_to_instant [of ms c] by auto

lemma to_unix_ms_ahead:
  assumes "clock_ok c" "c_instant c \<le> t" "c_unix_ms c + int (as_millis (t - c_instant c)) \<le> i64_max"
  shows "to_unix_ms c t = c_unix_ms c + int (as_millis (t - c_instant c))"
  using assms by (simp add: to_unix_ms_def Let_def sat_i64_def clock_ok_def as_millis_def i64_max_def i64_min_def)

lemma to_unix_ms_not_late:
  assumes "clock_ok c" "c_instant c \<le> t"
  shows "to_unix_ms c t * 1000000 \<le> wall c t"
proof -
  have "to_unix_ms c t \<le> c_unix_ms c + int (as_millis (t - c_instant c))"
    using assms by (simp add: to_unix_ms_def Let_def sat_i64_def clock_ok_def as_millis_def i64_max_def i64_min_def)
  moreover have "int ((t - c_instant c) div 1000000) * 1000000 \<le> int (t - c_instant c)"
    by (metis div_times_less_eq_dividend of_nat_le_iff of_nat_mult of_nat_numeral)
  ultimately show ?thesis
    using assms(2) by (simp add: wall_def as_millis_def of_nat_diff)
qed

lemma wall_to_instant_ahead: "c_unix_ms c \<le> ms \<Longrightarrow> wall c (to_instant c ms) = ms * 1000000"
  by (simp add: to_instant_def Let_def wall_def of_millis_def)

end
