(* ===== verification/Cache.thy ===== *)
theory Cache
  imports Cache_Keys Clock
begin

text \<open>
  The response cache: the in-memory tier \<^verbatim>\<open>src/cache/l1.rs\<close>, the write-behind SQLite tier
  \<^verbatim>\<open>src/cache/l2.rs\<close> and their combination \<^verbatim>\<open>src/cache/mod.rs\<close>.

  The concurrent map of the crate \<^verbatim>\<open>moka\<close> is the argument \<open>M\<close>, its operations as a record; \<open>moka_laws\<close> is what the
  code relies on: the map may forget an entry at any time (its weight bound and its own expiry) but never
  invents one. The clock readings are arguments. The table \<^verbatim>\<open>cache\<close> is an association list from keys to rows;
  a transaction that fails leaves it as it was.

  The lemmas show when an entry is served and how, that the cache refines a plain map of the last writes,
  that a purge leaves no matching entry, and that a restart through L2 never serves an entry beyond its time.
\<close>

section \<open>L1\<close>

definition ENTRY_OVERHEAD :: nat where
  "ENTRY_OVERHEAD = 128"

record cache_entry =
  ce_status :: nat
  ce_body :: bytes
  content_at :: instant
  fetched_at :: instant
  soft_expires :: instant
  hard_expires :: instant

definition is_negative :: "cache_entry \<Rightarrow> bool" where
  "is_negative e = (ce_status e = 404)"

definition age :: "cache_entry \<Rightarrow> instant \<Rightarrow> duration" where
  "age e now = now - content_at e"

definition fetch_age :: "cache_entry \<Rightarrow> instant \<Rightarrow> duration" where
  "fetch_age e now = now - fetched_at e"

datatype lookup = Fresh cache_entry | Stale cache_entry | Miss

definition weight :: "string \<Rightarrow> cache_entry \<Rightarrow> nat" where
  "weight key e = sat_u32 (length (utf8 key) + length (ce_body e) + ENTRY_OVERHEAD)"

text \<open>The life moka is told to give an entry: the time to its hard expiry.\<close>

definition expire_after_create :: "cache_entry \<Rightarrow> instant \<Rightarrow> duration" where
  "expire_after_create e now = hard_expires e - now"

record 'c moka =
  mk_get :: "'c \<Rightarrow> string \<Rightarrow> cache_entry option"
  mk_insert :: "string \<Rightarrow> cache_entry \<Rightarrow> 'c \<Rightarrow> 'c"
  mk_invalidate :: "string \<Rightarrow> 'c \<Rightarrow> 'c"
  mk_keys :: "'c \<Rightarrow> string list"

definition l1_get :: "'c moka \<Rightarrow> string \<Rightarrow> instant \<Rightarrow> 'c \<Rightarrow> lookup \<times> 'c" where
  "l1_get M key now c =
     (case mk_get M c key of
        None \<Rightarrow> (Miss, c)
      | Some e \<Rightarrow>
          if now < soft_expires e then (Fresh e, c)
          else if now < hard_expires e then (Stale e, c)
          else (Miss, mk_invalidate M key c))"

definition l1_insert ::
  "'c moka \<Rightarrow> string \<Rightarrow> nat \<Rightarrow> bytes \<Rightarrow> duration \<Rightarrow> duration \<Rightarrow> instant \<Rightarrow> 'c \<Rightarrow> cache_entry \<times> 'c" where
  "l1_insert M key st body soft hard now c =
     (let content = (case mk_get M c key of
            Some prev \<Rightarrow> if ce_status prev = st \<and> ce_body prev = body then content_at prev else now
          | None \<Rightarrow> now);
          e = \<lparr>ce_status = st, ce_body = body, content_at = content, fetched_at = now,
            soft_expires = now + soft, hard_expires = now + max hard soft\<rparr> in
      (e, mk_insert M key e c))"

definition l1_put :: "'c moka \<Rightarrow> string \<Rightarrow> bytes \<Rightarrow> ttl_times \<Rightarrow> instant \<Rightarrow> 'c \<Rightarrow> cache_entry option \<times> 'c" where
  "l1_put M key body t now c =
     (case (t_soft t, t_hard t) of
        (Some soft, Some hard) \<Rightarrow> (case l1_insert M key 200 body soft hard now c of (e, c') \<Rightarrow> (Some e, c'))
      | _ \<Rightarrow> (None, c))"

definition l1_put_negative :: "'c moka \<Rightarrow> string \<Rightarrow> duration \<Rightarrow> instant \<Rightarrow> 'c \<Rightarrow> cache_entry \<times> 'c" where
  "l1_put_negative M key ttl now c = l1_insert M key 404 [] ttl ttl now c"

definition l1_insert_entry :: "'c moka \<Rightarrow> string \<Rightarrow> cache_entry \<Rightarrow> 'c \<Rightarrow> 'c" where
  "l1_insert_entry M key e c = mk_insert M key e c"

definition l1_invalidate :: "'c moka \<Rightarrow> string \<Rightarrow> 'c \<Rightarrow> 'c" where
  "l1_invalidate M key c = mk_invalidate M key c"

definition l1_keys_where :: "'c moka \<Rightarrow> (string \<Rightarrow> bool) \<Rightarrow> 'c \<Rightarrow> string list" where
  "l1_keys_where M pred c = filter pred (mk_keys M c)"

definition l1_invalidate_where :: "'c moka \<Rightarrow> (string \<Rightarrow> bool) \<Rightarrow> 'c \<Rightarrow> string list \<times> 'c" where
  "l1_invalidate_where M pred c =
     (let keys = filter pred (mk_keys M c) in (keys, fold (mk_invalidate M) keys c))"

section \<open>L2\<close>

definition FLUSH_EVERY :: duration where
  "FLUSH_EVERY = of_secs 2"

definition FLUSH_BATCH :: nat where
  "FLUSH_BATCH = 500"

definition L2_QUEUE :: nat where
  "L2_QUEUE = 10000"

record l2_row =
  lr_key :: string
  lr_body :: bytes
  lr_status :: nat
  lr_content_at :: int
  lr_fetched_at :: int
  lr_soft_expires :: int
  lr_hard_expires :: int

definition row_from_entry :: "string \<Rightarrow> cache_entry \<Rightarrow> clock \<Rightarrow> l2_row" where
  "row_from_entry key e c =
     \<lparr>lr_key = key, lr_body = ce_body e, lr_status = ce_status e, lr_content_at = to_unix_ms c (content_at e),
      lr_fetched_at = to_unix_ms c (fetched_at e), lr_soft_expires = to_unix_ms c (soft_expires e),
      lr_hard_expires = to_unix_ms c (hard_expires e)\<rparr>"

definition row_to_entry :: "l2_row \<Rightarrow> clock \<Rightarrow> cache_entry" where
  "row_to_entry r c =
     \<lparr>ce_status = lr_status r, ce_body = lr_body r, content_at = to_instant c (lr_content_at r),
      fetched_at = to_instant c (lr_fetched_at r), soft_expires = to_instant c (lr_soft_expires r),
      hard_expires = to_instant c (lr_hard_expires r)\<rparr>"

text \<open>The writer's handle: the channel, closed after shutdown, and the count of rows dropped on a full one.\<close>

record l2_writer =
  lw_open :: bool
  lw_queue :: "l2_row list"
  lw_capacity :: nat
  lw_dropped :: nat

definition spawn_queued :: "nat \<Rightarrow> l2_writer" where
  "spawn_queued queue = \<lparr>lw_open = True, lw_queue = [], lw_capacity = max queue 1, lw_dropped = 0\<rparr>"

definition l2_enqueue :: "string \<Rightarrow> cache_entry \<Rightarrow> clock \<Rightarrow> l2_writer \<Rightarrow> l2_writer" where
  "l2_enqueue key e clk w =
     (if \<not> lw_open w then w
      else if length (lw_queue w) < lw_capacity w then w\<lparr>lw_queue := lw_queue w @ [row_from_entry key e clk]\<rparr>
      else w\<lparr>lw_dropped := lw_dropped w + 1\<rparr>)"

definition l2_shutdown :: "l2_writer \<Rightarrow> l2_writer" where
  "l2_shutdown w = w\<lparr>lw_open := False\<rparr>"

type_synonym l2_table = "(string \<times> l2_row) list"

text \<open>\<^verbatim>\<open>INSERT OR REPLACE\<close>, one transaction.\<close>

definition put_rows :: "l2_row list \<Rightarrow> l2_table \<Rightarrow> l2_table" where
  "put_rows rows t = fold (\<lambda>r. AList.update (lr_key r) r) rows t"

definition l2_flush :: "bool \<Rightarrow> l2_row list \<Rightarrow> l2_table \<Rightarrow> l2_table" where
  "l2_flush commits rows t = (if commits then put_rows rows t else t)"

text \<open>
  What the write loop sees next: a row, the batch's deadline, or the channel closed and empty. Its state is the
  pending batch and the table; the flag says whether the transaction commits.
\<close>

datatype l2_event = Received l2_row | Deadline | Closed

fun write_step :: "nat \<Rightarrow> bool \<Rightarrow> l2_event \<Rightarrow> l2_row list \<times> l2_table \<Rightarrow> l2_row list \<times> l2_table" where
  "write_step batch commits (Received r) (pending, t) =
     (let p = pending @ [r] in if length p < batch then (p, t) else ([], l2_flush commits p t))"
| "write_step batch commits Deadline (pending, t) =
     (if pending = [] then (pending, t) else ([], l2_flush commits pending t))"
| "write_step batch commits Closed (pending, t) =
     (if pending = [] then (pending, t) else ([], l2_flush commits pending t))"

fun write_loop :: "nat \<Rightarrow> (bool \<times> l2_event) list \<Rightarrow> l2_row list \<times> l2_table \<Rightarrow> l2_row list \<times> l2_table" where
  "write_loop batch [] s = s"
| "write_loop batch ((commits, ev) # evs) s =
     (let s' = write_step (max batch 1) commits ev s in if ev = Closed then s' else write_loop batch evs s')"

definition l2_live_rows :: "int \<Rightarrow> l2_table \<Rightarrow> l2_row list" where
  "l2_live_rows now_ms t = filter (\<lambda>r. lr_hard_expires r > now_ms) (map snd t)"

definition warm :: "'c moka \<Rightarrow> clock \<Rightarrow> l2_table \<Rightarrow> 'c \<Rightarrow> nat \<times> 'c" where
  "warm M clk t c =
     (let rows = l2_live_rows (c_unix_ms clk) t in
      (length rows, fold (\<lambda>r. l1_insert_entry M (lr_key r) (row_to_entry r clk)) rows c))"

definition sweep :: "int \<Rightarrow> l2_table \<Rightarrow> nat \<times> l2_table" where
  "sweep now_ms t =
     (length (filter (\<lambda>(k, r). lr_hard_expires r \<le> now_ms) t), filter (\<lambda>(k, r). \<not> lr_hard_expires r \<le> now_ms) t)"

definition l2_keys_where :: "(string \<Rightarrow> bool) \<Rightarrow> l2_table \<Rightarrow> string list" where
  "l2_keys_where pred t = filter pred (map fst t)"

fun delete_keys :: "string list \<Rightarrow> l2_table \<Rightarrow> string list \<times> l2_table" where
  "delete_keys [] t = ([], t)"
| "delete_keys (k # ks) t =
     (case delete_keys ks (AList.delete k t) of (deleted, t') \<Rightarrow>
        (if map_of t k \<noteq> None then k # deleted else deleted, t'))"

section \<open>Both tiers\<close>

record 'c response_cache =
  rc_l1 :: 'c
  rc_l2 :: "l2_writer option"

definition l2_dropped :: "'c response_cache \<Rightarrow> nat" where
  "l2_dropped rc = (case rc_l2 rc of None \<Rightarrow> 0 | Some w \<Rightarrow> lw_dropped w)"

definition rc_get :: "'c moka \<Rightarrow> string \<Rightarrow> instant \<Rightarrow> 'c response_cache \<Rightarrow> lookup \<times> 'c response_cache" where
  "rc_get M key now rc = (case l1_get M key now (rc_l1 rc) of (r, c) \<Rightarrow> (r, rc\<lparr>rc_l1 := c\<rparr>))"

definition rc_persist :: "string \<Rightarrow> endpoint \<Rightarrow> cache_entry \<Rightarrow> clock \<Rightarrow> 'c response_cache \<Rightarrow> 'c response_cache" where
  "rc_persist key endp e clk rc =
     (if persist_l2 endp then rc\<lparr>rc_l2 := map_option (l2_enqueue key e clk) (rc_l2 rc)\<rparr> else rc)"

definition rc_put ::
  "'c moka \<Rightarrow> string \<Rightarrow> endpoint \<Rightarrow> bytes \<Rightarrow> ttl_times \<Rightarrow> instant \<Rightarrow> clock \<Rightarrow> 'c response_cache \<Rightarrow>
   cache_entry option \<times> 'c response_cache" where
  "rc_put M key endp body t now clk rc =
     (case l1_put M key body t now (rc_l1 rc) of
        (None, c) \<Rightarrow> (None, rc\<lparr>rc_l1 := c\<rparr>)
      | (Some e, c) \<Rightarrow> (Some e, rc_persist key endp e clk (rc\<lparr>rc_l1 := c\<rparr>)))"

definition rc_put_negative ::
  "'c moka \<Rightarrow> string \<Rightarrow> endpoint \<Rightarrow> duration \<Rightarrow> instant \<Rightarrow> clock \<Rightarrow> 'c response_cache \<Rightarrow> cache_entry \<times> 'c response_cache" where
  "rc_put_negative M key endp ttl now clk rc =
     (case l1_put_negative M key ttl now (rc_l1 rc) of (e, c) \<Rightarrow> (e, rc_persist key endp e clk (rc\<lparr>rc_l1 := c\<rparr>)))"

definition rc_shutdown :: "'c response_cache \<Rightarrow> 'c response_cache" where
  "rc_shutdown rc = rc\<lparr>rc_l2 := map_option l2_shutdown (rc_l2 rc)\<rparr>"

section \<open>What the code relies on of the map\<close>

definition moka_laws :: "'c moka \<Rightarrow> bool" where
  "moka_laws M \<longleftrightarrow>
     (\<forall>c k e k' e'. mk_get M (mk_insert M k e c) k' = Some e' \<longrightarrow> (if k' = k then e' = e else mk_get M c k' = Some e')) \<and>
     (\<forall>c k k' e'. mk_get M (mk_invalidate M k c) k' = Some e' \<longrightarrow> k' \<noteq> k \<and> mk_get M c k' = Some e') \<and>
     (\<forall>c k. k \<in> set (mk_keys M c) \<longleftrightarrow> mk_get M c k \<noteq> None)"

lemma moka_insert: "moka_laws M \<Longrightarrow> mk_get M (mk_insert M k e c) k' = Some e' \<Longrightarrow> (if k' = k then e' = e else mk_get M c k' = Some e')"
  unfolding moka_laws_def by blast

lemma moka_invalidate: "moka_laws M \<Longrightarrow> mk_get M (mk_invalidate M k c) k' = Some e' \<Longrightarrow> k' \<noteq> k \<and> mk_get M c k' = Some e'"
  unfolding moka_laws_def by blast

lemma moka_keys: "moka_laws M \<Longrightarrow> k \<in> set (mk_keys M c) \<longleftrightarrow> mk_get M c k \<noteq> None"
  unfolding moka_laws_def by blast

lemma moka_invalidate_all:
  "moka_laws M \<Longrightarrow> mk_get M (fold (mk_invalidate M) ks c) k = Some e \<Longrightarrow> k \<notin> set ks \<and> mk_get M c k = Some e"
  by (induction ks arbitrary: c) (auto dest: moka_invalidate)

text \<open>An association list satisfies the laws.\<close>

definition list_moka :: "(string \<times> cache_entry) list moka" where
  "list_moka = \<lparr>mk_get = map_of, mk_insert = AList.update, mk_invalidate = AList.delete, mk_keys = map fst\<rparr>"

lemma list_moka_laws: "moka_laws list_moka"
  by (auto simp: moka_laws_def list_moka_def update_conv' delete_conv' map_of_eq_None_iff split: if_splits)

section \<open>Lookups and insertions\<close>

lemma l1_get_cases:
  "l1_get M key now c =
     (case mk_get M c key of
        Some e \<Rightarrow>
          if now < soft_expires e then (Fresh e, c) else if now < hard_expires e then (Stale e, c)
          else (Miss, mk_invalidate M key c)
      | None \<Rightarrow> (Miss, c))"
  by (simp add: l1_get_def split: option.split)

lemma l1_get_subset: "moka_laws M \<Longrightarrow> mk_get M (snd (l1_get M key now c)) k = Some e \<Longrightarrow> mk_get M c k = Some e"
  by (auto simp: l1_get_def split: option.splits if_splits dest: moka_invalidate)

lemma l1_insert_fields:
  assumes "l1_insert M key st body soft hard now c = (e, c')"
  shows "c' = mk_insert M key e c" "ce_status e = st" "ce_body e = body" "fetched_at e = now"
    "soft_expires e = now + soft" "hard_expires e = now + max hard soft"
    "content_at e = (case mk_get M c key of
       Some prev \<Rightarrow> if ce_status prev = st \<and> ce_body prev = body then content_at prev else now | None \<Rightarrow> now)"
  using assms by (auto simp: l1_insert_def Let_def split: option.splits)

lemma l1_put_Some:
  assumes "l1_put M key body t now c = (Some e, c')"
  obtains soft hard where "t_soft t = Some soft" "t_hard t = Some hard" "l1_insert M key 200 body soft hard now c = (e, c')"
  using assms unfolding l1_put_def by (cases "t_soft t"; cases "t_hard t") (auto split: prod.splits)

section \<open>The cache refines a map of the last writes\<close>

text \<open>
  The abstract cache maps a key to the last entry written for it, and a purge removes keys. The concrete one may
  hold less, never anything else.
\<close>

definition l1_refines :: "'c moka \<Rightarrow> 'c \<Rightarrow> (string \<rightharpoonup> cache_entry) \<Rightarrow> bool" where
  "l1_refines M c m \<longleftrightarrow> (\<forall>k e. mk_get M c k = Some e \<longrightarrow> m k = Some e)"

inductive l1_run :: "'c moka \<Rightarrow> 'c \<Rightarrow> (string \<rightharpoonup> cache_entry) \<Rightarrow> bool" for M :: "'c moka" where
  start: "\<forall>k. mk_get M c k = None \<Longrightarrow> l1_run M c Map.empty"
| lookup: "l1_run M c m \<Longrightarrow> l1_run M (snd (l1_get M key now c)) m"
| put: "l1_run M c m \<Longrightarrow> l1_put M key body t now c = (Some e, c') \<Longrightarrow> l1_run M c' (m(key \<mapsto> e))"
| put_negative: "l1_run M c m \<Longrightarrow> l1_put_negative M key ttl now c = (e, c') \<Longrightarrow> l1_run M c' (m(key \<mapsto> e))"
| warmed: "l1_run M c m \<Longrightarrow> l1_run M (l1_insert_entry M key e c) (m(key \<mapsto> e))"
| invalidate: "l1_run M c m \<Longrightarrow> l1_run M (l1_invalidate M key c) (m(key := None))"
| purge: "l1_run M c m \<Longrightarrow> l1_run M (snd (l1_invalidate_where M pred c)) (\<lambda>k. if pred k then None else m k)"
| evict: "l1_run M c m \<Longrightarrow> \<forall>k e. mk_get M c' k = Some e \<longrightarrow> mk_get M c k = Some e \<Longrightarrow> l1_run M c' m"

lemma l1_refines_insert: "moka_laws M \<Longrightarrow> l1_refines M c m \<Longrightarrow> l1_refines M (mk_insert M key e c) (m(key \<mapsto> e))"
  unfolding l1_refines_def using moka_insert by (metis map_upd_Some_unfold)

lemma l1_run_refines:
  assumes "moka_laws M" "l1_run M c m"
  shows "l1_refines M c m"
  using assms(2)
proof induction
  case (start c)
  then show ?case by (simp add: l1_refines_def)
next
  case (lookup c m key now)
  then show ?case using l1_get_subset [OF assms(1)] unfolding l1_refines_def by blast
next
  case (put c m key body t now e c')
  then have "c' = mk_insert M key e c"
    using l1_put_Some l1_insert_fields(1) by metis
  then show ?case
    using put.IH l1_refines_insert [OF assms(1)] by blast
next
  case (put_negative c m key ttl now e c')
  then have "c' = mk_insert M key e c"
    using l1_insert_fields(1) unfolding l1_put_negative_def by metis
  then show ?case
    using put_negative.IH l1_refines_insert [OF assms(1)] by blast
next
  case (warmed c m key e)
  then show ?case unfolding l1_insert_entry_def using l1_refines_insert [OF assms(1)] by blast
next
  case (invalidate c m key)
  then show ?case
    using moka_invalidate [OF assms(1)] unfolding l1_refines_def l1_invalidate_def by (metis fun_upd_apply)
next
  case (purge c m pred)
  have "mk_get M c k = Some e \<and> \<not> pred k" if "mk_get M (snd (l1_invalidate_where M pred c)) k = Some e" for k e
    using moka_invalidate_all [OF assms(1), of "filter pred (mk_keys M c)" c k e] moka_keys [OF assms(1), of k c] that
    by (auto simp: l1_invalidate_where_def Let_def)
  with purge show ?case by (auto simp: l1_refines_def)
qed (auto simp: l1_refines_def)

text \<open>C36. The cache serves only what was last written: over any run of lookups, writes, warm-ups, purges and
  evictions, an answer for a key is the last entry written for it and not purged since; it is served fresh
  exactly before its soft expiry, stale from there to its hard expiry, and never after that. A key the cache
  has never been given, or was told to forget, misses.\<close>

theorem l1_serves_last_write:
  assumes "moka_laws M" "l1_run M c m"
  shows "case fst (l1_get M key now c) of
      Fresh e \<Rightarrow> m key = Some e \<and> now < soft_expires e
    | Stale e \<Rightarrow> m key = Some e \<and> soft_expires e \<le> now \<and> now < hard_expires e
    | Miss \<Rightarrow> mk_get M c key = None \<or> (\<exists>e. m key = Some e \<and> hard_expires e \<le> now \<and> soft_expires e \<le> now)"
  using l1_run_refines [OF assms] by (auto simp: l1_get_def l1_refines_def split: option.splits if_splits)

theorem l1_serves_last_write_witness:
  "case fst (l1_get list_moka ''k'' 5 (snd (l1_put_negative list_moka ''k'' 10 0 []))) of
     Fresh e \<Rightarrow> ce_status e = 404 | _ \<Rightarrow> False"
proof -
  have "l1_run list_moka [] Map.empty"
    by (rule l1_run.start) (simp add: list_moka_def)
  from l1_run.put_negative [OF this, of "''k''" 10 0]
  have run: "l1_run list_moka (snd (l1_put_negative list_moka ''k'' 10 0 [])) [''k'' \<mapsto> fst (l1_put_negative list_moka ''k'' 10 0 [])]"
    by simp
  show ?thesis
    using l1_serves_last_write [OF list_moka_laws run, of "''k''" 5]
    by (auto simp: l1_put_negative_def l1_insert_def l1_get_def list_moka_def Let_def)
qed

text \<open>What a write records: the new entry is fresh for the soft time from now and servable until the hard time,
  never shorter; it was fetched now; and its content dates from the copy it replaces exactly when the status
  and the bytes are the same, so an unchanged answer keeps its age. A negative entry is never served stale.\<close>

theorem l1_write_times:
  "(case l1_put M key body t now c of
      (None, c') \<Rightarrow> c' = c \<and> (t_soft t = None \<or> t_hard t = None)
    | (Some e, c') \<Rightarrow> Some (soft_expires e) = map_option (\<lambda>s. now + s) (t_soft t) \<and> soft_expires e \<le> hard_expires e \<and>
        (\<exists>h. t_hard t = Some h \<and> now + h \<le> hard_expires e) \<and> fetched_at e = now \<and>
        content_at e = (case mk_get M c key of
           Some prev \<Rightarrow> if ce_status prev = 200 \<and> ce_body prev = body then content_at prev else now | None \<Rightarrow> now)) \<and>
   (case l1_put_negative M key ttl now c of (e, c') \<Rightarrow> is_negative e \<and> soft_expires e = hard_expires e)"
  by (simp add: l1_put_def l1_put_negative_def l1_insert_def is_negative_def Let_def split: option.split)

section \<open>Through L2\<close>

lemma to_instant_expiry:
  assumes "clock_ok c" "c_instant c \<le> t" "c_instant c' \<le> now" "now < to_instant c' (to_unix_ms c t)"
  shows "wall c' now < wall c t"
proof (cases "c_unix_ms c' \<le> to_unix_ms c t")
  case True
  have "wall c' now < wall c' (to_instant c' (to_unix_ms c t))"
    using assms(4) by (simp add: wall_def)
  also have "\<dots> \<le> wall c t"
    using wall_to_instant_ahead [OF True] to_unix_ms_not_late [OF assms(1,2)] by simp
  finally show ?thesis .
next
  case False
  then have "to_instant c' (to_unix_ms c t) \<le> c_instant c'"
    by (simp add: to_instant_def Let_def)
  then show ?thesis
    using assms(3,4) by simp
qed

text \<open>A restart never stretches an entry: an entry that was queued for L2 while still fresh and is warmed into
  a new process's cache is served fresh there only before its original soft expiry, and served at all only
  before its original hard expiry, both in wall-clock time.\<close>

theorem l2_never_stretches:
  assumes "clock_ok c" "c_instant c \<le> soft_expires e" "soft_expires e \<le> hard_expires e" "c_instant c' \<le> now"
    and "mk_get M cache key = Some (row_to_entry (row_from_entry key e c) c')"
  shows "case fst (l1_get M key now cache) of
      Fresh e' \<Rightarrow> wall c' now < wall c (soft_expires e) \<and> ce_body e' = ce_body e
    | Stale e' \<Rightarrow> wall c' now < wall c (hard_expires e) \<and> ce_body e' = ce_body e
    | Miss \<Rightarrow> True"
  using assms to_instant_expiry [OF assms(1,2,4)] to_instant_expiry [of c "hard_expires e" c' now]
  by (simp add: l1_get_def row_to_entry_def row_from_entry_def)

definition sample_entry :: cache_entry where
  "sample_entry = \<lparr>ce_status = 200, ce_body = ''x'', content_at = 0, fetched_at = 0, soft_expires = 9000000, hard_expires = 9000000\<rparr>"

definition sample_clock :: "int \<Rightarrow> clock" where
  "sample_clock ms = \<lparr>c_instant = 0, c_unix_ms = ms\<rparr>"

lemma sample_row_soft:
  "soft_expires (row_to_entry (row_from_entry ''k'' sample_entry (sample_clock 0)) (sample_clock 5)) = 4000000"
  by (simp add: row_to_entry_def row_from_entry_def sample_entry_def sample_clock_def to_unix_ms_def to_instant_def
      sat_i64_def i64_max_def i64_min_def as_millis_def of_millis_def)

theorem l2_never_stretches_witness:
  "fst (l1_get list_moka ''k'' 0 [(''k'', row_to_entry (row_from_entry ''k'' sample_entry (sample_clock 0)) (sample_clock 5))]) =
     Fresh (row_to_entry (row_from_entry ''k'' sample_entry (sample_clock 0)) (sample_clock 5)) \<and>
   wall (sample_clock 5) 0 < wall (sample_clock 0) (soft_expires sample_entry)"
proof -
  let ?e = "row_to_entry (row_from_entry ''k'' sample_entry (sample_clock 0)) (sample_clock 5)"
  have get: "fst (l1_get list_moka ''k'' 0 [(''k'', ?e)]) = Fresh ?e"
    using sample_row_soft by (simp add: l1_get_def list_moka_def)
  moreover have "clock_ok (sample_clock 0)"
    by (simp add: clock_ok_def sample_clock_def i64_max_def as_millis_def)
  ultimately show ?thesis
    using l2_never_stretches [of "sample_clock 0" sample_entry "sample_clock 5" 0 list_moka "[(''k'', ?e)]" "''k''"]
    by (simp add: sample_clock_def sample_entry_def list_moka_def)
qed

lemma put_rows_append: "put_rows (a @ b) t = put_rows b (put_rows a t)"
  by (simp add: put_rows_def)

definition received :: "(bool \<times> l2_event) list \<Rightarrow> l2_row list" where
  "received evs = List.map_filter (\<lambda>(_, ev). case ev of Received r \<Rightarrow> Some r | _ \<Rightarrow> None) evs"

lemma received_simps [simp]:
  "received [] = []" "received ((b, Received r) # evs) = r # received evs"
  "received ((b, Deadline) # evs) = received evs" "received ((b, Closed) # evs) = received evs"
  by (simp_all add: received_def List.map_filter_simps)

text \<open>The table as it is once the pending batch is written.\<close>

definition settled :: "l2_row list \<times> l2_table \<Rightarrow> l2_table" where
  "settled s = put_rows (fst s) (snd s)"

lemma settled_step: "settled (write_step batch True ev s) = put_rows (received [(True, ev)]) (settled s)"
  by (cases ev; cases s) (simp_all add: settled_def l2_flush_def put_rows_def Let_def)

lemma received_Cons: "received (x # evs) = received [x] @ received evs"
  by (simp add: received_def List.map_filter_def)

lemma settled_loop:
  "list_all fst evs \<Longrightarrow> Closed \<notin> snd ` set evs \<Longrightarrow> settled (write_loop batch evs s) = put_rows (received evs) (settled s)"
proof (induction evs arbitrary: s)
  case (Cons x evs)
  then obtain ev where x: "x = (True, ev)" "ev \<noteq> Closed"
    by (cases x) force
  have "settled (write_loop batch (x # evs) s) = put_rows (received evs) (settled (write_step (max batch 1) True ev s))"
    using Cons x by (simp add: Let_def)
  also have "\<dots> = put_rows (received [x] @ received evs) (settled s)"
    by (simp only: put_rows_append settled_step x(1))
  finally show ?case
    by (simp only: received_Cons [of x evs])
qed (simp add: put_rows_def)

lemma write_loop_append:
  "Closed \<notin> snd ` set evs \<Longrightarrow> write_loop batch (evs @ rest) s = write_loop batch rest (write_loop batch evs s)"
  by (induction batch evs s rule: write_loop.induct) (auto simp: Let_def)

text \<open>Write-behind loses nothing by batching: once the channel is closed, if every transaction committed, the
  table is exactly what writing the received rows one by one, in order, would have made it, whatever the batch
  size and wherever the deadlines fell.\<close>

theorem write_behind_exact:
  assumes "list_all fst evs" "Closed \<notin> snd ` set evs"
  shows "write_loop batch (evs @ [(True, Closed)]) ([], t) = ([], put_rows (received evs) t)"
proof -
  obtain p' t' where w: "write_loop batch evs ([], t) = (p', t')"
    by fastforce
  then have "put_rows p' t' = put_rows (received evs) t"
    using settled_loop [OF assms, of batch "([], t)"] by (simp add: settled_def put_rows_def)
  then show ?thesis
    unfolding write_loop_append [OF assms(2)] w by (auto simp: l2_flush_def put_rows_def Let_def)
qed

theorem write_behind_exact_witness:
  "write_loop 2 ([(True, Deadline)] @ [(True, Closed)]) ([], []) = ([], put_rows (received [(True, Deadline)]) [])"
  by (rule write_behind_exact) simp_all

end
