(* ===== verification/Limiter.thy ===== *)
theory Limiter
  imports Bucket F64 "HOL-Library.Product_Lexorder"
begin

text \<open>
  The rate limiter, \<^verbatim>\<open>src/riot/limiter/mod.rs\<close>. The state behind the mutex is the field
  \<open>scopes\<close>, an association list for the \<^verbatim>\<open>HashMap\<close>; each method that takes the lock is one
  function on the limiter, and its reading of the clock is the argument \<open>now\<close>. One operation is
  thus one atomic step: the clock reading and the critical section are not separated. Metrics
  and log lines are left out.
\<close>

section \<open>Data\<close>

datatype priority = Interactive | Bulk

fun priority_as_str :: "priority \<Rightarrow> string" where
  "priority_as_str Interactive = ''interactive''"
| "priority_as_str Bulk = ''bulk''"

text \<open>\<^verbatim>\<open>RateLimited\<close> carries the earliest instant a token could be available; \<open>Permit\<close> the time
  waited.\<close>

record permit =
  waited :: duration

record rate_limited =
  retry_at :: instant

definition retry_after_secs :: "instant \<Rightarrow> rate_limited \<Rightarrow> nat" where
  "retry_after_secs now e = secs_up (retry_at e - now)"

definition window_usage_text :: "window \<Rightarrow> string" where
  "window_usage_text w = window_text (w_limit w) (w_seconds w)"

record window_usage =
  wu_window :: string
  wu_used :: nat
  wu_limit :: nat

record method_usage =
  mu_method :: string
  mu_windows :: "window_usage list"

record limiter =
  bulk_ceiling :: f64
  idle_ceiling :: f64
  idle_after :: duration
  scopes :: "(string \<times> scope_entry) list"
  bulk_waiting :: nat
  interactive_waiting :: nat

datatype attempt = Taken | WaitUntil instant

section \<open>Ceilings\<close>

definition max_under_ceiling :: "nat \<Rightarrow> f64 \<Rightarrow> nat" where
  "max_under_ceiling limit share =
     (let threshold = f64_mul (of_nat limit) share in f64_as_u32 (of_int \<lceil>threshold\<rceil>) - 1)"

definition limiter_new :: "f64 \<Rightarrow> limiter" where
  "limiter_new share =
     \<lparr>bulk_ceiling = share, idle_ceiling = share, idle_after = 0, scopes = [],
      bulk_waiting = 0, interactive_waiting = 0\<rparr>"

definition with_idle_ceiling :: "f64 \<Rightarrow> duration \<Rightarrow> limiter \<Rightarrow> limiter" where
  "with_idle_ceiling share after l = l\<lparr>idle_ceiling := share, idle_after := after\<rparr>"

definition ceiling_for :: "limiter \<Rightarrow> instant option \<Rightarrow> instant \<Rightarrow> f64 \<times> instant option" where
  "ceiling_for l last_at now =
     (case map_option (\<lambda>t. t + idle_after l) last_at of
        Some idle_at \<Rightarrow> if idle_at > now then (bulk_ceiling l, Some idle_at) else (idle_ceiling l, None)
      | None \<Rightarrow> (idle_ceiling l, None))"

section \<open>Scopes\<close>

definition bootstrap :: scope_entry where
  "bootstrap = scope_entry_default\<lparr>app := scope_state_new BOOTSTRAP_APP_LIMITS\<rparr>"

text \<open>\<^verbatim>\<open>scopes.entry(scope).or_insert_with(ScopeEntry::bootstrap)\<close>, then a change of the entry.\<close>

definition entry_of :: "limiter \<Rightarrow> string \<Rightarrow> scope_entry" where
  "entry_of l scope = (case map_of (scopes l) scope of Some e \<Rightarrow> e | None \<Rightarrow> bootstrap)"

definition put_entry :: "string \<Rightarrow> scope_entry \<Rightarrow> limiter \<Rightarrow> limiter" where
  "put_entry scope e l = l\<lparr>scopes := AList.update scope e (scopes l)\<rparr>"

text \<open>\<^verbatim>\<open>get_mut(scope)\<close>: a change of the entry if there is one.\<close>

definition update_entry :: "string \<Rightarrow> (scope_entry \<Rightarrow> scope_entry) \<Rightarrow> limiter \<Rightarrow> limiter" where
  "update_entry scope f l =
     (case map_of (scopes l) scope of Some e \<Rightarrow> put_entry scope (f e) l | None \<Rightarrow> l)"

text \<open>\<^verbatim>\<open>WaiterGuard::new\<close> and its \<^verbatim>\<open>Drop\<close>.\<close>

definition waiter_new :: "string \<Rightarrow> priority \<Rightarrow> limiter \<Rightarrow> limiter" where
  "waiter_new scope prio l =
     (case prio of
        Interactive \<Rightarrow>
          (update_entry scope (\<lambda>e. e\<lparr>interactive_waiters := interactive_waiters e + 1\<rparr>) l)
            \<lparr>interactive_waiting := interactive_waiting l + 1\<rparr>
      | Bulk \<Rightarrow> l\<lparr>bulk_waiting := bulk_waiting l + 1\<rparr>)"

definition waiter_drop :: "string \<Rightarrow> priority \<Rightarrow> limiter \<Rightarrow> limiter" where
  "waiter_drop scope prio l =
     (case prio of
        Interactive \<Rightarrow>
          (update_entry scope (\<lambda>e. e\<lparr>interactive_waiters := interactive_waiters e - 1\<rparr>) l)
            \<lparr>interactive_waiting := interactive_waiting l - 1\<rparr>
      | Bulk \<Rightarrow> l\<lparr>bulk_waiting := bulk_waiting l - 1\<rparr>)"

text \<open>Sync the first window of the count's length, for each count in turn.\<close>

fun update_first :: "('a \<Rightarrow> bool) \<Rightarrow> ('a \<Rightarrow> 'a) \<Rightarrow> 'a list \<Rightarrow> 'a list" where
  "update_first P f [] = []"
| "update_first P f (x # xs) = (if P x then f x # xs else x # update_first P f xs)"

definition sync_counts :: "count_window list \<Rightarrow> instant \<Rightarrow> scope_state \<Rightarrow> scope_state" where
  "sync_counts counts now s =
     fold (\<lambda>c s. s\<lparr>windows := update_first (\<lambda>w. w_seconds w = cw_seconds c) (sync (cw_count c) now)
       (windows s)\<rparr>) counts s"

section \<open>Taking a token\<close>

text \<open>
  \<open>each f ws\<close> is \<^verbatim>\<open>iter_mut().map(f)\<close>: the results and the changed windows.
\<close>

definition each :: "('a \<Rightarrow> 'b \<times> 'a) \<Rightarrow> 'a list \<Rightarrow> 'b list \<times> 'a list" where
  "each f ws = (map (fst \<circ> f) ws, map (snd \<circ> f) ws)"

text \<open>The take loop: how many windows gave a token before the first that did not.\<close>

fun take_while_room :: "instant \<Rightarrow> window list \<Rightarrow> nat \<times> window list" where
  "take_while_room now [] = (0, [])"
| "take_while_room now (w # ws) =
     (let (ok, w') = try_take now w in
      if ok then (let (n, ws') = take_while_room now ws in (n + 1, w' # ws')) else (0, w' # ws))"

definition take_or_roll_back :: "instant \<Rightarrow> window list \<Rightarrow> attempt \<times> window list" where
  "take_or_roll_back now ws =
     (let (taken, ws1) = take_while_room now ws in
      if taken = length ws1 then (Taken, ws1)
      else (let ws2 = map rollback (take taken ws1) @ drop taken ws1;
                (free, ws3) = each (next_free now) ws2 in
            (WaitUntil (max_or now free), ws3)))"

text \<open>
  The part of \<open>try_take_all\<close> that works on the windows, given whether an interactive caller
  waits and bulk's ceiling.
\<close>

definition take_windows ::
  "priority \<Rightarrow> bool \<Rightarrow> f64 \<times> instant option \<Rightarrow> instant \<Rightarrow> window list \<Rightarrow> attempt \<times> window list" where
  "take_windows prio waiting ceiling_idle now ws =
     (let (share, idle_at) = ceiling_idle in
      if prio = Bulk then
        (let (clear, ws1) = each (\<lambda>w. until_at_most (max_under_ceiling (w_limit w) share) now w) ws;
             ceiling_clear = max_or now clear in
         if ceiling_clear > now then
           (WaitUntil (case idle_at of None \<Rightarrow> ceiling_clear | Some t \<Rightarrow> min t ceiling_clear), ws1)
         else if waiting then
           (let (free, ws2) = each (next_free now) ws1 in
            (WaitUntil (max (max_or now free) (now + of_millis 1)), ws2))
         else take_or_roll_back now ws1)
      else take_or_roll_back now ws)"

text \<open>The windows a request counts against, and writing the changed ones back.\<close>

definition windows_of :: "string \<Rightarrow> scope_entry \<Rightarrow> window list" where
  "windows_of method e =
     windows (app e) @ (case map_of (methods e) method of Some m \<Rightarrow> windows m | None \<Rightarrow> [])"

definition put_windows :: "string \<Rightarrow> window list \<Rightarrow> scope_entry \<Rightarrow> scope_entry" where
  "put_windows method ws e =
     (let n = length (windows (app e)) in
      e\<lparr>app := (app e)\<lparr>windows := take n ws\<rparr>,
        methods := (case map_of (methods e) method of
            Some m \<Rightarrow> AList.update method (m\<lparr>windows := drop n ws\<rparr>) (methods e)
          | None \<Rightarrow> methods e)\<rparr>)"

definition take_entry ::
  "limiter \<Rightarrow> string \<Rightarrow> priority \<Rightarrow> instant \<Rightarrow> scope_entry \<Rightarrow> attempt \<times> scope_entry" where
  "take_entry l method prio now e =
     (let (a, ws) = take_windows prio (interactive_waiters e > 0) (ceiling_for l (last_interactive e) now)
            now (windows_of method e) in
      (a, put_windows method ws e))"

definition try_take_all ::
  "string \<Rightarrow> string \<Rightarrow> priority \<Rightarrow> instant \<Rightarrow> limiter \<Rightarrow> attempt \<times> limiter" where
  "try_take_all scope method prio now l =
     (let e = entry_of l scope;
          e1 = (if prio = Interactive then e\<lparr>last_interactive := Some now\<rparr> else e);
          (a, e2) = (case frozen_until e1 of
              Some until \<Rightarrow>
                if until > now then (WaitUntil until, e1)
                else take_entry l method prio now (e1\<lparr>frozen_until := None\<rparr>)
            | None \<Rightarrow> take_entry l method prio now e1) in
      (a, put_entry scope e2 l))"

text \<open>
  The loop of \<open>acquire\<close>. A caller that has to wait lets others run, and looks again when it
  wakes: the list gives, for each time round the loop, what the others did to the limiter and the
  clock. When the list ends the caller is still waiting, and the result is \<open>None\<close>; the last
  component is whether it is registered as a waiter.
\<close>

fun acquire_loop ::
  "string \<Rightarrow> string \<Rightarrow> priority \<Rightarrow> instant \<Rightarrow> instant \<Rightarrow> bool \<Rightarrow> ((limiter \<Rightarrow> limiter) \<times> instant) list \<Rightarrow>
     limiter \<Rightarrow> (rate_limited + permit) option \<times> limiter" where
  "acquire_loop scope method prio started deadline waiter [] l = (None, l)"
| "acquire_loop scope method prio started deadline waiter ((others, now) # rounds) l =
     (let (a, l1) = try_take_all scope method prio now (others l);
          leave = (\<lambda>l. if waiter then waiter_drop scope prio l else l) in
      case a of
        Taken \<Rightarrow> (Some (Inr \<lparr>waited = now - started\<rparr>), leave l1)
      | WaitUntil until \<Rightarrow>
          if until > deadline then (Some (Inl \<lparr>retry_at = until\<rparr>), leave l1)
          else acquire_loop scope method prio started deadline True rounds
            (if waiter then l1 else waiter_new scope prio l1))"

definition acquire ::
  "string \<Rightarrow> string \<Rightarrow> priority \<Rightarrow> duration \<Rightarrow> instant \<Rightarrow> ((limiter \<Rightarrow> limiter) \<times> instant) list \<Rightarrow>
     limiter \<Rightarrow> (rate_limited + permit) option \<times> limiter" where
  "acquire scope method prio budget started rounds l =
     acquire_loop scope method prio started (started + budget) False rounds l"

section \<open>Learning limits and freezing\<close>

definition freeze :: "string \<Rightarrow> duration \<Rightarrow> instant \<Rightarrow> limiter \<Rightarrow> limiter" where
  "freeze scope after now l =
     (let until = now + after; e = entry_of l scope in
      put_entry scope
        (e\<lparr>frozen_until := Some (case frozen_until e of None \<Rightarrow> until | Some current \<Rightarrow> max current until)\<rparr>) l)"

text \<open>\<^verbatim>\<open>methods.entry(method).or_default().reconfigure(limits)\<close>\<close>

definition reconfigure_method :: "string \<Rightarrow> limit_window list \<Rightarrow> scope_entry \<Rightarrow> scope_entry" where
  "reconfigure_method method ls e =
     (let s = (case map_of (methods e) method of Some s \<Rightarrow> s | None \<Rightarrow> scope_state_default) in
      e\<lparr>methods := AList.update method (snd (reconfigure ls s)) (methods e)\<rparr>)"

definition reconfigure_app :: "limit_window list \<Rightarrow> scope_entry \<Rightarrow> scope_entry" where
  "reconfigure_app ls e = e\<lparr>app := snd (reconfigure ls (app e)), app_known := True\<rparr>"

text \<open>What \<open>observe\<close> does to the entry under the lock.\<close>

definition observe_entry :: "string \<Rightarrow> rate_limit_headers \<Rightarrow> instant \<Rightarrow> scope_entry \<Rightarrow> scope_entry" where
  "observe_entry method h now e =
     (let e1 = (case app_limits h of Some ls \<Rightarrow> reconfigure_app ls e | None \<Rightarrow> e);
          e2 = (case method_limits h of Some ls \<Rightarrow> reconfigure_method method ls e1 | None \<Rightarrow> e1);
          e3 = (case app_counts h of Some cs \<Rightarrow> e2\<lparr>app := sync_counts cs now (app e2)\<rparr> | None \<Rightarrow> e2) in
      case (method_counts h, map_of (methods e3) method) of
        (Some cs, Some s) \<Rightarrow> e3\<lparr>methods := AList.update method (sync_counts cs now s) (methods e3)\<rparr>
      | _ \<Rightarrow> e3)"

text \<open>\<open>now\<close> is the reading for the counts, \<open>later\<close> the one the freeze takes.\<close>

definition observe ::
  "string \<Rightarrow> string \<Rightarrow> rate_limit_headers \<Rightarrow> instant \<Rightarrow> instant \<Rightarrow> limiter \<Rightarrow> limiter" where
  "observe scope method h now later l =
     (let l1 = put_entry scope (observe_entry method h now (entry_of l scope)) l in
      case (limit_type h, retry_after h) of
        (Some kind, Some seconds) \<Rightarrow> freeze scope (of_secs seconds) later l1
      | _ \<Rightarrow> l1)"

definition frozen_for :: "string \<Rightarrow> instant \<Rightarrow> limiter \<Rightarrow> duration option" where
  "frozen_for scope now l =
     (case Option.bind (map_of (scopes l) scope) frozen_until of
        None \<Rightarrow> None
      | Some until \<Rightarrow> if until > now then Some (until - now) else None)"

definition longest_freeze :: "instant \<Rightarrow> limiter \<Rightarrow> duration option" where
  "longest_freeze now l =
     (let untils = filter (\<lambda>until. until > now) (List.map_filter (frozen_until \<circ> snd) (scopes l)) in
      if untils = [] then None else Some (max_or now untils - now))"

definition configure_app :: "string \<Rightarrow> limit_window list \<Rightarrow> limiter \<Rightarrow> limiter" where
  "configure_app scope ls l = put_entry scope (reconfigure_app ls (entry_of l scope)) l"

definition configure_method :: "string \<Rightarrow> string \<Rightarrow> limit_window list \<Rightarrow> limiter \<Rightarrow> limiter" where
  "configure_method scope method ls l =
     put_entry scope (reconfigure_method method ls (entry_of l scope)) l"

section \<open>Reports\<close>

definition usage_of :: "instant \<Rightarrow> window \<Rightarrow> window_usage \<times> window" where
  "usage_of now w =
     (let (n, w') = used now w in
      (\<lparr>wu_window = window_usage_text w, wu_used = n, wu_limit = w_limit w\<rparr>, w'))"

definition usage :: "string \<Rightarrow> instant \<Rightarrow> limiter \<Rightarrow> window_usage list \<times> limiter" where
  "usage scope now l =
     (case map_of (scopes l) scope of
        Some e \<Rightarrow>
          (let (us, ws) = each (usage_of now) (windows (app e)) in
           (us, put_entry scope (e\<lparr>app := (app e)\<lparr>windows := ws\<rparr>\<rparr>) l))
      | None \<Rightarrow> (fst (each (usage_of now) (windows (scope_state_new BOOTSTRAP_APP_LIMITS))), l))"

fun methods_usage ::
  "instant \<Rightarrow> string list \<Rightarrow> scope_entry \<Rightarrow> method_usage list \<times> scope_entry" where
  "methods_usage now [] e = ([], e)"
| "methods_usage now (m # ms) e =
     (case map_of (methods e) m of
        Some s \<Rightarrow>
          (let (us, ws) = each (usage_of now) (windows s);
               (rest, e') = methods_usage now ms
                 (e\<lparr>methods := AList.update m (s\<lparr>windows := ws\<rparr>) (methods e)\<rparr>) in
           (\<lparr>mu_method = m, mu_windows = us\<rparr> # rest, e'))
      | None \<Rightarrow>
          (let (rest, e') = methods_usage now ms e in (\<lparr>mu_method = m, mu_windows = []\<rparr> # rest, e')))"

definition limiter_method_usage ::
  "string \<Rightarrow> string list \<Rightarrow> instant \<Rightarrow> limiter \<Rightarrow> method_usage list \<times> limiter" where
  "limiter_method_usage scope ms now l =
     (case map_of (scopes l) scope of
        Some e \<Rightarrow> (let (us, e') = methods_usage now ms e in (us, put_entry scope e' l))
      | None \<Rightarrow> (map (\<lambda>m. \<lparr>mu_method = m, mu_windows = []\<rparr>) ms, l))"

definition known_scopes :: "limiter \<Rightarrow> string list" where
  "known_scopes l =
     sort (map fst (filter (\<lambda>(_, e). app_known e \<or> methods e \<noteq> []) (scopes l)))"

definition known_scope_methods :: "limiter \<Rightarrow> (string \<times> string list) list" where
  "known_scope_methods l =
     sort_key fst (map (\<lambda>(k, e). (k, sort (map fst (methods e))))
       (filter (\<lambda>(_, e). methods e \<noteq> []) (scopes l)))"

definition interactive_waiters_of :: "string \<Rightarrow> limiter \<Rightarrow> nat" where
  "interactive_waiters_of scope l =
     (case map_of (scopes l) scope of Some e \<Rightarrow> interactive_waiters e | None \<Rightarrow> 0)"

section \<open>What a bulk claim would wait for\<close>

definition INTERACTIVE_RECHECK :: duration where
  "INTERACTIVE_RECHECK = of_millis 100"

record bulk_blocked =
  bb_scopes :: "(string \<times> instant) list"
  bb_methods :: "(string \<times> string \<times> instant) list"

text \<open>The closure \<open>ceiling\<close>.\<close>

definition clear_at :: "f64 \<times> instant option \<Rightarrow> instant \<Rightarrow> window \<Rightarrow> instant \<times> window" where
  "clear_at ceiling_idle now w =
     (let (share, idle_at) = ceiling_idle;
          (clear, w') = until_at_most (max_under_ceiling (w_limit w) share) now w in
      (case idle_at of None \<Rightarrow> clear | Some t \<Rightarrow> min t clear, w'))"

definition blocked_state :: "f64 \<times> instant option \<Rightarrow> instant \<Rightarrow> instant \<Rightarrow> scope_state \<Rightarrow>
    instant \<times> scope_state" where
  "blocked_state ci now from s =
     (let (clear, ws) = each (clear_at ci now) (windows s) in (fold_max from clear, s\<lparr>windows := ws\<rparr>))"

text \<open>The body of the loop over the scopes.\<close>

definition blocked_entry :: "limiter \<Rightarrow> instant \<Rightarrow> string \<Rightarrow> scope_entry \<Rightarrow> bulk_blocked \<times> scope_entry" where
  "blocked_entry l now scope e =
     (let ci = ceiling_for l (last_interactive e) now;
          frozen = (case frozen_until e of Some u \<Rightarrow> if u > now then u else now | None \<Rightarrow> now);
          (until0, app') = blocked_state ci now frozen (app e);
          until = (if interactive_waiters e > 0 then max until0 (now + INTERACTIVE_RECHECK) else until0);
          e1 = e\<lparr>app := app'\<rparr> in
      if until > now then (\<lparr>bb_scopes = [(scope, until)], bb_methods = []\<rparr>, e1)
      else
        (let ms = map (\<lambda>(m, s). (m, blocked_state ci now now s)) (methods e) in
         (\<lparr>bb_scopes = [],
           bb_methods = map (\<lambda>(m, u, s). (scope, m, u)) (filter (\<lambda>(m, u, s). u > now) ms)\<rparr>,
          e1\<lparr>methods := map (\<lambda>(m, u, s). (m, s)) ms\<rparr>)))"

definition limiter_bulk_blocked :: "instant \<Rightarrow> limiter \<Rightarrow> bulk_blocked \<times> limiter" where
  "limiter_bulk_blocked now l =
     (let rs = map (\<lambda>(scope, e). (scope, blocked_entry l now scope e)) (scopes l) in
      (\<lparr>bb_scopes = sort (concat (map (\<lambda>(_, b, _). bb_scopes b) rs)),
        bb_methods = sort (concat (map (\<lambda>(_, b, _). bb_methods b) rs))\<rparr>,
       l\<lparr>scopes := map (\<lambda>(scope, _, e). (scope, e)) rs\<rparr>))"

definition earliest :: "bulk_blocked \<Rightarrow> instant option" where
  "earliest b = min_opt (map snd (bb_scopes b) @ map (snd \<circ> snd) (bb_methods b))"

definition scope_blocked :: "bulk_blocked \<Rightarrow> string \<Rightarrow> bool" where
  "scope_blocked b scope = list_ex (\<lambda>(s, _). s = scope) (bb_scopes b)"

text \<open>The rules that evaluate an attempt on a concrete limiter.\<close>

lemmas [limiter_simps] = try_take_all_def limiter_new_def entry_of_def bootstrap_def
  scope_entry_default_def scope_state_new_def BOOTSTRAP_APP_LIMITS_def window_new_def take_entry_def
  windows_of_def put_windows_def put_entry_def take_windows_def take_or_roll_back_def sat_u32_def
  ceiling_for_def u32_max_def each_def max_or_def of_secs_def of_millis_def leaves_at_def
  window_span_def freeze_def reconfigure_def reconfigure_app_def specs_def window_spec_def
  configure_app_def swap_remove_def

end
