(* ===== verification/SingleFlight.thy ===== *)
theory SingleFlight
  imports Prelude
begin

text \<open>
  Single-flight, \<^verbatim>\<open>src/singleflight.rs\<close>: concurrent calls for one key share one run of the work.
  The map of in-flight slots, the spawned tasks and the calls are explicit state; \<open>run_call\<close> is the
  critical section of \<^verbatim>\<open>run\<close>, \<open>end_work\<close> the end of the spawned task (its \<^verbatim>\<open>Release\<close> guard frees the
  slot, then the shared future has its value), \<open>poll_call\<close> what a call that awaits the slot sees. A call
  may be dropped at any time; that changes nothing here, since the task runs on its own.

  A result is \<open>'e + 't\<close>; \<open>failed\<close> is the error the source makes of a panicked or aborted task.
\<close>

record ('k, 'e, 't) task =
  task_key :: 'k
  task_value :: "('e + 't) option"

record 'k call =
  call_key :: 'k
  call_task :: nat
  call_did_work :: bool

record ('k, 'e, 't) single_flight =
  inflight :: "('k \<times> nat) list"
  tasks :: "('k, 'e, 't) task list"
  calls :: "'k call list"

record ('e, 't) flight =
  flight_value :: "'e + 't"
  did_work :: bool

definition single_flight_new :: "('k, 'e, 't) single_flight" where
  "single_flight_new = \<lparr>inflight = [], tasks = [], calls = []\<rparr>"

definition run_call :: "'k \<Rightarrow> ('k, 'e, 't) single_flight \<Rightarrow> ('k, 'e, 't) single_flight" where
  "run_call key s =
     (case map_of (inflight s) key of
        Some t \<Rightarrow> s\<lparr>calls := calls s @ [\<lparr>call_key = key, call_task = t, call_did_work = False\<rparr>]\<rparr>
      | None \<Rightarrow>
          (let t = length (tasks s) in
           s\<lparr>inflight := (key, t) # inflight s,
             tasks := tasks s @ [\<lparr>task_key = key, task_value = None\<rparr>],
             calls := calls s @ [\<lparr>call_key = key, call_task = t, call_did_work = True\<rparr>]\<rparr>))"

text \<open>How the work of a task ends: it returns a result, or it panics or is aborted.\<close>

datatype ('e, 't) work_end = Returned "'e + 't" | Panicked

definition end_work :: "'e \<Rightarrow> nat \<Rightarrow> ('e, 't) work_end \<Rightarrow> ('k, 'e, 't) single_flight \<Rightarrow> ('k, 'e, 't) single_flight" where
  "end_work failed t r s =
     (if t < length (tasks s) \<and> task_value (tasks s ! t) = None then
        s\<lparr>inflight := AList.delete (task_key (tasks s ! t)) (inflight s),
          tasks := (tasks s)[t := (tasks s ! t)\<lparr>task_value :=
            Some (case r of Returned v \<Rightarrow> v | Panicked \<Rightarrow> Inl failed)\<rparr>]\<rparr>
      else s)"

definition poll_call :: "nat \<Rightarrow> ('k, 'e, 't) single_flight \<Rightarrow> ('e, 't) flight option" where
  "poll_call c s =
     (if c < length (calls s) then
        map_option (\<lambda>v. \<lparr>flight_value = v, did_work = call_did_work (calls s ! c)\<rparr>)
          (task_value (tasks s ! call_task (calls s ! c)))
      else None)"

definition inflight_count :: "('k, 'e, 't) single_flight \<Rightarrow> nat" where
  "inflight_count s = length (inflight s)"

section \<open>Runs\<close>

inductive sf_reach :: "'e \<Rightarrow> ('k, 'e, 't) single_flight \<Rightarrow> bool" for failed where
  sf_start: "sf_reach failed single_flight_new"
| sf_call: "sf_reach failed s \<Longrightarrow> sf_reach failed (run_call key s)"
| sf_end: "sf_reach failed s \<Longrightarrow> sf_reach failed (end_work failed t r s)"

text \<open>
  The invariant: the slots are exactly the running tasks under their keys, a call's task exists and has
  the call's key, and each task has one call that did its work.
\<close>

definition leaders :: "('k, 'e, 't) single_flight \<Rightarrow> nat \<Rightarrow> nat" where
  "leaders s t = length (filter (\<lambda>c. call_task c = t \<and> call_did_work c) (calls s))"

definition sf_inv :: "('k, 'e, 't) single_flight \<Rightarrow> bool" where
  "sf_inv s \<longleftrightarrow>
     distinct (map fst (inflight s)) \<and>
     (\<forall>k t. (k, t) \<in> set (inflight s) \<longleftrightarrow>
        t < length (tasks s) \<and> task_value (tasks s ! t) = None \<and> task_key (tasks s ! t) = k) \<and>
     (\<forall>c \<in> set (calls s). call_task c < length (tasks s) \<and> task_key (tasks s ! call_task c) = call_key c) \<and>
     (\<forall>t < length (tasks s). leaders s t = 1)"

lemma sf_inv_new: "sf_inv single_flight_new"
  by (simp add: sf_inv_def single_flight_new_def)

lemma leaders_none: "sf_inv s \<Longrightarrow> length (tasks s) \<le> t \<Longrightarrow> leaders s t = 0"
  by (fastforce simp: sf_inv_def leaders_def filter_empty_conv)

lemma sf_inv_call:
  assumes "sf_inv s"
  shows "sf_inv (run_call key s)"
proof (cases "map_of (inflight s) key")
  case (Some t)
  then have "(key, t) \<in> set (inflight s)"
    by (rule map_of_SomeD)
  then show ?thesis
    using assms Some by (auto simp: sf_inv_def run_call_def leaders_def)
next
  case None
  let ?n = "length (tasks s)"
  have key: "key \<notin> fst ` set (inflight s)"
    using None by (simp add: map_of_eq_None_iff)
  have "leaders (run_call key s) t = leaders s t + (if t = ?n then 1 else 0)" for t
    using None by (simp add: run_call_def leaders_def Let_def)
  then have "leaders (run_call key s) t = 1" if "t < Suc ?n" for t
    using that assms leaders_none [OF assms, of ?n] by (auto simp: sf_inv_def less_Suc_eq)
  moreover have "(k, t) \<in> set (inflight (run_call key s)) \<longleftrightarrow> t < Suc ?n \<and>
      task_value (tasks (run_call key s) ! t) = None \<and> task_key (tasks (run_call key s) ! t) = k" for k t
    using assms None by (auto simp: sf_inv_def run_call_def Let_def nth_append less_Suc_eq)
  ultimately show ?thesis
    using assms None key
    by (auto simp: sf_inv_def run_call_def Let_def nth_append)
qed

lemma sf_inv_end:
  assumes "sf_inv s"
  shows "sf_inv (end_work failed t r s)"
proof (cases "t < length (tasks s) \<and> task_value (tasks s ! t) = None")
  case True
  define s' where "s' = end_work failed t r s"
  define k where "k = task_key (tasks s ! t)"
  have s': "inflight s' = AList.delete k (inflight s)" "length (tasks s') = length (tasks s)" "calls s' = calls s"
    "\<And>u. u < length (tasks s) \<Longrightarrow> task_key (tasks s' ! u) = task_key (tasks s ! u)"
    "\<And>u. u < length (tasks s) \<Longrightarrow> task_value (tasks s' ! u) = None \<longleftrightarrow> u \<noteq> t \<and> task_value (tasks s ! u) = None"
    using True by (auto simp: s'_def end_work_def k_def nth_list_update)
  have d: "distinct (map fst (inflight s))"
    and slot: "\<And>j u. (j, u) \<in> set (inflight s) \<longleftrightarrow>
        u < length (tasks s) \<and> task_value (tasks s ! u) = None \<and> task_key (tasks s ! u) = j"
    using assms by (auto simp: sf_inv_def)
  have kt: "(k, t) \<in> set (inflight s)"
    using True by (simp add: slot k_def)
  have "(j, u) \<in> set (AList.delete k (inflight s)) \<longleftrightarrow> (j, u) \<in> set (inflight s) \<and> u \<noteq> t" for j u
    using d kt slot eq_key_imp_eq_value [OF d] by (auto simp: AList.delete_eq)
  then show ?thesis
    using assms s' d unfolding s'_def [symmetric]
    by (auto simp: sf_inv_def leaders_def distinct_delete)
next
  case False
  then show ?thesis
    using assms by (auto simp: end_work_def)
qed

lemma sf_reach_inv: "sf_reach failed s \<Longrightarrow> sf_inv s"
  by (induction rule: sf_reach.induct) (auto intro: sf_inv_new sf_inv_call sf_inv_end)

section \<open>Properties\<close>

text \<open>C8. At any time at most one run of the work is going on per key, the slots are exactly those runs, and
  each run has exactly one call that reports having done the work.\<close>

theorem single_flight_one_run_per_key:
  assumes "sf_reach failed s"
  shows "(\<forall>t u. t < length (tasks s) \<and> u < length (tasks s) \<and> task_value (tasks s ! t) = None \<and>
      task_value (tasks s ! u) = None \<and> task_key (tasks s ! t) = task_key (tasks s ! u) \<longrightarrow> t = u) \<and>
    inflight_count s = length (filter (\<lambda>t. task_value t = None) (tasks s)) \<and>
    (\<forall>t < length (tasks s). length (filter (\<lambda>c. call_task c = t \<and> call_did_work c) (calls s)) = 1)"
proof -
  have inv: "sf_inv s"
    by (rule sf_reach_inv [OF assms])
  have d: "distinct (map fst (inflight s))"
    and slot: "\<And>k t. (k, t) \<in> set (inflight s) \<longleftrightarrow>
        t < length (tasks s) \<and> task_value (tasks s ! t) = None \<and> task_key (tasks s ! t) = k"
    using inv by (auto simp: sf_inv_def)
  have one: "t = u" if "t < length (tasks s)" "u < length (tasks s)" "task_value (tasks s ! t) = None"
      "task_value (tasks s ! u) = None" "task_key (tasks s ! t) = task_key (tasks s ! u)" for t u
    using that slot eq_key_imp_eq_value [OF d] by metis
  have "inj_on snd (set (inflight s))"
    using slot by (auto simp: inj_on_def)
  then have "length (inflight s) = card (snd ` set (inflight s))"
    using d by (simp add: card_image distinct_card [symmetric] distinct_map)
  also have "snd ` set (inflight s) = {t. t < length (tasks s) \<and> task_value (tasks s ! t) = None}"
    using slot by force
  also have "card \<dots> = length (filter (\<lambda>t. task_value t = None) (tasks s))"
    by (simp add: length_filter_conv_card conj_commute)
  finally show ?thesis
    using one inv by (simp add: inflight_count_def sf_inv_def leaders_def)
qed

text \<open>C9. A call returns the value of a run for its own key, calls that shared a run return the same value, and
  once a run has ended, also with an error or a panic, the next call for its key starts a new one.\<close>

theorem single_flight_shares_and_frees:
  assumes "sf_reach failed s"
  shows "(\<forall>c d v w. poll_call c s = Some v \<and> poll_call d s = Some w \<and>
      call_task (calls s ! c) = call_task (calls s ! d) \<longrightarrow> flight_value v = flight_value w) \<and>
    (\<forall>c < length (calls s). task_key (tasks s ! call_task (calls s ! c)) = call_key (calls s ! c)) \<and>
    (\<forall>t < length (tasks s). map_of (inflight (end_work failed t r s)) (task_key (tasks s ! t)) = None \<or>
      task_value (tasks s ! t) \<noteq> None) \<and>
    (map_of (inflight s) key = None \<longrightarrow> call_did_work (last (calls (run_call key s))))"
proof -
  have inv: "sf_inv s"
    by (rule sf_reach_inv [OF assms])
  have "map_of (inflight (end_work failed t r s)) (task_key (tasks s ! t)) = None \<or> task_value (tasks s ! t) \<noteq> None"
    if "t < length (tasks s)" for t
    using that by (simp add: end_work_def delete_conv')
  then show ?thesis
    using inv by (auto simp: poll_call_def sf_inv_def run_call_def Let_def split: if_splits)
qed

lemma sf_sample:
  "sf_reach (0 :: nat) (end_work 0 0 (Returned (Inr (7 :: nat))) (run_call ''k'' (run_call ''k'' single_flight_new)))"
  by (intro sf_end sf_call sf_start)

theorem single_flight_one_run_per_key_witness:
  "inflight_count (end_work (0 :: nat) 0 (Returned (Inr (7 :: nat))) (run_call ''k'' (run_call ''k'' single_flight_new))) = 0"
  using single_flight_one_run_per_key [OF sf_sample]
  by (simp add: end_work_def run_call_def single_flight_new_def)

theorem single_flight_shares_and_frees_witness:
  "poll_call 0 (end_work (0 :: nat) 0 (Returned (Inr (7 :: nat))) (run_call ''k'' (run_call ''k'' single_flight_new))) =
     Some \<lparr>flight_value = Inr 7, did_work = True\<rparr> \<and>
   call_did_work (last (calls (run_call ''k'' (end_work (0 :: nat) 0 (Returned (Inr (7 :: nat)))
     (run_call ''k'' (run_call ''k'' single_flight_new))))))"
  using single_flight_shares_and_frees [OF sf_sample]
  by (simp add: end_work_def run_call_def single_flight_new_def poll_call_def)

end
