(* ===== verification/Fetcher.thy ===== *)
theory Fetcher
  imports Cache Limiter SingleFlight
begin

text \<open>
  The fetcher, \<^verbatim>\<open>src/fetcher.rs\<close>: the funnel every read takes, through the archive, the cache, the single
  flight, the limiter and the client, with the retry policy of the upstream leg.

  The parts it shares with other tasks are the world: the limiter, the response cache, the archive and the
  watch on Riot's answers. What other tasks do, what the clock says and what Riot answers come in from the
  environment: each attempt of the upstream leg has an \<open>attempt_env\<close>, with the rounds of its waits for the
  limiter (as in \<open>acquire\<close>), what others did to the world while Riot was asked, Riot's answer and the clock
  readings. The world also logs the requests sent and the sleeps taken. The archive behind the trait object is
  the argument \<open>A\<close>, the moka map the argument \<open>M\<close>, SHA-256 the argument \<open>sha256\<close>. Job traces, counters and log
  lines are left out.

  A leg that has not finished when the environment ends is \<open>Pending\<close>; a panic (a cache time that overflows) is
  \<open>Panicked\<close>, which the single flight reports as an internal error.
\<close>

section \<open>Constants and options\<close>

definition SERVER_RETRY_BACKOFF :: "duration list" where
  "SERVER_RETRY_BACKOFF = [of_millis 250, of_millis 750]"

definition SERVICE_429_TRIES :: nat where
  "SERVICE_429_TRIES = 3"

definition SERVICE_429_BASE :: duration where
  "SERVICE_429_BASE = of_millis 500"

definition SERVICE_429_MAX :: duration where
  "SERVICE_429_MAX = of_secs 8"

definition MAX_ATTEMPTS :: nat where
  "MAX_ATTEMPTS = 8"

definition BULK_BUDGET :: duration where
  "BULK_BUDGET = of_secs (15 * 60)"

datatype x_cache = XHit | XMiss | XStale | XHitNeg | XArchive | XBypass

fun x_cache_as_str :: "x_cache \<Rightarrow> string" where
  "x_cache_as_str XHit = ''HIT''"
| "x_cache_as_str XMiss = ''MISS''"
| "x_cache_as_str XStale = ''STALE''"
| "x_cache_as_str XHitNeg = ''HIT-NEG''"
| "x_cache_as_str XArchive = ''ARCHIVE''"
| "x_cache_as_str XBypass = ''BYPASS''"

record fetch_result =
  fr_body :: bytes
  fr_x_cache :: x_cache
  fr_cache_age :: duration
  fr_fetched_age :: "duration option"

record fetch_error =
  fe_api :: api_error
  fe_x_cache :: "x_cache option"
  fe_limited_until :: "instant option"

definition fetch_error_of :: "api_error \<Rightarrow> fetch_error" where
  "fetch_error_of api = \<lparr>fe_api = api, fe_x_cache = None, fe_limited_until = None\<rparr>"

definition rate_limited_to_api :: "instant \<Rightarrow> rate_limited \<Rightarrow> api_error" where
  "rate_limited_to_api now e =
     with_retry_after (max (retry_after_secs now e) 1) (api_error_new RateLimited ''Upstream rate limit budget exceeded'')"

definition fetch_error_limited :: "instant \<Rightarrow> rate_limited \<Rightarrow> fetch_error" where
  "fetch_error_limited now e = (fetch_error_of (rate_limited_to_api now e))\<lparr>fe_limited_until := Some (retry_at e)\<rparr>"

definition work_failed :: fetch_error where
  "work_failed = fetch_error_of internal_error"

record fetch_options =
  fo_priority :: priority
  fo_bypass :: bool
  fo_job :: bool

definition JOB_OPTIONS :: fetch_options where
  "JOB_OPTIONS = \<lparr>fo_priority = Bulk, fo_bypass = False, fo_job = True\<rparr>"

definition default_options :: fetch_options where
  "default_options = \<lparr>fo_priority = Interactive, fo_bypass = False, fo_job = False\<rparr>"

section \<open>The world\<close>

text \<open>The trait \<^verbatim>\<open>Archive\<close>.\<close>

record 'a archive_ops =
  ar_get :: "riot_request \<Rightarrow> 'a \<Rightarrow> bytes option"
  ar_put :: "riot_request \<Rightarrow> bytes \<Rightarrow> 'a \<Rightarrow> 'a"
  ar_observe :: "riot_request \<Rightarrow> bytes \<Rightarrow> 'a \<Rightarrow> 'a"

definition no_archive :: "'a archive_ops" where
  "no_archive = \<lparr>ar_get = (\<lambda>req a. None), ar_put = (\<lambda>req body a. a), ar_observe = (\<lambda>req body a. a)\<rparr>"

record ('c, 'a) world =
  w_limiter :: limiter
  w_cache :: "'c response_cache"
  w_archive :: 'a
  w_watch :: upstream_watch
  w_sent :: "riot_request list"
  w_slept :: "duration list"

record fetched =
  fd_body :: bytes
  fd_content_at :: instant
  fd_fetched_at :: instant
  fd_stale :: bool

record fetcher =
  f_sha256 :: "nat list \<Rightarrow> nat list"
  f_scope :: key_scope
  f_policy :: ttl_policy
  f_interactive_budget :: duration
  f_job_budget :: duration
  f_swr :: bool

datatype 'r leg = Pending | Panicked | Done 'r

record wait_env =
  we_started :: instant
  we_rounds :: "((limiter \<Rightarrow> limiter) \<times> instant) list"

record ('c, 'a) attempt_env =
  ae_zero :: "wait_env list"
  ae_wait :: wait_env
  ae_limited_at :: instant
  ae_outcome :: "(nat \<times> header_map \<times> bytes) option"
  ae_elapsed :: duration
  ae_unix_ms :: int
  ae_others :: "('c, 'a) world \<Rightarrow> ('c, 'a) world"
  ae_now :: instant
  ae_later :: instant
  ae_clock :: clock
  ae_random :: "nat option"

section \<open>Jitter\<close>

text \<open>\<^verbatim>\<open>Duration::as_secs_f64\<close> and \<^verbatim>\<open>Duration::mul_f64\<close>, which rounds to the nearest nanosecond.\<close>

definition as_secs_f64 :: "duration \<Rightarrow> f64" where
  "as_secs_f64 d = f64_add (f64_round (of_nat (as_secs d))) (f64_div (of_nat (subsec_nanos d)) 1000000000)"

definition mul_f64 :: "duration \<Rightarrow> f64 \<Rightarrow> duration" where
  "mul_f64 d x = nat (round_half_even (f64_mul x (as_secs_f64 d) * 1000000000))"

definition jitter :: "nat option \<Rightarrow> duration \<Rightarrow> duration" where
  "jitter random base =
     (let r = (case random of Some r \<Rightarrow> r | None \<Rightarrow> u64_max div 2);
          factor = f64_add (f64_round (4 / 5))
            (f64_mul (f64_round (2 / 5)) (f64_div (f64_round (of_nat r)) (f64_round (of_nat u64_max)))) in
      mul_f64 base factor)"

section \<open>Acquiring a target\<close>

definition acquire_on ::
  "target \<Rightarrow> string \<Rightarrow> priority \<Rightarrow> duration \<Rightarrow> wait_env \<Rightarrow> limiter \<Rightarrow> (rate_limited + permit) option \<times> limiter" where
  "acquire_on t m prio budget env l = acquire (target_scope t) m prio budget (we_started env) (we_rounds env) l"

text \<open>The loop over the ordered targets with a zero budget, and the soonest of the refusals.\<close>

fun try_targets ::
  "target list \<Rightarrow> string \<Rightarrow> priority \<Rightarrow> wait_env list \<Rightarrow> (instant \<times> target) option \<Rightarrow> limiter \<Rightarrow>
   (target + (instant \<times> target) option) option \<times> limiter" where
  "try_targets [] m prio envs soonest l = (Some (Inr soonest), l)"
| "try_targets (t # ts) m prio [] soonest l = (None, l)"
| "try_targets (t # ts) m prio (env # envs) soonest l =
     (case acquire_on t m prio 0 env l of
        (None, l') \<Rightarrow> (None, l')
      | (Some (Inr p), l') \<Rightarrow> (Some (Inl t), l')
      | (Some (Inl e), l') \<Rightarrow>
          try_targets ts m prio envs
            (case soonest of
               None \<Rightarrow> Some (retry_at e, t)
             | Some (at1, t1) \<Rightarrow> if retry_at e < at1 then Some (retry_at e, t) else soonest) l')"

definition ordered_targets :: "target list \<Rightarrow> target list \<Rightarrow> target list" where
  "ordered_targets targets avoided =
     filter (\<lambda>t. t \<notin> set avoided) targets @ filter (\<lambda>t. t \<in> set avoided) targets"

definition wait_on ::
  "target \<Rightarrow> string \<Rightarrow> priority \<Rightarrow> duration \<Rightarrow> wait_env \<Rightarrow> limiter \<Rightarrow> (rate_limited + target) option \<times> limiter" where
  "wait_on t m prio budget env l =
     (case acquire_on t m prio budget env l of
        (None, l') \<Rightarrow> (None, l')
      | (Some (Inl e), l') \<Rightarrow> (Some (Inl e), l')
      | (Some (Inr p), l') \<Rightarrow> (Some (Inr t), l'))"

definition acquire_target ::
  "target list \<Rightarrow> target list \<Rightarrow> string \<Rightarrow> priority \<Rightarrow> duration \<Rightarrow> ('c, 'a) attempt_env \<Rightarrow> limiter \<Rightarrow>
   (rate_limited + target) option \<times> limiter" where
  "acquire_target targets avoided m prio budget env l =
     (if length targets = 1 then wait_on (hd targets) m prio budget (ae_wait env) l
      else
        case try_targets (ordered_targets targets avoided) m prio (ae_zero env) None l of
          (None, l') \<Rightarrow> (None, l')
        | (Some (Inl t), l') \<Rightarrow> (Some (Inr t), l')
        | (Some (Inr None), l') \<Rightarrow> (Some (Inl \<lparr>retry_at = ae_limited_at env + budget\<rparr>), l')
        | (Some (Inr (Some (at1, t))), l') \<Rightarrow> wait_on t m prio budget (ae_wait env) l')"

section \<open>The upstream leg\<close>

definition cached_copy :: "'c moka \<Rightarrow> string \<Rightarrow> instant \<Rightarrow> ('c, 'a) world \<Rightarrow> fetched option \<times> ('c, 'a) world" where
  "cached_copy M key now w =
     (case rc_get M key now (w_cache w) of (r, rc) \<Rightarrow>
        let w' = w\<lparr>w_cache := rc\<rparr>; copy = (\<lambda>e. if is_negative e then None
              else Some \<lparr>fd_body = ce_body e, fd_content_at = content_at e, fd_fetched_at = fetched_at e, fd_stale = True\<rparr>) in
        (case r of Fresh e \<Rightarrow> copy e | Stale e \<Rightarrow> copy e | Miss \<Rightarrow> None, w'))"

text \<open>One call on a granted target: send, then let the limiter see the answer.\<close>

definition call_riot ::
  "riot_request \<Rightarrow> ('c, 'a) attempt_env \<Rightarrow> ('c, 'a) world \<Rightarrow> (riot_error + riot_response) \<times> ('c, 'a) world" where
  "call_riot req env w =
     (let w1 = ae_others env (w\<lparr>w_sent := w_sent w @ [req]\<rparr>);
          (outcome, watch) = send_as (ae_outcome env) (ae_elapsed env) (ae_unix_ms env) req False (w_watch w1);
          headers = from_headers (case outcome of Inl e \<Rightarrow> re_headers e | Inr r \<Rightarrow> rs_headers r) in
      (outcome, w1\<lparr>w_watch := watch,
         w_limiter := observe (target_scope (rq_target req)) (method_scope_key (rq_endpoint req)) headers
           (ae_now env) (ae_later env) (w_limiter w1)\<rparr>))"

text \<open>A 2xx: write it to the archive or let the archive observe it, then cache it.\<close>

definition store_answer ::
  "'c moka \<Rightarrow> 'a archive_ops \<Rightarrow> fetcher \<Rightarrow> riot_request \<Rightarrow> string \<Rightarrow> riot_response \<Rightarrow> ('c, 'a) attempt_env \<Rightarrow> ('c, 'a) world \<Rightarrow>
   (fetch_error + fetched) leg \<times> ('c, 'a) world" where
  "store_answer M A f req key res env w =
     (let e = rq_endpoint req in
      case ttls (f_policy f) e of
        None \<Rightarrow> (Panicked, w)
      | Some t \<Rightarrow>
          let w1 = w\<lparr>w_archive := (if immutable e then ar_put A else ar_observe A) req (rs_body res) (w_archive w)\<rparr> in
          (case rc_put M key e (rs_body res) t (ae_now env) (ae_clock env) (w_cache w1) of (entry, rc) \<Rightarrow>
             (Done (Inr \<lparr>fd_body = rs_body res,
                fd_content_at = (case entry of Some x \<Rightarrow> content_at x | None \<Rightarrow> ae_now env),
                fd_fetched_at = ae_now env, fd_stale = False\<rparr>), w1\<lparr>w_cache := rc\<rparr>)))"

definition store_not_found ::
  "'c moka \<Rightarrow> fetcher \<Rightarrow> endpoint \<Rightarrow> string \<Rightarrow> riot_error \<Rightarrow> ('c, 'a) attempt_env \<Rightarrow> ('c, 'a) world \<Rightarrow>
   (fetch_error + fetched) leg \<times> ('c, 'a) world" where
  "store_not_found M f e key err env w =
     (case ttls (f_policy f) e of
        None \<Rightarrow> (Panicked, w)
      | Some t \<Rightarrow>
          (Done (Inl (fetch_error_of (to_api_error err))),
           case t_negative t of
             None \<Rightarrow> w
           | Some ttl \<Rightarrow> w\<lparr>w_cache := snd (rc_put_negative M key e ttl (ae_now env) (ae_clock env) (w_cache w))\<rparr>))"

definition or_stale ::
  "'c moka \<Rightarrow> string \<Rightarrow> instant \<Rightarrow> fetch_error \<Rightarrow> ('c, 'a) world \<Rightarrow> (fetch_error + fetched) leg \<times> ('c, 'a) world" where
  "or_stale M key now err w =
     (case cached_copy M key now w of
        (Some copy, w') \<Rightarrow> (Done (Inr copy), w')
      | (None, w') \<Rightarrow> (Done (Inl err), w'))"

definition sleep :: "duration \<Rightarrow> ('c, 'a) attempt_env \<Rightarrow> ('c, 'a) world \<Rightarrow> ('c, 'a) world" where
  "sleep backoff env w = w\<lparr>w_slept := w_slept w @ [jitter (ae_random env) backoff]\<rparr>"

text \<open>The loop's variables: the clusters to avoid, and the two counts of retries.\<close>

record retry_state =
  avoid :: "target list"
  server_retries :: nat
  service_tries :: nat

text \<open>
  What follows a failure: either the leg ends, or it goes round again with these variables and this world.
\<close>

definition after_failure ::
  "'c moka \<Rightarrow> fetcher \<Rightarrow> target list \<Rightarrow> target \<Rightarrow> endpoint \<Rightarrow> string \<Rightarrow> riot_error \<Rightarrow> ('c, 'a) attempt_env \<Rightarrow>
   retry_state \<Rightarrow> ('c, 'a) world \<Rightarrow> ((fetch_error + fetched) leg + retry_state) \<times> ('c, 'a) world" where
  "after_failure M f targets t e key err env rs w =
     (let stop = (\<lambda>(r, w). (Inl r, w)); told = Done (Inl (fetch_error_of (to_api_error err))) in
      case re_kind err of
        RiotNotFound \<Rightarrow> stop (store_not_found M f e key err env w)
      | UpstreamAuth \<Rightarrow> (Inl told, w)
      | UnexpectedStatus \<Rightarrow> (Inl told, w)
      | RiotRateLimited kind retry \<Rightarrow>
          if kind \<noteq> None \<and> retry \<noteq> None then (Inr rs, w)
          else
            let fresh = (length targets > 1 \<and> t \<notin> set (avoid rs));
                rs1 = (if fresh then rs\<lparr>avoid := avoid rs @ [t]\<rparr> else rs) in
            if fresh \<and> length (avoid rs1) < length targets then (Inr rs1, w)
            else if service_tries rs1 < SERVICE_429_TRIES then
              (Inr (rs1\<lparr>service_tries := service_tries rs1 + 1\<rparr>),
               sleep (min (SERVICE_429_BASE * 2 ^ service_tries rs1) SERVICE_429_MAX) env w)
            else (Inl told, w)
      | UpstreamUnavailable \<Rightarrow>
          if server_retries rs < length SERVER_RETRY_BACKOFF then
            (Inr (rs\<lparr>server_retries := server_retries rs + 1\<rparr>), sleep (SERVER_RETRY_BACKOFF ! server_retries rs) env w)
          else stop (or_stale M key (ae_later env) (fetch_error_of (to_api_error err)) w))"

text \<open>The \<^verbatim>\<open>for\<close> loop: \<open>n\<close> attempts are left.\<close>

fun upstream_loop ::
  "'c moka \<Rightarrow> 'a archive_ops \<Rightarrow> fetcher \<Rightarrow> target list \<Rightarrow> riot_request \<Rightarrow> string \<Rightarrow> priority \<Rightarrow> duration \<Rightarrow> nat \<Rightarrow>
   ('c, 'a) attempt_env list \<Rightarrow> retry_state \<Rightarrow> ('c, 'a) world \<Rightarrow> (fetch_error + fetched) leg \<times> ('c, 'a) world" where
  "upstream_loop M A f targets req key prio budget 0 envs rs w =
     (Done (Inl (fetch_error_of (api_error_new UpstreamError ''Upstream request failed''))), w)"
| "upstream_loop M A f targets req key prio budget (Suc n) [] rs w = (Pending, w)"
| "upstream_loop M A f targets req key prio budget (Suc n) (env # envs) rs w =
     (let e = rq_endpoint req in
      case acquire_target targets (avoid rs) (method_scope_key e) prio budget env (w_limiter w) of
        (None, l) \<Rightarrow> (Pending, w\<lparr>w_limiter := l\<rparr>)
      | (Some (Inl limited), l) \<Rightarrow>
          or_stale M key (ae_limited_at env) (fetch_error_limited (ae_limited_at env) limited) (w\<lparr>w_limiter := l\<rparr>)
      | (Some (Inr t), l) \<Rightarrow>
          let req' = req\<lparr>rq_target := t\<rparr>; (outcome, w1) = call_riot req' env (w\<lparr>w_limiter := l\<rparr>) in
          (case outcome of
             Inr res \<Rightarrow> store_answer M A f req' key res env w1
           | Inl err \<Rightarrow>
               (case after_failure M f targets t e key err env rs w1 of
                  (Inl r, w2) \<Rightarrow> (r, w2)
                | (Inr rs', w2) \<Rightarrow> upstream_loop M A f targets req' key prio budget n envs rs' w2)))"

definition upstream ::
  "'c moka \<Rightarrow> 'a archive_ops \<Rightarrow> fetcher \<Rightarrow> riot_request \<Rightarrow> string \<Rightarrow> priority \<Rightarrow> duration \<Rightarrow>
   ('c, 'a) attempt_env list \<Rightarrow> ('c, 'a) world \<Rightarrow> (fetch_error + fetched) leg \<times> ('c, 'a) world" where
  "upstream M A f req key prio budget envs w =
     upstream_loop M A f (request_targets req) req key prio budget MAX_ATTEMPTS envs
       \<lparr>avoid = [], server_retries = 0, service_tries = 0\<rparr> w"

section \<open>Fetching\<close>

definition served :: "cache_entry \<Rightarrow> x_cache \<Rightarrow> instant \<Rightarrow> fetch_result" where
  "served e x now = \<lparr>fr_body = ce_body e, fr_x_cache = x, fr_cache_age = age e now, fr_fetched_age = Some (fetch_age e now)\<rparr>"

text \<open>
  The first two steps: what the archive or the cache answers, whether a background refresh is started, and
  \<open>None\<close> when the request has to go upstream. \<open>now\<close> is the reading at the start, \<open>later\<close> the cache's own.
\<close>

definition fetch_read ::
  "'c moka \<Rightarrow> 'a archive_ops \<Rightarrow> fetcher \<Rightarrow> riot_request \<Rightarrow> fetch_options \<Rightarrow> instant \<Rightarrow> instant \<Rightarrow> ('c, 'a) world \<Rightarrow>
   (fetch_error + fetch_result) option \<times> bool \<times> ('c, 'a) world" where
  "fetch_read M A f req opts now later w =
     (if fo_bypass opts then (None, False, w)
      else
        case (if immutable (rq_endpoint req) then ar_get A req (w_archive w) else None) of
          Some body \<Rightarrow>
            (Some (Inr \<lparr>fr_body = body, fr_x_cache = XArchive, fr_cache_age = 0, fr_fetched_age = None\<rparr>), False, w)
        | None \<Rightarrow>
            (case rc_get M (cache_key (f_sha256 f) (f_scope f) req) later (w_cache w) of (r, rc) \<Rightarrow>
               let w' = w\<lparr>w_cache := rc\<rparr> in
               (case r of
                  Fresh e \<Rightarrow>
                    if is_negative e then
                      (Some (Inl ((fetch_error_of (not_found ''Resource not found upstream (negative-cached)''))\<lparr>fe_x_cache := Some XHitNeg\<rparr>)), False, w')
                    else (Some (Inr (served e XHit now)), False, w')
                | Stale e \<Rightarrow> (Some (Inr (served e XStale now)), f_swr f, w')
                | Miss \<Rightarrow> (None, False, w'))))"

definition fetch_budget :: "fetcher \<Rightarrow> fetch_options \<Rightarrow> duration" where
  "fetch_budget f opts =
     (if fo_job opts then f_job_budget f
      else case fo_priority opts of Interactive \<Rightarrow> f_interactive_budget f | Bulk \<Rightarrow> BULK_BUDGET)"

definition fetch_finish :: "fetch_options \<Rightarrow> instant \<Rightarrow> fetch_error + fetched \<Rightarrow> fetch_error + fetch_result" where
  "fetch_finish opts now v =
     (case v of
        Inl e \<Rightarrow> Inl e
      | Inr fd \<Rightarrow>
          Inr \<lparr>fr_body = fd_body fd,
            fr_x_cache = (if fd_stale fd then XStale else if fo_bypass opts then XBypass else XMiss),
            fr_cache_age = now - fd_content_at fd, fr_fetched_age = Some (now - fd_fetched_at fd)\<rparr>)"

text \<open>
  The whole fetch. The single flight either runs the upstream leg for this caller or, when \<open>joined\<close> is a
  value, hands over the value of the run already in flight.
\<close>

definition fetch_inner ::
  "'c moka \<Rightarrow> 'a archive_ops \<Rightarrow> fetcher \<Rightarrow> riot_request \<Rightarrow> fetch_options \<Rightarrow> instant \<Rightarrow> instant \<Rightarrow> instant \<Rightarrow>
   (fetch_error + fetched) leg option \<Rightarrow> ('c, 'a) attempt_env list \<Rightarrow> ('c, 'a) world \<Rightarrow>
   (fetch_error + fetch_result) leg \<times> ('c, 'a) world" where
  "fetch_inner M A f req opts now later done_at joined envs w =
     (case fetch_read M A f req opts now later w of
        (Some r, refresh, w') \<Rightarrow> (Done r, w')
      | (None, refresh, w') \<Rightarrow>
          (case (case joined of
                   Some v \<Rightarrow> (v, w')
                 | None \<Rightarrow> upstream M A f req (cache_key (f_sha256 f) (f_scope f) req) (fo_priority opts) (fetch_budget f opts) envs w') of
             (Pending, w2) \<Rightarrow> (Pending, w2)
           | (Panicked, w2) \<Rightarrow> (Done (fetch_finish opts done_at (Inl work_failed)), w2)
           | (Done v, w2) \<Rightarrow> (Done (fetch_finish opts done_at v), w2)))"

text \<open>The refresh behind a stale answer: bulk, with the long budget.\<close>

definition refresh_in_background ::
  "'c moka \<Rightarrow> 'a archive_ops \<Rightarrow> fetcher \<Rightarrow> riot_request \<Rightarrow> ('c, 'a) attempt_env list \<Rightarrow> ('c, 'a) world \<Rightarrow>
   (fetch_error + fetched) leg \<times> ('c, 'a) world" where
  "refresh_in_background M A f req envs w =
     upstream M A f req (cache_key (f_sha256 f) (f_scope f) req) Bulk BULK_BUDGET envs w"

end
