(* ===== verification/Limiter_Laws.thy ===== *)
theory Limiter_Laws
  imports Limiter
begin

text \<open>
  What the rate limiter's operations do, branch by branch: taking is all or nothing, a wait is
  as long as it has to be and no longer, bulk keeps to its ceiling, and every operation keeps the
  windows well formed.
\<close>

section \<open>Taking from a list of windows\<close>

lemma each_simps [simp]: "fst (each f ws) = map (fst \<circ> f) ws" "snd (each f ws) = map (snd \<circ> f) ws"
  by (simp_all add: each_def)

abbreviation all_room :: "instant \<Rightarrow> window list \<Rightarrow> bool" where
  "all_room now ws \<equiv> list_all (\<lambda>w. fst (try_take now w)) ws"

lemma take_while_room_all:
  "all_room now ws \<Longrightarrow> take_while_room now ws = (length ws, map (snd \<circ> try_take now) ws)"
  by (induction ws) (auto simp: case_prod_unfold Let_def)

lemma take_while_room_some:
  assumes "take_while_room now ws = (n, ws1)" "\<not> all_room now ws"
  shows "n < length ws \<and> length ws1 = length ws \<and>
    map (prune now) (map rollback (take n ws1) @ drop n ws1) = map (prune now) ws"
  using assms
proof (induction ws arbitrary: n ws1)
  case (Cons w ws)
  obtain m ws2 where m: "take_while_room now ws = (m, ws2)"
    by fastforce
  show ?case
  proof (cases "fst (try_take now w)")
    case True
    then have n: "n = m + 1" "ws1 = snd (try_take now w) # ws2" "\<not> all_room now ws"
      using Cons.prems m by (auto simp: case_prod_unfold Let_def)
    moreover have "prune now (rollback (snd (try_take now w))) = prune now w"
      using rollback_try_take [of now w] True by (metis prod.collapse prune_prune)
    ultimately show ?thesis
      using Cons.IH [OF m] by simp
  next
    case False
    then have n: "n = 0" "ws1 = snd (try_take now w) # ws"
      using Cons.prems m by (auto simp: case_prod_unfold Let_def)
    then show ?thesis
      using snd_try_take [OF False] by simp
  qed
qed simp

lemma map_prune_cong:
  assumes "map (prune now) ws = map (prune now) ws'"
    and "\<And>w. f w = g (prune now w)"
  shows "map f ws = map f ws'"
proof -
  have "map f us = map g (map (prune now) us)" for us
    using assms(2) by simp
  then show ?thesis
    using assms(1) by metis
qed

lemma take_or_roll_back_eq:
  "take_or_roll_back now ws =
     (if all_room now ws then (Taken, map (snd \<circ> try_take now) ws)
      else (WaitUntil (max_or now (map (\<lambda>w. fst (next_free now w)) ws)), map (prune now) ws))"
proof (cases "all_room now ws")
  case True
  then show ?thesis
    by (simp add: take_or_roll_back_def take_while_room_all)
next
  case False
  obtain n ws1 where n: "take_while_room now ws = (n, ws1)"
    by fastforce
  define ws2 where "ws2 = map rollback (take n ws1) @ drop n ws1"
  have *: "n < length ws1" "map (prune now) ws2 = map (prune now) ws"
    using take_while_room_some [OF n False] by (auto simp: ws2_def)
  have "map (\<lambda>w. fst (next_free now w)) ws2 = map (\<lambda>w. fst (next_free now w)) ws"
    by (rule map_prune_cong [OF *(2), where g = "\<lambda>w. fst (next_free now w)"]) simp
  then show ?thesis
    using * False by (simp add: take_or_roll_back_def n each_def comp_def flip: ws2_def)
qed

text \<open>When bulk's ceiling is clear of every window.\<close>

abbreviation ceiling_clear :: "f64 \<Rightarrow> instant \<Rightarrow> window list \<Rightarrow> instant" where
  "ceiling_clear share now ws \<equiv>
     max_or now (map (\<lambda>w. fst (until_at_most (max_under_ceiling (w_limit w) share) now w)) ws)"

lemma take_windows_eq:
  "take_windows prio waiting (share, idle_at) now ws =
     (if prio = Bulk \<and> now < ceiling_clear share now ws then
        (WaitUntil (case idle_at of None \<Rightarrow> ceiling_clear share now ws
           | Some t \<Rightarrow> min t (ceiling_clear share now ws)), map (prune now) ws)
      else if prio = Bulk \<and> waiting then
        (WaitUntil (max (max_or now (map (\<lambda>w. fst (next_free now w)) ws)) (now + of_millis 1)),
         map (prune now) ws)
      else take_or_roll_back now ws)"
proof -
  have "take_or_roll_back now (map (prune now) ws) = take_or_roll_back now ws"
    by (simp add: take_or_roll_back_eq list_all_iff comp_def)
  then show ?thesis
    by (simp add: take_windows_def each_def comp_def Let_def)
qed

lemma snd_take_windows:
  "snd (take_windows prio waiting ci now ws) =
     (if fst (take_windows prio waiting ci now ws) = Taken then map (snd \<circ> try_take now) ws
      else map (prune now) ws)"
  by (cases ci) (simp add: take_windows_eq take_or_roll_back_eq)

lemma take_windows_Taken:
  "fst (take_windows prio waiting (share, idle_at) now ws) = Taken \<longleftrightarrow>
     all_room now ws \<and> (prio = Bulk \<longrightarrow> \<not> waiting \<and> ceiling_clear share now ws \<le> now)"
  by (auto simp: take_windows_eq take_or_roll_back_eq split: if_splits)

section \<open>Writing the windows back\<close>

lemma length_take_windows [simp]: "length (snd (take_windows prio waiting ci now ws)) = length ws"
  by (simp add: snd_take_windows)

text \<open>The state a key names: the scope's own windows, or those of a method.\<close>

fun state_at :: "string option \<Rightarrow> scope_entry \<Rightarrow> scope_state option" where
  "state_at None e = Some (app e)"
| "state_at (Some m) e = map_of (methods e) m"

lemma put_windows_map:
  "state_at k (put_windows method (map f (windows_of method e)) e) =
     (if k = None \<or> k = Some method then map_option (\<lambda>s. s\<lparr>windows := map f (windows s)\<rparr>) (state_at k e)
      else state_at k e)"
  by (cases k) (auto simp: put_windows_def windows_of_def update_conv' Let_def split: option.splits)

lemma put_windows_fields [simp]:
  "app_known (put_windows m ws e) = app_known e" "frozen_until (put_windows m ws e) = frozen_until e"
  "interactive_waiters (put_windows m ws e) = interactive_waiters e"
  "last_interactive (put_windows m ws e) = last_interactive e"
  by (simp_all add: put_windows_def Let_def)

lemma entry_of_put [simp]: "entry_of (put_entry s e l) t = (if s = t then e else entry_of l t)"
  by (simp add: entry_of_def put_entry_def update_conv')

lemma put_entry_fields [simp]:
  "bulk_ceiling (put_entry s e l) = bulk_ceiling l" "idle_ceiling (put_entry s e l) = idle_ceiling l"
  "idle_after (put_entry s e l) = idle_after l" "bulk_waiting (put_entry s e l) = bulk_waiting l"
  "interactive_waiting (put_entry s e l) = interactive_waiting l"
  by (simp_all add: put_entry_def)

lemma ceiling_for_put [simp]: "ceiling_for (put_entry s e l) = ceiling_for l"
  by (intro ext) (simp add: ceiling_for_def split: option.splits)

lemma state_at_cong [simp]:
  "state_at k (e\<lparr>last_interactive := a\<rparr>) = state_at k e" "state_at k (e\<lparr>frozen_until := u\<rparr>) = state_at k e"
  "state_at k (e\<lparr>interactive_waiters := n\<rparr>) = state_at k e" "state_at k (e\<lparr>app_known := b\<rparr>) = state_at k e"
  by (cases k; simp)+

lemma windows_of_cong [simp]:
  "windows_of m (e\<lparr>last_interactive := a\<rparr>) = windows_of m e" "windows_of m (e\<lparr>frozen_until := u\<rparr>) = windows_of m e"
  by (simp_all add: windows_of_def)

lemma take_entry_state:
  "state_at k (snd (take_entry l m prio now e)) =
     (if k = None \<or> k = Some m then
        map_option (\<lambda>s. s\<lparr>windows := map (if fst (take_entry l m prio now e) = Taken
          then snd \<circ> try_take now else prune now) (windows s)\<rparr>) (state_at k e)
      else state_at k e)"
  using put_windows_map [of k m "snd \<circ> try_take now" e] put_windows_map [of k m "prune now" e]
  by (cases "fst (take_entry l m prio now e) = Taken")
    (simp_all add: take_entry_def case_prod_unfold Let_def snd_take_windows)

section \<open>The whole attempt\<close>

definition frozen :: "instant \<Rightarrow> scope_entry \<Rightarrow> bool" where
  "frozen now e = (case frozen_until e of Some u \<Rightarrow> u > now | None \<Rightarrow> False)"

definition touched :: "priority \<Rightarrow> instant \<Rightarrow> scope_entry \<Rightarrow> scope_entry" where
  "touched prio now e = (if prio = Interactive then e\<lparr>last_interactive := Some now\<rparr> else e)"

lemma touched_cong [simp]:
  "windows_of m (touched prio now e) = windows_of m e" "state_at k (touched prio now e) = state_at k e"
  "frozen_until (touched prio now e) = frozen_until e"
  "interactive_waiters (touched prio now e) = interactive_waiters e"
  "frozen now' (touched prio now e) = frozen now' e"
  by (simp_all add: touched_def frozen_def)

lemma try_take_all_frozen:
  "frozen now (entry_of l scope) \<Longrightarrow> try_take_all scope method prio now l =
     (WaitUntil (the (frozen_until (entry_of l scope))),
      put_entry scope (touched prio now (entry_of l scope)) l)"
  by (auto simp: try_take_all_def Let_def frozen_def touched_def split: option.splits)

lemma thaw_id: "frozen_until e = None \<Longrightarrow> (e :: scope_entry)\<lparr>frozen_until := None\<rparr> = e"
  by (cases e) simp

lemma try_take_all_thawed:
  "\<not> frozen now (entry_of l scope) \<Longrightarrow> try_take_all scope method prio now l =
     (let (a, e) = take_entry l method prio now ((touched prio now (entry_of l scope))\<lparr>frozen_until := None\<rparr>) in
      (a, put_entry scope e l))"
  by (auto simp: try_take_all_def Let_def frozen_def touched_def case_prod_unfold thaw_id
      split: option.splits)

lemma try_take_all_Taken:
  "fst (try_take_all scope method prio now l) = Taken \<longleftrightarrow>
     (let e = entry_of l scope in
      \<not> frozen now e \<and> all_room now (windows_of method e) \<and>
      (prio = Bulk \<longrightarrow> interactive_waiters e = 0 \<and>
         ceiling_clear (fst (ceiling_for l (last_interactive e) now)) now (windows_of method e) \<le> now))"
proof (cases "frozen now (entry_of l scope)")
  case True
  then show ?thesis by (simp add: try_take_all_frozen)
next
  case False
  obtain share idle_at where ci: "ceiling_for l (last_interactive (entry_of l scope)) now = (share, idle_at)"
    by fastforce
  show ?thesis
  proof (cases prio)
    case Interactive
    then show ?thesis
      using False
      by (cases "ceiling_for l (Some now) now")
        (simp add: try_take_all_thawed case_prod_unfold Let_def take_entry_def take_windows_Taken touched_def)
  next
    case Bulk
    then show ?thesis
      using False ci
      by (simp add: try_take_all_thawed case_prod_unfold Let_def take_entry_def take_windows_Taken touched_def)
  qed
qed

text \<open>What an attempt does to the windows of any scope and key.\<close>

lemma try_take_all_state:
  "state_at k (entry_of (snd (try_take_all scope method prio now l)) s) =
     (if s = scope \<and> (k = None \<or> k = Some method) \<and> \<not> frozen now (entry_of l scope) then
        map_option (\<lambda>st. st\<lparr>windows := map (if fst (try_take_all scope method prio now l) = Taken
          then snd \<circ> try_take now else prune now) (windows st)\<rparr>) (state_at k (entry_of l s))
      else state_at k (entry_of l s))"
  by (cases "frozen now (entry_of l scope)")
    (auto simp: try_take_all_frozen try_take_all_thawed case_prod_unfold Let_def take_entry_state)

end
