(* ===== verification/Limiter_Bound.thy ===== *)
theory Limiter_Bound
  imports Limiter_Laws
begin

text \<open>
  The limiter as a transition system, and the rolling bound over it: whatever its callers do, in
  whatever order, a window that Riot announced with a limit of at most \<open>L\<close> per \<open>n\<close> seconds never
  sees more than \<open>L\<close> granted requests in any \<open>n\<close> seconds. The window is the app window of a scope or
  one of a method's windows, named by a key.
\<close>

section \<open>The window of a length\<close>

definition the_window :: "nat \<Rightarrow> scope_state option \<Rightarrow> window option" where
  "the_window n st =
     (case st of
        Some s \<Rightarrow> (case of_length n (windows s) of [w] \<Rightarrow> Some w | _ \<Rightarrow> None)
      | None \<Rightarrow> None)"

definition window_at :: "nat \<Rightarrow> string \<Rightarrow> string option \<Rightarrow> limiter \<Rightarrow> window option" where
  "window_at n scope k l = the_window n (state_at k (entry_of l scope))"

lemma the_window_Some: "the_window n (Some s) = Some w \<longleftrightarrow> of_length n (windows s) = [w]"
  by (auto simp: the_window_def split: list.splits)

lemma the_window_seconds: "the_window n st = Some w \<Longrightarrow> w_seconds w = n"
  by (cases st) (auto simp: the_window_Some the_window_def[of n None] filter_eq_Cons_iff)

lemma the_window_map:
  assumes "\<And>w. w_seconds (f w) = w_seconds w"
  shows "the_window n (map_option (\<lambda>s. s\<lparr>windows := map f (windows s)\<rparr>) st) = map_option f (the_window n st)"
  by (cases st) (auto simp: the_window_def filter_map comp_def assms split: list.splits)

section \<open>What a quiet operation may do to a window\<close>

text \<open>
  It keeps the length, does not raise the limit above \<open>L\<close>, and forgets no admission younger than
  the window's span.
\<close>

definition ages :: "nat \<Rightarrow> instant \<Rightarrow> window \<Rightarrow> window \<Rightarrow> bool" where
  "ages L now w w' \<longleftrightarrow> w_seconds w' = w_seconds w \<and> (w_limit w \<le> L \<longrightarrow> w_limit w' \<le> L) \<and>
     (\<forall>x. now < x + window_span w \<longrightarrow> count_since x (w_admitted w) \<le> count_since x (w_admitted w'))"

lemma ages_refl [simp, intro]: "ages L now w w"
  by (simp add: ages_def)

lemma ages_trans: "ages L now w w' \<Longrightarrow> ages L now w' w'' \<Longrightarrow> ages L now w w''"
  by (auto simp: ages_def window_span_def intro: order.trans)

lemma ages_prune [simp, intro]: "ages L now w (prune now w)"
  by (simp add: ages_def count_since_prune)

lemma ages_sync [simp, intro]: "ages L now w (sync c now w)"
  by (simp add: ages_def count_since_sync)

lemma ages_limit [intro]: "l \<le> L \<Longrightarrow> ages L now w (w\<lparr>w_limit := l\<rparr>)"
  by (simp add: ages_def)

text \<open>The same, for the window a key names, when it has one.\<close>

definition ages_opt :: "nat \<Rightarrow> instant \<Rightarrow> window option \<Rightarrow> window option \<Rightarrow> bool" where
  "ages_opt L now a b \<longleftrightarrow> (\<forall>w. a = Some w \<longrightarrow> (\<exists>w'. b = Some w' \<and> ages L now w w'))"

lemma ages_opt_refl [simp, intro]: "ages_opt L now a a"
  by (simp add: ages_opt_def)

lemma ages_opt_trans: "ages_opt L now a b \<Longrightarrow> ages_opt L now b c \<Longrightarrow> ages_opt L now a c"
  by (fastforce simp: ages_opt_def intro: ages_trans)

lemma ages_opt_map: "(\<And>w. ages L now w (f w)) \<Longrightarrow> ages_opt L now a (map_option f a)"
  by (auto simp: ages_opt_def)

section \<open>Reconfiguring and syncing\<close>

text \<open>A list of limits that has one window of \<open>n\<close> seconds, of at most \<open>L\<close> requests.\<close>

definition announces :: "nat \<Rightarrow> nat \<Rightarrow> limit_window list \<Rightarrow> bool" where
  "announces n L ls = (case specs_of_length n ls of [sp] \<Rightarrow> lw_limit sp \<le> L | _ \<Rightarrow> False)"

lemma announces_iff: "announces n L ls \<longleftrightarrow> (\<exists>sp. specs_of_length n ls = [sp] \<and> lw_limit sp \<le> L)"
  by (auto simp: announces_def split: list.splits)

lemma reconfigure_ages:
  "announces n L ls \<Longrightarrow>
     ages_opt L now (the_window n (Some s)) (the_window n (Some (snd (reconfigure ls s))))"
  by (auto simp: announces_iff ages_opt_def the_window_Some reconfigure_keeps_one)

lemma update_first_other:
  "(\<And>v. P v \<Longrightarrow> \<not> Q v \<and> \<not> Q (f v)) \<Longrightarrow> filter Q (update_first P f ws) = filter Q ws"
  by (induction ws) auto

lemma update_first_one:
  "filter P ws = [w] \<Longrightarrow> (\<And>v. P (f v) \<longleftrightarrow> P v) \<Longrightarrow> filter P (update_first P f ws) = [f w]"
  by (induction ws) (auto split: if_splits)

lemma sync_other:
  "m \<noteq> n \<Longrightarrow> of_length n (update_first (\<lambda>w. w_seconds w = m) (sync c now) ws) = of_length n ws"
  by (intro update_first_other) auto

lemma sync_first_ages:
  "ages_opt L now (the_window n (Some s))
     (the_window n (Some (s\<lparr>windows := update_first (\<lambda>w. w_seconds w = m) (sync c now) (windows s)\<rparr>)))"
proof (cases "m = n")
  case True
  then show ?thesis
    by (auto simp: ages_opt_def the_window_Some update_first_one)
next
  case False
  then show ?thesis
    by (simp add: the_window_def sync_other)
qed

lemma sync_counts_ages: "ages_opt L now (the_window n (Some s)) (the_window n (Some (sync_counts cs now s)))"
proof (induction cs arbitrary: s)
  case (Cons c cs)
  then show ?case
    using ages_opt_trans [OF sync_first_ages [of L now n s "cw_seconds c" "cw_count c"]]
    by (simp add: sync_counts_def)
qed (simp add: sync_counts_def)

lemma state_at_simps [simp]:
  "state_at k (reconfigure_app ls e) = (if k = None then Some (snd (reconfigure ls (app e))) else state_at k e)"
  "state_at k (reconfigure_method m ls e) = (if k = Some m then
     Some (snd (reconfigure ls (case state_at k e of Some s \<Rightarrow> s | None \<Rightarrow> scope_state_default)))
     else state_at k e)"
  "state_at k (e\<lparr>app := s\<rparr>) = (if k = None then Some s else state_at k e)"
  "state_at k (e\<lparr>methods := AList.update m s (methods e)\<rparr>) = (if k = Some m then Some s else state_at k e)"
  by (cases k; auto simp: reconfigure_app_def reconfigure_method_def Let_def update_conv')+

lemma ages_opt_None [simp]: "ages_opt L now (the_window n None) b"
  by (simp add: ages_opt_def the_window_def)

text \<open>The limits a response may announce for the window a key names.\<close>

definition header_ok :: "nat \<Rightarrow> nat \<Rightarrow> string option \<Rightarrow> string \<Rightarrow> rate_limit_headers \<Rightarrow> bool" where
  "header_ok n L k m h =
     ((k = None \<longrightarrow> (case app_limits h of Some ls \<Rightarrow> announces n L ls | None \<Rightarrow> True)) \<and>
      (k = Some m \<longrightarrow> (case method_limits h of Some ls \<Rightarrow> announces n L ls | None \<Rightarrow> True)))"

lemma reconfigure_app_ages:
  "(k = None \<longrightarrow> announces n L ls) \<Longrightarrow>
     ages_opt L now (the_window n (state_at k e)) (the_window n (state_at k (reconfigure_app ls e)))"
  by (cases k) (auto intro: reconfigure_ages)

lemma reconfigure_method_ages:
  "(k = Some m \<longrightarrow> announces n L ls) \<Longrightarrow>
     ages_opt L now (the_window n (state_at k e)) (the_window n (state_at k (reconfigure_method m ls e)))"
  by (cases "state_at k e") (auto intro: reconfigure_ages)

lemma observe_entry_ages:
  assumes "header_ok n L k m h"
  shows "ages_opt L now (the_window n (state_at k e)) (the_window n (state_at k (observe_entry m h now e)))"
proof -
  define e1 where "e1 = (case app_limits h of Some ls \<Rightarrow> reconfigure_app ls e | None \<Rightarrow> e)"
  define e2 where "e2 = (case method_limits h of Some ls \<Rightarrow> reconfigure_method m ls e1 | None \<Rightarrow> e1)"
  define e3 where
    "e3 = (case app_counts h of Some cs \<Rightarrow> e2\<lparr>app := sync_counts cs now (app e2)\<rparr> | None \<Rightarrow> e2)"
  let ?w = "\<lambda>e. the_window n (state_at k e)"
  have 1: "ages_opt L now (?w e) (?w e1)"
    using assms by (auto simp: e1_def header_ok_def intro!: reconfigure_app_ages split: option.splits
        simp del: state_at_simps)
  have 2: "ages_opt L now (?w e1) (?w e2)"
    using assms by (auto simp: e2_def header_ok_def intro!: reconfigure_method_ages split: option.splits
        simp del: state_at_simps)
  have 3: "ages_opt L now (?w e2) (?w e3)"
    by (auto simp: e3_def sync_counts_ages split: option.splits)
  have "observe_entry m h now e = (case (method_counts h, map_of (methods e3) m) of
      (Some cs, Some s) \<Rightarrow> e3\<lparr>methods := AList.update m (sync_counts cs now s) (methods e3)\<rparr> | _ \<Rightarrow> e3)"
    unfolding observe_entry_def Let_def e1_def e2_def e3_def by (rule refl)
  then have 4: "ages_opt L now (?w e3) (?w (observe_entry m h now e))"
    by (auto simp: sync_counts_ages split: option.splits)
  show ?thesis
    using ages_opt_trans [OF 1 ages_opt_trans [OF 2 ages_opt_trans [OF 3 4]]] .
qed

section \<open>The operations as steps\<close>

text \<open>
  The step relation for the window of \<open>n\<close> seconds that \<open>scope\<close> and the key \<open>k\<close> name. The flag is whether the
  step grants a request that counts against that window.
\<close>

inductive limiter_step ::
  "string \<Rightarrow> string option \<Rightarrow> nat \<Rightarrow> nat \<Rightarrow> limiter \<Rightarrow> instant \<Rightarrow> bool \<Rightarrow> limiter \<Rightarrow> bool"
  for scope k n L
where
  ls_attempt: "try_take_all s m prio now l = (a, l') \<Longrightarrow>
    g \<longleftrightarrow> a = Taken \<and> s = scope \<and> (k = None \<or> k = Some m) \<Longrightarrow> limiter_step scope k n L l now g l'"
| ls_observe: "(s = scope \<longrightarrow> header_ok n L k m h) \<Longrightarrow>
    limiter_step scope k n L l now False (observe s m h now later l)"
| ls_freeze: "limiter_step scope k n L l now False (freeze s d now l)"
| ls_configure_app: "(s = scope \<and> k = None \<longrightarrow> announces n L ls) \<Longrightarrow>
    limiter_step scope k n L l now False (configure_app s ls l)"
| ls_configure_method: "(s = scope \<and> k = Some m \<longrightarrow> announces n L ls) \<Longrightarrow>
    limiter_step scope k n L l now False (configure_method s m ls l)"
| ls_waiter_new: "limiter_step scope k n L l now False (waiter_new s prio l)"
| ls_waiter_drop: "limiter_step scope k n L l now False (waiter_drop s prio l)"
| ls_usage: "limiter_step scope k n L l now False (snd (usage s now l))"
| ls_method_usage: "limiter_step scope k n L l now False (snd (limiter_method_usage s ms now l))"
| ls_bulk_blocked: "limiter_step scope k n L l now False (snd (limiter_bulk_blocked now l))"

inductive_cases limiter_step_grant: "limiter_step scope k n L l now True l'"

lemma map_of_scopes: "map_of (scopes l) s = Some e \<Longrightarrow> entry_of l s = e"
  by (simp add: entry_of_def)

lemma entry_of_waiting [simp]:
  "entry_of (l\<lparr>interactive_waiting := x\<rparr>) s = entry_of l s" "entry_of (l\<lparr>bulk_waiting := x\<rparr>) s = entry_of l s"
  by (simp_all add: entry_of_def)

lemma state_at_waiters [simp]:
  "state_at k (entry_of (waiter_new s prio l) t) = state_at k (entry_of l t)"
  "state_at k (entry_of (waiter_drop s prio l) t) = state_at k (entry_of l t)"
  by (auto simp: waiter_new_def waiter_drop_def update_entry_def map_of_scopes
      split: priority.splits option.splits)

lemma state_at_freeze [simp]: "state_at k (entry_of (freeze s d now l) t) = state_at k (entry_of l t)"
  by (simp add: freeze_def Let_def)

lemma state_at_observe:
  "state_at k (entry_of (observe s m h now later l) t) =
     (if s = t then state_at k (observe_entry m h now (entry_of l t)) else state_at k (entry_of l t))"
  by (auto simp: observe_def Let_def split: option.splits)

lemma snd_usage_of [simp]: "snd (usage_of now w) = prune now w"
  by (simp add: usage_of_def case_prod_unfold Let_def)

text \<open>Reports prune the windows they look at.\<close>

definition pruned :: "instant \<Rightarrow> scope_state option \<Rightarrow> scope_state option" where
  "pruned now st = map_option (\<lambda>s. s\<lparr>windows := map (prune now) (windows s)\<rparr>) st"

lemma pruned_idem [simp]: "pruned now (pruned now st) = pruned now st"
  by (cases st) (simp_all add: pruned_def comp_def)

lemma ages_pruned [simp, intro]: "ages_opt L now (the_window n st) (the_window n (pruned now st))"
  by (simp add: pruned_def the_window_map ages_opt_map)

lemma state_at_usage:
  "state_at k (entry_of (snd (usage s now l)) t) =
     (if s = t \<and> k = None \<and> map_of (scopes l) s \<noteq> None then pruned now (state_at k (entry_of l t))
      else state_at k (entry_of l t))"
  by (auto simp: usage_def pruned_def comp_def map_of_scopes case_prod_unfold Let_def each_def split: option.splits)

lemma state_at_methods_usage:
  "state_at k (snd (methods_usage now ms e)) =
     (if k \<in> Some ` set ms then pruned now (state_at k e) else state_at k e)"
proof (induction ms arbitrary: e)
  case (Cons m ms)
  show ?case
  proof (cases "map_of (methods e) m")
    case None
    then show ?thesis
      using Cons.IH [of e] by (cases k) (auto simp: case_prod_unfold Let_def pruned_def)
  next
    case (Some s)
    then have "pruned now (state_at (Some m) e) = Some (s\<lparr>windows := map (prune now) (windows s)\<rparr>)"
      by (simp add: pruned_def)
    then show ?thesis
      using Some Cons.IH [of "e\<lparr>methods := AList.update m (s\<lparr>windows := map (prune now) (windows s)\<rparr>) (methods e)\<rparr>"]
      by (auto simp: case_prod_unfold Let_def each_def comp_def pruned_def)
  qed
qed simp

lemma state_at_method_usage:
  "state_at k (entry_of (snd (limiter_method_usage s ms now l)) t)
     \<in> {pruned now (state_at k (entry_of l t)), state_at k (entry_of l t)}"
proof (cases "map_of (scopes l) s")
  case (Some e)
  then show ?thesis
    using state_at_methods_usage [of k now ms e] map_of_scopes [OF Some]
    by (auto simp: limiter_method_usage_def case_prod_unfold Let_def split: if_splits)
qed (simp add: limiter_method_usage_def)

lemma snd_blocked_state: "snd (blocked_state ci now from s) = s\<lparr>windows := map (prune now) (windows s)\<rparr>"
  by (simp add: blocked_state_def clear_at_def each_def case_prod_unfold Let_def comp_def)

lemma map_of_map_snd: "map_of (map (\<lambda>(x, y). (x, f x y)) ps) k = map_option (f k) (map_of ps k)"
  by (induction ps) auto

lemma blocked_entry_cases:
  obtains "methods (snd (blocked_entry l now s e)) = methods e"
  | "methods (snd (blocked_entry l now s e)) =
      map (\<lambda>(m, st). (m, st\<lparr>windows := map (prune now) (windows st)\<rparr>)) (methods e)"
  by (cases "bb_scopes (fst (blocked_entry l now s e)) = []")
    (auto simp: blocked_entry_def case_prod_unfold Let_def snd_blocked_state comp_def split: if_splits)

lemma app_blocked_entry:
  "app (snd (blocked_entry l now s e)) = (app e)\<lparr>windows := map (prune now) (windows (app e))\<rparr>"
  by (simp add: blocked_entry_def case_prod_unfold Let_def snd_blocked_state)

lemma state_at_blocked_entry:
  "state_at k (snd (blocked_entry l now s e)) \<in> {pruned now (state_at k e), state_at k e}"
proof (cases k)
  case None
  then show ?thesis
    by (simp add: app_blocked_entry pruned_def)
next
  case (Some m)
  then show ?thesis
    by (cases rule: blocked_entry_cases [of l now s e]) (auto simp: pruned_def map_of_map_snd)
qed

lemma map_of_bulk_blocked:
  "map_of (scopes (snd (limiter_bulk_blocked now l))) s =
     map_option (\<lambda>e. snd (blocked_entry l now s e)) (map_of (scopes l) s)"
proof -
  have "scopes (snd (limiter_bulk_blocked now l)) =
      map (\<lambda>(scope, e). (scope, snd (blocked_entry l now scope e))) (scopes l)"
    by (simp add: limiter_bulk_blocked_def Let_def case_prod_unfold comp_def)
  then show ?thesis
    by (simp add: map_of_map_snd)
qed

lemma state_at_bulk_blocked:
  "state_at k (entry_of (snd (limiter_bulk_blocked now l)) s)
     \<in> {pruned now (state_at k (entry_of l s)), state_at k (entry_of l s)}"
proof (cases "map_of (scopes l) s")
  case (Some e)
  then show ?thesis
    using state_at_blocked_entry [of k l now s e] by (simp add: entry_of_def map_of_bulk_blocked)
qed (simp add: entry_of_def map_of_bulk_blocked)

section \<open>The rolling bound of the limiter\<close>

lemma ages_window_at:
  "state_at k (entry_of l' s) \<in> {pruned now (state_at k (entry_of l s)), state_at k (entry_of l s)} \<Longrightarrow>
     ages_opt L now (window_at n s k l) (window_at n s k l')"
  by (auto simp: window_at_def)

lemma window_at_attempt:
  "window_at n scope k (snd (try_take_all s m prio now l)) =
     (if s = scope \<and> (k = None \<or> k = Some m) \<and> \<not> frozen now (entry_of l scope) then
        map_option (if fst (try_take_all s m prio now l) = Taken then snd \<circ> try_take now else prune now)
          (window_at n scope k l)
      else window_at n scope k l)"
  by (auto simp: window_at_def try_take_all_state the_window_map)

lemma attempt_room:
  assumes "fst (try_take_all scope m prio now l) = Taken" "k = None \<or> k = Some m"
    and "window_at n scope k l = Some w"
  shows "fst (try_take now w)"
proof -
  obtain s where s: "state_at k (entry_of l scope) = Some s" "w \<in> set (windows s)"
    using assms(3) by (cases "state_at k (entry_of l scope)")
      (auto simp: window_at_def the_window_def filter_eq_Cons_iff split: list.splits)
  then have "w \<in> set (windows_of m (entry_of l scope))"
    using assms(2) by (auto simp: windows_of_def)
  then show ?thesis
    using assms(1) by (simp add: try_take_all_Taken Let_def list_all_iff)
qed

lemma limiter_step_quiet:
  assumes "limiter_step scope k n L l now False l'"
  shows "ages_opt L now (window_at n scope k l) (window_at n scope k l')"
  using assms
proof cases
  case (ls_attempt s m prio a)
  then have a: "a = fst (try_take_all s m prio now l)" and l': "l' = snd (try_take_all s m prio now l)"
    by simp_all
  show ?thesis
    using ls_attempt unfolding l' window_at_attempt by (auto simp: a intro!: ages_opt_map)
next
  case (ls_observe s m h later)
  then show ?thesis
    by (auto simp: window_at_def state_at_observe observe_entry_ages)
next
  case (ls_usage s)
  then show ?thesis
    by (intro ages_window_at) (simp add: state_at_usage)
next
  case (ls_method_usage s ms)
  then show ?thesis
    using state_at_method_usage by (intro ages_window_at) simp
next
  case ls_bulk_blocked
  then show ?thesis
    using state_at_bulk_blocked by (intro ages_window_at) simp
qed (auto simp: window_at_def configure_app_def configure_method_def
    intro: reconfigure_app_ages reconfigure_method_ages simp del: state_at_simps)

text \<open>The key has a window of \<open>n\<close> seconds, of at most \<open>L\<close> requests.\<close>

definition limited :: "string \<Rightarrow> string option \<Rightarrow> nat \<Rightarrow> nat \<Rightarrow> limiter \<Rightarrow> bool" where
  "limited scope k n L l =
     (case window_at n scope k l of Some w \<Rightarrow> w_limit w \<le> L \<and> L \<le> u32_max | None \<Rightarrow> False)"

definition held_at :: "string \<Rightarrow> string option \<Rightarrow> nat \<Rightarrow> limiter \<Rightarrow> instant list" where
  "held_at scope k n l = (case window_at n scope k l of Some w \<Rightarrow> w_admitted w | None \<Rightarrow> [])"

lemma limited_Some:
  "limited scope k n L l \<longleftrightarrow>
     (\<exists>w. window_at n scope k l = Some w \<and> w_limit w \<le> L \<and> L \<le> u32_max \<and> w_seconds w = n)"
  using the_window_seconds by (auto simp: limited_def window_at_def split: option.splits)

lemma limiter_step_granted:
  assumes "limiter_step scope k n L l now True l'" "window_at n scope k l = Some w"
  shows "fst (try_take now w)" "window_at n scope k l' = Some (snd (try_take now w))"
proof -
  obtain m prio where t: "try_take_all scope m prio now l = (Taken, l')" and k: "k = None \<or> k = Some m"
    using assms(1) by (auto elim!: limiter_step_grant)
  show "fst (try_take now w)"
    using attempt_room [OF _ k assms(2), of prio now] t by simp
  have "\<not> frozen now (entry_of l scope)"
    using t try_take_all_frozen [of now l scope m prio] by auto
  then show "window_at n scope k l' = Some (snd (try_take now w))"
    using window_at_attempt [of n scope k scope m prio now l] t k assms(2) by simp
qed

interpretation lim: rolling_log "of_secs n" L "held_at scope k n" "limited scope k n L" "limiter_step scope k n L"
  for scope k n L
proof
  fix l now g l' x
  assume lim: "limited scope k n L l" and step: "limiter_step scope k n L l now g l'"
  then obtain w where w: "window_at n scope k l = Some w" "w_limit w \<le> L" "L \<le> u32_max" "w_seconds w = n"
    by (auto simp: limited_Some)
  have "\<exists>w'. window_at n scope k l' = Some w' \<and> ages L now w w'"
  proof (cases g)
    case True
    then show ?thesis
      using limiter_step_granted [of scope k n L l now l' w] step w(1) count_since_try_take [of now _ w]
      by (simp add: ages_def)
  next
    case False
    then show ?thesis
      using limiter_step_quiet [of scope k n L l now l'] step w(1) by (simp add: ages_opt_def)
  qed
  then obtain w' where w': "window_at n scope k l' = Some w'" "ages L now w w'"
    by blast
  show "limited scope k n L l'"
    using w w' the_window_seconds by (auto simp: limited_Some ages_def window_at_def)
  show "count_since x (held_at scope k n l) \<le> count_since x (held_at scope k n l')" if "now < x + of_secs n"
    using that w w' by (simp add: held_at_def ages_def window_span_def)
next
  fix l now l' x
  assume lim: "limited scope k n L l" and step: "limiter_step scope k n L l now True l'"
    and x: "now < x + of_secs n"
  then obtain w where w: "window_at n scope k l = Some w" "w_limit w \<le> L" "L \<le> u32_max" "w_seconds w = n"
    by (auto simp: limited_Some)
  note granted = limiter_step_granted [OF step w(1)]
  have span: "now < x + window_span w"
    using x w(4) by (simp add: window_span_def)
  show "count_since x (held_at scope k n l) < count_since x (held_at scope k n l')" if "x \<le> now"
    using that granted w(1) count_since_try_take [OF span] by (simp add: held_at_def)
  show "count_since x (held_at scope k n l) < L"
    using try_take_room [OF granted(1) _ span] w by (simp add: held_at_def)
qed

end
