(* ===== verification/Limiter_Invariant.thy ===== *)
theory Limiter_Invariant
  imports Limiter_Bound
begin

text \<open>
  The well-formedness of a limiter and the operations that keep it: admissions oldest first and
  never ahead of the clock, limits positive and in range, windows shortest first, one entry per
  scope and per method.
\<close>

section \<open>Well-formed windows and states\<close>

definition window_ok :: "instant \<Rightarrow> window \<Rightarrow> bool" where
  "window_ok now w =
     (sorted (w_admitted w) \<and> list_all (\<lambda>t. t \<le> now) (w_admitted w) \<and>
      length (w_admitted w) \<le> u32_max \<and> 0 < w_limit w \<and> w_limit w \<le> u32_max \<and> 0 < w_seconds w)"

definition state_ok :: "instant \<Rightarrow> scope_state \<Rightarrow> bool" where
  "state_ok now s = (list_all (window_ok now) (windows s) \<and> sorted (map w_seconds (windows s)))"

lemma window_ok_ordered: "window_ok now w \<Longrightarrow> ordered w"
  by (simp add: window_ok_def ordered_def)

lemma window_ok_later: "window_ok now w \<Longrightarrow> now \<le> now' \<Longrightarrow> window_ok now' w"
  by (auto simp: window_ok_def list_all_iff)

lemma window_ok_prune [simp, intro]: "window_ok now w \<Longrightarrow> window_ok now (prune t w)"
  using length_dropWhile_le [of "\<lambda>s. s + window_span w \<le> t" "w_admitted w"]
  by (auto simp: window_ok_def prune_def list_all_iff sorted_dropWhile dest: set_dropWhileD)

lemma window_ok_append:
  assumes "window_ok now w" "length (w_admitted w) + n \<le> u32_max"
  shows "window_ok now (w\<lparr>w_admitted := w_admitted w @ replicate n now\<rparr>)"
  using assms by (auto simp: window_ok_def list_all_iff sorted_append)

lemma window_ok_try_take [simp, intro]: "window_ok now w \<Longrightarrow> window_ok now (snd (try_take now w))"
proof -
  assume ok: "window_ok now w"
  then have p: "window_ok now (prune now w)"
    by simp
  then show ?thesis
    using window_ok_append [OF p, of 1]
    by (auto simp: try_take_cases window_ok_def sat_u32_id)
qed

lemma window_ok_sync [simp, intro]:
  assumes "window_ok now w" "c \<le> u32_max"
  shows "window_ok now (sync c now w)"
proof -
  have p: "window_ok now (prune now w)"
    using assms(1) by simp
  then show ?thesis
    unfolding sync_eq using assms(2) by (intro window_ok_append) (auto simp: window_ok_def sat_u32_id)
qed

lemma window_ok_limit: "window_ok now w \<Longrightarrow> 0 < l \<Longrightarrow> l \<le> u32_max \<Longrightarrow> window_ok now (w\<lparr>w_limit := l\<rparr>)"
  by (simp add: window_ok_def)

lemma window_ok_new: "valid_limit_window sp \<Longrightarrow> window_ok now (window_new sp)"
  by (simp add: window_ok_def window_new_def valid_limit_window_def)

lemma state_ok_later: "state_ok now s \<Longrightarrow> now \<le> now' \<Longrightarrow> state_ok now' s"
  by (auto simp: state_ok_def list_all_iff intro: window_ok_later)

lemma state_ok_map:
  assumes "state_ok now s" "\<And>w. window_ok now w \<Longrightarrow> window_ok now (f w)" "\<And>w. w_seconds (f w) = w_seconds w"
  shows "state_ok now (s\<lparr>windows := map f (windows s)\<rparr>)"
  using assms by (auto simp: state_ok_def list_all_iff comp_def)

lemma set_swap_remove: "i < length xs \<Longrightarrow> set (snd (swap_remove i xs)) \<subseteq> set xs"
  using mset_swap_remove [of i xs] by (metis in_diffD set_mset_mset subsetI)

lemma adopt_ok:
  "list_all (window_ok now) old \<Longrightarrow> list_all valid_limit_window ls \<Longrightarrow> list_all (window_ok now) (adopt old ls)"
proof (induction old ls rule: adopt.induct)
  case (2 old spec rest)
  show ?case
  proof (cases "position (\<lambda>w. w_seconds w = lw_seconds spec) old")
    case None
    then show ?thesis
      using 2 by (simp add: window_ok_new)
  next
    case (Some i)
    then have i: "i < length old"
      using position_Some by blast
    then have "window_ok now (old ! i)" "list_all (window_ok now) (snd (swap_remove i old))"
      using 2(3) set_swap_remove [OF i] by (auto simp: list_all_iff)
    then show ?thesis
      using 2(2) [OF Some refl] 2(4) Some
      by (simp add: swap_remove_def window_ok_limit valid_limit_window_def Let_def)
  qed
qed simp

lemma reconfigure_ok:
  assumes "state_ok now s" "list_all valid_limit_window ls"
  shows "state_ok now (snd (reconfigure ls s))"
proof -
  have "list_all valid_limit_window (sort_key lw_seconds ls)"
    using assms(2) by (simp add: list_all_iff)
  then show ?thesis
    using assms(1) by (auto simp: reconfigure_def state_ok_def Let_def adopt_ok adopt_seconds)
qed

lemma update_first_ok:
  "list_all P ws \<Longrightarrow> (\<And>w. P w \<Longrightarrow> P (f w)) \<Longrightarrow> list_all P (update_first Q f ws)"
  by (induction ws) auto

lemma update_first_map: "(\<And>w. g (f w) = g w) \<Longrightarrow> map g (update_first Q f ws) = map g ws"
  by (induction ws) auto

lemma sync_counts_ok:
  "state_ok now s \<Longrightarrow> list_all (\<lambda>c. cw_count c \<le> u32_max) cs \<Longrightarrow> state_ok now (sync_counts cs now s)"
proof (induction cs arbitrary: s)
  case (Cons c cs)
  define s' where "s' = s\<lparr>windows := update_first (\<lambda>w. w_seconds w = cw_seconds c) (sync (cw_count c) now) (windows s)\<rparr>"
  have "state_ok now s'"
    using Cons.prems by (simp add: s'_def state_ok_def update_first_ok update_first_map)
  then show ?case
    using Cons by (simp add: sync_counts_def flip: s'_def)
qed (simp add: sync_counts_def)

lemma state_ok_new: "list_all valid_limit_window ls \<Longrightarrow> state_ok now (scope_state_new ls)"
  by (auto simp: state_ok_def scope_state_new_def list_all_iff window_ok_new)

lemma state_ok_default: "state_ok now scope_state_default"
  by (simp add: state_ok_def scope_state_default_def)

section \<open>Well-formed limiters\<close>

definition keys_ok :: "limiter \<Rightarrow> bool" where
  "keys_ok l \<longleftrightarrow> distinct (map fst (scopes l)) \<and> (\<forall>s. distinct (map fst (methods (entry_of l s))))"

definition limiter_ok :: "instant \<Rightarrow> limiter \<Rightarrow> bool" where
  "limiter_ok now l \<longleftrightarrow> (\<forall>scope k s. state_at k (entry_of l scope) = Some s \<longrightarrow> state_ok now s)"

lemma limiter_okD: "limiter_ok now l \<Longrightarrow> state_at k (entry_of l scope) = Some s \<Longrightarrow> state_ok now s"
  by (auto simp: limiter_ok_def)

lemma limiter_ok_windows:
  "limiter_ok now l \<Longrightarrow> w \<in> set (windows_of m (entry_of l scope)) \<Longrightarrow> window_ok now w"
  using limiter_okD [of now l None scope] limiter_okD [of now l "Some m" scope]
  by (cases "map_of (methods (entry_of l scope)) m") (auto simp: windows_of_def state_ok_def list_all_iff)

lemma limiter_ok_later: "limiter_ok now l \<Longrightarrow> now \<le> now' \<Longrightarrow> limiter_ok now' l"
  by (auto simp: limiter_ok_def intro: state_ok_later)

lemma state_ok_pruned: "pruned now st = Some s' \<Longrightarrow> (\<And>s. st = Some s \<Longrightarrow> state_ok now s) \<Longrightarrow> state_ok now s'"
  by (cases st) (auto simp: pruned_def intro: state_ok_map)

lemma bootstrap_ok: "state_at k bootstrap = Some s \<Longrightarrow> state_ok now s"
  by (cases k) (auto simp: bootstrap_def scope_entry_default_def BOOTSTRAP_APP_LIMITS_def
      valid_limit_window_def u32_max_def intro!: state_ok_new)

text \<open>What the parser guarantees of the headers the limiter sees.\<close>

definition headers_ok :: "rate_limit_headers \<Rightarrow> bool" where
  "headers_ok h =
     ((case app_limits h of Some ls \<Rightarrow> list_all valid_limit_window ls | None \<Rightarrow> True) \<and>
      (case method_limits h of Some ls \<Rightarrow> list_all valid_limit_window ls | None \<Rightarrow> True) \<and>
      (case app_counts h of Some cs \<Rightarrow> list_all (\<lambda>c. cw_count c \<le> u32_max) cs | None \<Rightarrow> True) \<and>
      (case method_counts h of Some cs \<Rightarrow> list_all (\<lambda>c. cw_count c \<le> u32_max) cs | None \<Rightarrow> True))"

lemma parse_counts_bound:
  "parse_counts h = Some cs \<Longrightarrow> list_all (\<lambda>c. cw_count c \<le> u32_max) cs"
  using pairs_bounds
  by (fastforce simp: parse_counts_def Let_def list_all_iff split: option.splits if_splits)

lemma from_headers_ok: "headers_ok (from_headers get)"
  using parse_limits_wf parse_counts_bound
  by (auto simp: headers_ok_def from_headers_def split: option.splits)

lemma observe_entry_ok:
  assumes h: "headers_ok h" and e: "\<And>k s. state_at k e = Some s \<Longrightarrow> state_ok now s"
    and s: "state_at k (observe_entry m h now e) = Some s"
  shows "state_ok now s"
proof -
  define e1 where "e1 = (case app_limits h of Some ls \<Rightarrow> reconfigure_app ls e | None \<Rightarrow> e)"
  define e2 where "e2 = (case method_limits h of Some ls \<Rightarrow> reconfigure_method m ls e1 | None \<Rightarrow> e1)"
  define e3 where
    "e3 = (case app_counts h of Some cs \<Rightarrow> e2\<lparr>app := sync_counts cs now (app e2)\<rparr> | None \<Rightarrow> e2)"
  have 1: "state_ok now s" if "state_at k e1 = Some s" for k s
    using that h e [of None] e [of k]
    by (auto simp: e1_def headers_ok_def reconfigure_ok split: option.splits if_splits)
  have 2: "state_ok now s" if "state_at k e2 = Some s" for k s
    using that h 1 [of k]
    by (auto simp: e2_def headers_ok_def reconfigure_ok state_ok_default split: option.splits if_splits)
  have 3: "state_ok now s" if "state_at k e3 = Some s" for k s
    using that h 2 [of None] 2 [of k]
    by (auto simp: e3_def headers_ok_def sync_counts_ok split: option.splits if_splits)
  have "observe_entry m h now e = (case (method_counts h, map_of (methods e3) m) of
      (Some cs, Some s) \<Rightarrow> e3\<lparr>methods := AList.update m (sync_counts cs now s) (methods e3)\<rparr> | _ \<Rightarrow> e3)"
    unfolding observe_entry_def Let_def e1_def e2_def e3_def by (rule refl)
  then show ?thesis
    using s h 3 [of k] 3 [of "Some m"]
    by (auto simp: headers_ok_def sync_counts_ok split: option.splits if_splits)
qed

section \<open>Reachable limiters\<close>

text \<open>
  Every operation of the limiter as one step at an instant. \<open>observe\<close> sees parsed headers, and a
  configuration has positive limits in range.
\<close>

inductive limiter_op :: "instant \<Rightarrow> limiter \<Rightarrow> limiter \<Rightarrow> bool" for now l where
  op_attempt: "limiter_op now l (snd (try_take_all s m prio now l))"
| op_observe: "now \<le> later \<Longrightarrow> limiter_op now l (observe s m (from_headers get) now later l)"
| op_freeze: "limiter_op now l (freeze s d now l)"
| op_configure_app: "list_all valid_limit_window ls \<Longrightarrow> limiter_op now l (configure_app s ls l)"
| op_configure_method: "list_all valid_limit_window ls \<Longrightarrow> limiter_op now l (configure_method s m ls l)"
| op_waiter_new: "limiter_op now l (waiter_new s prio l)"
| op_waiter_drop: "limiter_op now l (waiter_drop s prio l)"
| op_usage: "limiter_op now l (snd (usage s now l))"
| op_method_usage: "limiter_op now l (snd (limiter_method_usage s ms now l))"
| op_bulk_blocked: "limiter_op now l (snd (limiter_bulk_blocked now l))"

inductive limiter_run :: "instant \<Rightarrow> limiter \<Rightarrow> instant \<Rightarrow> limiter \<Rightarrow> bool" for now0 l0 where
  lr_start: "limiter_run now0 l0 now0 l0"
| lr_step: "limiter_run now0 l0 now l \<Longrightarrow> now \<le> now' \<Longrightarrow> limiter_op now' l l' \<Longrightarrow> limiter_run now0 l0 now' l'"

lemma limiter_ok_cases:
  assumes "limiter_ok now l"
    and "\<And>k t. state_at k (entry_of l' t) \<in> {pruned now (state_at k (entry_of l t)), state_at k (entry_of l t)}"
  shows "limiter_ok now l'"
  unfolding limiter_ok_def
proof (intro allI impI)
  fix scope k s
  assume "state_at k (entry_of l' scope) = Some s"
  then show "state_ok now s"
    using assms(2) [of k scope] limiter_okD [OF assms(1), of k scope] by (auto intro: state_ok_pruned)
qed

lemma limiter_op_ok: "limiter_op now l l' \<Longrightarrow> limiter_ok now l \<Longrightarrow> limiter_ok now l'"
proof (induction rule: limiter_op.induct)
  case (op_attempt s m prio)
  then show ?case
    by (auto simp: limiter_ok_def try_take_all_state split: if_splits intro!: state_ok_map)
next
  case (op_observe later s m get)
  then show ?case
    by (auto simp: limiter_ok_def state_at_observe intro: observe_entry_ok [OF from_headers_ok])
next
  case (op_configure_app ls s)
  then show ?case
    by (auto simp: limiter_ok_def configure_app_def dest: spec [of _ s] intro!: reconfigure_ok
        split: if_splits) (metis state_at.simps(1))+
next
  case (op_configure_method ls s m)
  have "state_ok now st" if "state_at k (reconfigure_method m ls (entry_of l s)) = Some st" for k st
    using that op_configure_method limiter_okD [of now l k s]
    by (auto simp: reconfigure_ok state_ok_default split: if_splits option.splits)
  then show ?case
    using op_configure_method.prems by (auto simp: limiter_ok_def configure_method_def)
next
  case (op_usage s)
  then show ?case
    by (rule limiter_ok_cases) (simp add: state_at_usage)
next
  case (op_method_usage s ms)
  then show ?case
    by (rule limiter_ok_cases) (rule state_at_method_usage)
next
  case op_bulk_blocked
  then show ?case
    by (rule limiter_ok_cases) (rule state_at_bulk_blocked)
qed (auto intro: limiter_ok_cases)

subsection \<open>One entry per key\<close>

lemma keys_ok_put: "keys_ok l \<Longrightarrow> distinct (map fst (methods e)) \<Longrightarrow> keys_ok (put_entry s e l)"
proof -
  assume l: "keys_ok l" and e: "distinct (map fst (methods e))"
  have "distinct (map fst (scopes (put_entry s e l)))"
    using l by (simp add: keys_ok_def put_entry_def distinct_update)
  then show ?thesis
    using l e by (simp add: keys_ok_def)
qed

lemma keys_okD: "keys_ok l \<Longrightarrow> distinct (map fst (methods (entry_of l s)))"
  by (simp add: keys_ok_def)

lemma keys_update: "map_of al k = Some v \<Longrightarrow> map fst (AList.update k v' al) = map fst al"
  by (induction al) (auto split: if_splits)

lemma keys_put_windows: "map fst (methods (put_windows m ws e)) = map fst (methods e)"
  by (auto simp: put_windows_def Let_def keys_update split: option.splits)

lemma keys_take_entry: "map fst (methods (snd (take_entry l m prio now e))) = map fst (methods e)"
  by (simp add: take_entry_def case_prod_unfold Let_def keys_put_windows)

lemma keys_try_take_all:
  "\<exists>e. snd (try_take_all s m prio now l) = put_entry s e l \<and>
     map fst (methods e) = map fst (methods (entry_of l s))"
  by (cases "frozen now (entry_of l s)")
    (auto simp: try_take_all_frozen try_take_all_thawed case_prod_unfold Let_def keys_take_entry touched_def)

lemma keys_reconfigure [simp]:
  "methods (reconfigure_app ls e) = methods e"
  "distinct (map fst (methods e)) \<Longrightarrow> distinct (map fst (methods (reconfigure_method m ls e)))"
  by (simp_all add: reconfigure_app_def reconfigure_method_def Let_def distinct_update)

lemma keys_observe_entry:
  "distinct (map fst (methods e)) \<Longrightarrow> distinct (map fst (methods (observe_entry m h now e)))"
  by (auto simp: observe_entry_def Let_def distinct_update split: option.splits)

lemma keys_methods_usage: "map fst (methods (snd (methods_usage now ms e))) = map fst (methods e)"
proof (induction ms arbitrary: e)
  case (Cons m ms)
  show ?case
  proof (cases "map_of (methods e) m")
    case (Some s)
    then show ?thesis
      using Cons by (simp add: case_prod_unfold Let_def keys_update)
  qed (simp add: Cons case_prod_unfold Let_def)
qed simp

lemma keys_blocked_entry: "map fst (methods (snd (blocked_entry l now s e))) = map fst (methods e)"
  by (cases rule: blocked_entry_cases [of l now s e]) (simp_all add: comp_def case_prod_unfold)

lemma keys_ok_waiting [simp]:
  "keys_ok (l\<lparr>interactive_waiting := x\<rparr>) = keys_ok l" "keys_ok (l\<lparr>bulk_waiting := x\<rparr>) = keys_ok l"
  by (simp_all add: keys_ok_def)

lemma keys_ok_update_entry:
  "keys_ok l \<Longrightarrow> (\<And>e. methods (f e) = methods e) \<Longrightarrow> keys_ok (update_entry s f l)"
  using keys_okD [of l s] by (auto simp: update_entry_def map_of_scopes intro!: keys_ok_put split: option.splits)

lemma scopes_bulk_blocked:
  "scopes (snd (limiter_bulk_blocked now l)) =
     map (\<lambda>(scope, e). (scope, snd (blocked_entry l now scope e))) (scopes l)"
  by (simp add: limiter_bulk_blocked_def Let_def case_prod_unfold comp_def)

lemma keys_ok_bulk_blocked:
  assumes "keys_ok l"
  shows "keys_ok (snd (limiter_bulk_blocked now l))"
proof -
  have "distinct (map fst (methods (entry_of (snd (limiter_bulk_blocked now l)) s)))" for s
  proof (cases "map_of (scopes l) s")
    case (Some e)
    then show ?thesis
      using keys_okD [OF assms, of s] map_of_scopes [OF Some]
      by (simp add: entry_of_def [of "snd (limiter_bulk_blocked now l)"] map_of_bulk_blocked keys_blocked_entry)
  next
    case None
    then show ?thesis
      using keys_okD [OF assms, of s] by (simp add: entry_of_def map_of_bulk_blocked)
  qed
  then show ?thesis
    using assms by (simp add: keys_ok_def scopes_bulk_blocked comp_def case_prod_unfold)
qed

lemma keys_ok_freeze: "keys_ok l \<Longrightarrow> keys_ok (freeze s d now l)"
  by (simp add: freeze_def Let_def keys_ok_put keys_okD)

lemma limiter_op_keys: "limiter_op now l l' \<Longrightarrow> keys_ok l \<Longrightarrow> keys_ok l'"
proof (induction rule: limiter_op.induct)
  case (op_attempt s m prio)
  then show ?case
    using keys_try_take_all [of s m prio now l] keys_okD [of l s] by (auto intro!: keys_ok_put)
next
  case (op_observe later s m get)
  then have "keys_ok (put_entry s (observe_entry m (from_headers get) now (entry_of l s)) l)"
    by (intro keys_ok_put keys_observe_entry keys_okD)
  then show ?case
    by (auto simp: observe_def Let_def keys_ok_freeze split: option.splits)
next
  case (op_usage s)
  then show ?case
    using keys_okD [of l s]
    by (auto simp: usage_def case_prod_unfold Let_def map_of_scopes intro!: keys_ok_put split: option.splits)
next
  case (op_method_usage s ms)
  then show ?case
    using keys_okD [of l s]
    by (auto simp: limiter_method_usage_def case_prod_unfold Let_def map_of_scopes keys_methods_usage
        intro!: keys_ok_put split: option.splits)
qed (auto simp: configure_app_def configure_method_def waiter_new_def waiter_drop_def keys_ok_bulk_blocked
    intro!: keys_ok_put keys_ok_freeze keys_ok_update_entry keys_reconfigure(2) keys_okD split: priority.splits)

lemma limiter_run_keys: "limiter_run now0 l0 now l \<Longrightarrow> keys_ok l0 \<Longrightarrow> keys_ok l"
  by (induction rule: limiter_run.induct) (auto intro: limiter_op_keys)

lemma limiter_new_keys: "keys_ok (with_idle_ceiling c d (limiter_new c'))"
  by (simp add: keys_ok_def entry_of_def with_idle_ceiling_def limiter_new_def bootstrap_def
      scope_entry_default_def)

lemma limiter_run_ok:
  "limiter_run now0 l0 now l \<Longrightarrow> limiter_ok now0 l0 \<Longrightarrow> now0 \<le> now \<and> limiter_ok now l"
  by (induction rule: limiter_run.induct) (auto intro: limiter_op_ok limiter_ok_later)

lemma limiter_new_ok: "limiter_ok now (with_idle_ceiling c d (limiter_new c'))"
  by (simp add: limiter_ok_def entry_of_def with_idle_ceiling_def limiter_new_def bootstrap_ok)

end
