(* ===== verification/Limiter_Props.thy ===== *)
theory Limiter_Props
  imports Limiter_Invariant
begin

text \<open>
  The promises of the rate limiter: the rolling limit, all-or-nothing taking, exact waits, bulk's
  ceiling and its report to the job claim, freezes, and the acquire loop.
\<close>

section \<open>Shared facts\<close>

lemma windows_of_state:
  "windows_of m e = (case state_at None e of Some s \<Rightarrow> windows s | None \<Rightarrow> []) @
     (case state_at (Some m) e of Some s \<Rightarrow> windows s | None \<Rightarrow> [])"
  by (simp add: windows_of_def)

lemma windows_of_attempt:
  "windows_of m (entry_of (snd (try_take_all scope m prio now l)) scope) =
     (let ws = windows_of m (entry_of l scope) in
      if frozen now (entry_of l scope) then ws
      else if fst (try_take_all scope m prio now l) = Taken then map (snd \<circ> try_take now) ws
      else map (prune now) ws)"
  by (simp only: windows_of_state try_take_all_state) (auto simp: Let_def split: option.splits)

lemma attempt_cases:
  obtains (frozen) "frozen now (entry_of l scope)"
      "fst (try_take_all scope m prio now l) = WaitUntil (the (frozen_until (entry_of l scope)))"
  | (thawed) share idle_at where "\<not> frozen now (entry_of l scope)"
      "ceiling_for l (last_interactive (touched prio now (entry_of l scope))) now = (share, idle_at)"
      "fst (try_take_all scope m prio now l) =
         fst (take_windows prio (interactive_waiters (entry_of l scope) > 0) (share, idle_at) now
           (windows_of m (entry_of l scope)))"
proof (cases "frozen now (entry_of l scope)")
  case True
  then show thesis
    by (intro frozen) (simp_all add: try_take_all_frozen)
next
  case False
  then show thesis
    by (intro thawed [of "fst (ceiling_for l (last_interactive (touched prio now (entry_of l scope))) now)"
          "snd (ceiling_for l (last_interactive (touched prio now (entry_of l scope))) now)"])
      (simp_all add: try_take_all_thawed take_entry_def case_prod_unfold Let_def)
qed

lemma ceiling_for_later: "ceiling_for l t now = (share, Some at') \<Longrightarrow> now < at'"
  by (auto simp: ceiling_for_def split: option.splits if_splits)

lemma window_ok_next_free:
  assumes "window_ok now w" "now \<le> t"
  shows "fst (try_take t w) \<longleftrightarrow> fst (next_free now w) \<le> t"
  using assms next_free_iff [of w now t] by (auto simp: window_ok_def ordered_def)

lemma all_room_iff:
  assumes "list_all (window_ok now) ws" "now \<le> t"
  shows "all_room t ws \<longleftrightarrow> max_or t (map (\<lambda>w. fst (next_free now w)) ws) \<le> t"
proof -
  have "all_room t ws \<longleftrightarrow> (\<forall>w \<in> set ws. fst (next_free now w) \<le> t)"
    using assms window_ok_next_free [of now _ t] by (simp add: list_all_iff)
  then show ?thesis
    by (simp add: max_or_le_iff)
qed

lemma try_take_later_prune: "now \<le> t \<Longrightarrow> try_take t (prune now w) = try_take t w"
  by (simp add: try_take_cases prune_later)

lemma limiter_ok_list: "limiter_ok now l \<Longrightarrow> list_all (window_ok now) (windows_of m (entry_of l scope))"
  by (simp add: list_all_iff limiter_ok_windows)

section \<open>The rolling limit\<close>

text \<open>C1. Over any run of the limiter, whatever the callers, scopes and priorities, no interval of
  \<open>n\<close> seconds holds more than \<open>L\<close> grants that count against a window of \<open>n\<close> seconds, app or method,
  whose announced limit never exceeds \<open>L\<close>.\<close>

theorem limiter_rolling_limit:
  assumes "logged_run (limiter_step scope k n L) l0 now grants l" "limited scope k n L l0"
  shows "count_in x (x + of_secs n) grants \<le> L"
  using assms by (rule lim.rolling_bound)

lemma start_euw1:
  "fst (try_take_all ''euw1'' ''m'' Interactive 5 (limiter_new (4/5))) = Taken"
  "limited ''euw1'' None 1 20 (limiter_new (4/5))"
  by (simp_all add: limiter_simps limited_def window_at_def the_window_def)

theorem limiter_rolling_limit_witness:
  "logged_run (limiter_step ''euw1'' None 1 20) (limiter_new (4/5)) 5 [5]
     (snd (try_take_all ''euw1'' ''m'' Interactive 5 (limiter_new (4/5)))) \<and>
   count_in 2 (2 + of_secs 1) [5] \<le> 20"
proof -
  have "limiter_step ''euw1'' None 1 20 (limiter_new (4/5)) 5 True
      (snd (try_take_all ''euw1'' ''m'' Interactive 5 (limiter_new (4/5))))"
    by (rule ls_attempt [where a = Taken and prio = Interactive and m = "''m''"])
      (use start_euw1(1) in \<open>auto simp: prod_eq_iff\<close>)
  then have "logged_run (limiter_step ''euw1'' None 1 20) (limiter_new (4/5)) 5 ([] @ [5])
      (snd (try_take_all ''euw1'' ''m'' Interactive 5 (limiter_new (4/5))))"
    by (rule run_grant [OF run_start order.refl])
  then show ?thesis
    using limiter_rolling_limit [OF _ start_euw1(2), of 5 "[5]" _ 2] by simp
qed

section \<open>All or nothing\<close>

text \<open>C2. An attempt either takes one token from every app and method window of the request, and then
  every one of them had room, or it takes from none: the windows only lose admissions that have
  expired, and a frozen scope's windows do not change at all.\<close>

theorem try_take_all_or_nothing:
  "let ws = windows_of m (entry_of l scope);
       (a, l') = try_take_all scope m prio now l in
   windows_of m (entry_of l' scope) =
     (if frozen now (entry_of l scope) then ws
      else if a = Taken then map (snd \<circ> try_take now) ws
      else map (prune now) ws) \<and>
   (a = Taken \<longleftrightarrow> \<not> frozen now (entry_of l scope) \<and> list_all (\<lambda>w. fst (try_take now w)) ws \<and>
     (prio = Interactive \<or> interactive_waiters (entry_of l scope) = 0 \<and>
        ceiling_clear (fst (ceiling_for l (last_interactive (entry_of l scope)) now)) now ws \<le> now))"
  using windows_of_attempt [of m scope prio now l] try_take_all_Taken [of scope m prio now l]
  by (cases prio) (simp_all add: case_prod_unfold Let_def)

section \<open>Waits\<close>

text \<open>The invariant every reachable limiter has.\<close>

text \<open>Every limiter that a run of operations reaches from a new one is well formed: each window's
  admissions are oldest first, none ahead of the clock, its limit positive and in range, windows are
  shortest first, and the maps have one entry per key.\<close>

theorem limiter_reachable_wf:
  assumes "limiter_run now0 (with_idle_ceiling idle after (limiter_new share)) now l"
  shows "limiter_ok now l \<and> keys_ok l"
  using limiter_run_ok [OF assms limiter_new_ok] limiter_run_keys [OF assms limiter_new_keys] by simp

theorem limiter_reachable_wf_witness:
  "limiter_ok 7 (snd (try_take_all ''euw1'' ''m'' Bulk 7 (with_idle_ceiling 1 0 (limiter_new (4/5))))) \<and>
   keys_ok (snd (try_take_all ''euw1'' ''m'' Bulk 7 (with_idle_ceiling 1 0 (limiter_new (4/5)))))"
  by (rule limiter_reachable_wf [OF lr_step [OF lr_start [of 7] order.refl op_attempt]])

lemma wait_thawed_pruned:
  assumes "\<not> frozen now (entry_of l scope)" "fst (try_take_all scope m prio now l) \<noteq> Taken"
  shows "windows_of m (entry_of (snd (try_take_all scope m prio now l)) scope) =
      map (prune now) (windows_of m (entry_of l scope))"
    and "\<not> frozen t (entry_of (snd (try_take_all scope m prio now l)) scope)"
proof -
  show "windows_of m (entry_of (snd (try_take_all scope m prio now l)) scope) =
      map (prune now) (windows_of m (entry_of l scope))"
    using assms by (simp add: windows_of_attempt Let_def)
  show "\<not> frozen t (entry_of (snd (try_take_all scope m prio now l)) scope)"
    using assms(1) by (simp add: try_take_all_thawed take_entry_def case_prod_unfold Let_def frozen_def)
qed

lemma interactive_wait_eq:
  assumes "\<not> frozen now (entry_of l scope)"
    and "fst (try_take_all scope m Interactive now l) = WaitUntil u"
  shows "u = max_or now (map (\<lambda>w. fst (next_free now w)) (windows_of m (entry_of l scope)))"
    and "\<not> all_room now (windows_of m (entry_of l scope))"
proof -
  have "fst (take_or_roll_back now (windows_of m (entry_of l scope))) = WaitUntil u"
    by (cases rule: attempt_cases [of now l scope m Interactive]) (use assms in \<open>simp_all add: take_windows_eq\<close>)
  then show "u = max_or now (map (\<lambda>w. fst (next_free now w)) (windows_of m (entry_of l scope)))"
    and "\<not> all_room now (windows_of m (entry_of l scope))"
    by (simp_all add: take_or_roll_back_eq split: if_splits)
qed

lemma wait_exact:
  assumes "limiter_ok now l" "\<not> frozen now (entry_of l scope)"
    and "try_take_all scope m Interactive now l = (WaitUntil u, l')" "now \<le> t"
  shows "fst (try_take_all scope m Interactive t l') = Taken \<longleftrightarrow> u \<le> t"
proof -
  let ?ws = "windows_of m (entry_of l scope)"
  have l': "l' = snd (try_take_all scope m Interactive now l)"
      and u: "fst (try_take_all scope m Interactive now l) = WaitUntil u"
    using assms(3) by simp_all
  note wait = interactive_wait_eq [OF assms(2) u]
  have "windows_of m (entry_of l' scope) = map (prune now) ?ws" "\<not> frozen t (entry_of l' scope)"
    using wait_thawed_pruned [OF assms(2), of m Interactive] u by (simp_all add: l')
  then have "fst (try_take_all scope m Interactive t l') = Taken \<longleftrightarrow> all_room t ?ws"
    using assms(4) by (simp add: try_take_all_Taken Let_def list_all_iff try_take_later_prune)
  also have "\<dots> \<longleftrightarrow> max_or t (map (\<lambda>w. fst (next_free now w)) ?ws) \<le> t"
    using all_room_iff [OF limiter_ok_list [OF assms(1)] assms(4)] .
  also have "\<dots> \<longleftrightarrow> u \<le> t"
  proof -
    have "?ws \<noteq> []"
      using wait(2) by auto
    then show ?thesis
      by (simp add: wait(1) max_or_le_iff)
  qed
  finally show ?thesis .
qed

text \<open>C3. The instant an interactive caller is told to wait for is exact: if nothing else happens, an
  attempt at any later time \<open>t\<close> is granted just when \<open>t\<close> has reached it.\<close>

theorem interactive_wait_exact:
  assumes "limiter_ok now l" "\<not> frozen now (entry_of l scope)"
    and "try_take_all scope m Interactive now l = (WaitUntil u, l')" "now \<le> t"
  shows "fst (try_take_all scope m Interactive t l') = Taken \<longleftrightarrow> u \<le> t"
  using assms by (rule wait_exact)

definition full_limiter :: limiter where
  "full_limiter = snd (try_take_all ''euw1'' ''m'' Interactive 5
     (configure_app ''euw1'' [\<lparr>lw_limit = 1, lw_seconds = 10\<rparr>] (limiter_new (4/5))))"

lemma full_limiter_eq:
  "full_limiter = \<lparr>bulk_ceiling = 4/5, idle_ceiling = 4/5, idle_after = 0,
     scopes = [(''euw1'', \<lparr>app = \<lparr>windows = [\<lparr>w_limit = 1, w_seconds = 10, w_admitted = [5]\<rparr>]\<rparr>,
       app_known = True, methods = [], frozen_until = None, interactive_waiters = 0,
       last_interactive = Some 5\<rparr>)],
     bulk_waiting = 0, interactive_waiting = 0\<rparr>"
  by (simp add: full_limiter_def limiter_simps)

lemma full_limiter_ok: "limiter_ok 5 full_limiter"
proof -
  have "limiter_run 5 (with_idle_ceiling (4/5) 0 (limiter_new (4/5))) 5 full_limiter"
    unfolding full_limiter_def
    by (rule lr_step [OF lr_step [OF lr_start order.refl op_configure_app] order.refl])
      (auto simp: with_idle_ceiling_def limiter_new_def valid_limit_window_def u32_max_def
        intro: op_attempt)
  then show ?thesis
    using limiter_run_ok limiter_new_ok by blast
qed

lemma wait_ahead:
  assumes "limiter_ok now l" "fst (try_take_all scope m prio now l) = WaitUntil u"
  shows "now < u"
proof (cases rule: attempt_cases [of now l scope m prio])
  case frozen
  then show ?thesis
    using assms(2) by (auto simp: frozen_def split: option.splits)
next
  case (thawed share idle_at)
  let ?ws = "windows_of m (entry_of l scope)"
  have take: "now < u" if "fst (take_or_roll_back now ?ws) = WaitUntil u"
    using that all_room_iff [OF limiter_ok_list [OF assms(1), of m scope] order.refl]
    by (auto simp: take_or_roll_back_eq split: if_splits)
  show ?thesis
    using thawed assms(2) take ceiling_for_later [of l _ now share]
    by (auto simp: take_windows_eq of_millis_def split: if_splits option.splits)
qed

text \<open>An attempt never asks its caller to wait until an instant that has already come, so the
  acquire loop cannot spin: on every branch, frozen, at bulk's ceiling, behind an interactive caller
  or out of tokens, the instant is ahead of the clock.\<close>

theorem wait_is_ahead:
  assumes "limiter_ok now l" "fst (try_take_all scope m prio now l) = WaitUntil u"
  shows "now < u"
  using assms by (rule wait_ahead)

theorem wait_is_ahead_witness:
  "limiter_ok 5 full_limiter \<and>
   fst (try_take_all ''euw1'' ''m'' Bulk 5 full_limiter) = WaitUntil 10000000005 \<and> 5 < (10000000005 :: nat)"
proof -
  have "fst (try_take_all ''euw1'' ''m'' Bulk 5 full_limiter) = WaitUntil 10000000005"
    by (simp add: full_limiter_eq limiter_simps max_under_ceiling_def f64_mul_def)
  then show ?thesis
    using full_limiter_ok wait_is_ahead [OF full_limiter_ok] by blast
qed

theorem interactive_wait_exact_witness:
  "fst (try_take_all ''euw1'' ''m'' Interactive 10000000004
     (snd (try_take_all ''euw1'' ''m'' Interactive 5 full_limiter))) \<noteq> Taken \<and>
   fst (try_take_all ''euw1'' ''m'' Interactive 10000000005
     (snd (try_take_all ''euw1'' ''m'' Interactive 5 full_limiter))) = Taken"
proof -
  have "fst (try_take_all ''euw1'' ''m'' Interactive 5 full_limiter) = WaitUntil 10000000005"
    "\<not> frozen 5 (entry_of full_limiter ''euw1'')"
    by (simp_all add: full_limiter_eq limiter_simps frozen_def)
  then have "fst (try_take_all ''euw1'' ''m'' Interactive t
      (snd (try_take_all ''euw1'' ''m'' Interactive 5 full_limiter))) = Taken \<longleftrightarrow> 10000000005 \<le> t"
    if "5 \<le> t" for t
    using that by (intro interactive_wait_exact [OF full_limiter_ok]) (simp_all add: prod_eq_iff)
  then show ?thesis
    by simp
qed

section \<open>Bulk's ceiling\<close>

text \<open>A ceiling is a share of the limit, as the configuration checks.\<close>

definition ceilings_ok :: "limiter \<Rightarrow> bool" where
  "ceilings_ok l = (0 \<le> bulk_ceiling l \<and> bulk_ceiling l \<le> 1 \<and> 0 \<le> idle_ceiling l \<and> idle_ceiling l \<le> 1)"

lemma ceilings_ok_for: "ceilings_ok l \<Longrightarrow> ceiling_for l t now = (share, i) \<Longrightarrow> 0 \<le> share \<and> share \<le> 1"
  by (auto simp: ceilings_ok_def ceiling_for_def split: option.splits if_splits)

lemma max_under_ceiling_iff:
  assumes "limit \<le> u32_max" "0 \<le> share" "share \<le> 1"
  shows "k \<le> max_under_ceiling limit share \<longleftrightarrow> k = 0 \<or> of_nat k < f64_mul (of_nat limit) share"
proof -
  define t where "t = f64_mul (of_nat limit) share"
  have "limit \<le> 2 ^ 53"
    using assms(1) by (simp add: u32_max_def)
  then have t: "0 \<le> t" "t \<le> of_nat limit"
    using ieee.share_nonneg [OF assms(2)] ieee.share_le [OF _ assms(3)] by (simp_all add: t_def f64_mul_def)
  have "\<lceil>t\<rceil> \<le> int limit"
    using t(2) by (simp add: ceiling_le_iff)
  then have c: "nat \<lceil>t\<rceil> \<le> u32_max" "0 \<le> \<lceil>t\<rceil>"
    using assms(1) t(1) by auto
  have "k \<le> nat \<lceil>t\<rceil> - 1 \<longleftrightarrow> k = 0 \<or> int k < \<lceil>t\<rceil>"
    using c by auto
  also have "\<dots> \<longleftrightarrow> k = 0 \<or> of_nat k < t"
    by (simp add: less_ceiling_iff)
  finally show ?thesis
    using c by (simp add: max_under_ceiling_def f64_as_u32_def sat_u32_id flip: t_def)
qed

text \<open>Under the ceiling is inside the limit.\<close>

lemma under_ceiling_room:
  assumes "window_ok now w" "0 \<le> share" "share \<le> 1"
    and "fst (used now w) \<le> max_under_ceiling (w_limit w) share"
  shows "fst (try_take now w)"
proof -
  have lim: "0 < w_limit w" "w_limit w \<le> u32_max"
    using assms(1) by (simp_all add: window_ok_def)
  have "f64_mul (of_nat (w_limit w)) share \<le> of_nat (w_limit w)"
    using ieee.share_le [of "w_limit w" share] lim assms(3) by (simp add: f64_mul_def u32_max_def)
  moreover have "fst (used now w) = 0 \<or> of_nat (fst (used now w)) < f64_mul (of_nat (w_limit w)) share"
    using max_under_ceiling_iff [OF lim(2) assms(2,3)] assms(4) by simp
  ultimately show ?thesis
    using lim(1) by (force simp: try_take_iff_used)
qed

text \<open>The condition bulk's ceiling puts on one window.\<close>

definition under_ceiling :: "f64 \<Rightarrow> instant \<Rightarrow> window \<Rightarrow> bool" where
  "under_ceiling share now w =
     (fst (used now w) = 0 \<or> of_nat (fst (used now w)) < f64_mul (of_nat (w_limit w)) share)"

lemma until_clear_iff:
  assumes "window_ok now w" "0 \<le> share" "share \<le> 1"
  shows "fst (until_at_most (max_under_ceiling (w_limit w) share) now w) \<le> now \<longleftrightarrow> under_ceiling share now w"
  using until_at_most_iff [of w now now "max_under_ceiling (w_limit w) share"]
    max_under_ceiling_iff [of "w_limit w" share] assms
  by (auto simp: window_ok_def ordered_def under_ceiling_def)

lemma under_ceiling_try_take:
  "window_ok now w \<Longrightarrow> 0 \<le> share \<Longrightarrow> share \<le> 1 \<Longrightarrow> under_ceiling share now w \<Longrightarrow> fst (try_take now w)"
  using under_ceiling_room max_under_ceiling_iff [of "w_limit w" share]
  by (auto simp: window_ok_def under_ceiling_def)

lemma ceiling_clear_iff:
  assumes "list_all (window_ok now) ws" "0 \<le> share" "share \<le> 1"
  shows "ceiling_clear share now ws \<le> now \<longleftrightarrow> list_all (under_ceiling share now) ws"
  using assms until_clear_iff [of now _ share] by (auto simp: max_or_le_iff list_all_iff)

lemma bulk_taken_iff:
  assumes "limiter_ok now l" "ceilings_ok l"
  shows "fst (try_take_all scope m Bulk now l) = Taken \<longleftrightarrow>
    (let e = entry_of l scope in \<not> frozen now e \<and> interactive_waiters e = 0 \<and>
      list_all (under_ceiling (fst (ceiling_for l (last_interactive e) now)) now) (windows_of m e))"
proof -
  define e where "e = entry_of l scope"
  define share where "share = fst (ceiling_for l (last_interactive e) now)"
  have s: "0 \<le> share" "share \<le> 1"
    using ceilings_ok_for [OF assms(2), of "last_interactive e" now share] by (auto simp: share_def prod_eq_iff)
  have ok: "list_all (window_ok now) (windows_of m e)"
    using limiter_ok_list [OF assms(1)] by (simp add: e_def)
  have "list_all (under_ceiling share now) (windows_of m e) \<Longrightarrow> all_room now (windows_of m e)"
    using ok s under_ceiling_try_take by (auto simp: list_all_iff)
  then show ?thesis
    using ceiling_clear_iff [OF ok s]
    by (auto simp: try_take_all_Taken Let_def simp flip: e_def share_def)
qed

text \<open>C4. A bulk request is granted exactly when the scope is not frozen, no interactive caller waits
  on it, and every window of the request is either empty or below the ceiling that applies, its
  share of the limit computed in double precision. Nothing else holds bulk back, in particular the
  windows' own limits never do.\<close>

theorem bulk_granted_iff_under_ceiling:
  assumes "limiter_ok now l" "ceilings_ok l"
  shows "fst (try_take_all scope m Bulk now l) = Taken \<longleftrightarrow>
    (let e = entry_of l scope; share = fst (ceiling_for l (last_interactive e) now) in
      \<not> frozen now e \<and> interactive_waiters e = 0 \<and>
      list_all (\<lambda>w. fst (used now w) = 0 \<or>
        of_nat (fst (used now w)) < f64_mul (of_nat (w_limit w)) share) (windows_of m e))"
  using bulk_taken_iff [OF assms] by (simp add: Let_def under_ceiling_def [abs_def])

lemma full_limiter_ceilings: "ceilings_ok full_limiter"
  by (simp add: ceilings_ok_def full_limiter_eq)

theorem bulk_granted_iff_under_ceiling_witness:
  "ceilings_ok full_limiter \<and> limiter_ok 5 full_limiter \<and>
   fst (try_take_all ''euw1'' ''m'' Bulk 5 full_limiter) \<noteq> Taken"
proof -
  have "\<not> (1 < f64_mul 1 (4/5))"
    by code_simp
  then show ?thesis
    using bulk_granted_iff_under_ceiling [OF full_limiter_ok full_limiter_ceilings, of "''euw1''" "''m''"]
      full_limiter_ok full_limiter_ceilings
    by (simp add: full_limiter_eq limiter_simps)
qed

section \<open>The report to the job claim\<close>

lemma clear_at_iff:
  assumes "window_ok now w" "ceilings_ok l" "ceiling_for l t now = ci"
  shows "fst (clear_at ci now w) \<le> now \<longleftrightarrow> under_ceiling (fst ci) now w"
proof -
  obtain share i where ci: "ci = (share, i)"
    by fastforce
  have "0 \<le> share \<and> share \<le> 1" "\<And>a. i = Some a \<Longrightarrow> now < a"
    using assms(2,3) ceilings_ok_for ceiling_for_later ci by blast+
  then show ?thesis
    using until_clear_iff [OF assms(1), of share]
    by (auto simp: ci clear_at_def case_prod_unfold Let_def min_le_iff_disj split: option.splits)
qed

lemma blocked_state_iff:
  assumes "state_ok now s" "ceilings_ok l" "ceiling_for l t now = ci"
  shows "fst (blocked_state ci now from s) \<le> now \<longleftrightarrow>
    from \<le> now \<and> list_all (under_ceiling (fst ci) now) (windows s)"
  using assms(1) clear_at_iff [OF _ assms(2,3)]
  by (auto simp: blocked_state_def case_prod_unfold Let_def fold_max_eq state_ok_def list_all_iff)

text \<open>Nothing in the scope's own state holds bulk back.\<close>

definition scope_free :: "limiter \<Rightarrow> instant \<Rightarrow> scope_entry \<Rightarrow> bool" where
  "scope_free l now e \<longleftrightarrow> \<not> frozen now e \<and> interactive_waiters e = 0 \<and>
     list_all (under_ceiling (fst (ceiling_for l (last_interactive e) now)) now) (windows (app e))"

lemma blocked_entry_scopes:
  assumes "\<And>k s. state_at k e = Some s \<Longrightarrow> state_ok now s" "ceilings_ok l"
  shows "bb_scopes (fst (blocked_entry l now scope e)) = [] \<longleftrightarrow> scope_free l now e"
    and "(s, u) \<in> set (bb_scopes (fst (blocked_entry l now scope e))) \<Longrightarrow> s = scope"
proof -
  have "state_ok now (app e)"
    using assms(1) [of None] by simp
  then have b: "now < fst (blocked_state (ceiling_for l (last_interactive e) now) now lo (app e)) \<longleftrightarrow>
      \<not> (lo \<le> now \<and>
        list_all (under_ceiling (fst (ceiling_for l (last_interactive e) now)) now) (windows (app e)))" for lo
    using blocked_state_iff [OF _ assms(2) refl] by (metis not_le)
  show "bb_scopes (fst (blocked_entry l now scope e)) = [] \<longleftrightarrow> scope_free l now e"
    by (auto simp: blocked_entry_def case_prod_unfold Let_def scope_free_def frozen_def less_max_iff_disj b
        INTERACTIVE_RECHECK_def of_millis_def split: option.splits if_splits)
  show "(s, u) \<in> set (bb_scopes (fst (blocked_entry l now scope e))) \<Longrightarrow> s = scope"
    by (auto simp: blocked_entry_def case_prod_unfold Let_def split: if_splits)
qed

lemma blocked_entry_methods:
  assumes "\<And>k s. state_at k e = Some s \<Longrightarrow> state_ok now s" "ceilings_ok l" "distinct (map fst (methods e))"
    and "scope_free l now e"
  shows "(\<exists>u. (scope, m, u) \<in> set (bb_methods (fst (blocked_entry l now scope e)))) \<longleftrightarrow>
    (\<exists>s. map_of (methods e) m = Some s \<and>
      \<not> list_all (under_ceiling (fst (ceiling_for l (last_interactive e) now)) now) (windows s))"
proof -
  let ?ci = "ceiling_for l (last_interactive e) now"
  have "bb_scopes (fst (blocked_entry l now scope e)) = []"
    using blocked_entry_scopes(1) [of e now l scope] assms by simp
  then have ms: "bb_methods (fst (blocked_entry l now scope e)) =
      map (\<lambda>x. (scope, fst x, fst (blocked_state ?ci now now (snd x))))
        (filter (\<lambda>x. now < fst (blocked_state ?ci now now (snd x))) (methods e))"
    by (auto simp: blocked_entry_def case_prod_unfold Let_def filter_map comp_def split: if_splits)
  have iff: "now < fst (blocked_state ?ci now now s) \<longleftrightarrow> \<not> list_all (under_ceiling (fst ?ci) now) (windows s)"
    if "(m, s) \<in> set (methods e)" for s
    using blocked_state_iff [OF assms(1) [of "Some m" s] assms(2) refl, of "last_interactive e" now] that assms(3)
    by (simp add: not_le [symmetric])
  have "(\<exists>u. (scope, m, u) \<in> set (bb_methods (fst (blocked_entry l now scope e)))) \<longleftrightarrow>
      (\<exists>s. (m, s) \<in> set (methods e) \<and> now < fst (blocked_state ?ci now now s))"
    by (force simp: ms)
  then show ?thesis
    using iff assms(3) by auto
qed

lemma set_bb:
  "(scope, u) \<in> set (bb_scopes (fst (limiter_bulk_blocked now l))) \<longleftrightarrow>
     (\<exists>e. (scope, e) \<in> set (scopes l) \<and> (scope, u) \<in> set (bb_scopes (fst (blocked_entry l now scope e))))"
  "(scope, m, u) \<in> set (bb_methods (fst (limiter_bulk_blocked now l))) \<longleftrightarrow>
     (\<exists>e. (scope, e) \<in> set (scopes l) \<and> (scope, m, u) \<in> set (bb_methods (fst (blocked_entry l now scope e))))"
proof -
  have own: "(s, u) \<in> set (bb_scopes (fst (blocked_entry l now t e'))) \<Longrightarrow> s = t"
    "(s, m, u) \<in> set (bb_methods (fst (blocked_entry l now t e'))) \<Longrightarrow> s = t" for s m u t e'
    by (auto simp: blocked_entry_def case_prod_unfold Let_def split: if_splits)
  have "set (bb_scopes (fst (limiter_bulk_blocked now l))) =
      (\<Union>(s, e) \<in> set (scopes l). set (bb_scopes (fst (blocked_entry l now s e))))"
    "set (bb_methods (fst (limiter_bulk_blocked now l))) =
      (\<Union>(s, e) \<in> set (scopes l). set (bb_methods (fst (blocked_entry l now s e))))"
    by (simp_all add: limiter_bulk_blocked_def Let_def case_prod_unfold image_image)
  then show "(scope, u) \<in> set (bb_scopes (fst (limiter_bulk_blocked now l))) \<longleftrightarrow>
     (\<exists>e. (scope, e) \<in> set (scopes l) \<and> (scope, u) \<in> set (bb_scopes (fst (blocked_entry l now scope e))))"
    "(scope, m, u) \<in> set (bb_methods (fst (limiter_bulk_blocked now l))) \<longleftrightarrow>
     (\<exists>e. (scope, e) \<in> set (scopes l) \<and> (scope, m, u) \<in> set (bb_methods (fst (blocked_entry l now scope e))))"
    by (auto, metis own(1), metis own(2))
qed

lemma scope_blocked_iff: "scope_blocked b scope \<longleftrightarrow> (\<exists>u. (scope, u) \<in> set (bb_scopes b))"
  by (auto simp: scope_blocked_def list_ex_iff)

lemma set_bulk_blocked:
  assumes "keys_ok l" "map_of (scopes l) scope = Some e"
  shows "scope_blocked (fst (limiter_bulk_blocked now l)) scope \<longleftrightarrow>
      (\<exists>u. (scope, u) \<in> set (bb_scopes (fst (blocked_entry l now scope e))))"
    and "(scope, m, u) \<in> set (bb_methods (fst (limiter_bulk_blocked now l))) \<longleftrightarrow>
      (scope, m, u) \<in> set (bb_methods (fst (blocked_entry l now scope e)))"
proof -
  have mem: "(scope, e') \<in> set (scopes l) \<longleftrightarrow> e' = e" for e'
    using assms map_of_eq_Some_iff [of "scopes l" scope e'] by (auto simp: keys_ok_def)
  show "scope_blocked (fst (limiter_bulk_blocked now l)) scope \<longleftrightarrow>
      (\<exists>u. (scope, u) \<in> set (bb_scopes (fst (blocked_entry l now scope e))))"
    by (simp add: scope_blocked_iff set_bb mem)
  show "(scope, m, u) \<in> set (bb_methods (fst (limiter_bulk_blocked now l))) \<longleftrightarrow>
      (scope, m, u) \<in> set (bb_methods (fst (blocked_entry l now scope e)))"
    by (simp add: set_bb mem)
qed

lemma untouched_not_blocked:
  assumes "map_of (scopes l) scope = None"
  shows "\<not> scope_blocked (fst (limiter_bulk_blocked now l)) scope"
    and "(scope, m, u) \<notin> set (bb_methods (fst (limiter_bulk_blocked now l)))"
proof -
  have "(scope, e) \<notin> set (scopes l)" for e
    using assms by (force simp: map_of_eq_None_iff)
  then show "\<not> scope_blocked (fst (limiter_bulk_blocked now l)) scope"
    and "(scope, m, u) \<notin> set (bb_methods (fst (limiter_bulk_blocked now l)))"
    by (simp_all add: scope_blocked_iff set_bb)
qed

lemma bootstrap_free: "\<not> frozen now bootstrap" "interactive_waiters bootstrap = 0"
    "list_all (under_ceiling share now) (windows_of m bootstrap)"
  by (simp_all add: bootstrap_def scope_entry_default_def frozen_def windows_of_def scope_state_new_def
      BOOTSTRAP_APP_LIMITS_def under_ceiling_def used_def prune_def sat_u32_def window_new_def)

lemma bulk_blocked_iff:
  assumes "limiter_ok now l" "keys_ok l" "ceilings_ok l"
  defines "b \<equiv> fst (limiter_bulk_blocked now l)"
  shows "fst (try_take_all scope m Bulk now l) = Taken \<longleftrightarrow>
    \<not> scope_blocked b scope \<and> (\<nexists>u. (scope, m, u) \<in> set (bb_methods b))"
proof (cases "map_of (scopes l) scope")
  case None
  then show ?thesis
    using untouched_not_blocked [OF None] bootstrap_free bulk_taken_iff [OF assms(1,3)]
    by (simp add: b_def entry_of_def)
next
  case (Some e)
  have e: "entry_of l scope = e"
    by (rule map_of_scopes [OF Some])
  have ok: "state_ok now s" if "state_at k e = Some s" for k s
    using limiter_okD [OF assms(1)] that e by blast
  have d: "distinct (map fst (methods e))"
    using keys_okD [OF assms(2), of scope] e by simp
  have sb: "scope_blocked b scope \<longleftrightarrow> \<not> scope_free l now e"
  proof -
    have "(\<exists>u. (scope, u) \<in> set (bb_scopes (fst (blocked_entry l now scope e)))) \<longleftrightarrow>
        bb_scopes (fst (blocked_entry l now scope e)) \<noteq> []"
      by (auto simp: blocked_entry_def case_prod_unfold Let_def)
    then show ?thesis
      using set_bulk_blocked(1) [OF assms(2) Some] blocked_entry_scopes(1) [OF ok assms(3)]
      by (simp add: b_def)
  qed
  have mb: "(\<exists>u. (scope, m, u) \<in> set (bb_methods b)) \<longleftrightarrow> (\<exists>s. map_of (methods e) m = Some s \<and>
      \<not> list_all (under_ceiling (fst (ceiling_for l (last_interactive e) now)) now) (windows s))"
    if "scope_free l now e"
    using set_bulk_blocked(2) [OF assms(2) Some] blocked_entry_methods [OF ok assms(3) d that]
    by (simp add: b_def)
  show ?thesis
    unfolding bulk_taken_iff [OF assms(1,3)] sb e Let_def
    using mb by (auto simp: scope_free_def windows_of_def split: option.splits)
qed

text \<open>C5. The report the job claim reads agrees with the limiter: a scope and method are absent from it
  exactly when a bulk attempt on them at the same instant would be granted. So the claim neither
  hands out work that would only wait nor withholds work that could run.\<close>

theorem bulk_blocked_agrees:
  assumes "limiter_ok now l" "keys_ok l" "ceilings_ok l"
  defines "b \<equiv> fst (limiter_bulk_blocked now l)"
  shows "fst (try_take_all scope m Bulk now l) = Taken \<longleftrightarrow>
    \<not> scope_blocked b scope \<and> (\<nexists>u. (scope, m, u) \<in> set (bb_methods b))"
  unfolding b_def by (rule bulk_blocked_iff [OF assms(1-3)])

theorem bulk_blocked_agrees_witness:
  "limiter_ok 5 full_limiter \<and> keys_ok full_limiter \<and>
   (fst (try_take_all ''euw1'' ''m'' Bulk 5 full_limiter) = Taken \<longleftrightarrow>
    \<not> scope_blocked (fst (limiter_bulk_blocked 5 full_limiter)) ''euw1'' \<and>
    (\<nexists>u. (''euw1'', ''m'', u) \<in> set (bb_methods (fst (limiter_bulk_blocked 5 full_limiter)))))"
proof -
  have "keys_ok full_limiter"
    by (simp add: keys_ok_def full_limiter_eq entry_of_def bootstrap_def scope_entry_default_def)
  then show ?thesis
    using full_limiter_ok bulk_blocked_agrees [OF full_limiter_ok _ full_limiter_ceilings] by blast
qed

section \<open>Freezes\<close>

lemma frozen_until_put_entry:
  "frozen_until (entry_of (put_entry s e l) t) = (if s = t then frozen_until e else frozen_until (entry_of l t))"
  by simp

lemma frozen_until_observe_entry [simp]: "frozen_until (observe_entry m h now e) = frozen_until e"
  by (simp add: observe_entry_def reconfigure_app_def reconfigure_method_def Let_def split: option.splits)

lemma frozen_until_methods_usage [simp]: "frozen_until (snd (methods_usage now ms e)) = frozen_until e"
  by (induction ms arbitrary: e) (auto simp: case_prod_unfold Let_def split: option.splits)

lemma frozen_until_blocked_entry [simp]: "frozen_until (snd (blocked_entry l now s e)) = frozen_until e"
  by (simp add: blocked_entry_def case_prod_unfold Let_def)

lemma frozen_until_freeze:
  "frozen_until (entry_of (freeze s d now l) t) =
     (if s = t then Some (case frozen_until (entry_of l s) of None \<Rightarrow> now + d | Some u \<Rightarrow> max u (now + d))
      else frozen_until (entry_of l t))"
  by (simp add: freeze_def Let_def)

text \<open>A freeze that has not run out outlasts every operation.\<close>

definition frozen_past :: "instant \<Rightarrow> string \<Rightarrow> limiter \<Rightarrow> bool" where
  "frozen_past t s l = (case frozen_until (entry_of l s) of Some u \<Rightarrow> t \<le> u | None \<Rightarrow> False)"

lemma frozen_past_freeze:
  "frozen_past t s l \<Longrightarrow> frozen_past t s (freeze s' d now l)" "frozen_past (now + d) s (freeze s d now l)"
  by (auto simp: frozen_past_def frozen_until_freeze split: option.splits)

lemma limiter_op_frozen:
  assumes "limiter_op now l l'" "frozen_past t s l" "now < t"
  shows "frozen_past t s l'"
  using assms
proof (induction rule: limiter_op.induct)
  case (op_attempt s' m prio)
  then show ?case
    by (cases "frozen now (entry_of l s')")
      (auto simp: try_take_all_frozen try_take_all_thawed frozen_past_def frozen_def case_prod_unfold Let_def
        split: option.splits if_splits)
next
  case (op_observe later s' m get)
  then have "frozen_past t s (put_entry s' (observe_entry m (from_headers get) now (entry_of l s')) l)"
    by (simp add: frozen_past_def)
  then show ?case
    by (auto simp: observe_def Let_def frozen_past_freeze(1) split: option.splits)
next
  case op_bulk_blocked
  then show ?case
    by (cases "map_of (scopes l) s") (simp_all add: frozen_past_def entry_of_def map_of_bulk_blocked)
qed (auto simp: frozen_until_freeze frozen_past_def configure_app_def configure_method_def
    reconfigure_app_def reconfigure_method_def Let_def waiter_new_def waiter_drop_def update_entry_def
    usage_def limiter_method_usage_def map_of_scopes case_prod_unfold
    split: option.splits priority.splits if_splits)

lemma freeze_run_waits:
  assumes "limiter_run now (freeze scope d now l) t l'" "t < now + d"
  shows "\<exists>u \<ge> now + d. fst (try_take_all scope m prio t l') = WaitUntil u"
proof -
  have "frozen_past (now + d) scope l'"
    using assms
  proof (induction rule: limiter_run.induct)
    case lr_start
    then show ?case by (simp add: frozen_past_freeze(2))
  next
    case (lr_step t l t' l')
    then show ?case by (auto intro: limiter_op_frozen)
  qed
  then obtain u where u: "frozen_until (entry_of l' scope) = Some u" "now + d \<le> u"
    by (auto simp: frozen_past_def split: option.splits)
  then have "frozen t (entry_of l' scope)"
    using assms(2) by (simp add: frozen_def)
  then show ?thesis
    using u by (auto simp: try_take_all_frozen)
qed

text \<open>C6. A freeze holds: whatever operations run after it, every attempt on the scope before its end,
  for any method and priority, is told to wait, and at least until its end.\<close>

theorem freeze_holds:
  assumes "limiter_run now (freeze scope d now l) t l'" "t < now + d"
  shows "\<exists>u \<ge> now + d. fst (try_take_all scope m prio t l') = WaitUntil u"
  using assms by (rule freeze_run_waits)

theorem freeze_holds_witness:
  "\<exists>u \<ge> 5 + of_secs 3. fst (try_take_all ''euw1'' ''m'' Interactive 900
     (freeze ''euw1'' (of_secs 1) 900 (freeze ''euw1'' (of_secs 3) 5 (limiter_new (4/5))))) = WaitUntil u"
  by (rule freeze_holds [OF lr_step [OF lr_start [of 5] _ op_freeze]]) (simp_all add: of_secs_def)

section \<open>Riot's counts\<close>

lemma prune_sync:
  assumes "window_ok now w"
  shows "prune now (sync c now w) = sync c now w"
proof -
  have "prune now (v\<lparr>w_admitted := w_admitted v @ replicate k now\<rparr>) = v\<lparr>w_admitted := w_admitted v @ replicate k now\<rparr>"
    if "v = prune now v" "0 < window_span v" for v k
  proof -
    have "dropWhile (\<lambda>t. t + window_span v \<le> now) (w_admitted v) = w_admitted v"
      using that(1) by (metis prune_def window.select_convs(3) window.surjective window.update_convs(3))
    then have "w_admitted v = [] \<or> now < hd (w_admitted v) + window_span v"
      by (simp only: dropWhile_eq_self_iff not_le)
    then have "dropWhile (\<lambda>t. t + window_span v \<le> now) (w_admitted v @ replicate k now) = w_admitted v @ replicate k now"
      using that(2) by (cases "w_admitted v"; cases k) auto
    then show ?thesis
      by (simp add: prune_def)
  qed
  from this [of "prune now w"] show ?thesis
    using assms by (simp add: sync_eq window_ok_def window_span_def of_secs_def)
qed

lemma used_sync:
  assumes "window_ok now w" "c \<le> u32_max"
  shows "fst (used now (sync c now w)) = max c (fst (used now w))"
proof -
  have "length (w_admitted (prune now w)) \<le> u32_max"
    using window_ok_prune [OF assms(1), of now] by (simp add: window_ok_def)
  then show ?thesis
    using assms(2) unfolding fst_used prune_sync [OF assms(1)] by (simp add: sync_eq sat_u32_id max_def)
qed

lemma used_limit [simp]: "fst (used now (w\<lparr>w_limit := x\<rparr>)) = fst (used now w)"
  by (simp add: fst_used prune_def)

abbreviation counts_of :: "nat \<Rightarrow> count_window list \<Rightarrow> nat list" where
  "counts_of n cs \<equiv> map cw_count (filter (\<lambda>c. cw_seconds c = n) cs)"

lemma sync_counts_used:
  assumes "state_ok now s" "list_all (\<lambda>c. cw_count c \<le> u32_max) cs" "of_length n (windows s) = [w]"
  shows "\<exists>w'. of_length n (windows (sync_counts cs now s)) = [w'] \<and> w_limit w' = w_limit w \<and>
    fst (used now w') = fold max (counts_of n cs) (fst (used now w))"
  using assms
proof (induction cs arbitrary: s w)
  case (Cons c cs)
  define s' where "s' = sync_counts [c] now s"
  have s': "sync_counts (c # cs) now s = sync_counts cs now s'" "state_ok now s'"
    using Cons.prems(1,2) sync_counts_ok [of now s "[c]"] by (simp_all add: s'_def sync_counts_def)
  have w: "window_ok now w"
    using Cons.prems(1,3) by (auto simp: state_ok_def list_all_iff filter_eq_Cons_iff)
  obtain w1 where w1: "of_length n (windows s') = [w1]" "w_limit w1 = w_limit w"
    "fst (used now w1) = fold max (counts_of n [c]) (fst (used now w))"
  proof (cases "cw_seconds c = n")
    case True
    show thesis
      by (rule that [of "sync (cw_count c) now w"])
        (use True Cons.prems w in \<open>simp_all add: s'_def sync_counts_def update_first_one used_sync\<close>)
  next
    case False
    then have "of_length n (windows s') = of_length n (windows s)"
      by (simp add: s'_def sync_counts_def sync_other)
    then show thesis
      using False Cons.prems by (intro that [of w]) simp_all
  qed
  show ?case
    using Cons.IH [OF s'(2) _ w1(1)] Cons.prems(2) w1 s'(1) by auto
qed (simp add: sync_counts_def)

lemma app_observe_entry:
  "app (observe_entry m h now e) =
     (let s = (case app_limits h of Some ls \<Rightarrow> snd (reconfigure ls (app e)) | None \<Rightarrow> app e) in
      case app_counts h of Some cs \<Rightarrow> sync_counts cs now s | None \<Rightarrow> s)"
  by (simp add: observe_entry_def reconfigure_app_def reconfigure_method_def Let_def split: option.splits)

lemma app_observe:
  "app (entry_of (observe scope m h now later l) scope) = app (observe_entry m h now (entry_of l scope))"
  using state_at_observe [of None scope m h now later l scope] by simp

text \<open>Learning from a response: a window keeps its admissions and takes the announced limit, and
  what it counts as used becomes the largest of its own count and the counts Riot reports for its
  length. A response never lowers a window's use.\<close>

theorem observe_counts_exact:
  assumes "limiter_ok now l" "h = from_headers get"
    and "window_at n scope None l = Some w" "app_limits h = Some ls" "specs_of_length n ls = [sp]"
    and "app_counts h = Some cs"
  shows "\<exists>w'. window_at n scope None (observe scope m h now later l) = Some w' \<and> w_limit w' = lw_limit sp \<and>
    fst (used now w') = fold max (map cw_count (filter (\<lambda>c. cw_seconds c = n) cs)) (fst (used now w))"
proof -
  define s where "s = snd (reconfigure ls (app (entry_of l scope)))"
  have ok: "headers_ok h"
    using assms(2) from_headers_ok by simp
  have "state_ok now (app (entry_of l scope))"
    using limiter_okD [OF assms(1), of None] by simp
  then have s: "state_ok now s"
    using ok assms(4) by (auto simp: s_def headers_ok_def intro: reconfigure_ok)
  have "of_length n (windows (app (entry_of l scope))) = [w]"
    using assms(3) by (simp add: window_at_def the_window_Some)
  then have w: "of_length n (windows s) = [w\<lparr>w_limit := lw_limit sp\<rparr>]"
    using reconfigure_keeps_one [OF _ assms(5)] by (simp add: s_def)
  have "list_all (\<lambda>c. cw_count c \<le> u32_max) cs"
    using ok assms(6) by (simp add: headers_ok_def)
  from sync_counts_used [OF s this w] show ?thesis
    by (simp add: window_at_def app_observe app_observe_entry assms(4,6) the_window_Some flip: s_def)
qed

definition sample_headers :: "string \<Rightarrow> string option" where
  "sample_headers = map_of [(''x-app-rate-limit'', ''20:1,100:120''), (''x-app-rate-limit-count'', ''7:1,9:120'')]"

lemma sample_headers_parse:
  "app_limits (from_headers sample_headers) =
     Some [\<lparr>lw_limit = 20, lw_seconds = 1\<rparr>, \<lparr>lw_limit = 100, lw_seconds = 120\<rparr>]"
  "app_counts (from_headers sample_headers) =
     Some [\<lparr>cw_count = 7, cw_seconds = 1\<rparr>, \<lparr>cw_count = 9, cw_seconds = 120\<rparr>]"
  by (simp_all add: sample_headers_def from_headers_def X_APP_RATE_LIMIT_def X_APP_RATE_LIMIT_COUNT_def
      parse_limits_def parse_counts_def pairs_def pair_of_def List.map_filter_def digits_val_def digit_val_def
      u32_max_def text_simps)

theorem observe_counts_exact_witness:
  "\<exists>w'. window_at 120 ''euw1'' None (observe ''euw1'' ''m'' (from_headers sample_headers) 5 6 (limiter_new (4/5))) =
     Some w' \<and> w_limit w' = 100 \<and> fst (used 5 w') = 9"
proof -
  have "limiter_ok 5 (limiter_new (4/5))"
    using limiter_new_ok [of 5 "4/5" 0 "4/5"] by (simp add: with_idle_ceiling_def limiter_new_def)
  moreover have "window_at 120 ''euw1'' None (limiter_new (4/5)) =
      Some \<lparr>w_limit = 100, w_seconds = 120, w_admitted = []\<rparr>"
    by (simp add: window_at_def the_window_def limiter_simps)
  ultimately show ?thesis
    using observe_counts_exact [OF _ refl _ sample_headers_parse(1) _ sample_headers_parse(2),
        of 5 "limiter_new (4/5)" 120 "''euw1''" _ "\<lparr>lw_limit = 100, lw_seconds = 120\<rparr>" "''m''" 6]
    by (simp add: fst_used prune_def sat_u32_def)
qed

section \<open>The acquire loop\<close>

lemma acquire_loop_Cons:
  "acquire_loop scope m prio started deadline waiter ((others, now) # rounds) l =
     (let r = try_take_all scope m prio now (others l);
          left = (if waiter then waiter_drop scope prio (snd r) else snd r) in
      case fst r of
        Taken \<Rightarrow> (Some (Inr \<lparr>waited = now - started\<rparr>), left)
      | WaitUntil until \<Rightarrow>
          if until > deadline then (Some (Inl \<lparr>retry_at = until\<rparr>), left)
          else acquire_loop scope m prio started deadline True rounds
            (if waiter then snd r else waiter_new scope prio (snd r)))"
  by (simp add: Let_def case_prod_unfold split: attempt.splits)

lemma acquire_loop_Err:
  "fst (acquire_loop scope m prio started deadline waiter rounds l) = Some (Inl e) \<Longrightarrow> deadline < retry_at e"
proof (induction rounds arbitrary: waiter l)
  case (Cons r rounds)
  then show ?case
    by (cases r) (auto simp: acquire_loop_Cons Let_def simp del: acquire_loop.simps split: attempt.splits if_splits)
qed simp

text \<open>The interactive callers registered on each scope, and the two totals.\<close>

definition waiters :: "limiter \<Rightarrow> (string \<Rightarrow> nat) \<times> nat \<times> nat" where
  "waiters l = (\<lambda>s. interactive_waiters (entry_of l s), interactive_waiting l, bulk_waiting l)"

definition waiters_plus :: "string \<Rightarrow> priority \<Rightarrow> (string \<Rightarrow> nat) \<times> nat \<times> nat \<Rightarrow> (string \<Rightarrow> nat) \<times> nat \<times> nat" where
  "waiters_plus scope prio w =
     (case w of (f, i, b) \<Rightarrow>
        (case prio of Interactive \<Rightarrow> (f(scope := f scope + 1), i + 1, b) | Bulk \<Rightarrow> (f, i, b + 1)))"

lemma interactive_waiters_attempt:
  "interactive_waiters (entry_of (snd (try_take_all scope m prio now l)) s) = interactive_waiters (entry_of l s)"
  by (cases "frozen now (entry_of l scope)")
    (auto simp: try_take_all_frozen try_take_all_thawed take_entry_def case_prod_unfold Let_def)

lemma waiters_attempt [simp]: "waiters (snd (try_take_all scope m prio now l)) = waiters l"
proof -
  obtain e where "snd (try_take_all scope m prio now l) = put_entry scope e l"
    using keys_try_take_all by blast
  then show ?thesis
    using interactive_waiters_attempt [of scope m prio now l] by (simp add: waiters_def)
qed

lemma attempt_known: "map_of (scopes (snd (try_take_all scope m prio now l))) scope \<noteq> None"
proof -
  obtain e where "snd (try_take_all scope m prio now l) = put_entry scope e l"
    using keys_try_take_all by blast
  then show ?thesis
    by (simp add: put_entry_def update_conv')
qed

lemma waiters_new:
  "map_of (scopes l) scope \<noteq> None \<Longrightarrow> waiters (waiter_new scope prio l) = waiters_plus scope prio (waiters l)"
  by (cases prio) (auto simp: waiter_new_def waiters_def waiters_plus_def update_entry_def map_of_scopes)

lemma waiters_drop:
  "map_of (scopes l) scope \<noteq> None \<Longrightarrow> waiters l = waiters_plus scope prio w \<Longrightarrow>
     waiters (waiter_drop scope prio l) = w"
proof -
  assume k: "map_of (scopes l) scope \<noteq> None" and w: "waiters l = waiters_plus scope prio w"
  obtain f i b where f: "w = (f, i, b)"
    by (metis prod_cases3)
  from k obtain e where e: "map_of (scopes l) scope = Some e"
    by auto
  have own: "entry_of l scope = e"
    by (rule map_of_scopes [OF e])
  have pt: "interactive_waiters (entry_of l s) = (case prio of Interactive \<Rightarrow> (f(scope := f scope + 1)) s | Bulk \<Rightarrow> f s)" for s
    using w by (cases prio) (auto simp: waiters_def waiters_plus_def f fun_eq_iff)
  show ?thesis
    using w pt [of scope] pt
    by (cases prio) (auto simp: waiter_drop_def waiters_def waiters_plus_def update_entry_def e own f fun_eq_iff)
qed

lemma acquire_loop_waiters:
  assumes "\<And>others t. (others, t) \<in> set rounds \<Longrightarrow> \<forall>l. waiters (others l) = waiters l"
    and "waiters l = (if waiter then waiters_plus scope prio w else w)"
  shows "waiters (snd (acquire_loop scope m prio started deadline waiter rounds l)) =
    (if fst (acquire_loop scope m prio started deadline waiter rounds l) \<noteq> None then w
     else if waiter \<or> rounds \<noteq> [] then waiters_plus scope prio w else w)"
  using assms
proof (induction rounds arbitrary: waiter l)
  case (Cons round rounds)
  obtain others now where round: "round = (others, now)"
    by fastforce
  define r where "r = try_take_all scope m prio now (others l)"
  have r: "waiters (snd r) = (if waiter then waiters_plus scope prio w else w)"
    using Cons.prems(1) [of others now] Cons.prems(2) round by (simp add: r_def)
  have known: "map_of (scopes (snd r)) scope \<noteq> None"
    unfolding r_def by (rule attempt_known)
  have leave: "waiters (if waiter then waiter_drop scope prio (snd r) else snd r) = w"
    using r waiters_drop [OF known, of prio w] by auto
  have enter: "waiters (if waiter then snd r else waiter_new scope prio (snd r)) = waiters_plus scope prio w"
    using r waiters_new [OF known, of prio] by auto
  have rest: "\<forall>l. waiters (f l) = waiters l" if "(f, t) \<in> set rounds" for f t
    using Cons.prems(1) [of f t] that by simp
  have IH: "waiters (snd (acquire_loop scope m prio started deadline True rounds v)) =
      (if fst (acquire_loop scope m prio started deadline True rounds v) \<noteq> None then w
       else waiters_plus scope prio w)" if "waiters v = waiters_plus scope prio w" for v
    using Cons.IH [OF rest, where l = v and waiter = True] that by simp
  show ?case
    using leave IH [OF enter]
    by (auto simp: round acquire_loop_Cons Let_def simp flip: r_def simp del: acquire_loop.simps
        split: attempt.splits)
qed simp

text \<open>An acquire that fails asks for an instant past its deadline, and an acquire that ends, granted or
  not, leaves the waiter counts as it found them, while one still waiting is registered exactly once:
  no phantom waiter is left behind. The others' operations between its looks are arbitrary except
  that they balance their own registrations.\<close>

theorem acquire_waiters_balanced:
  assumes "\<forall>(others, t) \<in> set rounds. \<forall>l. waiters (others l) = waiters l"
  shows "let r = acquire scope m prio budget started rounds l in
    case fst r of
       None \<Rightarrow> waiters (snd r) = (if rounds = [] then waiters l else waiters_plus scope prio (waiters l))
     | Some (Inl e) \<Rightarrow> started + budget < retry_at e \<and> waiters (snd r) = waiters l
     | Some (Inr p) \<Rightarrow> waiters (snd r) = waiters l"
proof -
  define r where "r = acquire scope m prio budget started rounds l"
  have a: "waiters (others l) = waiters l" if "(others, t) \<in> set rounds" for others t l
    using assms that by auto
  have "waiters (snd r) = (if fst r \<noteq> None then waiters l
      else if rounds \<noteq> [] then waiters_plus scope prio (waiters l) else waiters l)"
    using acquire_loop_waiters [of rounds l False scope prio "waiters l"] a
    by (auto simp: r_def acquire_def)
  moreover have "fst r = Some (Inl e) \<Longrightarrow> started + budget < retry_at e" for e
    unfolding r_def acquire_def by (rule acquire_loop_Err)
  ultimately show ?thesis
    by (auto simp: Let_def split: option.splits sum.splits simp flip: r_def)
qed

text \<open>The full limiter frees up at \<open>10000000005\<close>; nobody else acts.\<close>

theorem acquire_waiters_balanced_witness:
  "let r = acquire ''euw1'' ''m'' Interactive 1000 5 [(\<lambda>l. l, 5)] full_limiter in
   fst r = Some (Inl \<lparr>retry_at = 10000000005\<rparr>) \<and> waiters (snd r) = waiters full_limiter"
proof -
  have "fst (acquire ''euw1'' ''m'' Interactive 1000 5 [(\<lambda>l. l, 5)] full_limiter) =
      Some (Inl \<lparr>retry_at = 10000000005\<rparr>)"
    by (simp add: acquire_def full_limiter_eq limiter_simps)
  then show ?thesis
    using acquire_waiters_balanced [of "[(\<lambda>l. l, 5)]" "''euw1''" "''m''" Interactive 1000 5 full_limiter]
    by simp
qed

lemma interactive_taken_cong:
  assumes "\<And>k. state_at k (entry_of l' scope) = state_at k (entry_of l scope)"
    and "frozen_until (entry_of l' scope) = frozen_until (entry_of l scope)"
  shows "fst (try_take_all scope m Interactive t l') = Taken \<longleftrightarrow> fst (try_take_all scope m Interactive t l) = Taken"
  using assms by (simp add: try_take_all_Taken Let_def windows_of_state frozen_def del: state_at.simps)

lemma frozen_until_waiter_new [simp]:
  "frozen_until (entry_of (waiter_new s prio l) t) = frozen_until (entry_of l t)"
  by (auto simp: waiter_new_def update_entry_def map_of_scopes split: priority.splits option.splits)

text \<open>A lone interactive caller is served as soon as it can be: when the instant it is told to wait for is
  inside its budget, the first look it takes at or after that instant is granted.\<close>

theorem acquire_served:
  assumes "limiter_ok now l" "\<not> frozen now (entry_of l scope)"
    and "fst (try_take_all scope m Interactive now l) = WaitUntil u" "u \<le> now + budget" "u \<le> t"
  shows "fst (acquire scope m Interactive budget now [(\<lambda>l. l, now), (\<lambda>l. l, t)] l) = Some (Inr \<lparr>waited = t - now\<rparr>)"
proof -
  define l1 where "l1 = snd (try_take_all scope m Interactive now l)"
  have first: "try_take_all scope m Interactive now l = (WaitUntil u, l1)"
    using assms(3) by (simp add: l1_def prod_eq_iff)
  have "now \<le> t"
    using wait_ahead [OF assms(1,3)] assms(5) by simp
  then have "fst (try_take_all scope m Interactive t l1) = Taken"
    using wait_exact [OF assms(1,2) first] assms(5) by simp
  then have "fst (try_take_all scope m Interactive t (waiter_new scope Interactive l1)) = Taken"
    by (subst interactive_taken_cong [where l = l1]) simp_all
  then show ?thesis
    using first assms(4) by (simp add: acquire_def acquire_loop_Cons Let_def del: acquire_loop.simps(2))
qed

theorem acquire_served_witness:
  "fst (acquire ''euw1'' ''m'' Interactive (of_secs 60) 5 [(\<lambda>l. l, 5), (\<lambda>l. l, 10000000007)] full_limiter) =
     Some (Inr \<lparr>waited = 10000000002\<rparr>)"
proof -
  have "fst (try_take_all ''euw1'' ''m'' Interactive 5 full_limiter) = WaitUntil 10000000005"
    "\<not> frozen 5 (entry_of full_limiter ''euw1'')"
    by (simp_all add: full_limiter_eq limiter_simps frozen_def)
  then show ?thesis
    using acquire_served [OF full_limiter_ok, of "''euw1''" "''m''" 10000000005 "of_secs 60" 10000000007]
    by (simp add: of_secs_def)
qed

end
