(* ===== verification/Fetcher_Props.thy ===== *)
theory Fetcher_Props
  imports Fetcher Limiter_Props
begin

text \<open>
  What the fetcher promises: how often it asks Riot and sleeps, where an answer comes from, that a cached answer
  costs nothing, that a typed 429 is respected, and the bounds of the jitter.
\<close>

section \<open>The logs\<close>

text \<open>What other tasks do leaves this leg's own logs alone.\<close>

definition others_ok :: "('c, 'a) attempt_env \<Rightarrow> bool" where
  "others_ok env \<longleftrightarrow> (\<forall>w. w_sent (ae_others env w) = w_sent w \<and> w_slept (ae_others env w) = w_slept w)"

definition same_request :: "riot_request \<Rightarrow> riot_request \<Rightarrow> bool" where
  "same_request r r' \<longleftrightarrow> rq_endpoint r' = rq_endpoint r \<and> rq_path r' = rq_path r \<and> rq_params r' = rq_params r \<and>
     rq_query r' = rq_query r"

lemma same_request_target [simp]: "same_request r (r\<lparr>rq_target := t\<rparr>)" "same_request (r\<lparr>rq_target := t\<rparr>) r' = same_request r r'"
  by (simp_all add: same_request_def)

lemma or_stale_logs [simp]:
  "w_sent (snd (or_stale M key now err w)) = w_sent w" "w_slept (snd (or_stale M key now err w)) = w_slept w"
  by (simp_all add: or_stale_def cached_copy_def Let_def split: prod.splits option.splits)

lemma store_answer_logs [simp]:
  "w_sent (snd (store_answer M A f req key res env w)) = w_sent w"
  "w_slept (snd (store_answer M A f req key res env w)) = w_slept w"
  by (simp_all add: store_answer_def Let_def split: prod.splits option.splits)

lemma store_not_found_logs [simp]:
  "w_sent (snd (store_not_found M f e key err env w)) = w_sent w"
  "w_slept (snd (store_not_found M f e key err env w)) = w_slept w"
  by (simp_all add: store_not_found_def split: option.splits)

lemma call_riot_logs:
  assumes "others_ok env"
  shows "w_sent (snd (call_riot req env w)) = w_sent w @ [req]" "w_slept (snd (call_riot req env w)) = w_slept w"
  using assms by (simp_all add: call_riot_def others_ok_def Let_def split: prod.splits)

text \<open>The sleeps a leg may still take.\<close>

definition sleeps_left :: "retry_state \<Rightarrow> nat" where
  "sleeps_left rs = (2 - server_retries rs) + (3 - service_tries rs)"

lemma after_failure_logs:
  assumes "after_failure M f targets t e key err env rs w = (r, w')"
  shows "w_sent w' = w_sent w \<and>
    (case r of
       Inl _ \<Rightarrow> w_slept w' = w_slept w
     | Inr rs' \<Rightarrow> \<exists>new. w_slept w' = w_slept w @ new \<and> length new + sleeps_left rs' = sleeps_left rs)"
  using assms
  by (auto simp: after_failure_def sleep_def sleeps_left_def SERVICE_429_TRIES_def SERVER_RETRY_BACKOFF_def Let_def
      case_prod_unfold split: riot_error_kind.splits if_splits)

lemma try_targets_in:
  assumes "try_targets ts m prio envs soonest l = (Some r, l')"
  shows "case r of Inl t \<Rightarrow> t \<in> set ts | Inr None \<Rightarrow> True | Inr (Some (u, t)) \<Rightarrow> t \<in> set ts \<or> soonest = Some (u, t)"
  using assms
proof (induction ts arbitrary: envs soonest l)
  case (Cons t ts)
  obtain env envs' where envs: "envs = env # envs'"
    using Cons.prems by (cases envs) auto
  show ?case
  proof (cases "acquire_on t m prio 0 env l")
    case (Pair a l1)
    consider "a = None" | p where "a = Some (Inr p)" | e where "a = Some (Inl e)"
      by (metis not_Some_eq sum.exhaust)
    then show ?thesis
    proof cases
      case 3
      define next_soonest where "next_soonest = (case soonest of None \<Rightarrow> Some (retry_at e, t)
        | Some (at1, t1) \<Rightarrow> if retry_at e < at1 then Some (retry_at e, t) else soonest)"
      have "try_targets ts m prio envs' next_soonest l1 = (Some r, l')"
        using Cons.prems Pair 3 by (simp add: envs next_soonest_def)
      from Cons.IH [OF this] show ?thesis
        by (auto simp: next_soonest_def split: sum.splits option.splits prod.splits if_splits)
    qed (use Cons.prems Pair in \<open>auto simp: envs\<close>)
  qed
qed (auto split: option.splits)

lemma wait_on_target: "wait_on t m prio budget env l = (Some (Inr t'), l') \<Longrightarrow> t' = t"
  by (auto simp: wait_on_def split: prod.splits option.splits sum.splits)

lemma set_ordered_targets [simp]: "set (ordered_targets targets avoided) = set targets"
  by (auto simp: ordered_targets_def)

lemma acquire_target_in:
  assumes "acquire_target targets avoided m prio budget env l = (Some (Inr t), l')"
  shows "t \<in> set targets"
proof (cases "length targets = 1")
  case True
  then show ?thesis
    using assms wait_on_target by (cases targets) (auto simp: acquire_target_def)
next
  case False
  obtain r l1 where r: "try_targets (ordered_targets targets avoided) m prio (ae_zero env) None l = (r, l1)"
    by fastforce
  show ?thesis
  proof (cases r)
    case (Some r')
    then show ?thesis
      using assms False r try_targets_in [of "ordered_targets targets avoided" m prio "ae_zero env" None l r' l1]
      by (auto simp: acquire_target_def split: sum.splits option.splits dest: wait_on_target)
  qed (use assms False r in \<open>simp add: acquire_target_def\<close>)
qed

lemma upstream_loop_logs:
  assumes "\<forall>env \<in> set envs. others_ok env"
  shows "\<exists>new slept. w_sent (snd (upstream_loop M A f targets req key prio budget n envs rs w)) = w_sent w @ new \<and>
      w_slept (snd (upstream_loop M A f targets req key prio budget n envs rs w)) = w_slept w @ slept \<and>
      length new \<le> n \<and> length slept \<le> sleeps_left rs \<and>
      (\<forall>r \<in> set new. same_request req r \<and> rq_target r \<in> set targets)"
  using assms
proof (induction M A f targets req key prio budget n envs rs w rule: upstream_loop.induct)
  case (3 M A f targets req key prio budget n env envs rs w)
  obtain a l where a: "acquire_target targets (avoid rs) (method_scope_key (rq_endpoint req)) prio budget env (w_limiter w) = (a, l)"
    by fastforce
  show ?case
  proof (cases "\<exists>t. a = Some (Inr t)")
    case False
    then show ?thesis
      using a by (auto simp: Let_def split: option.splits sum.splits)
  next
    case True
    then obtain t where t: "a = Some (Inr t)"
      by blast
    let ?req = "req\<lparr>rq_target := t\<rparr>"
    obtain out w1 where call: "call_riot ?req env (w\<lparr>w_limiter := l\<rparr>) = (out, w1)"
      by fastforce
    have in_targets: "t \<in> set targets"
      using acquire_target_in a t by blast
    have w1: "w_sent w1 = w_sent w @ [?req]" "w_slept w1 = w_slept w"
      using call_riot_logs [of env ?req "w\<lparr>w_limiter := l\<rparr>"] call 3(2) by simp_all
    note unfold = upstream_loop.simps(3) [of M A f targets req key prio budget n env envs rs w]
    show ?thesis
    proof (cases out)
      case (Inr res)
      then show ?thesis
        using a t call w1 in_targets by (simp add: unfold Let_def)
    next
      case (Inl err)
      obtain r w2 where r: "after_failure M f targets t (rq_endpoint req) key err env rs w1 = (r, w2)"
        by fastforce
      note logs = after_failure_logs [OF r]
      show ?thesis
      proof (cases r)
        case (Inl stopped)
        then show ?thesis
          using a t call w1 in_targets r logs \<open>out = Inl err\<close> by (simp add: unfold Let_def)
      next
        case (Inr rs')
        obtain new slept where ih:
          "w_sent (snd (upstream_loop M A f targets ?req key prio budget n envs rs' w2)) = w_sent w2 @ new"
          "w_slept (snd (upstream_loop M A f targets ?req key prio budget n envs rs' w2)) = w_slept w2 @ slept"
          "length new \<le> n" "length slept \<le> sleeps_left rs'" "\<forall>r \<in> set new. same_request req r \<and> rq_target r \<in> set targets"
          using 3(1) [OF refl a [symmetric] t refl refl call [symmetric] refl \<open>out = Inl err\<close> r [symmetric] \<open>r = Inr rs'\<close>] 3(2) by auto
        obtain more where more: "w_slept w2 = w_slept w1 @ more" "length more + sleeps_left rs' = sleeps_left rs" "w_sent w2 = w_sent w1"
          using logs Inr by auto
        show ?thesis
          by (rule exI [of _ "?req # new"], rule exI [of _ "more @ slept"])
             (use a t call w1 in_targets r ih more \<open>out = Inl err\<close> \<open>r = Inr rs'\<close> in \<open>simp add: unfold Let_def\<close>)
      qed
    qed
  qed
qed simp_all

text \<open>C37. One upstream leg asks Riot at most eight times and sleeps at most five times (twice after server errors,
  three times after service 429s), and every call is the caller's request on one of its own targets: the
  retries never change the method, the path or the query.\<close>

theorem upstream_calls_bounded:
  assumes "\<forall>env \<in> set envs. others_ok env"
  shows "\<exists>new slept. w_sent (snd (upstream M A f req key prio budget envs w)) = w_sent w @ new \<and>
      w_slept (snd (upstream M A f req key prio budget envs w)) = w_slept w @ slept \<and>
      length new \<le> 8 \<and> length slept \<le> 5 \<and>
      (\<forall>r \<in> set new. same_request req r \<and> rq_target r \<in> set (request_targets req))"
  using upstream_loop_logs [OF assms, of M A f "request_targets req" req key prio budget MAX_ATTEMPTS
      "\<lparr>avoid = [], server_retries = 0, service_tries = 0\<rparr>" w]
  by (simp add: upstream_def MAX_ATTEMPTS_def sleeps_left_def)

section \<open>Where an answer comes from\<close>

text \<open>The status Riot answered an attempt with, and the body when it was a 2xx.\<close>

definition answered_with :: "('c, 'a) attempt_env \<Rightarrow> nat option" where
  "answered_with env = map_option fst (ae_outcome env)"

definition succeeded_with :: "('c, 'a) attempt_env \<Rightarrow> bytes option" where
  "succeeded_with env = (case ae_outcome env of Some (st, h, body) \<Rightarrow> if is_success st then Some body else None | None \<Rightarrow> None)"

definition answer_from ::
  "'c moka \<Rightarrow> fetcher \<Rightarrow> endpoint \<Rightarrow> string \<Rightarrow> ('c, 'a) attempt_env list \<Rightarrow> (fetch_error + fetched) leg \<Rightarrow> ('c, 'a) world \<Rightarrow> bool" where
  "answer_from M f e key envs r w =
     (case r of
        Pending \<Rightarrow> True
      | Panicked \<Rightarrow> ttls (f_policy f) e = None
      | Done (Inr fd) \<Rightarrow>
          if fd_stale fd then
            (\<exists>x. mk_get M (rc_l1 (w_cache w)) key = Some x \<and> \<not> is_negative x \<and> fd_body fd = ce_body x \<and> fd_content_at fd = content_at x \<and>
               (\<exists>env \<in> set envs. \<exists>now \<in> {ae_limited_at env, ae_later env}. now < soft_expires x \<or> now < hard_expires x))
          else (\<exists>env \<in> set envs. succeeded_with env = Some (fd_body fd))
      | Done (Inl err) \<Rightarrow>
          fe_x_cache err = None \<and> (fe_limited_until err \<noteq> None \<longrightarrow> code (fe_api err) = RateLimited) \<and>
          (code (fe_api err) = NotFound \<longrightarrow> (\<exists>env \<in> set envs. answered_with env = Some 404)))"

lemma answer_from_mono: "answer_from M f e key envs r w \<Longrightarrow> set envs \<subseteq> set envs' \<Longrightarrow> answer_from M f e key envs' r w"
  unfolding answer_from_def by (cases r) (simp_all split: sum.splits if_splits, (meson subsetD)+)

lemma or_stale_from:
  assumes "env \<in> set envs" "now = ae_limited_at env \<or> now = ae_later env" "fe_x_cache err = None"
    "fe_limited_until err \<noteq> None \<longrightarrow> code (fe_api err) = RateLimited" "code (fe_api err) \<noteq> NotFound"
    "or_stale M key now err w = (r, w')"
  shows "answer_from M f e key envs r w'"
  using assms
  by (cases "mk_get M (rc_l1 (w_cache w)) key")
     (auto simp: answer_from_def or_stale_def cached_copy_def rc_get_def l1_get_def Let_def split: if_splits)

lemma store_answer_from:
  assumes "env \<in> set envs" "succeeded_with env = Some (rs_body res)"
    "store_answer M A f req key res env w = (r, w')"
  shows "answer_from M f (rq_endpoint req) key envs r w'"
proof (cases r)
  case (Done v)
  then obtain fd where "v = Inr fd" "\<not> fd_stale fd" "fd_body fd = rs_body res"
    using assms(3) by (auto simp: store_answer_def Let_def split: option.splits prod.splits)
  moreover have "\<exists>env \<in> set envs. succeeded_with env = Some (rs_body res)"
    using assms(1,2) by blast
  ultimately show ?thesis
    using Done by (simp add: answer_from_def)
qed (use assms(3) in \<open>auto simp: answer_from_def store_answer_def Let_def split: option.splits prod.splits\<close>)

lemma call_riot_outcome:
  "fst (call_riot req env w) =
     fst (send_as (ae_outcome env) (ae_elapsed env) (ae_unix_ms env) req False (w_watch (ae_others env (w\<lparr>w_sent := w_sent w @ [req]\<rparr>))))"
  by (simp add: call_riot_def Let_def split: prod.splits)

lemma call_riot_Inr: "fst (call_riot req env w) = Inr res \<Longrightarrow> succeeded_with env = Some (rs_body res)"
  unfolding call_riot_outcome by (auto simp: send_as_def succeeded_with_def Let_def split: option.splits if_splits)

lemma call_riot_404: "fst (call_riot req env w) = Inl err \<Longrightarrow> re_kind err = RiotNotFound \<Longrightarrow> answered_with env = Some 404"
  unfolding call_riot_outcome
  by (auto simp: send_as_def answered_with_def network_failure_def classify_def Let_def split: option.splits if_splits)

lemma to_api_error_code: "code (to_api_error err) = NotFound \<longleftrightarrow> re_kind err = RiotNotFound"
  by (simp add: to_api_error_def not_found_def api_error_new_def with_retry_after_def upstream_error_def split: riot_error_kind.split)

lemma after_failure_from:
  assumes "env \<in> set envs" "re_kind err = RiotNotFound \<Longrightarrow> answered_with env = Some 404"
    "after_failure M f targets t e key err env rs w = (Inl r, w')"
  shows "answer_from M f e key envs r w'"
proof (cases "re_kind err = UpstreamUnavailable")
  case True
  then have "or_stale M key (ae_later env) (fetch_error_of (to_api_error err)) w = (r, w')"
    using assms(3) by (auto simp: after_failure_def Let_def case_prod_unfold prod_eq_iff split: if_splits)
  from or_stale_from [OF assms(1) _ _ _ _ this] show ?thesis
    using True by (simp add: fetch_error_of_def to_api_error_code)
next
  case False
  have "re_kind err = RiotNotFound \<longrightarrow> (\<exists>env \<in> set envs. answered_with env = Some 404)"
    using assms(1,2) by blast
  with False show ?thesis
    using assms(3)
    by (auto simp: after_failure_def answer_from_def store_not_found_def fetch_error_of_def to_api_error_code Let_def
        split: riot_error_kind.splits if_splits option.splits)
qed

lemma upstream_loop_from:
  "answer_from M f (rq_endpoint req) key envs (fst (upstream_loop M A f targets req key prio budget n envs rs w))
     (snd (upstream_loop M A f targets req key prio budget n envs rs w))"
proof (induction M A f targets req key prio budget n envs rs w rule: upstream_loop.induct)
  case (3 M A f targets req key prio budget n env envs rs w)
  note unfold = upstream_loop.simps(3) [of M A f targets req key prio budget n env envs rs w]
  obtain a l where a: "acquire_target targets (avoid rs) (method_scope_key (rq_endpoint req)) prio budget env (w_limiter w) = (a, l)"
    by fastforce
  consider "a = None" | limited where "a = Some (Inl limited)" | t where "a = Some (Inr t)"
    by (metis not_Some_eq sum.exhaust)
  then show ?case
  proof cases
    case 1
    then show ?thesis
      using a by (simp add: unfold Let_def answer_from_def)
  next
    case 2
    let ?err = "fetch_error_limited (ae_limited_at env) limited"
    have "fe_x_cache ?err = None" "code (fe_api ?err) = RateLimited"
      by (simp_all add: fetch_error_limited_def fetch_error_of_def rate_limited_to_api_def with_retry_after_def api_error_new_def)
    then show ?thesis
      using a 2 or_stale_from [of env "env # envs" "ae_limited_at env" ?err M key "w\<lparr>w_limiter := l\<rparr>"]
      by (cases "or_stale M key (ae_limited_at env) ?err (w\<lparr>w_limiter := l\<rparr>)") (simp add: unfold Let_def)
  next
    case (3 t)
    let ?req = "req\<lparr>rq_target := t\<rparr>"
    obtain out w1 where call: "call_riot ?req env (w\<lparr>w_limiter := l\<rparr>) = (out, w1)"
      by fastforce
    have out: "fst (call_riot ?req env (w\<lparr>w_limiter := l\<rparr>)) = out"
      using call by simp
    show ?thesis
    proof (cases out)
      case (Inr res)
      then have "succeeded_with env = Some (rs_body res)"
        using call_riot_Inr out by metis
      then show ?thesis
        using a 3 call Inr store_answer_from [of env "env # envs" res M A f ?req key w1] by (simp add: unfold Let_def)
    next
      case (Inl err)
      obtain r w2 where r: "after_failure M f targets t (rq_endpoint req) key err env rs w1 = (r, w2)"
        by fastforce
      have nf: "re_kind err = RiotNotFound \<Longrightarrow> answered_with env = Some 404"
        using call_riot_404 out Inl by metis
      show ?thesis
      proof (cases r)
        case (Inl stopped)
        then show ?thesis
          using a 3 call r \<open>out = Inl err\<close> after_failure_from [of env "env # envs" err, OF _ nf] by (simp add: unfold Let_def)
      next
        case (Inr rs')
        have "answer_from M f (rq_endpoint ?req) key envs (fst (upstream_loop M A f targets ?req key prio budget n envs rs' w2))
            (snd (upstream_loop M A f targets ?req key prio budget n envs rs' w2))"
          by (rule "3.IH" [OF refl a [symmetric] 3 refl refl call [symmetric] refl \<open>out = Inl err\<close> r [symmetric] \<open>r = Inr rs'\<close>])
        then show ?thesis
          using a 3 call r Inr \<open>out = Inl err\<close> by (auto simp: unfold Let_def intro: answer_from_mono)
      qed
    qed
  qed
qed (simp_all add: answer_from_def fetch_error_of_def api_error_new_def)

section \<open>Jitter\<close>

definition jitter_factor :: "nat \<Rightarrow> f64" where
  "jitter_factor r = f64_add (f64_round (4 / 5))
     (f64_mul (f64_round (2 / 5)) (f64_div (f64_round (of_nat r)) (f64_round (of_nat u64_max))))"

lemma jitter_eq: "jitter random base = mul_f64 base (jitter_factor (case random of Some r \<Rightarrow> r | None \<Rightarrow> u64_max div 2))"
  by (simp add: jitter_def jitter_factor_def Let_def)

lemma f64_constants:
  "f64_round (4 / 5) = 3602879701896397 / 4503599627370496" "f64_round (2 / 5) = 3602879701896397 / 9007199254740992"
  "f64_round 18446744073709551615 = 18446744073709551616" "f64_round 1 = 1" "f64_round 0 = 0"
  "f64_add (3602879701896397 / 4503599627370496) (f64_mul (3602879701896397 / 9007199254740992) 1) = 1351079888211149 / 1125899906842624"
  by code_simp+

lemma jitter_factor_ends:
  "jitter_factor 0 = 3602879701896397 / 4503599627370496" "jitter_factor u64_max = 1351079888211149 / 1125899906842624"
proof -
  have "f64_add (3602879701896397 / 4503599627370496) 0 = 3602879701896397 / 4503599627370496"
    by code_simp
  then show "jitter_factor 0 = 3602879701896397 / 4503599627370496"
    by (simp add: jitter_factor_def f64_div_def f64_mul_def f64_constants)
  show "jitter_factor u64_max = 1351079888211149 / 1125899906842624"
    unfolding jitter_factor_def u64_max_def of_nat_numeral f64_constants f64_div_def
    by (simp add: f64_constants)
qed

lemma jitter_factor_mono: "r \<le> s \<Longrightarrow> jitter_factor r \<le> jitter_factor s"
proof -
  assume "r \<le> s"
  then have "f64_round (of_nat r) \<le> f64_round (of_nat s)"
    by (intro f64_round_mono) simp
  then have "f64_div (f64_round (of_nat r)) (f64_round (of_nat u64_max)) \<le> f64_div (f64_round (of_nat s)) (f64_round (of_nat u64_max))"
    unfolding f64_div_def u64_max_def of_nat_numeral f64_constants by (auto intro: f64_round_mono divide_right_mono)
  then show ?thesis
    unfolding jitter_factor_def f64_add_def f64_mul_def f64_constants by (auto intro!: f64_round_mono)
qed

lemma mul_f64_mono: "0 \<le> as_secs_f64 d \<Longrightarrow> x \<le> y \<Longrightarrow> mul_f64 d x \<le> mul_f64 d y"
  unfolding mul_f64_def f64_mul_def by (intro nat_mono round_half_even_mono mult_right_mono f64_round_mono) simp_all

lemma backoff_secs:
  "as_secs_f64 (of_millis 250) = 1 / 4" "as_secs_f64 (of_millis 750) = 3 / 4" "as_secs_f64 (of_millis 500) = 1 / 2"
  "as_secs_f64 (of_millis 1000) = 1" "as_secs_f64 (of_millis 2000) = 2"
proof -
  have "f64_add 0 (f64_div 250000000 1000000000) = 1 / 4" "f64_add 0 (f64_div 750000000 1000000000) = 3 / 4"
    "f64_add 0 (f64_div 500000000 1000000000) = 1 / 2" "f64_add 1 (f64_div 0 1000000000) = 1" "f64_add 2 (f64_div 0 1000000000) = 2"
    "f64_round 2 = 2"
    by code_simp+
  then show "as_secs_f64 (of_millis 250) = 1 / 4" "as_secs_f64 (of_millis 750) = 3 / 4" "as_secs_f64 (of_millis 500) = 1 / 2"
    "as_secs_f64 (of_millis 1000) = 1" "as_secs_f64 (of_millis 2000) = 2"
    by (simp_all add: as_secs_f64_def of_millis_def as_secs_def subsec_nanos_def f64_constants)
qed

lemma mul_f64_ends:
  fixes lo hi :: rat
  defines "lo \<equiv> 3602879701896397 / 4503599627370496" and "hi \<equiv> 1351079888211149 / 1125899906842624"
  shows "round_half_even (f64_mul lo (1 / 4) * 1000000000) = 200000000" "round_half_even (f64_mul hi (1 / 4) * 1000000000) = 300000000"
    "round_half_even (f64_mul lo (3 / 4) * 1000000000) = 600000000" "round_half_even (f64_mul hi (3 / 4) * 1000000000) = 900000000"
    "round_half_even (f64_mul lo (1 / 2) * 1000000000) = 400000000" "round_half_even (f64_mul hi (1 / 2) * 1000000000) = 600000000"
    "round_half_even (f64_mul lo 1 * 1000000000) = 800000000" "round_half_even (f64_mul hi 1 * 1000000000) = 1200000000"
    "round_half_even (f64_mul lo 2 * 1000000000) = 1600000000" "round_half_even (f64_mul hi 2 * 1000000000) = 2400000000"
  unfolding lo_def hi_def by code_simp+

text \<open>The backoffs the upstream leg sleeps for.\<close>

definition backoffs :: "duration list" where
  "backoffs = SERVER_RETRY_BACKOFF @ map (\<lambda>k. min (SERVICE_429_BASE * 2 ^ k) SERVICE_429_MAX) [0..<SERVICE_429_TRIES]"

lemma backoffs_eq: "backoffs = map of_millis [250, 750, 500, 1000, 2000]"
  by (simp add: backoffs_def SERVER_RETRY_BACKOFF_def SERVICE_429_BASE_def SERVICE_429_MAX_def SERVICE_429_TRIES_def
      of_millis_def of_secs_def upt_rec numeral_3_eq_3)

text \<open>The jitter keeps every backoff of the retry policy within a fifth of itself, whatever the random number
  and although it is computed in double precision: to the nanosecond, a sleep is never shorter than 80 percent
  nor longer than 120 percent of its backoff.\<close>

theorem jitter_within_a_fifth:
  assumes "b \<in> set backoffs" "\<forall>r. random = Some r \<longrightarrow> r \<le> u64_max"
  shows "4 * b \<le> 5 * jitter random b \<and> 5 * jitter random b \<le> 6 * b"
proof -
  define r where "r = (case random of Some r \<Rightarrow> r | None \<Rightarrow> u64_max div 2)"
  have r: "r \<le> u64_max"
    using assms(2) by (auto simp: r_def split: option.splits)
  have secs: "0 \<le> as_secs_f64 b"
    using assms(1) by (auto simp: backoffs_eq backoff_secs)
  have "mul_f64 b (jitter_factor 0) \<le> jitter random b" "jitter random b \<le> mul_f64 b (jitter_factor u64_max)"
    unfolding jitter_eq r_def [symmetric] using r secs by (auto intro!: mul_f64_mono jitter_factor_mono)
  moreover have "4 * b = 5 * mul_f64 b (jitter_factor 0) \<and> 5 * mul_f64 b (jitter_factor u64_max) = 6 * b"
    using assms(1) unfolding backoffs_eq jitter_factor_ends mul_f64_def
    by (auto simp: backoff_secs mul_f64_ends simp del: mult.right_neutral; simp add: of_millis_def)
  ultimately show ?thesis
    by linarith
qed

theorem jitter_within_a_fifth_witness:
  "4 * of_millis 250 \<le> 5 * jitter None (of_millis 250) \<and> 5 * jitter None (of_millis 250) \<le> 6 * of_millis 250"
  by (rule jitter_within_a_fifth) (simp_all add: backoffs_eq)


section \<open>Cached answers\<close>

lemma rc_get_l1: "rc_get M key now rc = (fst (l1_get M key now (rc_l1 rc)), rc\<lparr>rc_l1 := snd (l1_get M key now (rc_l1 rc))\<rparr>)"
  by (simp add: rc_get_def split: prod.splits)

text \<open>A cached answer costs nothing: unless the caller bypasses the cache, a request whose immutable body is
  archived, or whose key has an entry not yet past its expiry, is answered at once, with the limiter, the
  archive, the watch and the log of calls untouched; every other request goes upstream.\<close>

theorem fetch_cached_is_free:
  "case fetch_read M A f req opts now later w of
     (Some r, refresh, w') \<Rightarrow>
       fetch_inner M A f req opts now later done_at joined envs w = (Done r, w') \<and> \<not> fo_bypass opts \<and>
       w_limiter w' = w_limiter w \<and> w_archive w' = w_archive w \<and> w_watch w' = w_watch w \<and> w_sent w' = w_sent w \<and>
       (refresh \<longrightarrow> f_swr f)
   | (None, refresh, w') \<Rightarrow>
       fo_bypass opts \<or>
       \<not> (immutable (rq_endpoint req) \<and> ar_get A req (w_archive w) \<noteq> None) \<and>
       (\<forall>x. mk_get M (rc_l1 (w_cache w)) (cache_key (f_sha256 f) (f_scope f) req) = Some x \<longrightarrow>
          soft_expires x \<le> later \<and> hard_expires x \<le> later)"
  by (auto simp: fetch_inner_def fetch_read_def rc_get_l1 l1_get_def Let_def split: option.splits lookup.splits if_splits)

section \<open>Typed 429s\<close>


definition sample_limited :: "string \<Rightarrow> header_map" where
  "sample_limited kind h = (if h = X_RATE_LIMIT_TYPE then Some kind else if h = RETRY_AFTER then Some ''5'' else None)"

lemma sample_limited_headers:
  "limit_type (from_headers (sample_limited kind)) = rate_limit_type_parse kind"
  "retry_after (from_headers (sample_limited kind)) = Some 5" "sample_limited kind X_RATE_LIMIT_TYPE = Some kind"
proof -
  have "parse_u64 (trim ''5'') = Some 5"
    by (simp add: trim_def is_ws_def parse_uint_def is_digit_def digits_val_def digit_val_def u64_max_def)
  then show "limit_type (from_headers (sample_limited kind)) = rate_limit_type_parse kind"
    "retry_after (from_headers (sample_limited kind)) = Some 5" "sample_limited kind X_RATE_LIMIT_TYPE = Some kind"
    by (simp_all add: from_headers_def sample_limited_def X_RATE_LIMIT_TYPE_def RETRY_AFTER_def)
qed

definition sample_attempt :: "(nat \<times> header_map \<times> bytes) option \<Rightarrow> ((string \<times> cache_entry) list, unit) attempt_env" where
  "sample_attempt outcome = \<lparr>ae_zero = [], ae_wait = \<lparr>we_started = 0, we_rounds = [(\<lambda>l. l, 0)]\<rparr>, ae_limited_at = 0,
     ae_outcome = outcome, ae_elapsed = 0, ae_unix_ms = 0, ae_others = (\<lambda>w. w), ae_now = 0, ae_later = 0,
     ae_clock = \<lparr>c_instant = 0, c_unix_ms = 0\<rparr>, ae_random = None\<rparr>"

definition sample_world :: "((string \<times> cache_entry) list, unit) world" where
  "sample_world = \<lparr>w_limiter = limiter_new (4/5), w_cache = \<lparr>rc_l1 = [], rc_l2 = None\<rparr>, w_archive = (),
     w_watch = watch_new, w_sent = [], w_slept = []\<rparr>"

definition sample_fetcher :: fetcher where
  "sample_fetcher = \<lparr>f_sha256 = (\<lambda>_. replicate 32 0), f_scope = ''ab12cd34'',
     f_policy = \<lparr>overrides = [], neg_default = 0, neg_account = 0, stale_while_revalidate = True\<rparr>,
     f_interactive_budget = 0, f_job_budget = 0, f_swr = True\<rparr>"


text \<open>C40. A 429 whose type is a word the limiter does not know is not respected: the client takes any word for a type
  and the leg goes round at once, without a sleep, trusting that the scope was frozen; but the limiter froze
  nothing, so the next call may leave immediately.\<close>

theorem unknown_429_retried_at_once:
  assumes "ae_outcome env = Some (429, h, body)" "h X_RATE_LIMIT_TYPE = Some kind" "rate_limit_type_parse kind = None"
    and "retry_after (from_headers h) = Some s" "call_riot req env w = (Inl err, w1)"
  shows "after_failure M f targets t e key err env rs w1 = (Inr rs, w1) \<and>
    frozen_until (entry_of (w_limiter w1) scope) =
      frozen_until (entry_of (w_limiter (ae_others env (w\<lparr>w_sent := w_sent w @ [req]\<rparr>))) scope)"
proof -
  have h: "limit_type (from_headers h) = None" "Option.bind (h RETRY_AFTER) (\<lambda>v. parse_u64 (trim v)) = Some s"
    using assms(2-4) by (simp_all add: from_headers_def)
  have "re_kind err = RiotRateLimited (Some kind) (Some s)"
    using assms(1,2,5) h(2) call_riot_outcome [of req env w]
    by (auto simp: send_as_def is_success_def classify_def Let_def)
  then have "after_failure M f targets t e key err env rs w1 = (Inr rs, w1)"
    by (simp add: after_failure_def)
  moreover have "frozen_until (observe_entry m hd now x) = frozen_until x" for m hd now x
    by (simp add: observe_entry_def Let_def reconfigure_app_def reconfigure_method_def split: option.split)
  ultimately show ?thesis
    using assms(1,5) h(1)
    by (auto simp: call_riot_def send_as_def is_success_def observe_def Let_def split: option.splits)
qed

theorem unknown_429_retried_at_once_witness:
  "\<exists>w1 err. call_riot sample_key_request (sample_attempt (Some (429, sample_limited ''app'', []))) sample_world = (Inl err, w1) \<and>
     after_failure list_moka sample_fetcher [TRegion Europe] (TRegion Europe) sample_endpoint ''k'' err
       (sample_attempt (Some (429, sample_limited ''app'', []))) \<lparr>avoid = [], server_retries = 0, service_tries = 0\<rparr> w1 =
       (Inr \<lparr>avoid = [], server_retries = 0, service_tries = 0\<rparr>, w1)"
proof -
  let ?env = "sample_attempt (Some (429, sample_limited ''app'', []))"
  have kind: "rate_limit_type_parse ''app'' = None"
    by code_simp
  obtain out w1 where call: "call_riot sample_key_request ?env sample_world = (out, w1)"
    by fastforce
  have "\<exists>err. out = Inl err"
    using call call_riot_outcome [of sample_key_request ?env sample_world]
    by (simp add: sample_attempt_def send_as_def is_success_def Let_def)
  then obtain err where err: "call_riot sample_key_request ?env sample_world = (Inl err, w1)"
    using call by blast
  have "ae_outcome ?env = Some (429, sample_limited ''app'', [])"
    by (simp add: sample_attempt_def)
  from unknown_429_retried_at_once [OF this sample_limited_headers(3) kind sample_limited_headers(2) err] err show ?thesis
    by blast
qed

theorem upstream_calls_bounded_witness:
  "length (w_sent (snd (upstream list_moka no_archive sample_fetcher sample_key_request ''k'' Interactive 0 [sample_attempt None] sample_world))) \<le> 8"
proof -
  have "others_ok (sample_attempt None)"
    by (simp add: others_ok_def sample_attempt_def)
  then show ?thesis
    using upstream_calls_bounded [of "[sample_attempt None]" list_moka no_archive sample_fetcher sample_key_request "''k''" Interactive 0 sample_world]
    by (auto simp: sample_world_def)
qed

theorem fetch_cached_is_free_witness:
  "let key = cache_key (f_sha256 sample_fetcher) (f_scope sample_fetcher) sample_key_request;
       w = sample_world\<lparr>w_cache := \<lparr>rc_l1 = [(key, sample_entry)], rc_l2 = None\<rparr>\<rparr> in
   fst (fetch_inner list_moka no_archive sample_fetcher sample_key_request default_options 0 0 0 None [] w) =
     Done (Inr (served sample_entry XHit 0))"
proof -
  let ?key = "cache_key (f_sha256 sample_fetcher) (f_scope sample_fetcher) sample_key_request"
  let ?w = "sample_world\<lparr>w_cache := \<lparr>rc_l1 = [(?key, sample_entry)], rc_l2 = None\<rparr>\<rparr>"
  have "fst (fetch_read list_moka no_archive sample_fetcher sample_key_request default_options 0 0 ?w) =
      Some (Inr (served sample_entry XHit 0))"
    by (simp add: fetch_read_def default_options_def no_archive_def rc_get_l1 l1_get_def list_moka_def sample_entry_def is_negative_def)
  then show ?thesis
    using fetch_cached_is_free [where M = list_moka and A = no_archive and f = sample_fetcher and req = sample_key_request and
        opts = default_options and now = 0 and later = 0 and w = ?w and done_at = 0 and joined = None and envs = "[]"]
    by (auto simp: Let_def split: prod.splits)
qed

end
