(* ===== verification/Jobs.thy ===== *)
theory Jobs
  imports Fetcher_Props Lanes "HOL-Library.Option_ord"
begin

text \<open>
  The durable job queue, \<^verbatim>\<open>src/jobs/scheduler.rs\<close>, with the claim statement of \<^verbatim>\<open>src/db/store.rs\<close>. The \<open>jobs\<close>
  table is the list of its rows in insertion order; a SQL statement is the list operation it denotes, and one
  that would break the unique index \<open>jobs_dedupe\<close> is the error \<open>Constraint\<close> and changes nothing. A write runs
  alone (there is one writer), so an operation is a function from the rows to its result and the new rows.

  A payload is text in the table. What the code does with JSON comes as arguments: \<open>json_text\<close> prints a value,
  \<open>field\<close> reads the text under a key of a value, \<open>extract\<close> is SQLite's \<open>json_extract\<close> on stored text.
\<close>

section \<open>Rows\<close>

datatype job_state = Pending | Running | Done | Failed

fun state_str :: "job_state \<Rightarrow> string" where
  "state_str Pending = ''pending''"
| "state_str Running = ''running''"
| "state_str Done = ''done''"
| "state_str Failed = ''failed''"

definition STATES :: "job_state list" where
  "STATES = [Pending, Running, Done, Failed]"

definition PURGEABLE_STATES :: "job_state list" where
  "PURGEABLE_STATES = [Pending, Failed]"

definition JOB_MAX_ATTEMPTS :: nat where
  "JOB_MAX_ATTEMPTS = 5"

definition INTERRUPTED :: string where
  "INTERRUPTED = ''interrupted on its last attempt: the process stopped while it ran''"

definition BACKOFF_BASE :: duration where
  "BACKOFF_BASE = of_secs 30"

definition IDLE_POLL :: duration where
  "IDLE_POLL = of_secs 1"

definition MIN_IDLE :: duration where
  "MIN_IDLE = of_millis 10"

definition PURGE_CHUNK :: nat where
  "PURGE_CHUNK = 5000"

text \<open>A row of the table: the columns the admin routes show, then the lane and the method (migration V0007).\<close>

record job_row =
  j_id :: string
  j_kind :: string
  j_dedupe :: "string option"
  j_priority :: int
  j_payload :: string
  j_state :: job_state
  j_attempts :: nat
  j_run_after :: int
  j_claimed_at :: "int option"
  j_finished_at :: "int option"
  j_error :: "string option"
  j_lane :: "string option"
  j_method :: "string option"

record 'j new_job =
  nj_kind :: string
  nj_dedupe :: "string option"
  nj_priority :: int
  nj_payload :: 'j
  nj_run_after :: "int option"

definition new_job_new :: "string \<Rightarrow> int \<Rightarrow> 'j \<Rightarrow> 'j new_job" where
  "new_job_new kind prio payload =
     \<lparr>nj_kind = kind, nj_dedupe = None, nj_priority = prio, nj_payload = payload, nj_run_after = None\<rparr>"

definition new_job_dedupe :: "string \<Rightarrow> 'j new_job \<Rightarrow> 'j new_job" where
  "new_job_dedupe key nj = nj\<lparr>nj_dedupe := Some key\<rparr>"

record enqueued =
  en_id :: string
  en_created :: bool

definition enqueued_status :: "enqueued \<Rightarrow> string" where
  "enqueued_status e = (if en_created e then ''queued'' else ''already-queued'')"

record job =
  job_id :: string
  job_kind :: string
  job_dedupe :: "string option"
  job_priority :: int
  job_payload :: string
  job_attempts :: nat
  job_run_after :: int

text \<open>\<open>row\<close>: the columns \<open>COLUMNS\<close> of a row.\<close>

definition job_of_row :: "job_row \<Rightarrow> job" where
  "job_of_row r =
     \<lparr>job_id = j_id r, job_kind = j_kind r, job_dedupe = j_dedupe r, job_priority = j_priority r,
      job_payload = j_payload r, job_attempts = j_attempts r, job_run_after = j_run_after r\<rparr>"

datatype job_error = Retry string | Fail string | Yield int "string option"

definition job_error_from_fetch :: "clock \<Rightarrow> fetch_error \<Rightarrow> job_error" where
  "job_error_from_fetch c e =
     (case fe_limited_until e of
        Some t \<Rightarrow> Yield (to_unix_ms c t) None
      | None \<Rightarrow> Retry (error_code_as_str (code (fe_api e)) @ '': '' @ message (fe_api e)))"

definition take_turns :: "clock \<Rightarrow> job_error" where
  "take_turns c = Yield (c_unix_ms c) None"

section \<open>The unique index\<close>

definition live :: "job_row \<Rightarrow> bool" where
  "live r = (j_state r = Pending \<or> j_state r = Running)"

definition holds_key :: "string \<Rightarrow> string option \<Rightarrow> job_row \<Rightarrow> bool" where
  "holds_key kind key r = (live r \<and> j_kind r = kind \<and> key \<noteq> None \<and> j_dedupe r = key)"

fun dedupe_ok :: "job_row list \<Rightarrow> bool" where
  "dedupe_ok [] = True"
| "dedupe_ok (r # rs) = (\<not> (live r \<and> list_ex (holds_key (j_kind r) (j_dedupe r)) rs) \<and> dedupe_ok rs)"

datatype job_db_error = NoRows | Constraint

text \<open>\<^verbatim>\<open>UPDATE jobs SET f WHERE p\<close>, with the number of rows it changed.\<close>

definition update_rows ::
  "(job_row \<Rightarrow> bool) \<Rightarrow> (job_row \<Rightarrow> job_row) \<Rightarrow> job_row list \<Rightarrow> (job_db_error + nat) \<times> job_row list" where
  "update_rows p f rows =
     (let rows' = map (\<lambda>r. if p r then f r else r) rows in
      if dedupe_ok rows' then (Inr (length (filter p rows)), rows') else (Inl Constraint, rows))"

section \<open>Queueing\<close>

definition new_row ::
  "('j \<Rightarrow> string) \<Rightarrow> ('j \<Rightarrow> string \<Rightarrow> string option) \<Rightarrow> string \<Rightarrow> 'j new_job \<Rightarrow> int \<Rightarrow> job_row" where
  "new_row json_text field nid nj now_ms =
     (let lane = lane_of field (nj_kind nj) (nj_payload nj) in
      \<lparr>j_id = nid, j_kind = nj_kind nj, j_dedupe = nj_dedupe nj, j_priority = nj_priority nj,
       j_payload = json_text (nj_payload nj), j_state = Pending, j_attempts = 0,
       j_run_after = (case nj_run_after nj of Some t \<Rightarrow> t | None \<Rightarrow> now_ms),
       j_claimed_at = None, j_finished_at = None, j_error = None,
       j_lane = map_option l_lane lane, j_method = map_option l_method lane\<rparr>)"

text \<open>\<^verbatim>\<open>INSERT OR IGNORE\<close>: nothing is inserted when the id exists or a live row holds the key.\<close>

definition enqueue_on ::
  "('j \<Rightarrow> string) \<Rightarrow> ('j \<Rightarrow> string \<Rightarrow> string option) \<Rightarrow> string \<Rightarrow> 'j new_job \<Rightarrow> int \<Rightarrow> job_row list \<Rightarrow>
     (job_db_error + enqueued) \<times> job_row list" where
  "enqueue_on json_text field nid nj now_ms rows =
     (if list_ex (\<lambda>r. j_id r = nid \<or> holds_key (nj_kind nj) (nj_dedupe nj) r) rows then
        (case find (holds_key (nj_kind nj) (nj_dedupe nj)) rows of
           Some r \<Rightarrow> (Inr \<lparr>en_id = j_id r, en_created = False\<rparr>, rows)
         | None \<Rightarrow> (Inl NoRows, rows))
      else (Inr \<lparr>en_id = nid, en_created = True\<rparr>, rows @ [new_row json_text field nid nj now_ms]))"

definition enqueue_or_promote_on ::
  "('j \<Rightarrow> string) \<Rightarrow> ('j \<Rightarrow> string \<Rightarrow> string option) \<Rightarrow> string \<Rightarrow> 'j new_job \<Rightarrow> int \<Rightarrow> job_row list \<Rightarrow>
     (job_db_error + enqueued) \<times> job_row list" where
  "enqueue_or_promote_on json_text field nid nj now_ms rows =
     (case enqueue_on json_text field nid nj now_ms rows of
        (Inl e, _) \<Rightarrow> (Inl e, rows)
      | (Inr out, rows1) \<Rightarrow>
          if en_created out then (Inr out, rows1)
          else
            (case update_rows (\<lambda>r. j_id r = en_id out \<and> j_state r = Pending)
                (\<lambda>r. r\<lparr>j_priority := min (j_priority r) (nj_priority nj),
                       j_run_after := min (j_run_after r) (case nj_run_after nj of Some t \<Rightarrow> t | None \<Rightarrow> now_ms)\<rparr>) rows1 of
               (Inl e, _) \<Rightarrow> (Inl e, rows)
             | (Inr _, rows2) \<Rightarrow> (Inr out, rows2)))"

text \<open>One transaction over all the jobs, each with its id: an error rolls everything back.\<close>

fun enqueue_each ::
  "('j \<Rightarrow> string) \<Rightarrow> ('j \<Rightarrow> string \<Rightarrow> string option) \<Rightarrow> (string \<times> 'j new_job) list \<Rightarrow> int \<Rightarrow> job_row list \<Rightarrow>
     job_db_error + nat \<times> job_row list" where
  "enqueue_each json_text field [] now_ms rows = Inr (0, rows)"
| "enqueue_each json_text field ((nid, nj) # njs) now_ms rows =
     (case enqueue_on json_text field nid nj now_ms rows of
        (Inl e, _) \<Rightarrow> Inl e
      | (Inr out, rows1) \<Rightarrow>
          (case enqueue_each json_text field njs now_ms rows1 of
             Inl e \<Rightarrow> Inl e
           | Inr (n, rows2) \<Rightarrow> Inr ((if en_created out then 1 else 0) + n, rows2)))"

definition enqueue_all ::
  "('j \<Rightarrow> string) \<Rightarrow> ('j \<Rightarrow> string \<Rightarrow> string option) \<Rightarrow> (string \<times> 'j new_job) list \<Rightarrow> int \<Rightarrow> job_row list \<Rightarrow>
     (job_db_error + nat) \<times> job_row list" where
  "enqueue_all json_text field njs now_ms rows =
     (if njs = [] then (Inr 0, rows)
      else (case enqueue_each json_text field njs now_ms rows of
          Inl e \<Rightarrow> (Inl e, rows)
        | Inr (n, rows1) \<Rightarrow> (Inr n, rows1)))"

section \<open>Cancelling and retrying\<close>

definition cancelled :: "int \<Rightarrow> job_row \<Rightarrow> job_row" where
  "cancelled now_ms r = r\<lparr>j_state := Failed, j_finished_at := Some now_ms, j_error := Some ''cancelled''\<rparr>"

fun cancel_pending_on ::
  "(string \<Rightarrow> string \<Rightarrow> string option) \<Rightarrow> string list \<Rightarrow> string \<Rightarrow> string \<Rightarrow> int \<Rightarrow> job_row list \<Rightarrow>
     (job_db_error + nat) \<times> job_row list" where
  "cancel_pending_on extract [] key value now_ms rows = (Inr 0, rows)"
| "cancel_pending_on extract (kind # kinds) key value now_ms rows =
     (case update_rows (\<lambda>r. j_state r = Pending \<and> j_kind r = kind \<and> extract (j_payload r) (''$.'' @ key) = Some value)
          (cancelled now_ms) rows of
        (Inl e, rows1) \<Rightarrow> (Inl e, rows1)
      | (Inr n, rows1) \<Rightarrow>
          (case cancel_pending_on extract kinds key value now_ms rows1 of
             (Inl e, rows2) \<Rightarrow> (Inl e, rows2)
           | (Inr m, rows2) \<Rightarrow> (Inr (n + m), rows2)))"

datatype job_action = NotFound | WrongState string job_state | Duplicate string | Db job_db_error

definition queue_get :: "string \<Rightarrow> job_row list \<Rightarrow> job_row option" where
  "queue_get i rows = find (\<lambda>r. j_id r = i) rows"

definition retried :: "int \<Rightarrow> job_row \<Rightarrow> job_row" where
  "retried now_ms r =
     r\<lparr>j_state := Pending, j_attempts := 0, j_run_after := now_ms, j_claimed_at := None, j_finished_at := None,
       j_error := None\<rparr>"

definition retry :: "string \<Rightarrow> int \<Rightarrow> job_row list \<Rightarrow> (job_action + job_row) \<times> job_row list" where
  "retry i now_ms rows =
     (case queue_get i rows of
        None \<Rightarrow> (Inl NotFound, rows)
      | Some r \<Rightarrow>
          if j_state r \<noteq> Failed then (Inl (WrongState i (j_state r)), rows)
          else
            (case find (holds_key (j_kind r) (j_dedupe r)) rows of
               Some other \<Rightarrow> (Inl (Duplicate (j_id other)), rows)
             | None \<Rightarrow>
                 (case update_rows (\<lambda>r. j_id r = i) (retried now_ms) rows of
                    (Inl e, _) \<Rightarrow> (Inl (Db e), rows)
                  | (Inr _, rows1) \<Rightarrow>
                      (case queue_get i rows1 of
                         None \<Rightarrow> (Inl (Db NoRows), rows)
                       | Some updated \<Rightarrow> (Inr updated, rows1)))))"

definition cancel :: "string \<Rightarrow> int \<Rightarrow> job_row list \<Rightarrow> (job_action + job_row) \<times> job_row list" where
  "cancel i now_ms rows =
     (case update_rows (\<lambda>r. j_id r = i \<and> j_state r = Pending) (cancelled now_ms) rows of
        (Inl e, rows1) \<Rightarrow> (Inl (Db e), rows1)
      | (Inr n, rows1) \<Rightarrow>
          (case queue_get i rows1 of
             None \<Rightarrow> (Inl NotFound, rows1)
           | Some r \<Rightarrow> if n = 0 then (Inl (WrongState i (j_state r)), rows1) else (Inr r, rows1)))"

section \<open>Purging and trimming\<close>

record purge =
  pg_kind :: string
  pg_state :: job_state
  pg_min_priority :: int
  pg_dry_run :: bool

record purged =
  matched :: nat
  deleted :: nat

definition purge_matches :: "purge \<Rightarrow> job_row \<Rightarrow> bool" where
  "purge_matches p r = (j_kind r = pg_kind p \<and> j_state r = pg_state p \<and> pg_min_priority p \<le> j_priority r)"

text \<open>One write: the ids of at most \<open>PURGE_CHUNK\<close> matching rows (in table order here; SQL leaves it open), deleted.\<close>

definition purge_chunk :: "purge \<Rightarrow> job_row list \<Rightarrow> nat \<times> job_row list" where
  "purge_chunk p rows =
     (let ids = map j_id (take PURGE_CHUNK (filter (purge_matches p) rows)) in
      (length (filter (\<lambda>r. j_id r \<in> set ids) rows), filter (\<lambda>r. j_id r \<notin> set ids) rows))"

text \<open>
  The loop of \<open>purge\<close>. Others write between two chunks: the list gives what they did before each one. When the
  list ends first, the purge is still going on and its result is \<open>None\<close>.
\<close>

fun purge_loop :: "purge \<Rightarrow> (job_row list \<Rightarrow> job_row list) list \<Rightarrow> job_row list \<Rightarrow> nat option \<times> job_row list" where
  "purge_loop p [] rows = (None, rows)"
| "purge_loop p (others # rounds) rows =
     (let (n, rows1) = purge_chunk p (others rows) in
      if n < PURGE_CHUNK then (Some n, rows1)
      else (case purge_loop p rounds rows1 of (m, rows2) \<Rightarrow> (map_option (\<lambda>k. n + k) m, rows2)))"

definition queue_purge ::
  "purge \<Rightarrow> (job_row list \<Rightarrow> job_row list) list \<Rightarrow> job_row list \<Rightarrow> purged option \<times> job_row list" where
  "queue_purge p rounds rows =
     (let n = length (filter (purge_matches p) rows) in
      if pg_dry_run p then (Some \<lparr>matched = n, deleted = 0\<rparr>, rows)
      else (case purge_loop p rounds rows of (d, rows1) \<Rightarrow> (map_option (\<lambda>d. \<lparr>matched = n, deleted = d\<rparr>) d, rows1)))"

text \<open>The nightly maintenance (\<^verbatim>\<open>src/jobs/maintenance.rs\<close>) trims \<open>done\<close> rows after seven days.\<close>

definition JOB_RETENTION_MS :: int where
  "JOB_RETENTION_MS = 7 * 86400000"

definition trim_done :: "int \<Rightarrow> job_row list \<Rightarrow> nat \<times> job_row list" where
  "trim_done now_ms rows =
     (let old = (\<lambda>r. j_state r = Done \<and> (case j_finished_at r of Some t \<Rightarrow> t < now_ms - JOB_RETENTION_MS | None \<Rightarrow> False)) in
      (length (filter old rows), filter (\<lambda>r. \<not> old r) rows))"

section \<open>Views\<close>

text \<open>\<open>CLAIM_ORDER\<close>, and rows grouped and counted.\<close>

definition claim_key :: "job_row \<Rightarrow> int \<times> int \<times> string" where
  "claim_key r = (j_priority r, j_run_after r, j_id r)"

definition count_groups :: "job_row list \<Rightarrow> (string \<times> string \<times> nat) list" where
  "count_groups rows =
     map (\<lambda>(k, s). (k, s, length (filter (\<lambda>r. j_kind r = k \<and> state_str (j_state r) = s) rows)))
       (sort (remdups (map (\<lambda>r. (j_kind r, state_str (j_state r))) rows)))"

definition queue_list :: "job_state option \<Rightarrow> string option \<Rightarrow> nat \<Rightarrow> job_row list \<Rightarrow> job_row list" where
  "queue_list st kind limit rows =
     take limit (rev (sort_key j_id (filter (\<lambda>r. (st = None \<or> st = Some (j_state r)) \<and> (kind = None \<or> kind = Some (j_kind r))) rows)))"

definition for_puuid ::
  "(string \<Rightarrow> string \<Rightarrow> string option) \<Rightarrow> string \<Rightarrow> string list \<Rightarrow> job_row list \<Rightarrow>
     (string \<times> string \<times> nat) list \<times> job_row list" where
  "for_puuid extract puuid kinds rows =
     (let named = filter (\<lambda>r. extract (j_payload r) ''$.puuid'' = Some puuid) rows in
      (count_groups (filter (\<lambda>r. j_kind r \<in> set kinds) named),
       concat (map (\<lambda>k. take 1 (rev (sort_key j_id (filter (\<lambda>r. j_kind r = k) named)))) kinds)))"

definition queue_stats :: "job_row list \<Rightarrow> (string \<times> string \<times> nat) list" where
  "queue_stats rows = count_groups rows"

definition pending_by_kind :: "job_row list \<Rightarrow> (string \<times> nat) list" where
  "pending_by_kind rows = map (\<lambda>(k, s, n). (k, n)) (count_groups (filter (\<lambda>r. j_state r = Pending) rows))"

definition running_of :: "string \<Rightarrow> job_row list \<Rightarrow> nat" where
  "running_of kind rows = length (filter (\<lambda>r. j_state r = Running \<and> j_kind r = kind) rows)"

definition ready :: "int \<Rightarrow> job_row \<Rightarrow> bool" where
  "ready now_ms r = (j_state r = Pending \<and> j_run_after r \<le> now_ms)"

record queue_view =
  v_running :: "job_row list"
  v_next :: "job_row list"
  v_ready :: nat
  v_delayed :: nat
  v_next_delayed_at :: "int option"
  v_held_kinds :: "string list"
  v_held :: nat

definition min_int :: "int list \<Rightarrow> int option" where
  "min_int ts = (case ts of [] \<Rightarrow> None | t # ts' \<Rightarrow> Some (fold min ts' t))"

definition queue_view_of :: "(string \<times> nat) list \<Rightarrow> int \<Rightarrow> nat \<Rightarrow> job_row list \<Rightarrow> queue_view" where
  "queue_view_of limits now_ms limit rows =
     (let run = sort_key (\<lambda>r. (j_claimed_at r, j_id r)) (filter (\<lambda>r. j_state r = Running) rows);
          rdy = filter (ready now_ms) rows;
          delayed = filter (\<lambda>r. j_state r = Pending \<and> j_run_after r > now_ms) rows;
          held_kinds = map fst (filter (\<lambda>(k, n). n \<le> sat_u32 (length (filter (\<lambda>r. j_kind r = k) run))) limits) in
      \<lparr>v_running = run, v_next = take limit (sort_key claim_key rdy), v_ready = length rdy,
       v_delayed = length delayed, v_next_delayed_at = min_int (map j_run_after delayed),
       v_held_kinds = held_kinds, v_held = length (filter (\<lambda>r. j_kind r \<in> set held_kinds) rdy)\<rparr>)"

section \<open>The claim\<close>

text \<open>\<^verbatim>\<open>ClaimFilter\<close>. Its fields are JSON texts that \<open>json_each\<close> reads back; here they are the lists themselves.\<close>

record claim_filter =
  cf_lanes :: "string list"
  cf_methods :: "string list"
  cf_kinds :: "(string \<times> nat) list"

definition claim_filter_new :: "string list \<Rightarrow> (string \<times> string) list \<Rightarrow> claim_filter" where
  "claim_filter_new lanes ms = \<lparr>cf_lanes = lanes, cf_methods = map (\<lambda>(l, m). l @ '' '' @ m) ms, cf_kinds = []\<rparr>"

definition claim_filter_open :: claim_filter where
  "claim_filter_open = claim_filter_new all_lanes []"

definition with_kind_limits :: "(string \<times> nat) list \<Rightarrow> claim_filter \<Rightarrow> claim_filter" where
  "with_kind_limits limits f = f\<lparr>cf_kinds := limits\<rparr>"

definition capped :: "claim_filter \<Rightarrow> job_row list \<Rightarrow> string list" where
  "capped f rows = map fst (filter (\<lambda>(k, n). n \<le> running_of k rows) (cf_kinds f))"

text \<open>The conditions of the two sub-selects of \<open>heads\<close>, and the row one of them yields.\<close>

definition lane_ready :: "claim_filter \<Rightarrow> int \<Rightarrow> job_row list \<Rightarrow> string \<Rightarrow> job_row \<Rightarrow> bool" where
  "lane_ready f now_ms rows l r =
     (ready now_ms r \<and> j_lane r = Some l \<and>
      (case j_method r of None \<Rightarrow> True | Some m \<Rightarrow> l @ '' '' @ m \<notin> set (cf_methods f)) \<and>
      j_kind r \<notin> set (capped f rows))"

definition laneless_ready :: "claim_filter \<Rightarrow> int \<Rightarrow> job_row list \<Rightarrow> job_row \<Rightarrow> bool" where
  "laneless_ready f now_ms rows r =
     (ready now_ms r \<and> j_lane r = None \<and> j_kind r \<notin> set (capped f rows))"

definition first_by :: "('a \<Rightarrow> 'b :: linorder) \<Rightarrow> 'a list \<Rightarrow> 'a list" where
  "first_by key rs = take 1 (sort_key key rs)"

definition claim_heads :: "claim_filter \<Rightarrow> int \<Rightarrow> job_row list \<Rightarrow> job_row list" where
  "claim_heads f now_ms rows =
     concat (map (\<lambda>l. first_by claim_key (filter (lane_ready f now_ms rows l) rows)) (cf_lanes f)) @
     first_by claim_key (filter (laneless_ready f now_ms rows) rows)"

definition claim_band :: "int \<Rightarrow> int" where
  "claim_band p = (if p < 100 then 0 else if p < 10000 then 100 else p - p mod 10000)"

definition lane_load :: "job_row list \<Rightarrow> job_row \<Rightarrow> nat" where
  "lane_load rows r = length (filter (\<lambda>q. j_state q = Running \<and> j_lane q = j_lane r) rows)"

definition claim_rank :: "job_row list \<Rightarrow> job_row \<Rightarrow> int \<times> nat \<times> int \<times> int \<times> string" where
  "claim_rank rows r = (claim_band (j_priority r), lane_load rows r, j_priority r, j_run_after r, j_id r)"

definition started_row :: "int \<Rightarrow> job_row \<Rightarrow> job_row" where
  "started_row now_ms r = r\<lparr>j_state := Running, j_claimed_at := Some now_ms, j_attempts := j_attempts r + 1\<rparr>"

definition claim_job :: "int \<Rightarrow> claim_filter \<Rightarrow> job_row list \<Rightarrow> (job_db_error + job option) \<times> job_row list" where
  "claim_job now_ms f rows =
     (case first_by (claim_rank rows) (claim_heads f now_ms rows) of
        [] \<Rightarrow> (Inr None, rows)
      | h # _ \<Rightarrow>
          (case update_rows (\<lambda>r. j_id r = j_id h) (started_row now_ms) rows of
             (Inl e, _) \<Rightarrow> (Inl e, rows)
           | (Inr _, rows1) \<Rightarrow> (Inr (Some (job_of_row (started_row now_ms h))), rows1)))"

text \<open>\<open>Scheduler::claim\<close>: the filter comes from the limiter, if there is one.\<close>

definition blocked_filter :: "bulk_blocked \<Rightarrow> claim_filter" where
  "blocked_filter b =
     claim_filter_new (filter (\<lambda>l. \<not> scope_blocked b l) all_lanes) (map (\<lambda>(l, m, _). (l, m)) (bb_methods b))"

definition scheduler_claim ::
  "(string \<times> nat) list \<Rightarrow> int \<Rightarrow> instant \<Rightarrow> limiter option \<Rightarrow> job_row list \<Rightarrow>
     (job_db_error + job option) \<times> limiter option \<times> job_row list" where
  "scheduler_claim limits now_ms now lm rows =
     (let (f, lm1) = (case lm of
            Some l \<Rightarrow> (case limiter_bulk_blocked now l of (b, l1) \<Rightarrow> (blocked_filter b, Some l1))
          | None \<Rightarrow> (claim_filter_open, None));
          (out, rows1) = claim_job now_ms (with_kind_limits limits f) rows in
      (out, lm1, rows1))"

text \<open>\<open>idle_for\<close>; an error of the read counts as no delayed row.\<close>

definition due_in :: "int \<Rightarrow> job_row list \<Rightarrow> duration option" where
  "due_in now_ms rows =
     map_option (\<lambda>t. of_millis (nat (t - now_ms)))
       (min_int (map j_run_after (filter (\<lambda>r. j_state r = Pending \<and> j_run_after r > now_ms) rows)))"

definition idle_for :: "clock \<Rightarrow> limiter option \<Rightarrow> job_row list \<Rightarrow> duration \<times> limiter option" where
  "idle_for c lm rows =
     (let (freed, lm1) = (case lm of
            None \<Rightarrow> (None, None)
          | Some l \<Rightarrow> (case limiter_bulk_blocked (c_instant c) l of (b, l1) \<Rightarrow>
              (map_option (\<lambda>t. t - c_instant c) (earliest b), Some l1)));
          sleep = (case (freed, due_in (c_unix_ms c) rows) of
            (Some a, Some b) \<Rightarrow> min a b
          | (Some a, None) \<Rightarrow> a
          | (None, Some b) \<Rightarrow> b
          | (None, None) \<Rightarrow> IDLE_POLL) in
      (max sleep MIN_IDLE, lm1))"

section \<open>Boot\<close>

record recovered =
  requeued :: nat
  rec_failed :: nat

definition recover :: "int \<Rightarrow> job_row list \<Rightarrow> (job_db_error + recovered) \<times> job_row list" where
  "recover now_ms rows =
     (case update_rows (\<lambda>r. j_state r = Running \<and> JOB_MAX_ATTEMPTS \<le> j_attempts r)
          (\<lambda>r. r\<lparr>j_state := Failed, j_finished_at := Some now_ms, j_error := Some INTERRUPTED\<rparr>) rows of
        (Inl e, _) \<Rightarrow> (Inl e, rows)
      | (Inr failed, rows1) \<Rightarrow>
          (case update_rows (\<lambda>r. j_state r = Running) (\<lambda>r. r\<lparr>j_state := Pending, j_claimed_at := None\<rparr>) rows1 of
             (Inl e, _) \<Rightarrow> (Inl e, rows)
           | (Inr n, rows2) \<Rightarrow> (Inr \<lparr>requeued = n, rec_failed = failed\<rparr>, rows2)))"

text \<open>\<open>parse\<close> is \<^verbatim>\<open>serde_json::from_str(..).unwrap_or_default()\<close>; the updates are one per row read.\<close>

definition relaned :: "(string \<Rightarrow> 'j) \<Rightarrow> ('j \<Rightarrow> string \<Rightarrow> string option) \<Rightarrow> job_row \<Rightarrow> job_row" where
  "relaned parse field r =
     (case lane_of field (j_kind r) (parse (j_payload r)) of
        None \<Rightarrow> r
      | Some l \<Rightarrow> r\<lparr>j_lane := Some (l_lane l), j_method := Some (l_method l)\<rparr>)"

definition assign_lanes ::
  "(string \<Rightarrow> 'j) \<Rightarrow> ('j \<Rightarrow> string \<Rightarrow> string option) \<Rightarrow> job_row list \<Rightarrow> nat \<times> job_row list" where
  "assign_lanes parse field rows =
     (let old = (\<lambda>r. j_state r = Pending \<and> j_lane r = None) in
      (length (filter (\<lambda>r. old r \<and> lane_of field (j_kind r) (parse (j_payload r)) \<noteq> None) rows),
       map (\<lambda>r. if old r then relaned parse field r else r) rows))"

section \<open>Running a job\<close>

text \<open>
  \<open>backoff\<close> and \<open>random_jitter\<close>: \<open>random\<close> is what the system's generator gave, if anything. \<open>BACKOFF_BASE\<close>
  times at most \<open>2^20\<close> is far below the largest duration, so the product does not saturate.
\<close>

definition backoff :: "nat \<Rightarrow> f64 \<Rightarrow> duration" where
  "backoff attempts jit =
     mul_f64 (min (BACKOFF_BASE * min (2 ^ min attempts 20) u32_max) duration_max)
       (max (f64_round (4 / 5)) (min jit (f64_round (6 / 5))))"

definition random_jitter :: "nat option \<Rightarrow> f64" where
  "random_jitter random =
     f64_add (f64_round (4 / 5)) (f64_mul (f64_round (2 / 5))
       (f64_div (f64_round (of_nat (case random of Some r \<Rightarrow> r | None \<Rightarrow> u64_max div 2))) (f64_round (of_nat u64_max))))"

datatype next_state = NDone | NYield int "string option" | NBackoff int string | NFailed string

definition next_of :: "job \<Rightarrow> job_error + unit \<Rightarrow> nat option \<Rightarrow> int \<Rightarrow> next_state" where
  "next_of job outcome random now_ms =
     (case outcome of
        Inr _ \<Rightarrow> NDone
      | Inl (Yield t payload) \<Rightarrow> NYield t payload
      | Inl (Retry e) \<Rightarrow>
          if job_attempts job < JOB_MAX_ATTEMPTS then
            (let wait = backoff (job_attempts job) (random_jitter random) in
             NBackoff (sat_i64 (now_ms + min (int (as_millis wait)) i64_max)) e)
          else NFailed e
      | Inl (Fail e) \<Rightarrow> NFailed e)"

fun after_run :: "int \<Rightarrow> next_state \<Rightarrow> job_row \<Rightarrow> job_row" where
  "after_run now_ms NDone r = r\<lparr>j_state := Done, j_finished_at := Some now_ms, j_error := None\<rparr>"
| "after_run now_ms (NYield t payload) r =
     r\<lparr>j_state := Pending, j_run_after := t, j_claimed_at := None, j_attempts := j_attempts r - 1,
       j_payload := (case payload of Some p \<Rightarrow> p | None \<Rightarrow> j_payload r)\<rparr>"
| "after_run now_ms (NBackoff t e) r =
     r\<lparr>j_state := Pending, j_run_after := t, j_claimed_at := None, j_error := Some e\<rparr>"
| "after_run now_ms (NFailed e) r = r\<lparr>j_state := Failed, j_finished_at := Some now_ms, j_error := Some e\<rparr>"

definition finish ::
  "job \<Rightarrow> job_error + unit \<Rightarrow> nat option \<Rightarrow> int \<Rightarrow> job_row list \<Rightarrow> (job_db_error + unit) \<times> job_row list" where
  "finish job outcome random now_ms rows =
     (case update_rows (\<lambda>r. j_id r = job_id job) (after_run now_ms (next_of job outcome random now_ms)) rows of
        (Inl e, rows1) \<Rightarrow> (Inl e, rows1)
      | (Inr _, rows1) \<Rightarrow> (Inr (), rows1))"

text \<open>How a handler's task ends, and the outcome \<open>run\<close> makes of it; \<open>None\<close> records nothing.\<close>

datatype task_end = TaskReturned "job_error + unit" | TaskPanicked | TaskAborted

definition run_outcome :: "string list \<Rightarrow> job \<Rightarrow> task_end \<Rightarrow> (job_error + unit) option" where
  "run_outcome handlers job t =
     (if job_kind job \<notin> set handlers
      then Some (Inl (Fail (''no handler for job kind '' @ [CHR 0x27] @ job_kind job @ [CHR 0x27])))
      else (case t of
          TaskReturned r \<Rightarrow> Some r
        | TaskPanicked \<Rightarrow> Some (Inl (Retry ''handler panicked''))
        | TaskAborted \<Rightarrow> None))"

definition run_job ::
  "string list \<Rightarrow> job \<Rightarrow> task_end \<Rightarrow> nat option \<Rightarrow> int \<Rightarrow> job_row list \<Rightarrow> job_row list" where
  "run_job handlers job t random now_ms rows =
     (case run_outcome handlers job t of
        None \<Rightarrow> rows
      | Some outcome \<Rightarrow> snd (finish job outcome random now_ms rows))"

text \<open>\<open>iso_of\<close> is \<^verbatim>\<open>clock::iso_ms\<close>, empty when the time has no date.\<close>

definition outcome_text :: "(int \<Rightarrow> string) \<Rightarrow> job \<Rightarrow> job_error + unit \<Rightarrow> string" where
  "outcome_text iso_of job outcome =
     (case outcome of
        Inr _ \<Rightarrow> ''done''
      | Inl (Retry e) \<Rightarrow>
          if job_attempts job < JOB_MAX_ATTEMPTS then ''retry later: '' @ e else ''failed: '' @ e
      | Inl (Fail e) \<Rightarrow> ''failed: '' @ e
      | Inl (Yield t _) \<Rightarrow> ''yielded: no rate-limit room until '' @ iso_of t)"

end
