(* ===== verification/Jobs_Invariant.thy ===== *)
theory Jobs_Invariant
  imports Jobs
begin

text \<open>
  The job queue as a state machine: runs of its operations, an invariant of every reachable queue, and one lemma
  per operation that keeps it. The claim is shown equal to a search of the whole queue on the way, because its
  effect on the invariant is read off that form.
\<close>

section \<open>The index\<close>

definition clash :: "job_row \<Rightarrow> job_row \<Rightarrow> bool" where
  "clash r q = (live r \<and> live q \<and> j_kind r = j_kind q \<and> j_dedupe r \<noteq> None \<and> j_dedupe r = j_dedupe q)"

lemma dedupe_ok_sorted: "dedupe_ok rows = sorted_wrt (\<lambda>r q. \<not> clash r q) rows"
  by (induction rows) (auto simp: clash_def holds_key_def list_ex_iff)

lemma clash_sym: "clash r q \<longleftrightarrow> clash q r"
  unfolding clash_def by metis

lemma dedupe_ok_append:
  "dedupe_ok (rows @ [r]) \<longleftrightarrow> dedupe_ok rows \<and> (\<forall>q \<in> set rows. \<not> clash q r)"
  by (auto simp: dedupe_ok_sorted sorted_wrt_append)

lemma dedupe_ok_filter: "dedupe_ok rows \<Longrightarrow> dedupe_ok (filter p rows)"
  by (simp add: dedupe_ok_sorted sorted_wrt_filter)

lemma dedupe_ok_unique:
  assumes "dedupe_ok rows" "r \<in> set rows" "q \<in> set rows" "clash r q"
  shows "r = q"
  using assms
proof (induction rows)
  case (Cons a rows)
  then show ?case
    using clash_sym by (auto simp: dedupe_ok_sorted)
qed simp

text \<open>An update that revives no row and changes no key cannot clash.\<close>

definition no_revival :: "(job_row \<Rightarrow> job_row) \<Rightarrow> job_row \<Rightarrow> bool" where
  "no_revival g r = (live (g r) \<longrightarrow> live r \<and> j_kind (g r) = j_kind r \<and> j_dedupe (g r) = j_dedupe r)"

lemma dedupe_ok_map:
  assumes "dedupe_ok rows" "\<forall>r \<in> set rows. no_revival g r"
  shows "dedupe_ok (map g rows)"
  using assms by (induction rows) (auto simp: dedupe_ok_sorted clash_def no_revival_def)

lemma update_rows_no_revival:
  assumes "dedupe_ok rows" "\<forall>r \<in> set rows. p r \<longrightarrow> no_revival f r"
  shows "update_rows p f rows = (Inr (length (filter p rows)), map (\<lambda>r. if p r then f r else r) rows)"
proof -
  have "dedupe_ok (map (\<lambda>r. if p r then f r else r) rows)"
    using assms(2) by (intro dedupe_ok_map [OF assms(1)]) (auto simp: no_revival_def)
  then show ?thesis
    by (simp add: update_rows_def Let_def)
qed

lemma find_holds_key_None: "find (holds_key k d) rows = None \<longleftrightarrow> (\<forall>r \<in> set rows. \<not> holds_key k d r)"
  by (auto simp: find_None_iff)

text \<open>A retry revives one row, after looking for a live one with its key.\<close>

lemma dedupe_ok_revive:
  assumes "dedupe_ok rows" "distinct (map j_id rows)" "r \<in> set rows" "j_id r = i"
    and "\<forall>q \<in> set rows. \<not> holds_key (j_kind r) (j_dedupe r) q"
    and "j_kind (g r) = j_kind r" "j_dedupe (g r) = j_dedupe r"
  shows "dedupe_ok (map (\<lambda>q. if j_id q = i then g q else q) rows)"
  using assms(1-5)
proof (induction rows)
  case (Cons a rows)
  let ?m = "map (\<lambda>q. if j_id q = i then g q else q)"
  show ?case
  proof (cases "a = r")
    case True
    then have "j_id q \<noteq> i" if "q \<in> set rows" for q
      using Cons.prems(2,4) that by (metis distinct.simps(2) image_eqI list.set_map list.simps(9))
    then have "?m rows = rows"
      by (auto intro: map_idI)
    then show ?thesis
      using True Cons.prems assms(6,7) by (auto simp: dedupe_ok_sorted clash_def holds_key_def)
  next
    case False
    then have r: "r \<in> set rows"
      using Cons.prems(3) by simp
    then have a: "j_id a \<noteq> i"
      using Cons.prems(2,4) by (metis (no_types, lifting) distinct.simps(2) image_eqI list.set_map list.simps(9))
    have "\<not> clash a (if j_id q = i then g q else q)" if "q \<in> set rows" for q
    proof (cases "j_id q = i")
      case True
      then have "q = r"
        using r Cons.prems(2,4) that by (auto dest: inj_onD simp: distinct_map)
      then show ?thesis
        using Cons.prems(5) assms(6,7) True by (auto simp: clash_def holds_key_def)
    next
      case False
      then show ?thesis
        using Cons.prems(1) that by (auto simp: dedupe_ok_sorted)
    qed
    then have "\<forall>q \<in> set (?m rows). \<not> clash a q"
      unfolding list.set_map by blast
    moreover have "dedupe_ok (?m rows)"
      using Cons.IH Cons.prems r by (simp add: dedupe_ok_sorted)
    ultimately show ?thesis
      using a by (simp add: dedupe_ok_sorted)
  qed
qed simp

section \<open>Runs of the queue\<close>

text \<open>
  A state is the table and the jobs the workers hold. New ids are fresh (they come from one ULID generator).
  \<open>Boot\<close> is the start of the process after the old one died, so nothing is held; a purge works chunk by chunk
  between the other writes, and only on the states it accepts.
\<close>

inductive queue_step ::
  "('j \<Rightarrow> string) \<Rightarrow> ('j \<Rightarrow> string \<Rightarrow> string option) \<Rightarrow> (string \<times> nat) list \<Rightarrow>
     job_row list \<times> job list \<Rightarrow> job_row list \<times> job list \<Rightarrow> bool"
  for json_text field limits
where
  Enqueue: "nid \<notin> j_id ` set rows \<Longrightarrow>
     queue_step json_text field limits (rows, held) (snd (enqueue_on json_text field nid nj now rows), held)"
| Promote: "nid \<notin> j_id ` set rows \<Longrightarrow>
     queue_step json_text field limits (rows, held) (snd (enqueue_or_promote_on json_text field nid nj now rows), held)"
| Cancel_pending:
    "queue_step json_text field limits (rows, held) (snd (cancel_pending_on extract kinds key value now rows), held)"
| Retry: "queue_step json_text field limits (rows, held) (snd (retry i now rows), held)"
| Cancel: "queue_step json_text field limits (rows, held) (snd (cancel i now rows), held)"
| Purge: "pg_state p \<in> set PURGEABLE_STATES \<Longrightarrow>
     queue_step json_text field limits (rows, held) (snd (purge_chunk p rows), held)"
| Trim: "queue_step json_text field limits (rows, held) (snd (trim_done now rows), held)"
| Assign: "queue_step json_text field limits (rows, held) (snd (assign_lanes parse field rows), held)"
| Claim: "claim_job now (with_kind_limits limits f) rows = (Inr (Some job), rows') \<Longrightarrow>
     queue_step json_text field limits (rows, held) (rows', job # held)"
| Run: "job \<in> set held \<Longrightarrow>
     queue_step json_text field limits (rows, held) (run_job handlers job t random now rows, remove1 job held)"
| Boot: "queue_step json_text field limits (rows, held) (snd (recover now rows), [])"

inductive queue_reachable ::
  "('j \<Rightarrow> string) \<Rightarrow> ('j \<Rightarrow> string \<Rightarrow> string option) \<Rightarrow> (string \<times> nat) list \<Rightarrow> job_row list \<times> job list \<Rightarrow> bool"
  for json_text field limits
where
  Empty: "queue_reachable json_text field limits ([], [])"
| Step: "queue_reachable json_text field limits s \<Longrightarrow> queue_step json_text field limits s s' \<Longrightarrow> queue_reachable json_text field limits s'"

section \<open>The invariant\<close>

definition row_ok :: "job_row \<Rightarrow> bool" where
  "row_ok r =
     (j_attempts r \<le> JOB_MAX_ATTEMPTS \<and> (j_state r = Pending \<longrightarrow> j_attempts r < JOB_MAX_ATTEMPTS) \<and>
      (j_state r = Running \<longrightarrow> 1 \<le> j_attempts r \<and> j_claimed_at r \<noteq> None) \<and>
      (\<forall>l. j_lane r = Some l \<longrightarrow> l \<in> set all_lanes) \<and> (j_method r = None) = (j_lane r = None))"

definition holds_row :: "job_row list \<Rightarrow> job \<Rightarrow> bool" where
  "holds_row rows job =
     list_ex (\<lambda>r. j_id r = job_id job \<and> j_state r = Running \<and> j_attempts r = job_attempts job) rows"

definition within_limits :: "(string \<times> nat) list \<Rightarrow> job_row list \<Rightarrow> bool" where
  "within_limits limits rows = list_all (\<lambda>(k, n). running_of k rows \<le> n) limits"

definition queue_inv :: "(string \<times> nat) list \<Rightarrow> job_row list \<times> job list \<Rightarrow> bool" where
  "queue_inv limits s =
     (distinct (map j_id (fst s)) \<and> dedupe_ok (fst s) \<and> list_all row_ok (fst s) \<and> within_limits limits (fst s) \<and>
      distinct (map job_id (snd s)) \<and> list_all (holds_row (fst s)) (snd s))"

text \<open>A change of rows that leaves the running ones alone and makes no new ones.\<close>

definition keeps :: "(job_row \<Rightarrow> job_row) \<Rightarrow> job_row \<Rightarrow> bool" where
  "keeps g r =
     (j_id (g r) = j_id r \<and> (row_ok r \<longrightarrow> row_ok (g r)) \<and> (j_state (g r) = Running \<longrightarrow> g r = r) \<and>
      (j_state r = Running \<longrightarrow> g r = r))"

lemma running_of_keeps: "\<forall>r \<in> set rows. keeps g r \<Longrightarrow> running_of k (map g rows) = running_of k rows"
  by (induction rows) (auto simp: running_of_def keeps_def)

lemma map_id_keeps: "\<forall>r \<in> set rows. keeps g r \<Longrightarrow> map (j_id \<circ> g) rows = map j_id rows"
  by (auto simp: keeps_def)

lemma holds_row_keeps: "\<forall>r \<in> set rows. keeps g r \<Longrightarrow> holds_row rows job \<Longrightarrow> holds_row (map g rows) job"
  by (auto simp: holds_row_def list_ex_iff keeps_def intro: bexI)

lemma queue_inv_keeps:
  assumes "queue_inv limits (rows, held)" "\<forall>r \<in> set rows. keeps g r" "dedupe_ok (map g rows)"
  shows "queue_inv limits (map g rows, held)"
proof -
  have "distinct (map (j_id \<circ> g) rows)"
    unfolding map_id_keeps [OF assms(2)] using assms(1) by (simp add: queue_inv_def)
  then show ?thesis
    using assms running_of_keeps [OF assms(2)] holds_row_keeps [OF assms(2)]
    by (auto simp: queue_inv_def list_all_iff within_limits_def keeps_def)
qed

lemma keeps_if: "(p r \<Longrightarrow> keeps f r) \<Longrightarrow> keeps (\<lambda>r. if p r then f r else r) r"
  by (auto simp: keeps_def)

lemma queue_inv_update:
  assumes "queue_inv limits (rows, held)" "\<And>r. r \<in> set rows \<Longrightarrow> p r \<Longrightarrow> keeps f r"
  shows "queue_inv limits (snd (update_rows p f rows), held)"
  using assms queue_inv_keeps [OF assms(1), of "\<lambda>r. if p r then f r else r"]
  by (auto simp: update_rows_def Let_def intro: keeps_if)

text \<open>Deleting rows that do not run.\<close>

lemma queue_inv_filter:
  assumes "queue_inv limits (rows, held)" "\<forall>r \<in> set rows. j_state r = Running \<longrightarrow> p r"
  shows "queue_inv limits (filter p rows, held)"
proof -
  have "running_of k (filter p rows) = running_of k rows" for k
    using assms(2) by (auto simp: running_of_def intro!: arg_cong [of _ _ length] filter_cong)
  moreover have "holds_row rows job \<Longrightarrow> holds_row (filter p rows) job" for job
    using assms(2) by (auto simp: holds_row_def list_ex_iff)
  ultimately show ?thesis
    using assms(1) by (auto simp: queue_inv_def list_all_iff within_limits_def dedupe_ok_filter distinct_map_filter)
qed

lemma queue_inv_append:
  assumes "queue_inv limits (rows, held)" "j_id r \<notin> j_id ` set rows" "row_ok r" "j_state r = Pending"
    "\<forall>q \<in> set rows. \<not> clash q r"
  shows "queue_inv limits (rows @ [r], held)"
  using assms by (auto simp: queue_inv_def dedupe_ok_append list_all_iff within_limits_def running_of_def holds_row_def)

lemmas row_updates = cancelled_def retried_def relaned_def keeps_def row_ok_def

lemma keeps_cancelled: "j_state r = Pending \<Longrightarrow> keeps (cancelled now) r"
  by (simp add: row_updates)

lemma keeps_retried: "j_state r = Failed \<Longrightarrow> keeps (retried now) r"
  by (simp add: row_updates JOB_MAX_ATTEMPTS_def)

lemma keeps_relaned: "j_state r = Pending \<Longrightarrow> keeps (relaned parse field) r"
  by (auto simp: row_updates lane_of_in_all split: option.splits)

lemma new_row_facts:
  "j_id (new_row json_text field nid nj now) = nid" "j_state (new_row json_text field nid nj now) = Pending"
  "row_ok (new_row json_text field nid nj now)" "j_kind (new_row json_text field nid nj now) = nj_kind nj"
  "j_dedupe (new_row json_text field nid nj now) = nj_dedupe nj"
  by (auto simp: new_row_def row_ok_def JOB_MAX_ATTEMPTS_def lane_of_in_all Let_def)

lemma holds_key_clash: "holds_key k d q \<longleftrightarrow> clash q r" if "live r" "j_kind r = k" "j_dedupe r = d"
  unfolding holds_key_def clash_def using that by metis

lemma queue_inv_enqueue:
  assumes "queue_inv limits (rows, held)" "nid \<notin> j_id ` set rows"
  shows "queue_inv limits (snd (enqueue_on json_text field nid nj now rows), held)"
proof (cases "list_ex (\<lambda>r. j_id r = nid \<or> holds_key (nj_kind nj) (nj_dedupe nj) r) rows")
  case True
  then show ?thesis
    using assms(1) by (simp add: enqueue_on_def split: option.splits)
next
  case False
  have "live (new_row json_text field nid nj now)"
    by (simp add: live_def new_row_facts)
  from holds_key_clash [OF this new_row_facts(4,5)]
  have "\<forall>q \<in> set rows. \<not> clash q (new_row json_text field nid nj now)"
    using False by (auto simp: list_ex_iff)
  then have "queue_inv limits (rows @ [new_row json_text field nid nj now], held)"
    using assms by (intro queue_inv_append) (simp_all add: new_row_facts)
  then show ?thesis
    using False by (simp add: enqueue_on_def)
qed

section \<open>The claim\<close>

lemma first_by_Nil: "first_by key rs = [] \<longleftrightarrow> rs = []"
proof -
  have "sort_key key rs = [] \<longleftrightarrow> rs = []"
    by (metis length_0_conv length_sort)
  then show ?thesis
    by (simp add: first_by_def)
qed

lemma first_by_Cons:
  assumes "first_by key rs = h # t"
  shows "t = []" "h \<in> set rs" "\<forall>r \<in> set rs. key h \<le> key r"
proof -
  obtain t' where s: "sort_key key rs = h # t'"
    using assms by (cases "sort_key key rs") (auto simp: first_by_def)
  show "t = []"
    using assms s by (simp add: first_by_def)
  have set: "set rs = insert h (set t')"
    using s by (metis list.set(2) set_sort)
  moreover have "sorted (map key (h # t'))"
    unfolding s [symmetric] by simp
  ultimately show "h \<in> set rs" "\<forall>r \<in> set rs. key h \<le> key r"
    by auto
qed

lemma set_first_by: "set (first_by key rs) \<subseteq> set rs"
  using first_by_Cons(2) [of key rs] by (cases "first_by key rs") (auto dest: first_by_Cons(1))

lemma first_by_unique:
  assumes "h \<in> set rs" "\<forall>r \<in> set rs. key h \<le> key r" "inj_on key (set rs)"
  shows "first_by key rs = [h]"
proof (cases "first_by key rs")
  case Nil
  then show ?thesis
    using assms(1) by (simp add: first_by_Nil)
next
  case (Cons a t)
  then show ?thesis
    using first_by_Cons [OF Cons] assms by (metis antisym inj_onD)
qed

text \<open>The rows a claim may take, without the detour over the heads of the lanes.\<close>

definition claimable :: "claim_filter \<Rightarrow> int \<Rightarrow> job_row list \<Rightarrow> job_row \<Rightarrow> bool" where
  "claimable f now rows r =
     (ready now r \<and> j_kind r \<notin> set (capped f rows) \<and>
      (case j_lane r of
         None \<Rightarrow> True
       | Some l \<Rightarrow> l \<in> set (cf_lanes f) \<and>
           (case j_method r of None \<Rightarrow> True | Some m \<Rightarrow> l @ '' '' @ m \<notin> set (cf_methods f))))"

lemma claimable_iff:
  "claimable f now rows r \<longleftrightarrow> laneless_ready f now rows r \<or> (\<exists>l \<in> set (cf_lanes f). lane_ready f now rows l r)"
  by (auto simp: claimable_def laneless_ready_def lane_ready_def split: option.splits)

lemma claim_heads_subset: "set (claim_heads f now rows) \<subseteq> {r \<in> set rows. claimable f now rows r}"
  using set_first_by by (fastforce simp: claim_heads_def claimable_iff)

lemma claim_band_mono: "p \<le> q \<Longrightarrow> claim_band p \<le> claim_band q"
proof -
  assume "p \<le> q"
  then have "p - p mod 10000 \<le> q - q mod 10000"
    by (metis div_times_less_eq_dividend minus_mod_eq_div_mult zdiv_mono1 mult_right_mono zero_le_numeral zero_less_numeral)
  moreover have "10000 \<le> q - q mod 10000" if "10000 \<le> q"
    using that by (metis div_self minus_mod_eq_div_mult mult_1 mult_right_mono numeral_neq_zero zdiv_mono1 zero_le_numeral zero_less_numeral)
  ultimately show ?thesis
    using \<open>p \<le> q\<close> by (auto simp: claim_band_def)
qed

lemma claim_rank_mono:
  "claim_key h \<le> claim_key r \<Longrightarrow> j_lane h = j_lane r \<Longrightarrow> claim_rank rows h \<le> claim_rank rows r"
  using claim_band_mono [of "j_priority h" "j_priority r"]
  by (auto simp: claim_key_def claim_rank_def lane_load_def less_eq_prod_def)

lemma head_below:
  assumes "r \<in> set rows" "claimable f now rows r"
  shows "\<exists>h \<in> set (claim_heads f now rows). claim_rank rows h \<le> claim_rank rows r"
proof -
  have head: "\<exists>h \<in> set (first_by claim_key (filter p rows)). claim_rank rows h \<le> claim_rank rows r"
    if "p r" "\<And>q. p q \<Longrightarrow> j_lane q = j_lane r" for p
  proof (cases "first_by claim_key (filter p rows)")
    case Nil
    then show ?thesis
      using assms(1) that(1) by (auto simp: first_by_Nil filter_empty_conv)
  next
    case (Cons h t)
    then have "claim_key h \<le> claim_key r" "p h"
      using first_by_Cons [OF Cons] assms(1) that(1) by auto
    then show ?thesis
      using that(2) Cons claim_rank_mono by auto
  qed
  show ?thesis
    using assms(2) unfolding claimable_iff
  proof (elim disjE bexE)
    assume "laneless_ready f now rows r"
    then show ?thesis
      using head [of "laneless_ready f now rows"] by (auto simp: claim_heads_def laneless_ready_def)
  next
    fix l
    assume "l \<in> set (cf_lanes f)" "lane_ready f now rows l r"
    then show ?thesis
      using head [of "lane_ready f now rows l"] by (fastforce simp: claim_heads_def lane_ready_def)
  qed
qed

lemma claim_rank_inj: "distinct (map j_id rows) \<Longrightarrow> inj_on (claim_rank rows') (set rows)"
  by (auto simp: inj_on_def claim_rank_def distinct_map)

text \<open>The best head is the best of all the claimable rows.\<close>

lemma first_of_heads:
  assumes "distinct (map j_id rows)"
  shows "first_by (claim_rank rows) (claim_heads f now rows) =
    first_by (claim_rank rows) (filter (claimable f now rows) rows)"
proof (cases "first_by (claim_rank rows) (claim_heads f now rows)")
  case Nil
  then have "filter (claimable f now rows) rows = []"
    using head_below by (fastforce simp: first_by_Nil filter_empty_conv)
  then show ?thesis
    using Nil by (simp add: first_by_def)
next
  case (Cons h t)
  have h: "h \<in> set (filter (claimable f now rows) rows)"
    using first_by_Cons(2) [OF Cons] claim_heads_subset by auto
  moreover have "claim_rank rows h \<le> claim_rank rows r" if "r \<in> set (filter (claimable f now rows) rows)" for r
    using that head_below [of r rows f now] first_by_Cons(3) [OF Cons] by (auto intro: order_trans)
  moreover have "inj_on (claim_rank rows) (set (filter (claimable f now rows) rows))"
    by (rule inj_on_subset [OF claim_rank_inj [OF assms]]) auto
  ultimately show ?thesis
    using Cons first_by_unique [of h "filter (claimable f now rows) rows" "claim_rank rows"] first_by_Cons(1) [OF Cons] by auto
qed

lemma distinct_ids: "distinct (map j_id rows) \<Longrightarrow> r \<in> set rows \<Longrightarrow> q \<in> set rows \<Longrightarrow> j_id r = j_id q \<Longrightarrow> r = q"
  by (auto simp: distinct_map dest: inj_onD)

text \<open>What a claim does, written without the heads.\<close>

definition claim_spec :: "int \<Rightarrow> claim_filter \<Rightarrow> job_row list \<Rightarrow> job option \<times> job_row list" where
  "claim_spec now f rows =
     (case first_by (claim_rank rows) (filter (claimable f now rows) rows) of
        [] \<Rightarrow> (None, rows)
      | h # _ \<Rightarrow> (Some (job_of_row (started_row now h)), map (\<lambda>r. if r = h then started_row now r else r) rows))"

lemma claim_job_spec:
  assumes "distinct (map j_id rows)" "dedupe_ok rows"
  shows "claim_job now f rows = (case claim_spec now f rows of (j, rows') \<Rightarrow> (Inr j, rows'))"
proof (cases "first_by (claim_rank rows) (claim_heads f now rows)")
  case Nil
  then show ?thesis
    using first_of_heads [OF assms(1), of f now] by (simp add: claim_job_def claim_spec_def)
next
  case (Cons h t)
  have h: "h \<in> set rows" "claimable f now rows h"
    using first_by_Cons(2) [OF Cons] claim_heads_subset by auto
  have eq: "j_id r = j_id h \<longleftrightarrow> r = h" if "r \<in> set rows" for r
    using distinct_ids [OF assms(1) that h(1)] by auto
  have "no_revival (started_row now) h"
    using h(2) by (simp add: no_revival_def started_row_def live_def claimable_def ready_def)
  then have "\<forall>r \<in> set rows. j_id r = j_id h \<longrightarrow> no_revival (started_row now) r"
    using eq by blast
  then have "update_rows (\<lambda>r. j_id r = j_id h) (started_row now) rows =
      (Inr (length (filter (\<lambda>r. j_id r = j_id h) rows)), map (\<lambda>r. if j_id r = j_id h then started_row now r else r) rows)"
    by (rule update_rows_no_revival [OF assms(2)])
  moreover have "map (\<lambda>r. if j_id r = j_id h then started_row now r else r) rows =
      map (\<lambda>r. if r = h then started_row now r else r) rows"
    using eq by (intro map_cong) simp_all
  ultimately show ?thesis
    using Cons first_of_heads [OF assms(1), of f now] by (simp add: claim_job_def claim_spec_def)
qed

section \<open>Every operation keeps the invariant\<close>

lemma queue_invD:
  assumes "queue_inv limits (rows, held)"
  shows "distinct (map j_id rows)" "dedupe_ok rows" "list_all row_ok rows" "within_limits limits rows"
    "distinct (map job_id held)" "list_all (holds_row rows) held"
  using assms by (simp_all add: queue_inv_def)

lemma queue_inv_promote:
  assumes "queue_inv limits (rows, held)" "nid \<notin> j_id ` set rows"
  shows "queue_inv limits (snd (enqueue_or_promote_on json_text field nid nj now rows), held)"
proof -
  obtain o1 rows1 where e: "enqueue_on json_text field nid nj now rows = (o1, rows1)"
    by (cases "enqueue_on json_text field nid nj now rows") auto
  have "queue_inv limits (rows1, held)"
    using queue_inv_enqueue [OF assms, of json_text field nj now] e by simp
  then have "queue_inv limits (snd (update_rows (\<lambda>r. j_id r = x \<and> j_state r = Pending)
      (\<lambda>r. r\<lparr>j_priority := min (j_priority r) p, j_run_after := min (j_run_after r) t\<rparr>) rows1), held)" for x p t
    by (rule queue_inv_update) (auto simp: keeps_def row_ok_def)
  note upd = this
  show ?thesis
    using assms(1) \<open>queue_inv limits (rows1, held)\<close> upd [of "en_id (projr o1)" "case nj_run_after nj of Some t \<Rightarrow> t | None \<Rightarrow> now" "nj_priority nj"]
    by (auto simp: enqueue_or_promote_on_def e split: sum.splits prod.splits)
qed

lemma queue_inv_cancel_pending:
  "queue_inv limits (rows, held) \<Longrightarrow>
     queue_inv limits (snd (cancel_pending_on extract kinds key value now rows), held)"
proof (induction kinds arbitrary: rows)
  case (Cons kind kinds)
  let ?p = "\<lambda>r. j_state r = Pending \<and> j_kind r = kind \<and> extract (j_payload r) (''$.'' @ key) = Some value"
  have "queue_inv limits (snd (update_rows ?p (cancelled now) rows), held)"
    by (rule queue_inv_update [OF Cons.prems]) (simp add: keeps_cancelled)
  then show ?case
    using Cons.IH [of "snd (update_rows ?p (cancelled now) rows)"] by (auto split: sum.splits prod.splits)
qed simp

lemma queue_get_Some: "queue_get i rows = Some r \<Longrightarrow> r \<in> set rows \<and> j_id r = i"
  by (auto simp: queue_get_def find_Some_iff)

lemma queue_inv_retry:
  assumes "queue_inv limits (rows, held)"
  shows "queue_inv limits (snd (retry i now rows), held)"
proof (cases "queue_get i rows")
  case (Some r)
  have "keeps (retried now) q" if "q \<in> set rows" "j_id q = i" "j_state r = Failed" for q
    using that distinct_ids [OF queue_invD(1) [OF assms] that(1), of r] queue_get_Some [OF Some] keeps_retried by auto
  then have "queue_inv limits (snd (update_rows (\<lambda>q. j_id q = i) (retried now) rows), held)" if "j_state r = Failed"
    using that by (intro queue_inv_update [OF assms]) auto
  then show ?thesis
    using assms Some by (auto simp: retry_def split: option.splits sum.splits prod.splits)
qed (simp add: retry_def assms)

lemma queue_inv_cancel:
  assumes "queue_inv limits (rows, held)"
  shows "queue_inv limits (snd (cancel i now rows), held)"
proof -
  have "queue_inv limits (snd (update_rows (\<lambda>r. j_id r = i \<and> j_state r = Pending) (cancelled now) rows), held)"
    by (rule queue_inv_update [OF assms]) (simp add: keeps_cancelled)
  then show ?thesis
    by (auto simp: cancel_def split: option.splits sum.splits prod.splits)
qed

lemma purge_chunk_running:
  assumes "distinct (map j_id rows)" "pg_state p \<noteq> Running" "r \<in> set rows" "j_state r = Running"
  shows "j_id r \<notin> set (map j_id (take n (filter (purge_matches p) rows)))"
proof
  assume "j_id r \<in> set (map j_id (take n (filter (purge_matches p) rows)))"
  then obtain q where q: "q \<in> set rows" "purge_matches p q" "j_id r = j_id q"
    by (force dest!: in_set_takeD)
  have "r = q"
    by (rule distinct_ids [OF assms(1,3) q(1,3)])
  then show False
    using q(2) assms(2,4) by (simp add: purge_matches_def)
qed

lemma queue_inv_purge:
  assumes "queue_inv limits (rows, held)" "pg_state p \<in> set PURGEABLE_STATES"
  shows "queue_inv limits (snd (purge_chunk p rows), held)"
proof -
  have "pg_state p \<noteq> Running"
    using assms(2) by (auto simp: PURGEABLE_STATES_def)
  then show ?thesis
    unfolding purge_chunk_def Let_def snd_conv
    using purge_chunk_running [OF queue_invD(1) [OF assms(1)]] by (intro queue_inv_filter [OF assms(1)]) blast
qed

lemma queue_inv_trim: "queue_inv limits (rows, held) \<Longrightarrow> queue_inv limits (snd (trim_done now rows), held)"
  unfolding trim_done_def Let_def snd_conv by (rule queue_inv_filter) auto

lemma relaned_fields [simp]:
  "j_state (relaned parse field r) = j_state r" "j_kind (relaned parse field r) = j_kind r"
  "j_dedupe (relaned parse field r) = j_dedupe r"
  by (auto simp: relaned_def split: option.splits)

lemma queue_inv_assign:
  assumes "queue_inv limits (rows, held)"
  shows "queue_inv limits (snd (assign_lanes parse field rows), held)"
proof -
  let ?g = "\<lambda>r. if j_state r = Pending \<and> j_lane r = None then relaned parse field r else r"
  have "dedupe_ok (map ?g rows)"
    using queue_invD(2) [OF assms] by (rule dedupe_ok_map) (auto simp: no_revival_def live_def)
  moreover have "\<forall>r \<in> set rows. keeps ?g r"
    using keeps_relaned by (auto intro!: keeps_if)
  ultimately show ?thesis
    unfolding assign_lanes_def Let_def snd_conv by (intro queue_inv_keeps [OF assms]) auto
qed

lemma queue_inv_map:
  assumes "queue_inv limits (rows, held)" "\<forall>r \<in> set rows. j_id (g r) = j_id r \<and> row_ok (g r)"
    and "dedupe_ok (map g rows)" "within_limits limits (map g rows)"
    and "distinct (map job_id held')" "list_all (holds_row (map g rows)) held'"
  shows "queue_inv limits (map g rows, held')"
proof -
  have "map (j_id \<circ> g) rows = map j_id rows"
    using assms(2) by simp
  then have "distinct (map (j_id \<circ> g) rows)"
    using assms(1) by (simp only: queue_inv_def fst_conv)
  then show ?thesis
    using assms by (simp add: queue_inv_def list_all_iff)
qed

lemma running_of_replace:
  assumes "distinct (map j_id rows)" "h \<in> set rows" "j_id (g h) = j_id h"
  shows "running_of k (map (\<lambda>r. if r = h then g r else r) rows) + (if j_state h = Running \<and> j_kind h = k then 1 else 0) =
    running_of k rows + (if j_state (g h) = Running \<and> j_kind (g h) = k then 1 else 0)"
proof -
  obtain xs ys where rows: "rows = xs @ h # ys" "h \<notin> set xs"
    using assms(2) by (metis split_list_first)
  moreover have "h \<notin> set ys"
    using assms(1) by (auto simp: rows)
  ultimately have "map (\<lambda>r. if r = h then g r else r) rows = xs @ g h # ys"
    by (auto intro!: map_idI)
  then show ?thesis
    by (simp add: rows(1) running_of_def)
qed

lemma holds_row_not_pending:
  assumes "distinct (map j_id rows)" "holds_row rows job" "h \<in> set rows" "j_state h \<noteq> Running"
  shows "job_id job \<noteq> j_id h"
  using assms(2-4) distinct_ids [OF assms(1,3)] unfolding holds_row_def list_ex_iff by metis

lemma holds_row_replace:
  "holds_row rows job \<Longrightarrow> job_id job \<noteq> j_id h \<Longrightarrow> holds_row (map (\<lambda>r. if r = h then g r else r) rows) job"
  by (auto simp: holds_row_def list_ex_iff intro!: bexI)

lemma queue_inv_claim:
  assumes inv: "queue_inv limits (rows, held)"
    and claim: "claim_job now (with_kind_limits limits f) rows = (Inr (Some job), rows')"
  shows "queue_inv limits (rows', job # held)"
proof -
  note inv' = queue_invD [OF inv]
  let ?f = "with_kind_limits limits f"
  obtain h t where first: "first_by (claim_rank rows) (filter (claimable ?f now rows) rows) = h # t"
    and job: "job = job_of_row (started_row now h)"
    and rows': "rows' = map (\<lambda>r. if r = h then started_row now r else r) rows"
    using claim claim_job_spec [OF inv'(1,2), of now ?f] by (auto simp: claim_spec_def split: list.splits)
  have h: "h \<in> set rows" "claimable ?f now rows h"
    using first_by_Cons(2) [OF first] by auto
  then have pend: "j_state h = Pending"
    by (simp add: claimable_def ready_def)
  have hok: "row_ok h"
    using inv'(3) h(1) by (simp add: list_all_iff)
  have apart: "job_id j \<noteq> j_id h" if "j \<in> set held" for j
    using holds_row_not_pending [OF inv'(1) _ h(1)] that inv'(6) pend by (auto simp: list_all_iff)
  have "dedupe_ok rows'"
    unfolding rows' using inv'(2) by (rule dedupe_ok_map) (simp add: no_revival_def started_row_def live_def pend)
  moreover have "within_limits limits rows'"
    unfolding within_limits_def list_all_iff
  proof clarify
    fix k n
    assume kn: "(k, n) \<in> set limits"
    have "\<not> n \<le> running_of (j_kind h) rows" if "k = j_kind h"
      using h(2) kn that by (force simp: claimable_def capped_def with_kind_limits_def)
    then show "running_of k rows' \<le> n"
      using running_of_replace [OF inv'(1) h(1), of "started_row now" k] kn inv'(4) pend
      by (auto simp: rows' started_row_def within_limits_def list_all_iff split: if_splits)
  qed
  moreover have "distinct (map job_id (job # held))"
    using apart inv'(5) by (force simp: job job_of_row_def started_row_def)
  moreover have "list_all (holds_row rows') held"
    using inv'(6) apart holds_row_replace by (simp add: rows' list_all_iff)
  moreover have "holds_row rows' job"
    using h(1) by (auto simp: rows' holds_row_def list_ex_iff job job_of_row_def started_row_def intro!: bexI [of _ h])
  ultimately show ?thesis
    unfolding rows' using inv'(3) hok
    by (intro queue_inv_map [OF inv]) (auto simp: list_all_iff row_ok_def pend started_row_def)
qed

text \<open>Recording an outcome: the held row is the only one with its id, and it is live before and after or only before.\<close>

lemma after_run_fields [simp]:
  "j_id (after_run now n r) = j_id r" "j_kind (after_run now n r) = j_kind r" "j_dedupe (after_run now n r) = j_dedupe r"
  "j_lane (after_run now n r) = j_lane r" "j_method (after_run now n r) = j_method r" "j_state (after_run now n r) \<noteq> Running"
  "j_attempts (after_run now n r) \<le> j_attempts r"
  by (cases n; simp)+

lemma after_run_row_ok:
  assumes "row_ok r" "j_state r = Running" "j_attempts r = job_attempts job"
  shows "row_ok (after_run now (next_of job outcome random now) r)"
  using assms by (auto simp: next_of_def row_ok_def Let_def JOB_MAX_ATTEMPTS_def split: sum.splits job_error.splits)

lemma held_row:
  assumes "queue_inv limits (rows, held)" "job \<in> set held"
  obtains h where "h \<in> set rows" "j_id h = job_id job" "j_state h = Running" "j_attempts h = job_attempts job"
    "\<And>r. r \<in> set rows \<Longrightarrow> j_id r = job_id job \<longleftrightarrow> r = h"
proof -
  obtain h where h: "h \<in> set rows" "j_id h = job_id job" "j_state h = Running" "j_attempts h = job_attempts job"
    using queue_invD(6) [OF assms(1)] assms(2) by (auto simp: list_all_iff holds_row_def list_ex_iff)
  moreover have "j_id r = job_id job \<longleftrightarrow> r = h" if "r \<in> set rows" for r
    using distinct_ids [OF queue_invD(1) [OF assms(1)] that h(1)] h(2) by auto
  ultimately show thesis
    using that by blast
qed

lemma finish_held:
  assumes "queue_inv limits (rows, held)" "h \<in> set rows" "j_state h = Running"
    and "\<And>r. r \<in> set rows \<Longrightarrow> j_id r = job_id job \<longleftrightarrow> r = h"
  shows "finish job outcome random now rows =
    (Inr (), map (\<lambda>r. if r = h then after_run now (next_of job outcome random now) r else r) rows)"
proof -
  let ?f = "after_run now (next_of job outcome random now)"
  have "\<forall>r \<in> set rows. j_id r = job_id job \<longrightarrow> no_revival ?f r"
    using assms(3,4) by (auto simp: no_revival_def live_def)
  then have "update_rows (\<lambda>r. j_id r = job_id job) ?f rows =
      (Inr (length (filter (\<lambda>r. j_id r = job_id job) rows)), map (\<lambda>r. if j_id r = job_id job then ?f r else r) rows)"
    by (rule update_rows_no_revival [OF queue_invD(2) [OF assms(1)]])
  moreover have "map (\<lambda>r. if j_id r = job_id job then ?f r else r) rows = map (\<lambda>r. if r = h then ?f r else r) rows"
    using assms(4) by (intro map_cong) simp_all
  ultimately show ?thesis
    by (simp add: finish_def)
qed

lemma distinct_map_remove1: "distinct (map f xs) \<Longrightarrow> distinct (map f (remove1 x xs))"
  by (induction xs) (use set_remove1_subset in fastforce)+

lemma within_limits_le:
  "within_limits limits rows \<Longrightarrow> (\<And>k. running_of k rows' \<le> running_of k rows) \<Longrightarrow> within_limits limits rows'"
  unfolding within_limits_def list_all_iff by (auto intro: order_trans)

lemma queue_inv_finish:
  assumes inv: "queue_inv limits (rows, held)" and job: "job \<in> set held"
  shows "queue_inv limits (snd (finish job outcome random now rows), remove1 job held)"
proof -
  note inv' = queue_invD [OF inv]
  obtain h where h: "h \<in> set rows" "j_id h = job_id job" "j_state h = Running" "j_attempts h = job_attempts job"
      "\<And>r. r \<in> set rows \<Longrightarrow> j_id r = job_id job \<longleftrightarrow> r = h"
    using held_row [OF inv job] by blast
  let ?g = "\<lambda>r. if r = h then after_run now (next_of job outcome random now) r else r"
  have d: "distinct held"
    using inv'(5) by (simp add: distinct_map)
  have "\<forall>r \<in> set rows. j_id (?g r) = j_id r \<and> row_ok (?g r)"
    using inv'(3) after_run_row_ok [OF _ h(3,4)] by (auto simp: list_all_iff)
  moreover have "dedupe_ok (map ?g rows)"
    using inv'(2) by (rule dedupe_ok_map) (auto simp: no_revival_def live_def h(3))
  moreover have "within_limits limits (map ?g rows)"
    using inv'(4)
  proof (rule within_limits_le)
    show "running_of k (map ?g rows) \<le> running_of k rows" for k
      using running_of_replace [OF inv'(1) h(1), of "after_run now (next_of job outcome random now)" k] by simp
  qed
  moreover have "distinct (map job_id (remove1 job held))"
    using inv'(5) by (rule distinct_map_remove1)
  moreover have "job_id j \<noteq> j_id h" if "j \<in> set (remove1 job held)" for j
    using that inv'(5) d job h(2) by (auto simp: set_remove1_eq [OF d] distinct_map dest: inj_onD)
  then have "list_all (holds_row (map ?g rows)) (remove1 job held)"
    using inv'(6) holds_row_replace notin_set_remove1 by (fastforce simp: list_all_iff)
  ultimately have "queue_inv limits (map ?g rows, remove1 job held)"
    by (rule queue_inv_map [OF inv])
  then show ?thesis
    using finish_held [OF inv h(1,3), of job outcome random now] h(5) by simp
qed

lemma queue_inv_release: "queue_inv limits (rows, held) \<Longrightarrow> queue_inv limits (rows, remove1 job held)"
  by (auto simp: queue_inv_def list_all_iff distinct_map_remove1 dest: notin_set_remove1)

lemma queue_inv_run:
  "queue_inv limits (rows, held) \<Longrightarrow> job \<in> set held \<Longrightarrow>
     queue_inv limits (run_job handlers job t random now rows, remove1 job held)"
  by (simp add: run_job_def queue_inv_finish queue_inv_release split: option.split)

text \<open>Boot: both updates only take rows out of \<open>running\<close>.\<close>

lemma queue_inv_drop: "queue_inv limits (rows, held) \<Longrightarrow> queue_inv limits (rows, [])"
  by (simp add: queue_inv_def)

lemma running_of_map_le:
  "\<forall>r \<in> set rows. j_state (g r) = Running \<longrightarrow> j_state r = Running \<and> j_kind (g r) = j_kind r \<Longrightarrow>
     running_of k (map g rows) \<le> running_of k rows"
  by (induction rows) (auto simp: running_of_def)

lemma queue_inv_stop:
  assumes "queue_inv limits (rows, [])" "\<forall>r \<in> set rows. j_id (g r) = j_id r \<and> row_ok (g r)"
    "\<forall>r \<in> set rows. no_revival g r" "\<forall>r \<in> set rows. j_state (g r) = Running \<longrightarrow> g r = r"
  shows "queue_inv limits (map g rows, [])"
proof -
  have "running_of k (map g rows) \<le> running_of k rows" for k
    using assms(4) by (intro running_of_map_le) auto
  then show ?thesis
    using assms queue_invD(2,4) [OF assms(1)]
    by (intro queue_inv_map [OF assms(1)]) (simp_all add: dedupe_ok_map within_limits_le)
qed

lemma recover_eq:
  fixes now :: int
  assumes "queue_inv limits (rows, held)"
  defines "f \<equiv> \<lambda>r. r\<lparr>j_state := Failed, j_finished_at := Some now, j_error := Some INTERRUPTED\<rparr>"
    and "g \<equiv> \<lambda>r. r\<lparr>j_state := Pending, j_claimed_at := None\<rparr>"
  shows "recover now rows =
    (Inr \<lparr>requeued = length (filter (\<lambda>r. j_state r = Running \<and> j_attempts r < JOB_MAX_ATTEMPTS) rows),
       rec_failed = length (filter (\<lambda>r. j_state r = Running \<and> JOB_MAX_ATTEMPTS \<le> j_attempts r) rows)\<rparr>,
     map (\<lambda>r. if j_state r \<noteq> Running then r else if JOB_MAX_ATTEMPTS \<le> j_attempts r then f r else g r) rows)"
proof -
  let ?p = "\<lambda>r. j_state r = Running \<and> JOB_MAX_ATTEMPTS \<le> j_attempts r"
  let ?m = "map (\<lambda>r. if ?p r then f r else r) rows"
  have one: "update_rows ?p f rows = (Inr (length (filter ?p rows)), ?m)"
    using queue_invD(2) [OF assms(1)] by (rule update_rows_no_revival) (simp add: no_revival_def f_def live_def)
  have "dedupe_ok ?m"
    using queue_invD(2) [OF assms(1)] by (rule dedupe_ok_map) (simp add: no_revival_def f_def live_def)
  then have two: "update_rows (\<lambda>r. j_state r = Running) g ?m =
      (Inr (length (filter (\<lambda>r. j_state r = Running) ?m)), map (\<lambda>r. if j_state r = Running then g r else r) ?m)"
    by (rule update_rows_no_revival) (simp add: no_revival_def g_def live_def)
  have "length (filter (\<lambda>r. j_state r = Running) ?m) =
      length (filter (\<lambda>r. j_state r = Running \<and> j_attempts r < JOB_MAX_ATTEMPTS) rows)"
    by (induction rows) (auto simp: f_def)
  moreover have "map (\<lambda>r. if j_state r = Running then g r else r) ?m =
      map (\<lambda>r. if j_state r \<noteq> Running then r else if JOB_MAX_ATTEMPTS \<le> j_attempts r then f r else g r) rows"
    by (auto simp: f_def)
  ultimately show ?thesis
    unfolding recover_def f_def [symmetric] g_def [symmetric] by (simp only: one two prod.case sum.case)
qed

lemma queue_inv_recover:
  assumes "queue_inv limits (rows, held)"
  shows "queue_inv limits (snd (recover now rows), [])"
  unfolding recover_eq [OF assms] snd_conv
  using queue_inv_drop [OF assms] queue_invD(3) [OF assms]
  by (intro queue_inv_stop) (auto simp: no_revival_def live_def row_ok_def list_all_iff)

lemma queue_inv_step: "queue_step json_text field limits s s' \<Longrightarrow> queue_inv limits s \<Longrightarrow> queue_inv limits s'"
  by (induction rule: queue_step.induct)
    (simp_all add: queue_inv_enqueue queue_inv_promote queue_inv_cancel_pending queue_inv_retry queue_inv_cancel
      queue_inv_purge queue_inv_trim queue_inv_assign queue_inv_claim queue_inv_run queue_inv_recover)

lemma queue_inv_reachable: "queue_reachable json_text field limits s \<Longrightarrow> queue_inv limits s"
proof (induction rule: queue_reachable.induct)
  case Empty
  show ?case
    by (simp add: queue_inv_def within_limits_def running_of_def list_all_iff)
qed (rule queue_inv_step)

section \<open>What a batch adds\<close>

lemma enqueue_each_adds:
  assumes "enqueue_each json_text field njs now_ms rows = Inr (n, rows')"
  shows "\<exists>new. rows' = rows @ new \<and> length new \<le> length njs \<and>
    (\<forall>(nid, nj) \<in> set njs. nj_dedupe nj \<noteq> None \<longrightarrow> list_ex (holds_key (nj_kind nj) (nj_dedupe nj)) rows')"
  using assms
proof (induction njs arbitrary: n rows rows')
  case (Cons x njs)
  obtain nid nj where x: "x = (nid, nj)"
    by (cases x)
  obtain en rows1 m where one: "enqueue_on json_text field nid nj now_ms rows = (Inr en, rows1)"
    and rest: "enqueue_each json_text field njs now_ms rows1 = Inr (m, rows')"
    using Cons.prems by (auto simp: x split: sum.splits prod.splits)
  obtain new where new: "rows' = rows1 @ new" "length new \<le> length njs"
    "\<forall>(nid, nj) \<in> set njs. nj_dedupe nj \<noteq> None \<longrightarrow> list_ex (holds_key (nj_kind nj) (nj_dedupe nj)) rows'"
    using Cons.IH [OF rest] by blast
  have key: "nj_dedupe nj \<noteq> None \<longrightarrow> list_ex (holds_key (nj_kind nj) (nj_dedupe nj)) rows1"
    using one by (auto simp: enqueue_on_def holds_key_def new_row_def live_def Let_def list_ex_iff find_Some_iff split: if_splits option.splits)
  obtain ys where "rows1 = rows @ ys" "length ys \<le> 1"
    using one by (auto simp: enqueue_on_def split: if_splits option.splits)
  then show ?case
    using new key by (intro exI [of _ "ys @ new"]) (auto simp: x)
qed simp

end
