(* ===== verification/Jobs_Props.thy ===== *)
theory Jobs_Props
  imports Jobs_Invariant
begin

text \<open>
  What the job queue promises: soundness of every reachable queue, the choice of the claim and its agreement with
  the rate limiter, what a run's outcome leaves behind, boot recovery, and purging.
\<close>

section \<open>Backoff\<close>

lemma clamp_between: "lo \<le> hi \<Longrightarrow> lo \<le> max lo (min x hi) \<and> max lo (min x hi) \<le> (hi :: 'a :: linorder)"
  by simp

lemma clamp_ends: "f64_round (4 / 5) = 3602879701896397 / 4503599627370496"
  "f64_round (6 / 5) = 5404319552844595 / 4503599627370496"
  by code_simp+

lemma backoff_secs_f64:
  "as_secs_f64 (of_secs 60) = 60" "as_secs_f64 (of_secs 120) = 120" "as_secs_f64 (of_secs 240) = 240" "as_secs_f64 (of_secs 480) = 480"
proof -
  have "f64_round 60 = 60" "f64_round 120 = 120" "f64_round 240 = 240" "f64_round 480 = 480" "f64_round 0 = 0"
    by code_simp+
  then show "as_secs_f64 (of_secs 60) = 60" "as_secs_f64 (of_secs 120) = 120" "as_secs_f64 (of_secs 240) = 240"
    "as_secs_f64 (of_secs 480) = 480"
    by (simp_all add: as_secs_f64_def of_secs_def as_secs_def subsec_nanos_def f64_add_def f64_div_def)
qed

lemma clamped_products:
  fixes lo hi :: rat
  defines "lo \<equiv> 3602879701896397 / 4503599627370496" and "hi \<equiv> 5404319552844595 / 4503599627370496"
  shows "round_half_even (f64_mul lo 60 * 1000000000) = 48000000000" "round_half_even (f64_mul hi 60 * 1000000000) = 72000000000"
    "round_half_even (f64_mul lo 120 * 1000000000) = 96000000000" "round_half_even (f64_mul hi 120 * 1000000000) = 144000000000"
    "round_half_even (f64_mul lo 240 * 1000000000) = 192000000000" "round_half_even (f64_mul hi 240 * 1000000000) = 288000000000"
    "round_half_even (f64_mul lo 480 * 1000000000) = 384000000000" "round_half_even (f64_mul hi 480 * 1000000000) = 576000000000"
  unfolding lo_def hi_def by code_simp+

lemma backoff_base:
  assumes "1 \<le> a" "a < JOB_MAX_ATTEMPTS"
  shows "a \<in> {1, 2, 3, 4}"
  using assms by (auto simp: JOB_MAX_ATTEMPTS_def)

lemma backoff_eq:
  assumes "a \<in> {1, 2, 3, 4}"
  shows "backoff a jit = mul_f64 (of_secs (30 * 2 ^ a)) (max (f64_round (4 / 5)) (min jit (f64_round (6 / 5))))"
proof -
  have "BACKOFF_BASE * min (2 ^ min a 20) u32_max = of_secs (30 * 2 ^ a)" "of_secs (30 * 2 ^ a) \<le> duration_max"
    using assms by (auto simp: BACKOFF_BASE_def of_secs_def u32_max_def duration_max_def u64_max_def)
  then show ?thesis
    by (simp add: backoff_def)
qed

lemma backoff_within_a_fifth:
  assumes "1 \<le> a" "a < JOB_MAX_ATTEMPTS"
  shows "of_secs (24 * 2 ^ a) \<le> backoff a jit" "backoff a jit \<le> of_secs (36 * 2 ^ a)"
proof -
  note a = backoff_base [OF assms]
  let ?x = "max (f64_round (4 / 5)) (min jit (f64_round (6 / 5)))"
  have pos: "0 \<le> as_secs_f64 (of_secs (30 * 2 ^ a))"
    using a by (auto simp: backoff_secs_f64)
  have x: "f64_round (4 / 5) \<le> ?x" "?x \<le> f64_round (6 / 5)"
    by (simp_all add: clamp_ends)
  have lo: "mul_f64 (of_secs (30 * 2 ^ a)) (f64_round (4 / 5)) = of_secs (24 * 2 ^ a)"
    and hi: "mul_f64 (of_secs (30 * 2 ^ a)) (f64_round (6 / 5)) = of_secs (36 * 2 ^ a)"
    unfolding mul_f64_def clamp_ends using a
    by (auto simp: backoff_secs_f64 clamped_products simp del: times_divide_eq_left; simp add: of_secs_def)+
  show "of_secs (24 * 2 ^ a) \<le> backoff a jit" "backoff a jit \<le> of_secs (36 * 2 ^ a)"
    using mul_f64_mono [OF pos x(1)] mul_f64_mono [OF pos x(2)] unfolding backoff_eq [OF a] lo hi by simp_all
qed

section \<open>Properties\<close>

text \<open>C10. However queueing, promoting, cancelling, retrying, purging, trimming, claiming, finishing and rebooting
  interleave: ids stay unique and no two live rows share a kind and dedupe key; a pending row has attempts left
  and no row ever has more than five; no more jobs of a kind run than its limit; every lane on a row is one
  the claim looks at; and each job a worker holds is a running row with the attempt the worker knows.\<close>

theorem queue_stays_sound:
  assumes "queue_reachable json_text field limits (rows, held)"
  shows "distinct (map j_id rows) \<and>
    (\<forall>r q. r \<in> set rows \<and> q \<in> set rows \<and> clash r q \<longrightarrow> r = q) \<and>
    (\<forall>r. r \<in> set rows \<longrightarrow> j_attempts r \<le> 5 \<and> (j_state r = Pending \<longrightarrow> j_attempts r < 5)) \<and>
    (\<forall>k n. (k, n) \<in> set limits \<longrightarrow> running_of k rows \<le> n) \<and>
    (\<forall>r l. r \<in> set rows \<and> j_lane r = Some l \<longrightarrow> l \<in> set all_lanes) \<and>
    (\<forall>job. job \<in> set held \<longrightarrow> (\<exists>r. r \<in> set rows \<and> j_id r = job_id job \<and> j_state r = Running \<and> j_attempts r = job_attempts job))"
proof -
  note inv = queue_invD [OF queue_inv_reachable [OF assms]]
  have "r = q" if "r \<in> set rows" "q \<in> set rows" "clash r q" for r q
    using dedupe_ok_unique [OF inv(2) that] .
  moreover have "row_ok r" if "r \<in> set rows" for r
    using inv(3) that by (simp add: list_all_iff)
  moreover have "\<exists>r. r \<in> set rows \<and> j_id r = job_id job \<and> j_state r = Running \<and> j_attempts r = job_attempts job"
    if "job \<in> set held" for job
    using inv(6) that by (fastforce simp: list_all_iff holds_row_def list_ex_iff)
  moreover have "running_of k rows \<le> n" if "(k, n) \<in> set limits" for k n
    using inv(4) that by (auto simp: within_limits_def list_all_iff)
  ultimately show ?thesis
    using inv(1) unfolding row_ok_def JOB_MAX_ATTEMPTS_def by blast
qed

text \<open>A queue with one claimed job, for the witnesses.\<close>

definition sample_new_job :: "unit new_job" where
  "sample_new_job = new_job_dedupe ''nightly'' (new_job_new MAINTENANCE 30000 ())"

definition sample_row :: job_row where
  "sample_row =
     \<lparr>j_id = ''01A'', j_kind = ''maintenance'', j_dedupe = Some ''nightly'', j_priority = 30000, j_payload = ''{}'',
      j_state = Pending, j_attempts = 0, j_run_after = 7, j_claimed_at = None, j_finished_at = None, j_error = None,
      j_lane = None, j_method = None\<rparr>"

lemma sample_enqueued:
  "enqueue_on (\<lambda>_. ''{}'') (\<lambda>_ _. None) ''01A'' sample_new_job 7 [] =
     (Inr \<lparr>en_id = ''01A'', en_created = True\<rparr>, [sample_row])"
  by (simp add: enqueue_on_def new_row_def sample_new_job_def new_job_new_def new_job_dedupe_def lane_of_def sample_row_def)

lemma sample_claimable: "claimable (with_kind_limits [(''maintenance'', 1)] claim_filter_open) 9 [sample_row] sample_row"
  by (simp add: claimable_def ready_def sample_row_def capped_def with_kind_limits_def running_of_def)

lemma sample_claimed:
  "claim_job 9 (with_kind_limits [(''maintenance'', 1)] claim_filter_open) [sample_row] =
     (Inr (Some (job_of_row (started_row 9 sample_row))), [started_row 9 sample_row])"
proof -
  have "distinct (map j_id [sample_row])" "dedupe_ok [sample_row]"
    by simp_all
  from claim_job_spec [OF this] show ?thesis
    using sample_claimable by (simp add: claim_spec_def first_by_def)
qed

lemma sample_queued:
  "queue_reachable (\<lambda>_ :: unit. ''{}'') (\<lambda>_ _. None) [(''maintenance'', 1)] ([sample_row], [])"
proof -
  have "queue_step (\<lambda>_ :: unit. ''{}'') (\<lambda>_ _. None) [(''maintenance'', 1)] ([], []) ([sample_row], [])"
    using queue_step.Enqueue [of "''01A''" "[]" "\<lambda>_ :: unit. ''{}''" "\<lambda>_ _. None" _ "[]" sample_new_job 7] sample_enqueued
    by simp
  then show ?thesis
    by (rule queue_reachable.Step [OF queue_reachable.Empty])
qed

lemma sample_reachable:
  "queue_reachable (\<lambda>_ :: unit. ''{}'') (\<lambda>_ _. None) [(''maintenance'', 1)]
     ([started_row 9 sample_row], [job_of_row (started_row 9 sample_row)])"
  using sample_queued queue_step.Claim [OF sample_claimed] by (rule queue_reachable.Step)

theorem queue_stays_sound_witness:
  "running_of ''maintenance'' [started_row 9 sample_row] = 1 \<and>
   distinct (map j_id [started_row 9 sample_row]) \<and>
   (\<exists>r. r \<in> set [started_row 9 sample_row] \<and> j_id r = ''01A'' \<and> j_state r = Running \<and> j_attempts r = 1)"
  using queue_stays_sound [OF sample_reachable]
  by (simp add: running_of_def started_row_def sample_row_def job_of_row_def)

text \<open>C11. The claim statement, which looks only at the first row of every open lane and of the rows without one,
  takes what a search of the whole queue would: of all the rows that are due, in an open lane, not on a blocked
  method and of a kind below its limit, the one in the best priority band, then in the lane with the fewest
  running jobs, then first by priority, due time and id. It takes none only when there is none, counts the
  attempt, changes no other row, and never fails on the index.\<close>

theorem claim_is_best_of_all:
  assumes "distinct (map j_id rows)" "dedupe_ok rows"
  shows "claim_job now f rows = (case claim_spec now f rows of (j, rows') \<Rightarrow> (Inr j, rows'))"
  by (rule claim_job_spec [OF assms])

theorem claim_is_best_of_all_witness:
  "claim_job 9 claim_filter_open [sample_row] = (Inr (Some (job_of_row (started_row 9 sample_row))), [started_row 9 sample_row])"
  using claim_is_best_of_all [of "[sample_row]" 9 claim_filter_open]
  by (simp add: claim_spec_def first_by_def claimable_def ready_def capped_def claim_filter_open_def claim_filter_new_def
      sample_row_def)

definition backed_off :: "nat \<Rightarrow> int \<Rightarrow> int \<Rightarrow> bool" where
  "backed_off a now t = (t = i64_max \<or> now + 24000 * 2 ^ a \<le> t \<and> t \<le> now + 36000 * 2 ^ a)"

definition outcome_row :: "job_error + unit \<Rightarrow> int \<Rightarrow> job_row \<Rightarrow> job_row \<Rightarrow> bool" where
  "outcome_row outcome now r r' =
     (case outcome of
        Inr _ \<Rightarrow> r' = r\<lparr>j_state := Done, j_finished_at := Some now, j_error := None\<rparr>
      | Inl (Yield t p) \<Rightarrow> j_state r' = Pending \<and> j_run_after r' = t \<and> j_attempts r' + 1 = j_attempts r \<and> j_error r' = j_error r
      | Inl (Fail e) \<Rightarrow> r' = r\<lparr>j_state := Failed, j_finished_at := Some now, j_error := Some e\<rparr>
      | Inl (Retry e) \<Rightarrow>
          if j_attempts r < 5
          then j_state r' = Pending \<and> j_attempts r' = j_attempts r \<and> j_error r' = Some e \<and>
            backed_off (j_attempts r) now (j_run_after r')
          else r' = r\<lparr>j_state := Failed, j_finished_at := Some now, j_error := Some e\<rparr>)"

lemma as_millis_of_secs: "as_millis (of_secs n) = 1000 * n"
  by (simp add: as_millis_def of_secs_def)

lemma as_millis_mono: "a \<le> b \<Longrightarrow> as_millis a \<le> as_millis b"
  by (simp add: as_millis_def div_le_mono)

lemma backed_off_run_after:
  assumes "1 \<le> a" "a < JOB_MAX_ATTEMPTS" "0 \<le> now"
  shows "backed_off a now (sat_i64 (now + min (int (as_millis (backoff a jit))) i64_max))"
proof -
  have "24000 * 2 ^ a \<le> as_millis (backoff a jit)" "as_millis (backoff a jit) \<le> 36000 * 2 ^ a"
    using as_millis_mono [OF backoff_within_a_fifth(1) [OF assms(1,2)]] as_millis_mono [OF backoff_within_a_fifth(2) [OF assms(1,2)]]
    by (simp_all add: as_millis_of_secs)
  then have b: "24000 * 2 ^ a \<le> int (as_millis (backoff a jit))" "int (as_millis (backoff a jit)) \<le> 36000 * 2 ^ a"
    using of_nat_mono [where 'a = int] by fastforce+
  have "(36000 :: int) * 2 ^ a \<le> i64_max"
    using backoff_base [OF assms(1,2)] by (auto simp: i64_max_def)
  then show ?thesis
    using b assms(3) by (auto simp: backed_off_def sat_i64_def i64_min_def i64_max_def)
qed

text \<open>Recording the outcome of a held job always succeeds and changes that row only. Success makes it done;
  a yield gives the attempt back and keeps the last error; a retryable failure with attempts left makes it due
  again after between 0.8 and 1.2 times 30 seconds times two to the attempts; the fifth, or a final failure,
  makes it failed.\<close>

theorem outcome_recorded:
  assumes "queue_reachable json_text field limits (rows, held)" "job \<in> set held" "0 \<le> now"
  shows "\<exists>r r'. r \<in> set rows \<and> j_id r = job_id job \<and> outcome_row outcome now r r' \<and>
    finish job outcome random now rows = (Inr (), map (\<lambda>q. if q = r then r' else q) rows)"
proof -
  note inv = queue_inv_reachable [OF assms(1)]
  obtain h where h: "h \<in> set rows" "j_id h = job_id job" "j_state h = Running" "j_attempts h = job_attempts job"
      "\<And>r. r \<in> set rows \<Longrightarrow> j_id r = job_id job \<longleftrightarrow> r = h"
    using held_row [OF inv assms(2)] by blast
  let ?f = "after_run now (next_of job outcome random now)"
  have "1 \<le> j_attempts h"
    using queue_invD(3) [OF inv] h(1,3) by (simp add: list_all_iff row_ok_def)
  then have "outcome_row outcome now h (?f h)"
    using h(4) backed_off_run_after [OF _ _ assms(3), of "job_attempts job"]
    by (auto simp: outcome_row_def next_of_def Let_def JOB_MAX_ATTEMPTS_def split: sum.splits job_error.splits)
  moreover have "finish job outcome random now rows = (Inr (), map (\<lambda>q. if q = h then ?f h else q) rows)"
    using finish_held [OF inv h(1,3), of job outcome random now] h(5) by (simp cong: if_cong)
  ultimately show ?thesis
    using h(1,2) by blast
qed

theorem outcome_recorded_witness:
  "\<exists>r r'. r \<in> set [started_row 9 sample_row] \<and> j_id r = ''01A'' \<and> outcome_row (Inl (Retry ''down'')) 9 r r' \<and>
    finish (job_of_row (started_row 9 sample_row)) (Inl (Retry ''down'')) None 9 [started_row 9 sample_row] =
      (Inr (), map (\<lambda>q. if q = r then r' else q) [started_row 9 sample_row])"
  using outcome_recorded [OF sample_reachable, of "job_of_row (started_row 9 sample_row)" 9 "Inl (Retry ''down'')" None]
  by (simp add: job_of_row_def started_row_def sample_row_def)

text \<open>Boot resumes what a dead process left: no row stays running; one whose interrupted attempt was its fifth
  fails with the reason, any other is pending again with its attempt counted; every other row is as it was, and
  the report counts both.\<close>

theorem recover_resumes:
  assumes "queue_reachable json_text field limits (rows, held)"
  shows "recover now rows =
    (Inr \<lparr>requeued = length (filter (\<lambda>r. j_state r = Running \<and> j_attempts r < 5) rows),
       rec_failed = length (filter (\<lambda>r. j_state r = Running \<and> 5 \<le> j_attempts r) rows)\<rparr>,
     map (\<lambda>r. if j_state r \<noteq> Running then r
       else if 5 \<le> j_attempts r then r\<lparr>j_state := Failed, j_finished_at := Some now, j_error := Some INTERRUPTED\<rparr>
       else r\<lparr>j_state := Pending, j_claimed_at := None\<rparr>) rows)"
  using recover_eq [OF queue_inv_reachable [OF assms], of now] by (simp only: JOB_MAX_ATTEMPTS_def)

theorem recover_resumes_witness:
  "recover 20 [started_row 9 sample_row] =
     (Inr \<lparr>requeued = 1, rec_failed = 0\<rparr>, [(started_row 9 sample_row)\<lparr>j_state := Pending, j_claimed_at := None\<rparr>])"
  using recover_resumes [OF sample_reachable, of 20] by (simp add: started_row_def sample_row_def)

section \<open>The claim and the limiter\<close>

lemma blocked_entry_scope: "(s, m, u) \<in> set (bb_methods (fst (blocked_entry l now scope e))) \<Longrightarrow> s = scope"
  by (auto simp: blocked_entry_def Let_def case_prod_unfold split: if_splits)

lemma bb_methods_scopes:
  "(s, m, u) \<in> set (bb_methods (fst (limiter_bulk_blocked now l))) \<Longrightarrow> s \<in> fst ` set (scopes l)"
  by (auto simp: limiter_bulk_blocked_def Let_def case_prod_unfold dest!: blocked_entry_scope intro: image_eqI)

lemma blocked_pair_iff:
  fixes now :: instant and l :: limiter
  assumes "s \<in> set all_lanes" "fst ` set (scopes l) \<subseteq> set all_lanes"
  defines "b \<equiv> fst (limiter_bulk_blocked now l)"
  shows "s @ '' '' @ m \<in> set (cf_methods (blocked_filter b)) \<longleftrightarrow> (\<exists>u. (s, m, u) \<in> set (bb_methods b))"
proof
  assume "s @ '' '' @ m \<in> set (cf_methods (blocked_filter b))"
  then obtain t n u where *: "(t, n, u) \<in> set (bb_methods b)" "s @ '' '' @ m = t @ '' '' @ n"
    by (auto simp: blocked_filter_def claim_filter_new_def)
  then have "t \<in> set all_lanes"
    using bb_methods_scopes assms(2) by (fastforce simp: b_def)
  then show "\<exists>u. (s, m, u) \<in> set (bb_methods b)"
    using lane_pair_inj [OF assms(1) _ *(2)] *(1) by blast
next
  assume "\<exists>u. (s, m, u) \<in> set (bb_methods b)"
  then show "s @ '' '' @ m \<in> set (cf_methods (blocked_filter b))"
    by (force simp: blocked_filter_def claim_filter_new_def)
qed

definition below_limit :: "(string \<times> nat) list \<Rightarrow> job_row list \<Rightarrow> job_row \<Rightarrow> bool" where
  "below_limit limits rows r = list_all (\<lambda>(k, n). k = j_kind r \<longrightarrow> running_of k rows < n) limits"

definition has_room :: "instant \<Rightarrow> limiter \<Rightarrow> job_row \<Rightarrow> bool" where
  "has_room now l r =
     (case (j_lane r, j_method r) of (Some s, Some m) \<Rightarrow> fst (try_take_all s m Bulk now l) = Taken | _ \<Rightarrow> True)"

lemma claimable_has_room:
  assumes "limiter_ok now l" "keys_ok l" "ceilings_ok l" "fst ` set (scopes l) \<subseteq> set all_lanes" "row_ok r"
  shows "claimable (with_kind_limits limits (blocked_filter (fst (limiter_bulk_blocked now l)))) ms rows r \<longleftrightarrow>
    ready ms r \<and> below_limit limits rows r \<and> has_room now l r"
proof -
  let ?b = "fst (limiter_bulk_blocked now l)"
  let ?f = "with_kind_limits limits (blocked_filter ?b)"
  have cap: "j_kind r \<notin> set (capped ?f rows) \<longleftrightarrow> below_limit limits rows r"
    by (force simp: capped_def with_kind_limits_def below_limit_def list_all_iff)
  have "(case j_lane r of None \<Rightarrow> True | Some s \<Rightarrow> s \<in> set (cf_lanes ?f) \<and>
      (case j_method r of None \<Rightarrow> True | Some m \<Rightarrow> s @ '' '' @ m \<notin> set (cf_methods ?f))) \<longleftrightarrow> has_room now l r"
  proof (cases "j_lane r")
    case (Some s)
    then obtain m where m: "j_method r = Some m" and s: "s \<in> set all_lanes"
      using assms(5) by (auto simp: row_ok_def)
    have "s \<in> set (cf_lanes ?f) \<longleftrightarrow> \<not> scope_blocked ?b s"
      using s by (simp add: with_kind_limits_def blocked_filter_def claim_filter_new_def)
    then show ?thesis
      using blocked_pair_iff [OF s assms(4), of m now] bulk_blocked_iff [OF assms(1-3), of s m] Some m
      by (simp add: has_room_def with_kind_limits_def)
  qed (simp add: has_room_def)
  then show ?thesis
    unfolding claimable_def using cap by blast
qed

definition claim_agrees ::
  "(string \<times> nat) list \<Rightarrow> int \<Rightarrow> instant \<Rightarrow> limiter \<Rightarrow> job_row list \<Rightarrow> job_db_error + job option \<Rightarrow> bool" where
  "claim_agrees limits ms now l rows out =
     (case out of
        Inl e \<Rightarrow> False
      | Inr None \<Rightarrow> list_all (\<lambda>r. \<not> (ready ms r \<and> below_limit limits rows r \<and> has_room now l r)) rows
      | Inr (Some job) \<Rightarrow>
          list_ex (\<lambda>r. job = job_of_row (started_row ms r) \<and> ready ms r \<and> below_limit limits rows r \<and> has_room now l r) rows)"

text \<open>C12. The claim agrees with the rate limiter. A worker is handed only a due job of a kind below its limit whose
  bulk request the limiter would grant at that instant, or one that calls nobody; and it goes away empty only
  when every due job of a kind below its limit would have to wait. So a blocked lane never holds up a free one,
  and no worker is spent on a job that can only wait.\<close>

theorem claimed_work_has_room:
  assumes "queue_reachable json_text field limits (rows, held)"
    and "limiter_ok now l" "keys_ok l" "ceilings_ok l" "fst ` set (scopes l) \<subseteq> set all_lanes"
  shows "claim_agrees limits ms now l rows (fst (scheduler_claim limits ms now (Some l) rows))"
proof -
  note inv = queue_invD [OF queue_inv_reachable [OF assms(1)]]
  let ?f = "with_kind_limits limits (blocked_filter (fst (limiter_bulk_blocked now l)))"
  have "claimable ?f ms rows r \<longleftrightarrow> ready ms r \<and> below_limit limits rows r \<and> has_room now l r" if "r \<in> set rows" for r
    using claimable_has_room [OF assms(2-5)] inv(3) that by (auto simp: list_all_iff)
  then have filter: "filter (claimable ?f ms rows) rows = filter (\<lambda>r. ready ms r \<and> below_limit limits rows r \<and> has_room now l r) rows"
    by (rule filter_cong [OF refl])
  have out: "fst (scheduler_claim limits ms now (Some l) rows) = Inr (fst (claim_spec ms ?f rows))"
    using claim_job_spec [OF inv(1,2), of ms ?f] by (simp add: scheduler_claim_def Let_def case_prod_unfold)
  show ?thesis
  proof (cases "first_by (claim_rank rows) (filter (claimable ?f ms rows) rows)")
    case Nil
    then have "claim_spec ms ?f rows = (None, rows)"
      by (simp add: claim_spec_def)
    moreover have "list_all (\<lambda>r. \<not> (ready ms r \<and> below_limit limits rows r \<and> has_room now l r)) rows"
      using Nil unfolding filter first_by_Nil filter_empty_conv list_all_iff .
    ultimately show ?thesis
      using out by (simp add: claim_agrees_def)
  next
    case (Cons h t)
    then show ?thesis
      using first_by_Cons(2) [OF Cons] filter out by (auto simp: claim_agrees_def claim_spec_def list_ex_iff)
  qed
qed

theorem claimed_work_has_room_witness:
  "claim_agrees [(''maintenance'', 1)] 9 5 full_limiter [sample_row]
     (fst (scheduler_claim [(''maintenance'', 1)] 9 5 (Some full_limiter) [sample_row]))"
proof (rule claimed_work_has_room [OF sample_queued full_limiter_ok _ full_limiter_ceilings])
  show "keys_ok full_limiter"
    by (simp add: keys_ok_def full_limiter_eq entry_of_def bootstrap_def scope_entry_default_def)
  show "fst ` set (scopes full_limiter) \<subseteq> set all_lanes"
    by (simp add: full_limiter_eq all_lanes_def PLATFORMS_def)
qed

section \<open>Queueing twice, and purging\<close>

lemma find_snoc: "find P xs = None \<Longrightarrow> P y \<Longrightarrow> find P (xs @ [y]) = Some y"
  by (induction xs) (auto split: if_splits)

text \<open>Queueing a job again while it is live finds the first one and changes nothing.\<close>

lemma enqueue_again:
  assumes "queue_reachable json_text field limits (rows, held)" "nid \<notin> j_id ` set rows" "nj_dedupe nj \<noteq> None"
    and "enqueue_on json_text field nid nj now rows = (Inr out, rows')"
  shows "enqueue_on json_text field nid' nj now' rows' = (Inr \<lparr>en_id = en_id out, en_created = False\<rparr>, rows')"
proof (cases "list_ex (holds_key (nj_kind nj) (nj_dedupe nj)) rows")
  case True
  then obtain r where "find (holds_key (nj_kind nj) (nj_dedupe nj)) rows = Some r"
    by (metis find_holds_key_None list_ex_iff option.exhaust)
  moreover have "list_ex (\<lambda>r. j_id r = i \<or> holds_key (nj_kind nj) (nj_dedupe nj) r) rows" for i
    using True by (auto simp: list_ex_iff)
  ultimately show ?thesis
    using assms(4) by (auto simp: enqueue_on_def)
next
  case False
  let ?r = "new_row json_text field nid nj now"
  have rows': "rows' = rows @ [?r]" "out = \<lparr>en_id = nid, en_created = True\<rparr>"
    using assms(2,4) False by (auto simp: enqueue_on_def list_ex_iff split: if_splits option.splits)
  have "find (holds_key (nj_kind nj) (nj_dedupe nj)) rows = None" "holds_key (nj_kind nj) (nj_dedupe nj) ?r"
    using False assms(3) by (auto simp: find_holds_key_None list_ex_iff holds_key_def live_def new_row_facts)
  then have "find (holds_key (nj_kind nj) (nj_dedupe nj)) rows' = Some ?r"
    unfolding rows'(1) by (rule find_snoc)
  then show ?thesis
    using rows' \<open>holds_key (nj_kind nj) (nj_dedupe nj) ?r\<close> by (auto simp: enqueue_on_def new_row_facts)
qed

lemma filter_notin_take: "distinct xs \<Longrightarrow> filter (\<lambda>x. x \<notin> set (take n xs)) xs = drop n xs"
proof -
  assume d: "distinct xs"
  have "filter (\<lambda>x. x \<notin> set (take n xs)) (take n xs @ drop n xs) = drop n xs"
    unfolding filter_append using set_take_disj_set_drop_if_distinct [OF d, of n n]
    by (auto simp: filter_empty_conv filter_id_conv)
  then show ?thesis
    by simp
qed

lemma purge_chunk_eq:
  fixes p :: purge
  assumes "distinct (map j_id rows)"
  defines "F \<equiv> filter (purge_matches p) rows"
  shows "purge_chunk p rows = (min (length F) PURGE_CHUNK, filter (\<lambda>r. r \<notin> set (take PURGE_CHUNK F)) rows)"
proof -
  have F: "set (take PURGE_CHUNK F) \<subseteq> set rows" "distinct (take PURGE_CHUNK F)"
    using assms(1) by (auto simp: F_def distinct_map dest: in_set_takeD)
  have ids: "j_id r \<in> set (map j_id (take PURGE_CHUNK F)) \<longleftrightarrow> r \<in> set (take PURGE_CHUNK F)" if "r \<in> set rows" for r
    using that F(1) assms(1) by (auto simp: distinct_map dest: inj_onD)
  have "length (filter (\<lambda>r. j_id r \<in> set (map j_id (take PURGE_CHUNK F))) rows) = length (filter (\<lambda>r. r \<in> set (take PURGE_CHUNK F)) rows)"
    using ids by (intro arg_cong [of _ _ length] filter_cong) simp_all
  also have "\<dots> = card (set (take PURGE_CHUNK F))"
    using assms(1) F(1) by (subst distinct_card [symmetric]) (auto simp: distinct_map intro!: arg_cong [of _ _ card])
  also have "\<dots> = min (length F) PURGE_CHUNK"
    using F(2) by (simp add: distinct_card)
  finally have "length (filter (\<lambda>r. j_id r \<in> set (map j_id (take PURGE_CHUNK F))) rows) = min (length F) PURGE_CHUNK" .
  moreover have "filter (\<lambda>r. j_id r \<notin> set (map j_id (take PURGE_CHUNK F))) rows = filter (\<lambda>r. r \<notin> set (take PURGE_CHUNK F)) rows"
    using ids by (intro filter_cong) simp_all
  ultimately show ?thesis
    by (simp only: purge_chunk_def F_def [symmetric] Let_def)
qed

lemma purge_chunk_rest:
  fixes p :: purge
  assumes "distinct (map j_id rows)"
  defines "rows' \<equiv> snd (purge_chunk p rows)" and "F \<equiv> filter (purge_matches p) rows"
  shows "filter (purge_matches p) rows' = drop PURGE_CHUNK F" "filter (\<lambda>r. \<not> purge_matches p r) rows' = filter (\<lambda>r. \<not> purge_matches p r) rows"
    "distinct (map j_id rows')"
proof -
  have rows': "rows' = filter (\<lambda>r. r \<notin> set (take PURGE_CHUNK F)) rows"
    by (simp add: rows'_def purge_chunk_eq [OF assms(1)] F_def)
  have "distinct F"
    using assms(1) by (simp add: F_def distinct_map)
  have "filter (purge_matches p) rows' = filter (\<lambda>r. r \<notin> set (take PURGE_CHUNK F)) F"
    by (auto simp: rows' F_def filter_filter conj_commute)
  then show "filter (purge_matches p) rows' = drop PURGE_CHUNK F"
    using filter_notin_take [OF \<open>distinct F\<close>] by simp
  show "filter (\<lambda>r. \<not> purge_matches p r) rows' = filter (\<lambda>r. \<not> purge_matches p r) rows"
    unfolding rows' filter_filter by (intro filter_cong) (auto simp: F_def dest: in_set_takeD)
  show "distinct (map j_id rows')"
    using assms(1) by (simp add: rows' distinct_map_filter)
qed

lemma purge_loop_alone:
  assumes "distinct (map j_id rows)" "length (filter (purge_matches p) rows) < n * PURGE_CHUNK"
  shows "purge_loop p (replicate n (\<lambda>rows. rows)) rows =
    (Some (length (filter (purge_matches p) rows)), filter (\<lambda>r. \<not> purge_matches p r) rows)"
  using assms
proof (induction n arbitrary: rows)
  case (Suc n)
  let ?M = "length (filter (purge_matches p) rows)"
  note rest = purge_chunk_rest [OF Suc.prems(1), of p]
  obtain c rows1 where c: "purge_chunk p rows = (c, rows1)"
    by (cases "purge_chunk p rows")
  have cn: "c = min ?M PURGE_CHUNK"
    using c by (simp add: purge_chunk_eq [OF Suc.prems(1)])
  show ?case
  proof (cases "?M < PURGE_CHUNK")
    case True
    then have "filter (purge_matches p) rows1 = []"
      using rest(1) c by simp
    then have "filter (\<lambda>r. \<not> purge_matches p r) rows1 = rows1"
      by (simp add: filter_id_conv filter_empty_conv)
    then show ?thesis
      using True c cn rest(2) by simp
  next
    case False
    then have "length (filter (purge_matches p) rows1) = ?M - PURGE_CHUNK"
      using rest(1) c by simp
    then show ?thesis
      using False c cn rest(2,3) Suc.IH [of rows1] Suc.prems(2) by simp
  qed
qed simp

text \<open>A purge with nobody else writing ends, after one write more than the matching rows fill chunks, and
  deletes exactly the rows of its kind and state at or below its band, all of which it had counted; a dry run
  counts the same and deletes nothing.\<close>

theorem purge_deletes_matching:
  assumes "queue_reachable json_text field limits (rows, held)"
    and "length (filter (purge_matches p) rows) < n * PURGE_CHUNK"
  defines "m \<equiv> length (filter (purge_matches p) rows)"
  shows "queue_purge p (replicate n (\<lambda>rows. rows)) rows =
    (if pg_dry_run p then (Some \<lparr>matched = m, deleted = 0\<rparr>, rows)
     else (Some \<lparr>matched = m, deleted = m\<rparr>, filter (\<lambda>r. \<not> purge_matches p r) rows))"
  using purge_loop_alone [OF queue_invD(1) [OF queue_inv_reachable [OF assms(1)]] assms(2)]
  by (simp add: queue_purge_def m_def Let_def)

theorem purge_deletes_matching_witness:
  "queue_purge \<lparr>pg_kind = ''maintenance'', pg_state = Pending, pg_min_priority = 0, pg_dry_run = False\<rparr> [\<lambda>rows. rows] [sample_row] =
     (Some \<lparr>matched = 1, deleted = 1\<rparr>, [])"
  using purge_deletes_matching [OF sample_queued, of "\<lparr>pg_kind = ''maintenance'', pg_state = Pending, pg_min_priority = 0, pg_dry_run = False\<rparr>" 1]
  by (simp add: purge_matches_def sample_row_def PURGE_CHUNK_def)

end
