(* ===== verification/Validate.thy ===== *)
theory Validate
  imports Routing
begin

text \<open>
  Request validation, \<^verbatim>\<open>src/http/validate.rs\<close>. Every check is a function into
  \<open>api_error + 'a\<close> with the message the source builds. The ULID parser of the crate \<^verbatim>\<open>ulid\<close> is
  the argument \<open>is_ulid\<close> of \<open>consumer_id\<close>.
\<close>

definition GAME_NAME_MAX :: nat where
  "GAME_NAME_MAX = 16"

definition TAG_LINE_MAX :: nat where
  "TAG_LINE_MAX = 5"

definition PUUID_MIN :: nat where
  "PUUID_MIN = 60"

definition PUUID_MAX :: nat where
  "PUUID_MAX = 128"

definition MATCH_ID_MIN :: nat where
  "MATCH_ID_MIN = 6"

definition MATCH_ID_MAX :: nat where
  "MATCH_ID_MAX = 40"

definition invalid :: "string \<Rightarrow> string \<Rightarrow> string \<Rightarrow> api_error" where
  "invalid location name rule =
     (let msg = location @ ''/'' @ name @ '' '' @ rule; lower = lowercase msg in
      api_error_new (if contains ''platform'' lower \<or> contains ''region'' lower then BadRegion else Validation) msg)"

definition length_check :: "string \<Rightarrow> string \<Rightarrow> string \<Rightarrow> nat \<Rightarrow> nat \<Rightarrow> api_error + unit" where
  "length_check location name value lo hi =
     (let n = length value in
      if n < lo then Inl (invalid location name (''must NOT have fewer than '' @ show_nat lo @ '' characters''))
      else if n > hi then Inl (invalid location name (''must NOT have more than '' @ show_nat hi @ '' characters''))
      else Inr ())"

definition ALLOWED :: string where
  "ALLOWED = ''must be equal to one of the allowed values''"

definition one_of :: "string \<Rightarrow> string \<Rightarrow> string \<Rightarrow> 'a list \<Rightarrow> ('a \<Rightarrow> string) \<Rightarrow> api_error + 'a" where
  "one_of location name value xs as_str =
     (case find (\<lambda>v. as_str v = value) xs of Some v \<Rightarrow> Inr v | None \<Rightarrow> Inl (invalid location name ALLOWED))"

definition validate_region :: "string \<Rightarrow> api_error + region" where
  "validate_region value = one_of ''params'' ''region'' value REGIONS region_as_str"

definition platform_at :: "string \<Rightarrow> string \<Rightarrow> api_error + platform" where
  "platform_at location value = one_of location ''platform'' value PLATFORMS platform_as_str"

definition validate_platform :: "string \<Rightarrow> api_error + platform" where
  "validate_platform value = platform_at ''params'' value"

definition limiter_scope :: "string \<Rightarrow> api_error + string" where
  "limiter_scope value =
     (case find (\<lambda>s. s = value) (map platform_as_str PLATFORMS @ map region_as_str REGIONS) of
        Some s \<Rightarrow> Inr s
      | None \<Rightarrow> Inl (invalid ''params'' ''scope'' ALLOWED))"

definition one_of_str :: "string \<Rightarrow> string \<Rightarrow> string list \<Rightarrow> api_error + string" where
  "one_of_str name value xs =
     (case find (\<lambda>v. v = value) xs of Some v \<Rightarrow> Inr v | None \<Rightarrow> Inl (invalid ''params'' name ALLOWED))"

text \<open>\<^verbatim>\<open>Option<Result>::transpose\<close>\<close>

fun transpose_opt :: "('e + 'a) option \<Rightarrow> 'e + 'a option" where
  "transpose_opt None = Inr None"
| "transpose_opt (Some (Inr a)) = Inr (Some a)"
| "transpose_opt (Some (Inl e)) = Inl e"

definition query_one_of :: "string \<Rightarrow> string option \<Rightarrow> string list \<Rightarrow> api_error + string option" where
  "query_one_of name raw xs =
     transpose_opt (map_option (\<lambda>v.
       case find (\<lambda>a. a = v) xs of Some a \<Rightarrow> Inr a | None \<Rightarrow> Inl (invalid ''querystring'' name ALLOWED)) raw)"

definition game_name_at :: "string \<Rightarrow> string \<Rightarrow> api_error + unit" where
  "game_name_at location value = length_check location ''gameName'' value 1 GAME_NAME_MAX"

definition game_name :: "string \<Rightarrow> api_error + unit" where
  "game_name value = game_name_at ''params'' value"

definition tag_line_at :: "string \<Rightarrow> string \<Rightarrow> api_error + unit" where
  "tag_line_at location value = length_check location ''tagLine'' value 1 TAG_LINE_MAX"

definition tag_line :: "string \<Rightarrow> api_error + unit" where
  "tag_line value = tag_line_at ''params'' value"

definition puuid_at :: "string \<Rightarrow> string \<Rightarrow> api_error + unit" where
  "puuid_at location value =
     (case length_check location ''puuid'' value PUUID_MIN PUUID_MAX of
        Inl e \<Rightarrow> Inl e
      | Inr _ \<Rightarrow>
          if list_all (\<lambda>b. is_alnum b \<or> b = CHR ''_'' \<or> b = CHR ''-'') value then Inr ()
          else Inl (invalid location ''puuid''
            (''must match pattern '' @ [CHR 0x22] @ ''^[A-Za-z0-9_-]+$'' @ [CHR 0x22])))"

definition puuid :: "string \<Rightarrow> api_error + unit" where
  "puuid value = puuid_at ''params'' value"

definition match_id :: "string \<Rightarrow> api_error + unit" where
  "match_id value =
     (case length_check ''params'' ''matchId'' value MATCH_ID_MIN MATCH_ID_MAX of
        Inl e \<Rightarrow> Inl e
      | Inr _ \<Rightarrow>
          (let ok = (case split_once CHR ''_'' value of
               Some (p, n) \<Rightarrow> p \<noteq> [] \<and> list_all is_alnum p \<and> n \<noteq> [] \<and> list_all is_digit n
             | None \<Rightarrow> False) in
           if ok then Inr ()
           else Inl (invalid ''params'' ''matchId''
             (''must match pattern '' @ [CHR 0x22] @ ''^[A-Za-z0-9]+_[0-9]+$'' @ [CHR 0x22]))))"

definition show_int :: "int \<Rightarrow> string" where
  "show_int n = (if n < 0 then CHR ''-'' # show_nat (nat (- n)) else show_nat (nat n))"

definition int_query :: "string \<Rightarrow> string option \<Rightarrow> int \<Rightarrow> int \<Rightarrow> api_error + int option" where
  "int_query name raw lo hi =
     (case raw of
        None \<Rightarrow> Inr None
      | Some r \<Rightarrow>
          (case parse_i64 r of
             None \<Rightarrow> Inl (invalid ''querystring'' name ''must be integer'')
           | Some n \<Rightarrow>
               if n < lo then Inl (invalid ''querystring'' name (''must be >= '' @ show_int lo))
               else if n > hi then Inl (invalid ''querystring'' name (''must be <= '' @ show_int hi))
               else Inr (Some n)))"

definition bool_query :: "string \<Rightarrow> string option \<Rightarrow> api_error + bool option" where
  "bool_query name raw =
     (case raw of
        None \<Rightarrow> Inr None
      | Some v \<Rightarrow>
          if v = ''true'' then Inr (Some True)
          else if v = ''false'' then Inr (Some False)
          else Inl (invalid ''querystring'' name ''must be boolean''))"

definition query_platform :: "string option \<Rightarrow> api_error + platform option" where
  "query_platform raw =
     transpose_opt (map_option (\<lambda>v. one_of ''querystring'' ''platform'' v PLATFORMS platform_as_str) raw)"

definition required_query_platform :: "string option \<Rightarrow> api_error + platform" where
  "required_query_platform raw =
     (case query_platform raw of
        Inl e \<Rightarrow> Inl e
      | Inr (Some p) \<Rightarrow> Inr p
      | Inr None \<Rightarrow> Inl (api_error_new Validation
          (''querystring must have required property '' @ [CHR 0x27] @ ''platform'' @ [CHR 0x27])))"

definition patch_query :: "string option \<Rightarrow> api_error + string option" where
  "patch_query raw =
     (case raw of
        None \<Rightarrow> Inr None
      | Some v \<Rightarrow>
          (case length_check ''querystring'' ''patch'' v 3 8 of
             Inl e \<Rightarrow> Inl e
           | Inr _ \<Rightarrow>
               (let ok = (case split_once CHR ''.'' v of
                    Some (a, b) \<Rightarrow> a \<noteq> [] \<and> b \<noteq> [] \<and> list_all is_digit a \<and> list_all is_digit b
                  | None \<Rightarrow> False) in
                if ok then Inr (Some v)
                else Inl (invalid ''querystring'' ''patch''
                  (''must match pattern '' @ [CHR 0x22] @ ''^[0-9]+'' @ [CHR 0x5C] @ ''.[0-9]+$'' @ [CHR 0x22])))))"

text \<open>\<^verbatim>\<open>is_version\<close> of \<^verbatim>\<open>src/static/mod.rs\<close>\<close>

definition is_version :: "string \<Rightarrow> bool" where
  "is_version s = (s \<noteq> [] \<and> list_all (\<lambda>seg. seg \<noteq> [] \<and> list_all is_digit seg) (split_on CHR ''.'' s))"

definition version_query :: "string option \<Rightarrow> api_error + string option" where
  "version_query raw =
     (case raw of
        None \<Rightarrow> Inr None
      | Some v \<Rightarrow>
          (case length_check ''querystring'' ''version'' v 0 20 of
             Inl e \<Rightarrow> Inl e
           | Inr _ \<Rightarrow>
               if is_version v then Inr (Some v)
               else Inl (invalid ''querystring'' ''version''
                 (''must match pattern '' @ [CHR 0x22] @ ''^[0-9]+('' @ [CHR 0x5C] @ ''.[0-9]+)*$'' @ [CHR 0x22]))))"

definition remakes_query :: "string option \<Rightarrow> api_error + bool" where
  "remakes_query raw =
     (case query_one_of ''remakes'' raw [''exclude'', ''include''] of
        Inl e \<Rightarrow> Inl e
      | Inr r \<Rightarrow> Inr (r = Some ''include''))"

definition consumer_id :: "(string \<Rightarrow> bool) \<Rightarrow> string \<Rightarrow> api_error + unit" where
  "consumer_id is_ulid value =
     (if is_ulid value \<and> length value = 26 then Inr ()
      else Inl (invalid ''params'' ''id'' (''must match format '' @ [CHR 0x22] @ ''ulid'' @ [CHR 0x22])))"

section \<open>What passes\<close>

lemma length_check_Inr: "length_check loc name v lo hi = Inr u \<longleftrightarrow> lo \<le> length v \<and> length v \<le> hi"
  by (auto simp: length_check_def Let_def)

lemma alnum_not_underscore: "list_all is_alnum p \<Longrightarrow> CHR ''_'' \<notin> set p"
  by (auto simp: list_all_iff is_alnum_def is_digit_def is_lower_def is_upper_def)

lemma match_id_Inr:
  "match_id v = Inr u \<longleftrightarrow> MATCH_ID_MIN \<le> length v \<and> length v \<le> MATCH_ID_MAX \<and>
     (\<exists>p n. v = p @ CHR ''_'' # n \<and> p \<noteq> [] \<and> n \<noteq> [] \<and> list_all is_alnum p \<and> list_all is_digit n)"
proof -
  define ok where "ok = (case split_once CHR ''_'' v of
      Some (p, n) \<Rightarrow> p \<noteq> [] \<and> list_all is_alnum p \<and> n \<noteq> [] \<and> list_all is_digit n | None \<Rightarrow> False)"
  have "ok \<longleftrightarrow> (\<exists>p n. v = p @ CHR ''_'' # n \<and> p \<noteq> [] \<and> n \<noteq> [] \<and> list_all is_alnum p \<and> list_all is_digit n)"
  proof
    assume ok
    then show "\<exists>p n. v = p @ CHR ''_'' # n \<and> p \<noteq> [] \<and> n \<noteq> [] \<and> list_all is_alnum p \<and> list_all is_digit n"
      by (simp add: ok_def split_once_Some split: option.splits prod.splits) blast
  next
    assume "\<exists>p n. v = p @ CHR ''_'' # n \<and> p \<noteq> [] \<and> n \<noteq> [] \<and> list_all is_alnum p \<and> list_all is_digit n"
    then show ok
      by (auto simp: ok_def split_once_append alnum_not_underscore)
  qed
  moreover have "match_id v = Inr u \<longleftrightarrow> length_check ''params'' ''matchId'' v MATCH_ID_MIN MATCH_ID_MAX = Inr () \<and> ok"
    by (auto simp: match_id_def Let_def split: sum.splits simp flip: ok_def)
  ultimately show ?thesis
    by (simp add: length_check_Inr)
qed

lemma find_in: "find (\<lambda>v. v = x) xs = Some y \<longleftrightarrow> y = x \<and> x \<in> set xs"
  by (induction xs) auto

text \<open>The match id check accepts exactly the texts of 6 to 40 characters that match
  \<^verbatim>\<open>^[A-Za-z0-9]+_[0-9]+$\<close>, and such an id routes to a match-v5 host just when its prefix names a platform
  or a match-only prefix, up to case.\<close>

theorem match_id_exact:
  "(match_id v = Inr () \<longleftrightarrow> 6 \<le> length v \<and> length v \<le> 40 \<and>
      (\<exists>p n. v = p @ CHR ''_'' # n \<and> p \<noteq> [] \<and> n \<noteq> [] \<and> list_all is_alnum p \<and> list_all is_digit n)) \<and>
   (region_from_match_id v = None \<longleftrightarrow>
      (\<nexists>p n. v = p @ CHR ''_'' # n \<and> CHR ''_'' \<notin> set p \<and>
         (lowercase p \<in> platform_as_str ` set PLATFORMS \<or> lowercase p = ''me1'')))"
proof
  show "match_id v = Inr () \<longleftrightarrow> 6 \<le> length v \<and> length v \<le> 40 \<and>
      (\<exists>p n. v = p @ CHR ''_'' # n \<and> p \<noteq> [] \<and> n \<noteq> [] \<and> list_all is_alnum p \<and> list_all is_digit n)"
    by (simp add: match_id_Inr MATCH_ID_MIN_def MATCH_ID_MAX_def)
  show "region_from_match_id v = None \<longleftrightarrow>
      (\<nexists>p n. v = p @ CHR ''_'' # n \<and> CHR ''_'' \<notin> set p \<and>
         (lowercase p \<in> platform_as_str ` set PLATFORMS \<or> lowercase p = ''me1''))"
  proof (cases "split_once CHR ''_'' v")
    case None
    then have "CHR ''_'' \<notin> set v"
      by (simp add: split_once_None)
    then show ?thesis
      by (auto simp: region_from_match_id_def platform_from_match_id_def None)
  next
    case (Some pn)
    obtain p n where pn: "pn = (p, n)"
      by fastforce
    have only: "v = p' @ CHR ''_'' # n' \<and> CHR ''_'' \<notin> set p' \<longleftrightarrow> p' = p \<and> n' = n" for p' n'
      using Some by (metis pn split_once_Some option.inject prod.inject)
    have me: "find (\<lambda>(q, _). eq_ignore_case q p) MATCH_ONLY_PREFIXES = None \<longleftrightarrow> lowercase p \<noteq> ''me1''"
    proof -
      have "lowercase ''ME1'' = ''me1''"
        by code_simp
      then show ?thesis
        by (auto simp: MATCH_ONLY_PREFIXES_def eq_ignore_case_def)
    qed
    have pl: "platform_from_match_id v = None \<longleftrightarrow> lowercase p \<notin> platform_as_str ` set PLATFORMS"
    proof (cases "platform_parse p")
      case (Inl e)
      then have "lowercase p \<noteq> platform_as_str q" for q
        using platform_parse_Inr [of p q] by simp
      then show ?thesis
        using Inl by (auto simp: platform_from_match_id_def Some pn)
    next
      case (Inr q)
      then show ?thesis
        using platform_parse_Inr [of p q] by (simp add: platform_from_match_id_def Some pn)
    qed
    have "region_from_match_id v = None \<longleftrightarrow>
        \<not> (lowercase p \<in> platform_as_str ` set PLATFORMS \<or> lowercase p = ''me1'')"
      using pl me by (cases "platform_from_match_id v") (auto simp: region_from_match_id_def Some pn)
    then show ?thesis
      using only by metis
  qed
qed

end
