(* ===== verification/Ws.thy ===== *)
theory Ws
  imports Validate "HOL-Library.Word"
begin

text \<open>
  The realtime socket: the wire protocol \<^verbatim>\<open>src/ws/protocol.rs\<close>, the topic hub \<^verbatim>\<open>src/ws/hub.rs\<close>, one task per socket
  \<^verbatim>\<open>src/ws/socket.rs\<close> and the events \<^verbatim>\<open>src/events.rs\<close>. The broadcast channel of the crate \<^verbatim>\<open>tokio\<close> is the argument \<open>B\<close>,
  its operations as a record; \<open>broadcast_laws\<close> is what the code relies on. A receiver is named by the connection that
  owns it (a socket has at most one per topic). Reading a frame's JSON and printing an event are arguments.

  Sockets, publishers and administrators run concurrently, so every critical section of the hub is one step: a
  socket in the middle of a frame or of its end stands at a program counter, and other tasks act in between.
\<close>

section \<open>Protocol\<close>

definition MAX_MISSED_PONGS :: nat where
  "MAX_MISSED_PONGS = 2"

definition MAX_TOPICS_PER_SOCKET :: nat where
  "MAX_TOPICS_PER_SOCKET = 200"

definition MAX_TOPIC_LEN :: nat where
  "MAX_TOPIC_LEN = 200"

definition FIREHOSE :: string where
  "FIREHOSE = ''firehose''"

definition METRICS :: string where
  "METRICS = ''metrics''"

definition LADDER :: string where
  "LADDER = ''ladder''"

definition PATCH :: string where
  "PATCH = ''patch''"

definition PLAYER_PREFIX :: string where
  "PLAYER_PREFIX = ''player:''"

type_synonym topic = string

definition topic_parse :: "string \<Rightarrow> topic option" where
  "topic_parse raw =
     (let ok = (case strip_prefix PLAYER_PREFIX raw of
           Some p \<Rightarrow> \<not> isl (puuid p)
         | None \<Rightarrow> raw \<in> set [FIREHOSE, METRICS, LADDER, PATCH]) in
      if ok then Some raw else None)"

definition topic_player :: "string \<Rightarrow> topic" where
  "topic_player p = PLAYER_PREFIX @ p"

definition is_admin :: "topic \<Rightarrow> bool" where
  "is_admin t = (t \<in> set [FIREHOSE, METRICS, LADDER])"

definition is_firehose :: "topic \<Rightarrow> bool" where
  "is_firehose t = (t = FIREHOSE)"

text \<open>A value of \<^verbatim>\<open>serde_json\<close>; a number carries its text.\<close>

datatype json = JNull | JBool bool | JNumber string | JString string | JArray "json list" | JObject "(string \<times> json) list"

fun as_str :: "json \<Rightarrow> string option" where
  "as_str (JString s) = Some s"
| "as_str _ = None"

record raw_frame =
  rf_op :: "json option"
  rf_topics :: "json option"

datatype client_frame = Subscribe "string list" | Unsubscribe "string list" | Ping

datatype server_frame =
    Ready string
  | Subscribed "string list"
  | Resync string nat
  | Pong int
  | Frame_error string string

fun js_string :: "json option \<Rightarrow> string" where
  "js_string None = ''undefined''"
| "js_string (Some (JString s)) = s"
| "js_string (Some JNull) = ''null''"
| "js_string (Some (JArray _)) = []"
| "js_string (Some (JObject _)) = ''[object Object]''"
| "js_string (Some (JBool b)) = (if b then ''true'' else ''false'')"
| "js_string (Some (JNumber n)) = n"

fun frame_topics :: "json option \<Rightarrow> string list" where
  "frame_topics (Some (JArray items)) = filter (\<lambda>t. length t \<le> MAX_TOPIC_LEN) (List.map_filter as_str items)"
| "frame_topics _ = []"

definition client_frame_parse :: "(string \<Rightarrow> raw_frame option) \<Rightarrow> string \<Rightarrow> server_frame + client_frame" where
  "client_frame_parse from_json input =
     (case from_json input of
        None \<Rightarrow> Inl (Frame_error ''VALIDATION'' ''Invalid JSON'')
      | Some raw \<Rightarrow>
          (let op = Option.bind (rf_op raw) as_str in
           if op = Some ''subscribe'' then Inr (Subscribe (frame_topics (rf_topics raw)))
           else if op = Some ''unsubscribe'' then Inr (Unsubscribe (frame_topics (rf_topics raw)))
           else if op = Some ''ping'' then Inr Ping
           else Inl (Frame_error ''VALIDATION'' (''Unknown op '' @ [CHR 39] @ js_string (rf_op raw) @ [CHR 39]))))"

section \<open>The broadcast channel\<close>

datatype item = Got string | Lagged nat

record 'c broadcast =
  bc_channel :: "nat \<Rightarrow> 'c"
  bc_subscribe :: "nat \<Rightarrow> 'c \<Rightarrow> 'c"
  bc_drop :: "nat \<Rightarrow> 'c \<Rightarrow> 'c"
  bc_send :: "string \<Rightarrow> 'c \<Rightarrow> nat option \<times> 'c"
  bc_count :: "'c \<Rightarrow> nat"
  bc_poll :: "nat \<Rightarrow> 'c \<Rightarrow> item option \<times> 'c"
  bc_receivers :: "'c \<Rightarrow> nat list"
  bc_unread :: "'c \<Rightarrow> nat \<Rightarrow> string list"

text \<open>
  The last two fields observe a channel, its receivers and what each has not read: a new receiver sees later
  messages only; a message reaches every receiver, or is refused when there is none; reading takes the oldest
  unread message, or skips some and says how many.
\<close>

definition poll_law :: "string list \<Rightarrow> item option \<Rightarrow> string list \<Rightarrow> bool" where
  "poll_law before out after =
     (case out of
        None \<Rightarrow> before = [] \<and> after = []
      | Some (Got m) \<Rightarrow> before = m # after
      | Some (Lagged n) \<Rightarrow> 0 < n \<and> n \<le> length before \<and> after = drop n before)"

definition broadcast_laws :: "'c broadcast \<Rightarrow> bool" where
  "broadcast_laws B =
     ((\<forall>n. bc_receivers B (bc_channel B n) = []) \<and>
      (\<forall>c. bc_count B c = length (bc_receivers B c)) \<and>
      (\<forall>r c. r \<notin> set (bc_receivers B c) \<longrightarrow>
         bc_receivers B (bc_subscribe B r c) = bc_receivers B c @ [r] \<and>
         bc_unread B (bc_subscribe B r c) = (bc_unread B c)(r := [])) \<and>
      (\<forall>r c. bc_receivers B (bc_drop B r c) = removeAll r (bc_receivers B c) \<and>
         (\<forall>q. q \<noteq> r \<longrightarrow> bc_unread B (bc_drop B r c) q = bc_unread B c q)) \<and>
      (\<forall>m c. bc_receivers B (snd (bc_send B m c)) = bc_receivers B c \<and>
         fst (bc_send B m c) = (if bc_receivers B c = [] then None else Some (length (bc_receivers B c))) \<and>
         (\<forall>r \<in> set (bc_receivers B c). bc_unread B (snd (bc_send B m c)) r = bc_unread B c r @ [m])) \<and>
      (\<forall>r c. r \<in> set (bc_receivers B c) \<longrightarrow>
         bc_receivers B (snd (bc_poll B r c)) = bc_receivers B c \<and>
         poll_law (bc_unread B c r) (fst (bc_poll B r c)) (bc_unread B (snd (bc_poll B r c)) r) \<and>
         (\<forall>q. q \<noteq> r \<longrightarrow> bc_unread B (snd (bc_poll B r c)) q = bc_unread B c q)))"

section \<open>The hub\<close>

definition CAPACITY :: nat where
  "CAPACITY = 256"

datatype closing = Open | Shutdown | Revoked

text \<open>The watch cell of a connection: its value, and whether it changed since the socket looked.\<close>

record conn =
  co_consumer_id :: string
  co_close :: closing
  co_changed :: bool

record 'c hub =
  hb_capacity :: nat
  hb_topics :: "(topic \<times> 'c) list"
  hb_conns :: "(nat \<times> conn) list"
  hb_next_conn :: nat
  hb_subscriptions :: "64 word"
  hb_published :: "(string \<times> nat) list"

definition hub_new :: "nat \<Rightarrow> 'c hub" where
  "hub_new capacity =
     \<lparr>hb_capacity = max capacity 1, hb_topics = [], hb_conns = [], hb_next_conn = 0, hb_subscriptions = 0, hb_published = []\<rparr>"

definition send_to :: "'c broadcast \<Rightarrow> topic \<Rightarrow> string \<Rightarrow> 'c hub \<Rightarrow> nat \<times> 'c hub" where
  "send_to B t frame h =
     (case map_of (hb_topics h) t of
        None \<Rightarrow> (0, h)
      | Some c \<Rightarrow>
          (case bc_send B frame c of
             (n, c') \<Rightarrow> (case n of Some k \<Rightarrow> k | None \<Rightarrow> 0, h\<lparr>hb_topics := AList.update t c' (hb_topics h)\<rparr>)))"

definition hub_publish :: "'c broadcast \<Rightarrow> topic \<Rightarrow> string \<Rightarrow> string \<Rightarrow> 'c hub \<Rightarrow> nat \<times> 'c hub" where
  "hub_publish B t event frame h =
     (let n = (case map_of (hb_published h) event of Some k \<Rightarrow> k | None \<Rightarrow> 0);
          h0 = h\<lparr>hb_published := AList.update event (n + 1) (hb_published h)\<rparr>;
          (r1, h1) = send_to B t frame h0 in
      if is_firehose t then (r1, h1)
      else (case send_to B FIREHOSE frame h1 of (r2, h2) \<Rightarrow> (r1 + r2, h2)))"

definition hub_subscribe :: "'c broadcast \<Rightarrow> topic \<Rightarrow> nat \<Rightarrow> 'c hub \<Rightarrow> 'c hub" where
  "hub_subscribe B t r h =
     (let c = (case map_of (hb_topics h) t of Some c \<Rightarrow> c | None \<Rightarrow> bc_channel B (hb_capacity h)) in
      h\<lparr>hb_subscriptions := hb_subscriptions h + 1, hb_topics := AList.update t (bc_subscribe B r c) (hb_topics h)\<rparr>)"

text \<open>Dropping a receiver takes the channel's own lock, not the hub's.\<close>

definition drop_receiver :: "'c broadcast \<Rightarrow> topic \<Rightarrow> nat \<Rightarrow> 'c hub \<Rightarrow> 'c hub" where
  "drop_receiver B t r h =
     (case map_of (hb_topics h) t of
        None \<Rightarrow> h
      | Some c \<Rightarrow> h\<lparr>hb_topics := AList.update t (bc_drop B r c) (hb_topics h)\<rparr>)"

definition hub_release :: "'c broadcast \<Rightarrow> topic \<Rightarrow> 'c hub \<Rightarrow> 'c hub" where
  "hub_release B t h =
     (let h1 = h\<lparr>hb_subscriptions := hb_subscriptions h - 1\<rparr> in
      case map_of (hb_topics h) t of
        None \<Rightarrow> h1
      | Some c \<Rightarrow> if bc_count B c = 0 then h1\<lparr>hb_topics := AList.delete t (hb_topics h)\<rparr> else h1)"

definition receivers :: "'c broadcast \<Rightarrow> topic \<Rightarrow> 'c hub \<Rightarrow> nat" where
  "receivers B t h = (case map_of (hb_topics h) t of None \<Rightarrow> 0 | Some c \<Rightarrow> bc_count B c)"

definition live_topics :: "'c hub \<Rightarrow> nat" where
  "live_topics h = length (hb_topics h)"

definition connections :: "'c hub \<Rightarrow> nat" where
  "connections h = length (hb_conns h)"

definition hub_register :: "string \<Rightarrow> 'c hub \<Rightarrow> nat \<times> 'c hub" where
  "hub_register cid h =
     (let i = hb_next_conn h in
      (i, h\<lparr>hb_next_conn := i + 1,
          hb_conns := AList.update i \<lparr>co_consumer_id = cid, co_close = Open, co_changed = False\<rparr> (hb_conns h)\<rparr>))"

definition hub_unregister :: "nat \<Rightarrow> 'c hub \<Rightarrow> 'c hub" where
  "hub_unregister i h = h\<lparr>hb_conns := AList.delete i (hb_conns h)\<rparr>"

definition close_conn :: "closing \<Rightarrow> conn \<Rightarrow> conn" where
  "close_conn why c = c\<lparr>co_close := why, co_changed := True\<rparr>"

definition close_consumer :: "string \<Rightarrow> 'c hub \<Rightarrow> nat \<times> 'c hub" where
  "close_consumer cid h =
     (length (filter (\<lambda>(i, c). co_consumer_id c = cid) (hb_conns h)),
      h\<lparr>hb_conns := map (\<lambda>(i, c). (i, if co_consumer_id c = cid then close_conn Revoked c else c)) (hb_conns h)\<rparr>)"

definition hub_shutdown :: "'c hub \<Rightarrow> 'c hub" where
  "hub_shutdown h = h\<lparr>hb_conns := map (\<lambda>(i, c). (i, close_conn Shutdown c)) (hb_conns h)\<rparr>"

section \<open>Events\<close>

record rank =
  rk_tier :: "string option"
  rk_rank :: "string option"
  rk_lp :: "int option"

datatype ws_event =
    GameStarted string string int "int option" "int option"
  | GameEnded string "string option" int "int option" "int option"
  | RankChanged string string "rank option" "rank option"
  | MatchArchived "string option" string "string option" "string list"
  | PatchNew string
  | CrawlPhase string string string string json
  | LadderCrawlCompleted string string string int int int
  | AnalyticsUpdated string string int "(string \<times> int) list"
  | MetricsSnapshot json

fun event_name :: "ws_event \<Rightarrow> string" where
  "event_name (GameStarted _ _ _ _ _) = ''game.started''"
| "event_name (GameEnded _ _ _ _ _) = ''game.ended''"
| "event_name (RankChanged _ _ _ _) = ''rank.changed''"
| "event_name (MatchArchived _ _ _ _) = ''match.archived''"
| "event_name (PatchNew _) = ''patch.new''"
| "event_name (CrawlPhase _ _ _ _ _) = ''crawl.phase''"
| "event_name (LadderCrawlCompleted _ _ _ _ _ _) = ''ladder.crawl.completed''"
| "event_name (AnalyticsUpdated _ _ _ _) = ''analytics.updated''"
| "event_name (MetricsSnapshot _) = ''metrics.snapshot''"

fun event_topic :: "ws_event \<Rightarrow> topic" where
  "event_topic (GameStarted p _ _ _ _) = topic_player p"
| "event_topic (GameEnded p _ _ _ _) = topic_player p"
| "event_topic (RankChanged p _ _ _) = topic_player p"
| "event_topic (MatchArchived (Some p) _ _ _) = topic_player p"
| "event_topic (MatchArchived None _ _ _) = FIREHOSE"
| "event_topic (PatchNew _) = PATCH"
| "event_topic (CrawlPhase _ _ _ _ _) = LADDER"
| "event_topic (LadderCrawlCompleted _ _ _ _ _ _) = LADDER"
| "event_topic (AnalyticsUpdated _ _ _ _) = LADDER"
| "event_topic (MetricsSnapshot _) = METRICS"

text \<open>\<open>frame\<close> prints an event at a time; the empty text is an event that did not serialise.\<close>

definition publish_at :: "'c broadcast \<Rightarrow> (ws_event \<Rightarrow> int \<Rightarrow> string) \<Rightarrow> ws_event \<Rightarrow> int \<Rightarrow> 'c hub \<Rightarrow> nat \<times> 'c hub" where
  "publish_at B frame e at_ms h =
     (if frame e at_ms = [] then (0, h) else hub_publish B (event_topic e) (event_name e) (frame e at_ms) h)"

text \<open>The clock of the \<open>metrics\<close> topic; \<open>snap\<close> is the snapshot, if it could be taken.\<close>

definition metrics_tick :: "'c broadcast \<Rightarrow> (ws_event \<Rightarrow> int \<Rightarrow> string) \<Rightarrow> json option \<Rightarrow> int \<Rightarrow> 'c hub \<Rightarrow> bool \<times> 'c hub" where
  "metrics_tick B frame snap at_ms h =
     (if receivers B METRICS h = 0 then (False, h)
      else
        (case snap of
           None \<Rightarrow> (False, h)
         | Some v \<Rightarrow> (True, snd (publish_at B frame (MetricsSnapshot v) at_ms h))))"

section \<open>A socket\<close>

record client =
  cl_consumer_id :: string
  cl_consumer :: string
  cl_admin :: bool

datatype message = Reply server_frame | Event_text topic string | Ping_out | Close_out nat string

datatype inbound = Text_in string | Binary_in string | Pong_in | Ping_in | Gone_in

text \<open>
  Where the task stands: between two turns of its loop, in the middle of a frame with the topics and replies so
  far, about to release a topic whose receiver it dropped, or at its end.
\<close>

datatype pc =
    Idle
  | Subscribing "string list" "server_frame list"
  | Unsubscribing "string list"
  | Releasing topic "string list"
  | Replying "server_frame list"
  | Ending

record ws_socket =
  so_client :: client
  so_held :: "topic list"
  so_streams :: "topic list"
  so_missed :: nat
  so_pc :: pc
  so_out :: "message list"

record 'c ws_world =
  ws_hub :: "'c hub"
  ws_sockets :: "(nat \<times> ws_socket) list"

definition close_frame :: "closing \<Rightarrow> message" where
  "close_frame why =
     (case why of
        Revoked \<Rightarrow> Close_out 4401 ''key revoked''
      | _ \<Rightarrow> Close_out 1001 ''server shutting down'')"

text \<open>\<open>k\<close> is how many sends the peer takes before one fails; a failure ends the socket.\<close>

definition send_all :: "nat \<Rightarrow> message list \<Rightarrow> ws_socket \<Rightarrow> ws_socket" where
  "send_all k msgs s =
     s\<lparr>so_out := so_out s @ take k msgs, so_pc := (if k < length msgs then Ending else Idle)\<rparr>"

definition ws_connect :: "client \<Rightarrow> nat \<Rightarrow> 'c ws_world \<Rightarrow> 'c ws_world" where
  "ws_connect cl k w =
     (case hub_register (cl_consumer_id cl) (ws_hub w) of
        (i, h) \<Rightarrow>
          \<lparr>ws_hub = h,
           ws_sockets = AList.update i
             (send_all k [Reply (Ready (cl_consumer cl))]
               \<lparr>so_client = cl, so_held = [], so_streams = [], so_missed = 0, so_pc = Idle, so_out = []\<rparr>) (ws_sockets w)\<rparr>)"

text \<open>The turns of \<open>serve_socket_with\<close>, one per arm of its \<^verbatim>\<open>select!\<close>.\<close>

definition on_close :: "nat \<Rightarrow> conn \<Rightarrow> ws_socket \<Rightarrow> ws_socket" where
  "on_close k c s =
     (let s1 = (if co_close c \<noteq> Open then send_all k [close_frame (co_close c)] s else s) in s1\<lparr>so_pc := Ending\<rparr>)"

definition on_inbound :: "(string \<Rightarrow> raw_frame option) \<Rightarrow> int \<Rightarrow> inbound \<Rightarrow> ws_socket \<Rightarrow> ws_socket" where
  "on_inbound from_json now_ms m s =
     (let frame = (\<lambda>input. case client_frame_parse from_json input of
            Inl e \<Rightarrow> s\<lparr>so_pc := Replying [e]\<rparr>
          | Inr (Subscribe ts) \<Rightarrow> s\<lparr>so_pc := Subscribing ts []\<rparr>
          | Inr (Unsubscribe ts) \<Rightarrow> s\<lparr>so_pc := Unsubscribing ts\<rparr>
          | Inr Ping \<Rightarrow> s\<lparr>so_pc := Replying [Pong now_ms]\<rparr>) in
      case m of
        Text_in input \<Rightarrow> frame input
      | Binary_in input \<Rightarrow> frame input
      | Pong_in \<Rightarrow> s\<lparr>so_missed := 0\<rparr>
      | Ping_in \<Rightarrow> s
      | Gone_in \<Rightarrow> s\<lparr>so_pc := Ending\<rparr>)"

definition on_stream :: "nat \<Rightarrow> topic \<Rightarrow> item \<Rightarrow> ws_socket \<Rightarrow> ws_socket" where
  "on_stream k t it s =
     (if list_ex is_firehose (so_held s) \<and> t \<noteq> FIREHOSE then s
      else send_all k [case it of Got frame \<Rightarrow> Event_text t frame | Lagged n \<Rightarrow> Reply (Resync t n)] s)"

definition on_tick :: "nat \<Rightarrow> ws_socket \<Rightarrow> ws_socket" where
  "on_tick k s =
     (if MAX_MISSED_PONGS \<le> so_missed s then s\<lparr>so_pc := Ending\<rparr>
      else send_all k [Ping_out] (s\<lparr>so_missed := so_missed s + 1\<rparr>))"

text \<open>One topic of a subscribe frame: what the socket decides, and whether it joins the topic.\<close>

definition sub_one :: "string \<Rightarrow> string list \<Rightarrow> server_frame list \<Rightarrow> ws_socket \<Rightarrow> bool \<times> ws_socket" where
  "sub_one raw rest out s =
     (case topic_parse raw of
        None \<Rightarrow>
          (False, s\<lparr>so_pc := Subscribing rest (out @ [Frame_error ''VALIDATION'' (''Unknown topic '' @ [CHR 39] @ raw @ [CHR 39])])\<rparr>)
      | Some t \<Rightarrow>
          if is_admin t \<and> \<not> cl_admin (so_client s) then
            (False, s\<lparr>so_pc := Subscribing rest
               (out @ [Frame_error ''FORBIDDEN'' (''Topic '' @ [CHR 39] @ t @ [CHR 39] @ '' requires the admin scope'')])\<rparr>)
          else if t \<in> set (so_held s) then (False, s\<lparr>so_pc := Subscribing rest out\<rparr>)
          else if MAX_TOPICS_PER_SOCKET \<le> length (so_held s) then (False, s\<lparr>so_pc := Subscribing [] out\<rparr>)
          else (True, s\<lparr>so_held := so_held s @ [t], so_streams := so_streams s @ [t], so_pc := Subscribing rest out\<rparr>))"

text \<open>
  The next step of a socket that is busy: with a frame (one topic, one release, or the replies) or with its end,
  where the streams are dropped one by one, then every held topic is released, then the registration goes.
\<close>

definition busy_step :: "'c broadcast \<Rightarrow> nat \<Rightarrow> nat \<Rightarrow> ws_socket \<Rightarrow> 'c hub \<Rightarrow> ws_socket option \<times> 'c hub" where
  "busy_step B k i s h =
     (case so_pc s of
        Idle \<Rightarrow> (Some s, h)
      | Subscribing (raw # rest) out \<Rightarrow>
          (case sub_one raw rest out s of
             (joined, s1) \<Rightarrow> (Some s1, if joined then hub_subscribe B raw i h else h))
      | Subscribing [] out \<Rightarrow> (Some (s\<lparr>so_pc := Replying (out @ [Subscribed (so_held s)])\<rparr>), h)
      | Unsubscribing (raw # rest) \<Rightarrow>
          if raw \<in> set (so_held s) then
            (Some (s\<lparr>so_held := remove1 raw (so_held s), so_streams := remove1 raw (so_streams s), so_pc := Releasing raw rest\<rparr>),
             drop_receiver B raw i h)
          else (Some (s\<lparr>so_pc := Unsubscribing rest\<rparr>), h)
      | Unsubscribing [] \<Rightarrow> (Some (s\<lparr>so_pc := Replying [Subscribed (so_held s)]\<rparr>), h)
      | Releasing t rest \<Rightarrow> (Some (s\<lparr>so_pc := Unsubscribing rest\<rparr>), hub_release B t h)
      | Replying replies \<Rightarrow> (Some (send_all k (map Reply replies) s), h)
      | Ending \<Rightarrow>
          (case so_streams s of
             t # ts \<Rightarrow> (Some (s\<lparr>so_streams := ts\<rparr>), drop_receiver B t i h)
           | [] \<Rightarrow>
               (case so_held s of
                  t # ts \<Rightarrow> (Some (s\<lparr>so_held := ts\<rparr>), hub_release B t h)
                | [] \<Rightarrow> (None, hub_unregister i h))))"

end
