(* ===== verification/Ladder.thy ===== *)
theory Ladder
  imports Jobs_Props Ws
begin

text \<open>
  The ladder crawl: its tables and transactions, \<^verbatim>\<open>src/jobs/ladder/store.rs\<close>, and how a crawl starts and moves from stage
  to stage, \<^verbatim>\<open>src/jobs/ladder.rs\<close>. The tables are the lists of their rows; a transaction is a function of all of them
  that gives an error or the new tables. Status and phase, text in SQLite, are datatypes with the texts the code
  writes. New job ids are the argument \<open>nid\<close>, one per job a transaction queues; JSON is as in the job queue.
\<close>

section \<open>Rows\<close>

datatype crawl_status = Crawling | Completed | Crawl_failed | Cancelled

fun crawl_status_str :: "crawl_status \<Rightarrow> string" where
  "crawl_status_str Crawling = ''running''"
| "crawl_status_str Completed = ''completed''"
| "crawl_status_str Crawl_failed = ''failed''"
| "crawl_status_str Cancelled = ''cancelled''"

datatype crawl_phase = Enumerate | Collect | Archive

fun crawl_phase_str :: "crawl_phase \<Rightarrow> string" where
  "crawl_phase_str Enumerate = ''enumerate''"
| "crawl_phase_str Collect = ''collect''"
| "crawl_phase_str Archive = ''archive''"

record counters =
  pages_fetched :: int
  entries_seen :: int
  players_discovered :: int
  backfills_enqueued :: int
  match_ids_seen :: int
  matches_queued :: int
  players_skipped :: int
  matches_skipped :: int

definition counters_zero :: counters where
  "counters_zero =
     \<lparr>pages_fetched = 0, entries_seen = 0, players_discovered = 0, backfills_enqueued = 0, match_ids_seen = 0,
      matches_queued = 0, players_skipped = 0, matches_skipped = 0\<rparr>"

record crawl =
  cr_id :: string
  cr_scope :: string
  cr_platform :: string
  cr_queue :: string
  cr_tier_floor :: string
  cr_status :: crawl_status
  cr_phase :: crawl_phase
  cr_started_at :: int
  cr_finished_at :: "int option"
  cr_counters :: counters
  cr_legs_failed :: int
  cr_apex_capped :: "string list"
  cr_match_limit :: "int option"

record crawl_leg =
  lg_crawl :: string
  lg_leg :: string
  lg_cursor :: "int option"

record ladder_entry =
  le_puuid :: string
  le_tier :: string
  le_division :: string
  le_points :: int
  le_wins :: int
  le_losses :: int
  le_veteran :: bool
  le_inactive :: bool
  le_fresh_blood :: bool
  le_hot_streak :: bool

text \<open>A row of \<open>ladder_entries\<close>: its ladder, the entry, who saw it, and the collect cursor.\<close>

record entry_row =
  er_scope :: string
  er_platform :: string
  er_queue :: string
  er_entry :: ladder_entry
  er_first_seen :: string
  er_last_seen :: string
  er_updated_at :: int
  er_collected_games :: "int option"
  er_collected_at :: "int option"

text \<open>Of a row of \<open>players\<close>, what the crawl reads and writes; the backfill columns are keys of its JSON \<open>backfill_state\<close>.\<close>

record player_row =
  pl_scope :: string
  pl_puuid :: string
  pl_platform :: string
  pl_tracked :: bool
  pl_updated_at :: int
  pl_started_at :: "int option"
  pl_done_at :: "int option"
  pl_depth :: "int option"

record ladder_db =
  ld_crawls :: "crawl list"
  ld_legs :: "crawl_leg list"
  ld_ids :: "(string \<times> string) list"
  ld_entries :: "entry_row list"
  ld_players :: "player_row list"
  ld_jobs :: "job_row list"

section \<open>Statements\<close>

definition update_crawls :: "(crawl \<Rightarrow> bool) \<Rightarrow> (crawl \<Rightarrow> crawl) \<Rightarrow> ladder_db \<Rightarrow> ladder_db" where
  "update_crawls p f db = db\<lparr>ld_crawls := map (\<lambda>c. if p c then f c else c) (ld_crawls db)\<rparr>"

definition same_ladder :: "string \<Rightarrow> string \<Rightarrow> string \<Rightarrow> crawl \<Rightarrow> bool" where
  "same_ladder scope plat queue c = (cr_scope c = scope \<and> cr_platform c = plat \<and> cr_queue c = queue)"

text \<open>The insert conflicts with a row of the same id, and with a running crawl of the ladder.\<close>

definition insert_crawl ::
  "string \<Rightarrow> string \<Rightarrow> string \<Rightarrow> string \<Rightarrow> string \<Rightarrow> int \<Rightarrow> ladder_db \<Rightarrow> crawl option \<times> ladder_db" where
  "insert_crawl i scope plat queue tier_floor now_ms db =
     (if list_ex (\<lambda>c. cr_id c = i \<or> same_ladder scope plat queue c \<and> cr_status c = Crawling) (ld_crawls db) then (None, db)
      else
        (let c = \<lparr>cr_id = i, cr_scope = scope, cr_platform = plat, cr_queue = queue, cr_tier_floor = tier_floor,
              cr_status = Crawling, cr_phase = Enumerate, cr_started_at = now_ms, cr_finished_at = None,
              cr_counters = counters_zero, cr_legs_failed = 0, cr_apex_capped = [], cr_match_limit = None\<rparr> in
         (Some c, db\<lparr>ld_crawls := ld_crawls db @ [c]\<rparr>)))"

definition running_on :: "string \<Rightarrow> string \<Rightarrow> string \<Rightarrow> ladder_db \<Rightarrow> crawl option" where
  "running_on scope plat queue db = find (\<lambda>c. same_ladder scope plat queue c \<and> cr_status c = Crawling) (ld_crawls db)"

definition get_crawl :: "string \<Rightarrow> string \<Rightarrow> ladder_db \<Rightarrow> crawl option" where
  "get_crawl scope i db = find (\<lambda>c. cr_scope c = scope \<and> cr_id c = i) (ld_crawls db)"

definition is_leg :: "string \<Rightarrow> string \<Rightarrow> crawl_leg \<Rightarrow> bool" where
  "is_leg i leg l = (lg_crawl l = i \<and> lg_leg l = leg)"

definition add_leg :: "string \<Rightarrow> string \<Rightarrow> ladder_db \<Rightarrow> ladder_db" where
  "add_leg i leg db =
     (if list_ex (is_leg i leg) (ld_legs db) then db
      else db\<lparr>ld_legs := ld_legs db @ [\<lparr>lg_crawl = i, lg_leg = leg, lg_cursor = None\<rparr>]\<rparr>)"

definition add_legs :: "string \<Rightarrow> string list \<Rightarrow> ladder_db \<Rightarrow> ladder_db" where
  "add_legs i legs db = fold (add_leg i) legs db"

definition leg_cursor :: "string \<Rightarrow> string \<Rightarrow> ladder_db \<Rightarrow> int option option" where
  "leg_cursor i leg db = map_option lg_cursor (find (is_leg i leg) (ld_legs db))"

definition pending_legs :: "string \<Rightarrow> ladder_db \<Rightarrow> nat" where
  "pending_legs i db = length (filter (\<lambda>l. lg_crawl l = i) (ld_legs db))"

definition finish_crawl :: "string \<Rightarrow> crawl_status \<Rightarrow> int \<Rightarrow> ladder_db \<Rightarrow> crawl option \<times> ladder_db" where
  "finish_crawl i st now_ms db =
     (let hit = (\<lambda>c. cr_id c = i \<and> cr_status c = Crawling);
          over = (\<lambda>c. c\<lparr>cr_status := st, cr_finished_at := Some now_ms\<rparr>) in
      case find hit (ld_crawls db) of
        None \<Rightarrow> (None, db)
      | Some c \<Rightarrow>
          (Some (over c),
           (update_crawls hit over db)\<lparr>ld_legs := filter (\<lambda>l. lg_crawl l \<noteq> i) (ld_legs db),
             ld_ids := filter (\<lambda>(j, m). j \<noteq> i) (ld_ids db)\<rparr>))"

datatype ended = Nothing | Phase crawl | Finished crawl

datatype stage = Stage_phase crawl_phase | Stage_complete

definition as_finished :: "crawl option \<times> ladder_db \<Rightarrow> ended \<times> ladder_db" where
  "as_finished r = (case r of (None, db) \<Rightarrow> (Nothing, db) | (Some c, db) \<Rightarrow> (Finished c, db))"

text \<open>\<open>next\<close> decides, inside the transaction, where the stage's end leads, and queues the next stage's jobs.\<close>

definition store_end_leg ::
  "string \<Rightarrow> string \<Rightarrow> bool \<Rightarrow> int \<Rightarrow> (crawl \<Rightarrow> ladder_db \<Rightarrow> job_db_error + stage \<times> ladder_db) \<Rightarrow> ladder_db \<Rightarrow>
     job_db_error + ended \<times> ladder_db" where
  "store_end_leg i leg failed now_ms next db =
     (if \<not> list_ex (is_leg i leg) (ld_legs db) then Inr (Nothing, db)
      else
        (let db1 = db\<lparr>ld_legs := filter (\<lambda>l. \<not> is_leg i leg l) (ld_legs db)\<rparr>;
             db2 = (if failed then update_crawls (\<lambda>c. cr_id c = i) (\<lambda>c. c\<lparr>cr_legs_failed := cr_legs_failed c + 1\<rparr>) db1 else db1) in
         if 0 < pending_legs i db2 then Inr (Nothing, db2)
         else
           (case find (\<lambda>c. cr_id c = i \<and> cr_status c = Crawling) (ld_crawls db2) of
              None \<Rightarrow> Inr (Nothing, db2)
            | Some c \<Rightarrow>
                if 0 < cr_legs_failed c then Inr (as_finished (finish_crawl i Crawl_failed now_ms db2))
                else
                  (case next c db2 of
                     Inl e \<Rightarrow> Inl e
                   | Inr (Stage_complete, db3) \<Rightarrow> Inr (as_finished (finish_crawl i Completed now_ms db3))
                   | Inr (Stage_phase ph, db3) \<Rightarrow>
                       (case find (\<lambda>c. cr_id c = i \<and> cr_status c = Crawling) (ld_crawls db3) of
                          None \<Rightarrow> Inr (Nothing, db3)
                        | Some c3 \<Rightarrow>
                            Inr (Phase (c3\<lparr>cr_phase := ph\<rparr>),
                              update_crawls (\<lambda>c. cr_id c = i \<and> cr_status c = Crawling) (\<lambda>c. c\<lparr>cr_phase := ph\<rparr>) db3))))))"

definition leg_kinds :: "string list" where
  "leg_kinds = [LADDER_APEX, LADDER_WALK, LADDER_COLLECT, LADDER_ARCHIVE]"

definition names_crawl :: "(string \<Rightarrow> string \<Rightarrow> string option) \<Rightarrow> string \<Rightarrow> job_row \<Rightarrow> bool" where
  "names_crawl extract i r = (live r \<and> j_kind r \<in> set leg_kinds \<and> extract (j_payload r) ''$.crawlId'' = Some i)"

definition orphaned :: "(string \<Rightarrow> string \<Rightarrow> string option) \<Rightarrow> string \<Rightarrow> ladder_db \<Rightarrow> crawl \<Rightarrow> bool" where
  "orphaned extract scope db c =
     (cr_scope c = scope \<and> cr_status c = Crawling \<and> \<not> list_ex (names_crawl extract (cr_id c)) (ld_jobs db))"

fun finish_each :: "string list \<Rightarrow> int \<Rightarrow> ladder_db \<Rightarrow> crawl list \<times> ladder_db" where
  "finish_each [] now_ms db = ([], db)"
| "finish_each (i # is) now_ms db =
     (case finish_crawl i Crawl_failed now_ms db of
        (c, db1) \<Rightarrow> (case finish_each is now_ms db1 of (cs, db2) \<Rightarrow> ((case c of Some c \<Rightarrow> [c] | None \<Rightarrow> []) @ cs, db2)))"

definition store_fail_orphaned ::
  "(string \<Rightarrow> string \<Rightarrow> string option) \<Rightarrow> string \<Rightarrow> int \<Rightarrow> ladder_db \<Rightarrow> crawl list \<times> ladder_db" where
  "store_fail_orphaned extract scope now_ms db =
     finish_each (map cr_id (filter (orphaned extract scope db) (ld_crawls db))) now_ms db"

text \<open>\<open>json_extract\<close> of an absent row or key is \<open>NULL\<close>, read as 0.\<close>

definition walk_started :: "string \<Rightarrow> string \<Rightarrow> ladder_db \<Rightarrow> int" where
  "walk_started scope p db =
     (case find (\<lambda>r. pl_scope r = scope \<and> pl_puuid r = p) (ld_players db) of
        None \<Rightarrow> 0
      | Some r \<Rightarrow> (case pl_started_at r of Some t \<Rightarrow> t | None \<Rightarrow> 0))"

definition unchanged :: "entry_row \<Rightarrow> bool" where
  "unchanged r = (er_collected_games r = Some (le_wins (er_entry r) + le_losses (er_entry r)))"

definition collect_candidates :: "string \<Rightarrow> crawl \<Rightarrow> ladder_db \<Rightarrow> string list \<times> nat" where
  "collect_candidates scope c db =
     (let rows = rev (sort_key (\<lambda>r. (le_points (er_entry r), le_puuid (er_entry r)))
            (filter (\<lambda>r. er_scope r = scope \<and> er_platform r = cr_platform c \<and> er_queue r = cr_queue c \<and>
                er_last_seen r = cr_id c \<and> walk_started scope (le_puuid (er_entry r)) db < cr_started_at c) (ld_entries db))) in
      (map (\<lambda>r. le_puuid (er_entry r)) (filter (\<lambda>r. \<not> unchanged r) rows), length (filter unchanged rows)))"

definition is_entry :: "string \<Rightarrow> string \<Rightarrow> string \<Rightarrow> string \<Rightarrow> entry_row \<Rightarrow> bool" where
  "is_entry scope plat queue p r =
     (er_scope r = scope \<and> er_platform r = plat \<and> er_queue r = queue \<and> le_puuid (er_entry r) = p)"

definition collect_cursor :: "string \<Rightarrow> string \<Rightarrow> string \<Rightarrow> string \<Rightarrow> ladder_db \<Rightarrow> int option" where
  "collect_cursor scope plat queue p db = Option.bind (find (is_entry scope plat queue p) (ld_entries db)) er_collected_at"

definition stamp_cursor :: "string \<Rightarrow> string \<Rightarrow> string \<Rightarrow> string \<Rightarrow> int \<Rightarrow> ladder_db \<Rightarrow> ladder_db" where
  "stamp_cursor scope plat queue p began_at db =
     db\<lparr>ld_entries := map (\<lambda>r. if is_entry scope plat queue p r then
         r\<lparr>er_collected_games := Some (le_wins (er_entry r) + le_losses (er_entry r)), er_collected_at := Some began_at\<rparr> else r)
       (ld_entries db)\<rparr>"

datatype counter = BackfillsEnqueued | PlayersSkipped | MatchIdsSeen | MatchesQueued | MatchesSkipped

fun add_counter :: "counter \<Rightarrow> int \<Rightarrow> counters \<Rightarrow> counters" where
  "add_counter BackfillsEnqueued n k = k\<lparr>backfills_enqueued := backfills_enqueued k + n\<rparr>"
| "add_counter PlayersSkipped n k = k\<lparr>players_skipped := players_skipped k + n\<rparr>"
| "add_counter MatchIdsSeen n k = k\<lparr>match_ids_seen := match_ids_seen k + n\<rparr>"
| "add_counter MatchesQueued n k = k\<lparr>matches_queued := matches_queued k + n\<rparr>"
| "add_counter MatchesSkipped n k = k\<lparr>matches_skipped := matches_skipped k + n\<rparr>"

definition bump :: "string \<Rightarrow> counter \<Rightarrow> int \<Rightarrow> ladder_db \<Rightarrow> ladder_db" where
  "bump i k n db = (if n = 0 then db else update_crawls (\<lambda>c. cr_id c = i) (\<lambda>c. c\<lparr>cr_counters := add_counter k n (cr_counters c)\<rparr>) db)"

text \<open>Ids of a platform lie between \<^verbatim>\<open>OC1_\<close> and \<^verbatim>\<open>OC1`\<close>; \<open>archived\<close> is the ids of the table \<open>matches\<close>.\<close>

definition on_platform :: "string \<Rightarrow> string \<Rightarrow> bool" where
  "on_platform plat m = (uppercase plat @ ''_'' \<le> m \<and> m < uppercase plat @ [CHR 0x60])"

definition platform_matches_held :: "string list \<Rightarrow> string \<Rightarrow> ladder_db \<Rightarrow> int" where
  "platform_matches_held archived plat db =
     int (length (filter (on_platform plat) archived)) +
     int (length (filter (\<lambda>r. j_kind r = ARCHIVE_MATCH \<and> live r \<and>
         (case j_dedupe r of None \<Rightarrow> False | Some m \<Rightarrow> on_platform plat m \<and> m \<notin> set archived)) (ld_jobs db)))"

definition mark_match_limit :: "string \<Rightarrow> nat \<Rightarrow> ladder_db \<Rightarrow> ladder_db" where
  "mark_match_limit i limit db =
     update_crawls (\<lambda>c. cr_id c = i \<and> cr_match_limit c = None) (\<lambda>c. c\<lparr>cr_match_limit := Some (int limit)\<rparr>) db"

definition add_match_id :: "string \<Rightarrow> string \<Rightarrow> int \<times> ladder_db \<Rightarrow> int \<times> ladder_db" where
  "add_match_id i m st =
     (if (i, m) \<in> set (ld_ids (snd st)) then st
      else (fst st + 1, (snd st)\<lparr>ld_ids := ld_ids (snd st) @ [(i, m)]\<rparr>))"

definition add_match_ids :: "string \<Rightarrow> string list \<Rightarrow> ladder_db \<Rightarrow> int \<times> ladder_db" where
  "add_match_ids i ms db = fold (add_match_id i) ms (0, db)"

definition peek_match_ids :: "string \<Rightarrow> nat \<Rightarrow> ladder_db \<Rightarrow> string list" where
  "peek_match_ids i n db = take n (sort (map snd (filter (\<lambda>(j, m). j = i) (ld_ids db))))"

definition drop_match_ids :: "string \<Rightarrow> string list \<Rightarrow> ladder_db \<Rightarrow> ladder_db" where
  "drop_match_ids i ms db = db\<lparr>ld_ids := filter (\<lambda>(j, m). \<not> (j = i \<and> m \<in> set ms)) (ld_ids db)\<rparr>"

definition update_player :: "string \<Rightarrow> string \<Rightarrow> (player_row \<Rightarrow> player_row) \<Rightarrow> ladder_db \<Rightarrow> ladder_db" where
  "update_player scope p f db =
     db\<lparr>ld_players := map (\<lambda>r. if pl_scope r = scope \<and> pl_puuid r = p then f r else r) (ld_players db)\<rparr>"

definition mark_walk_started :: "string \<Rightarrow> string \<Rightarrow> int \<Rightarrow> ladder_db \<Rightarrow> ladder_db" where
  "mark_walk_started scope p now_ms db = update_player scope p (\<lambda>r. r\<lparr>pl_started_at := Some now_ms\<rparr>) db"

definition mark_walk_complete :: "string \<Rightarrow> string \<Rightarrow> int \<Rightarrow> int \<Rightarrow> ladder_db \<Rightarrow> ladder_db" where
  "mark_walk_complete scope p depth now_ms db =
     update_player scope p (\<lambda>r. r\<lparr>pl_done_at := Some now_ms, pl_depth := Some depth\<rparr>) db"

definition list_crawls ::
  "string \<Rightarrow> string option \<Rightarrow> string option \<Rightarrow> nat \<Rightarrow> ladder_db \<Rightarrow> (crawl \<times> nat) list" where
  "list_crawls scope plat queue limit db =
     map (\<lambda>c. (c, pending_legs (cr_id c) db))
       (take limit (rev (sort_key (\<lambda>c. (cr_started_at c, cr_id c))
         (filter (\<lambda>c. cr_scope c = scope \<and> (plat = None \<or> plat = Some (cr_platform c)) \<and> (queue = None \<or> queue = Some (cr_queue c)))
           (ld_crawls db)))))"

datatype cancel_error = Crawl_not_found | Crawl_not_running string crawl_status | Cancel_db job_db_error

definition cancel_crawl ::
  "(string \<Rightarrow> string \<Rightarrow> string option) \<Rightarrow> string \<Rightarrow> string \<Rightarrow> int \<Rightarrow> ladder_db \<Rightarrow> (cancel_error + crawl \<times> nat) \<times> ladder_db" where
  "cancel_crawl extract scope i now_ms db =
     (case get_crawl scope i db of
        None \<Rightarrow> (Inl Crawl_not_found, db)
      | Some existing \<Rightarrow>
          (case finish_crawl i Cancelled now_ms db of
             (None, _) \<Rightarrow> (Inl (Crawl_not_running i (cr_status existing)), db)
           | (Some c, db1) \<Rightarrow>
               (case cancel_pending_on extract leg_kinds ''crawlId'' i now_ms (ld_jobs db1) of
                  (Inl e, _) \<Rightarrow> (Inl (Cancel_db e), db)
                | (Inr n, jobs) \<Rightarrow> (Inr (c, n), db1\<lparr>ld_jobs := jobs\<rparr>))))"

section \<open>A page\<close>

record page =
  pg_scope :: string
  pg_crawl :: string
  pg_platform :: string
  pg_queue :: string
  pg_entries :: "ladder_entry list"
  pg_cursor :: "(string \<times> int) option"
  pg_apex_tier :: "string option"
  pg_now :: int

definition upsert_entry :: "page \<Rightarrow> ladder_entry \<Rightarrow> entry_row list \<Rightarrow> entry_row list" where
  "upsert_entry pg e rows =
     (let hit = is_entry (pg_scope pg) (pg_platform pg) (pg_queue pg) (le_puuid e) in
      if list_ex hit rows then
        map (\<lambda>r. if hit r then r\<lparr>er_entry := e, er_last_seen := pg_crawl pg, er_updated_at := pg_now pg\<rparr> else r) rows
      else rows @ [\<lparr>er_scope = pg_scope pg, er_platform = pg_platform pg, er_queue = pg_queue pg, er_entry = e,
          er_first_seen = pg_crawl pg, er_last_seen = pg_crawl pg, er_updated_at = pg_now pg,
          er_collected_games = None, er_collected_at = None\<rparr>])"

definition upsert_player :: "page \<Rightarrow> string \<Rightarrow> player_row list \<Rightarrow> player_row list" where
  "upsert_player pg p rows =
     (let hit = (\<lambda>r. pl_scope r = pg_scope pg \<and> pl_puuid r = p) in
      if list_ex hit rows then map (\<lambda>r. if hit r then r\<lparr>pl_platform := pg_platform pg, pl_updated_at := pg_now pg\<rparr> else r) rows
      else rows @ [\<lparr>pl_scope = pg_scope pg, pl_puuid = p, pl_platform = pg_platform pg, pl_tracked = False,
          pl_updated_at = pg_now pg, pl_started_at = None, pl_done_at = None, pl_depth = None\<rparr>])"

definition store_entry :: "page \<Rightarrow> ladder_entry \<Rightarrow> ladder_db \<Rightarrow> ladder_db" where
  "store_entry pg e db =
     db\<lparr>ld_entries := upsert_entry pg e (ld_entries db), ld_players := upsert_player pg (le_puuid e) (ld_players db)\<rparr>"

text \<open>Position in \<open>APEX_TIERS\<close>; a tier that is not there sorts first, as \<^verbatim>\<open>None\<close> does.\<close>

definition apex_rank :: "string \<Rightarrow> nat option" where
  "apex_rank t = map_option fst (find (\<lambda>(k, a). a = t) (enumerate 0 APEX_TIERS))"

definition mark_capped :: "string \<Rightarrow> string \<Rightarrow> ladder_db \<Rightarrow> ladder_db" where
  "mark_capped i tier db =
     update_crawls (\<lambda>c. cr_id c = i \<and> tier \<notin> set (cr_apex_capped c))
       (\<lambda>c. c\<lparr>cr_apex_capped := sort_key apex_rank (cr_apex_capped c @ [tier])\<rparr>) db"

definition write_page :: "page \<Rightarrow> ladder_db \<Rightarrow> ladder_db" where
  "write_page pg db =
     (let n = int (length (pg_entries pg));
          db1 = fold (store_entry pg) (pg_entries pg) db;
          db2 = update_crawls (\<lambda>c. cr_id c = pg_crawl pg)
            (\<lambda>c. c\<lparr>cr_counters := (cr_counters c)\<lparr>pages_fetched := pages_fetched (cr_counters c) + 1,
                entries_seen := entries_seen (cr_counters c) + n, players_discovered := players_discovered (cr_counters c) + n\<rparr>\<rparr>) db1;
          db3 = (case pg_cursor pg of
            None \<Rightarrow> db2
          | Some (leg, nxt) \<Rightarrow>
              db2\<lparr>ld_legs := map (\<lambda>l. if is_leg (pg_crawl pg) leg l then l\<lparr>lg_cursor := Some nxt\<rparr> else l) (ld_legs db2)\<rparr>) in
      case pg_apex_tier pg of
        None \<Rightarrow> db3
      | Some tier \<Rightarrow> if RIOT_APEX_LIST_CAP \<le> length (pg_entries pg) then mark_capped (pg_crawl pg) tier db3 else db3)"

end
