(* ===== verification/Crawl.thy ===== *)
theory Crawl
  imports Ladder "HOL-Library.Signed_Division"
begin

text \<open>
  The ladder crawl's jobs, \<^verbatim>\<open>src/jobs/ladder.rs\<close>: starting a crawl, its stages, and the handlers. What a handler reads
  from Riot, what the clock says and what other tasks do to the tables meanwhile come in from the environment, one
  record per turn of a loop; a handler that has not finished when the environment ends is \<open>None\<close>. An answer is a
  function of the request, which is the method's id, its path values and its query. Log lines, metrics and the
  activity trace are left out.
\<close>

section \<open>Payloads\<close>

abbreviation ORDER_CRAWL :: int where "ORDER_CRAWL \<equiv> PRIORITY_BACKFILL"
abbreviation ORDER_APEX :: int where "ORDER_APEX \<equiv> PRIORITY_BACKFILL + 1"
abbreviation ORDER_WALK :: int where "ORDER_WALK \<equiv> PRIORITY_BACKFILL + 2"
abbreviation ORDER_COLLECT :: int where "ORDER_COLLECT \<equiv> PRIORITY_BACKFILL + 3"
abbreviation ORDER_ARCHIVE :: int where "ORDER_ARCHIVE \<equiv> PRIORITY_BACKFILL + 4"
abbreviation ORDER_MATCH :: int where "ORDER_MATCH \<equiv> PRIORITY_BACKFILL + 5"
abbreviation ORDER_RANKS :: int where "ORDER_RANKS \<equiv> PRIORITY_BACKFILL + 6"

definition CANCEL_CHECK_PAGES :: nat where
  "CANCEL_CHECK_PAGES = 10"

definition COLLECT_BATCH :: nat where
  "COLLECT_BATCH = 25"

definition ARCHIVE_BATCH :: nat where
  "ARCHIVE_BATCH = 100"

definition ID_PAGE :: nat where
  "ID_PAGE = 100"

record collect_job =
  cj_crawl :: string
  cj_platform :: string
  cj_queue :: string
  cj_puuids :: "string list"
  cj_offset :: nat

definition collect_leg :: "collect_job \<Rightarrow> string" where
  "collect_leg j = LADDER_COLLECT @ '':'' @ show_nat (cj_offset j)"

record archive_leg =
  al_crawl :: string
  al_platform :: string
  al_queue :: string

record crawl_request =
  rq_platform :: string
  rq_queue :: string
  rq_tier_floor :: "string option"

record leg_job =
  lj_crawl :: string
  lj_platform :: string
  lj_queue :: string
  lj_tier :: string
  lj_division :: "string option"

definition leg_name :: "leg_job \<Rightarrow> string" where
  "leg_name j =
     (case lj_division j of
        Some d \<Rightarrow> LADDER_WALK @ '':'' @ lj_tier j @ '':'' @ d
      | None \<Rightarrow> LADDER_APEX @ '':'' @ lj_tier j)"

datatype ladder_payload =
    Pay_crawl crawl_request
  | Pay_leg leg_job
  | Pay_collect collect_job
  | Pay_archive archive_leg
  | Pay_match string "string option" "bool option"
  | Pay_ladder string string
  | Pay_ranks string string bool
  | Pay_empty

text \<open>The text under a key of the value \<^verbatim>\<open>serde\<close> makes of a payload (its names are in camel case, \<open>None\<close> is not written).\<close>

definition opt_field :: "string \<Rightarrow> string option \<Rightarrow> (string \<times> string) list" where
  "opt_field k v = (case v of Some x \<Rightarrow> [(k, x)] | None \<Rightarrow> [])"

fun pay_fields :: "ladder_payload \<Rightarrow> (string \<times> string) list" where
  "pay_fields (Pay_crawl q) = [(''platform'', rq_platform q), (''queue'', rq_queue q)] @ opt_field ''tierFloor'' (rq_tier_floor q)"
| "pay_fields (Pay_leg j) =
     [(''crawlId'', lj_crawl j), (''platform'', lj_platform j), (''queue'', lj_queue j), (''tier'', lj_tier j)] @
     opt_field ''division'' (lj_division j)"
| "pay_fields (Pay_collect j) = [(''crawlId'', cj_crawl j), (''platform'', cj_platform j), (''queue'', cj_queue j)]"
| "pay_fields (Pay_archive l) = [(''crawlId'', al_crawl l), (''platform'', al_platform l), (''queue'', al_queue l)]"
| "pay_fields (Pay_match m p f) = [(''matchId'', m)] @ opt_field ''puuid'' p"
| "pay_fields (Pay_ladder p q) = [(''platform'', p), (''queue'', q)]"
| "pay_fields (Pay_ranks p q planned) = [(''platform'', p), (''queue'', q)]"
| "pay_fields Pay_empty = []"

definition pay_field :: "ladder_payload \<Rightarrow> string \<Rightarrow> string option" where
  "pay_field p k = map_of (pay_fields p) k"

text \<open>\<open>LadderContext\<close>, with the JSON printer and the texts of database errors.\<close>

record ladder_ctx =
  lc_scope :: string
  lc_tier_floor :: string
  lc_backfill_limit :: nat
  lc_lookup_backfill_limit :: nat
  lc_collect_overlap_s :: nat
  lc_archive_timelines :: bool
  lc_rank_lookup_limit :: nat
  lc_late_stamp_days :: nat
  lc_delta_on :: bool
  lc_crawl_match_limit :: nat
  lc_json :: "ladder_payload \<Rightarrow> string"
  lc_extract :: "string \<Rightarrow> string \<Rightarrow> string option"
  lc_db_error :: "job_db_error \<Rightarrow> string"

definition store_err :: "ladder_ctx \<Rightarrow> job_db_error \<Rightarrow> job_error" where
  "store_err C e = Retry (''store: '' @ lc_db_error C e)"

definition queue_jobs :: "ladder_ctx \<Rightarrow> (string \<times> ladder_payload new_job) list \<Rightarrow> int \<Rightarrow> ladder_db \<Rightarrow> job_db_error + ladder_db" where
  "queue_jobs C njs now_ms db =
     (case enqueue_each (lc_json C) pay_field njs now_ms (ld_jobs db) of
        Inl e \<Rightarrow> Inl e
      | Inr (n, rows) \<Rightarrow> Inr (db\<lparr>ld_jobs := rows\<rparr>))"

text \<open>The ids of the jobs of one transaction: \<open>nid 0\<close>, \<open>nid 1\<close>, ...\<close>

definition with_ids :: "(nat \<Rightarrow> string) \<Rightarrow> 'a list \<Rightarrow> (string \<times> 'a) list" where
  "with_ids nid xs = zip (map nid [0..<length xs]) xs"

section \<open>Starting\<close>

record started =
  sd_crawl :: string
  sd_created :: bool
  sd_platform :: string
  sd_queue :: string
  sd_legs :: nat

datatype start_error = Start_invalid api_error | Start_db job_db_error

definition quoted :: "string \<Rightarrow> string" where
  "quoted s = [CHR 0x27] @ s @ [CHR 0x27]"

definition checked :: "string \<Rightarrow> crawl_request \<Rightarrow> api_error + platform \<times> string \<times> string" where
  "checked default_floor req =
     (case platform_parse (rq_platform req) of
        Inl e \<Rightarrow> Inl e
      | Inr p \<Rightarrow>
          if rq_queue req \<notin> set RANKED_QUEUES then
            Inl (api_error_new Validation (''Unknown ranked queue '' @ quoted (rq_queue req) @ ''. Expected one of: '' @ join '', '' RANKED_QUEUES))
          else
            (let raw = (case rq_tier_floor req of Some f \<Rightarrow> f | None \<Rightarrow> default_floor) in
             if uppercase raw \<notin> set tiers then
               Inl (api_error_new Validation (''Unknown tier '' @ quoted raw @ ''. Expected one of: '' @ join '', '' tiers))
             else Inr (p, rq_queue req, uppercase raw)))"

definition enumerate_legs :: "string \<Rightarrow> nat" where
  "enumerate_legs tf =
     sum_list (map (\<lambda>t. if t \<in> set APEX_TIERS then 1 else if t \<in> set PAGED_TIERS then length DIVISIONS else 0) (tiers_at_or_above tf))"

definition fan_out :: "string \<Rightarrow> string \<Rightarrow> string \<Rightarrow> string \<Rightarrow> leg_job list" where
  "fan_out i plat queue tf =
     (let ts = tiers_at_or_above tf in
      map (\<lambda>(t, d). \<lparr>lj_crawl = i, lj_platform = plat, lj_queue = queue, lj_tier = t, lj_division = d\<rparr>)
        (map (\<lambda>t. (t, None)) (filter (\<lambda>t. t \<in> set APEX_TIERS) ts) @
         concat (map (\<lambda>t. map (\<lambda>d. (t, Some d)) DIVISIONS) (filter (\<lambda>t. t \<in> set PAGED_TIERS) ts))))"

definition leg_new_job :: "leg_job \<Rightarrow> ladder_payload new_job" where
  "leg_new_job j =
     new_job_dedupe (lj_crawl j @ '':'' @ leg_name j)
       (if lj_division j \<noteq> None then new_job_new LADDER_WALK ORDER_WALK (Pay_leg j)
        else new_job_new LADDER_APEX ORDER_APEX (Pay_leg j))"

definition start_crawl ::
  "ladder_ctx \<Rightarrow> string \<Rightarrow> string \<Rightarrow> crawl_request \<Rightarrow> string \<Rightarrow> (nat \<Rightarrow> string) \<Rightarrow> int \<Rightarrow> ladder_db \<Rightarrow> (start_error + started) \<times> ladder_db" where
  "start_crawl C scope default_floor req i nid now_ms db =
     (case checked default_floor req of
        Inl e \<Rightarrow> (Inl (Start_invalid e), db)
      | Inr (p, queue, tf) \<Rightarrow>
          (let plat = platform_as_str p in
           case insert_crawl i scope plat queue tf now_ms db of
             (None, _) \<Rightarrow>
               (case running_on scope plat queue db of
                  Some r \<Rightarrow> (Inr \<lparr>sd_crawl = cr_id r, sd_created = False, sd_platform = plat, sd_queue = queue, sd_legs = 0\<rparr>, db)
                | None \<Rightarrow>
                    (Inl (Start_invalid (api_error_new Validation ''The running crawl of this ladder finished meanwhile; start again'')), db))
           | (Some c, db1) \<Rightarrow>
               (let legs = fan_out i plat queue tf in
                case queue_jobs C (with_ids nid (map leg_new_job legs)) now_ms (add_legs i (map leg_name legs) db1) of
                  Inl e \<Rightarrow> (Inl (Start_db e), db)
                | Inr db2 \<Rightarrow>
                    (Inr \<lparr>sd_crawl = i, sd_created = True, sd_platform = plat, sd_queue = queue, sd_legs = length legs\<rparr>, db2))))"

definition crawl_job :: "string \<Rightarrow> string \<Rightarrow> ladder_payload new_job" where
  "crawl_job plat queue =
     new_job_dedupe (plat @ '':'' @ queue)
       (new_job_new LADDER_CRAWL ORDER_CRAWL (Pay_crawl \<lparr>rq_platform = plat, rq_queue = queue, rq_tier_floor = None\<rparr>))"

section \<open>Stages\<close>

definition archive_leg_job :: "crawl \<Rightarrow> ladder_payload new_job" where
  "archive_leg_job c =
     new_job_dedupe (cr_id c @ '':'' @ LADDER_ARCHIVE)
       (new_job_new LADDER_ARCHIVE ORDER_ARCHIVE
         (Pay_archive \<lparr>al_crawl = cr_id c, al_platform = cr_platform c, al_queue = cr_queue c\<rparr>))"

definition queue_archive :: "ladder_ctx \<Rightarrow> crawl \<Rightarrow> (nat \<Rightarrow> string) \<Rightarrow> int \<Rightarrow> ladder_db \<Rightarrow> job_db_error + ladder_db" where
  "queue_archive C c nid now_ms db =
     queue_jobs C (with_ids nid [archive_leg_job c]) now_ms (add_legs (cr_id c) [LADDER_ARCHIVE] db)"

fun next_stage :: "crawl_phase \<Rightarrow> nat \<Rightarrow> stage" where
  "next_stage Enumerate limit = (if limit = 0 then Stage_complete else Stage_phase Collect)"
| "next_stage Collect limit = Stage_phase Archive"
| "next_stage Archive limit = Stage_complete"

definition collect_jobs :: "crawl \<Rightarrow> string list \<Rightarrow> collect_job list" where
  "collect_jobs c players =
     map (\<lambda>(k, batch). \<lparr>cj_crawl = cr_id c, cj_platform = cr_platform c, cj_queue = cr_queue c, cj_puuids = batch,
         cj_offset = k * COLLECT_BATCH\<rparr>) (enumerate 0 (chunks COLLECT_BATCH players))"

definition collect_new_job :: "collect_job \<Rightarrow> ladder_payload new_job" where
  "collect_new_job j =
     new_job_dedupe (cj_crawl j @ '':'' @ collect_leg j) (new_job_new LADDER_COLLECT ORDER_COLLECT (Pay_collect j))"

definition advance ::
  "ladder_ctx \<Rightarrow> (nat \<Rightarrow> string) \<Rightarrow> int \<Rightarrow> crawl \<Rightarrow> ladder_db \<Rightarrow> job_db_error + stage \<times> ladder_db" where
  "advance C nid now_ms c db =
     (let stage = next_stage (cr_phase c) (lc_backfill_limit C) in
      case (cr_phase c, stage) of
        (Enumerate, Stage_phase _) \<Rightarrow>
          (let (players, skipped) = collect_candidates (lc_scope C) c db;
               db1 = bump (cr_id c) PlayersSkipped (int skipped) (bump (cr_id c) BackfillsEnqueued (int (length players)) db) in
           if players = [] then map_sum id (\<lambda>db2. (Stage_phase Archive, db2)) (queue_archive C c nid now_ms db1)
           else
             (let jobs = collect_jobs c players in
              map_sum id (\<lambda>db2. (stage, db2))
                (queue_jobs C (with_ids nid (map collect_new_job jobs)) now_ms (add_legs (cr_id c) (map collect_leg jobs) db1))))
      | (Collect, Stage_phase _) \<Rightarrow> map_sum id (\<lambda>db2. (stage, db2)) (queue_archive C c nid now_ms db)
      | _ \<Rightarrow> Inr (stage, db))"

definition names_job :: "ladder_payload new_job" where
  "names_job = new_job_dedupe NAMES_BACKFILL (new_job_new NAMES_BACKFILL PRIORITY_MAINTENANCE Pay_empty)"

definition aggregate_job :: "string \<Rightarrow> string \<Rightarrow> ladder_payload new_job" where
  "aggregate_job plat queue =
     new_job_dedupe (plat @ '':'' @ queue) (new_job_new AGGREGATE_ANALYTICS PRIORITY_MAINTENANCE (Pay_ladder plat queue))"

definition delta_job :: "ladder_payload new_job" where
  "delta_job = new_job_dedupe AGGREGATE_DELTA (new_job_new AGGREGATE_DELTA PRIORITY_MAINTENANCE Pay_empty)"

definition counting_job :: "string \<Rightarrow> string \<Rightarrow> bool \<Rightarrow> ladder_payload new_job" where
  "counting_job plat queue delta_ready = (if delta_ready then delta_job else aggregate_job plat queue)"

definition ranks_job :: "string \<Rightarrow> string \<Rightarrow> ladder_payload new_job" where
  "ranks_job plat queue = new_job_dedupe (plat @ '':'' @ queue) (new_job_new RANKS_LOOKUP ORDER_RANKS (Pay_ranks plat queue False))"

text \<open>What a finished crawl queues; \<open>stamped\<close> is \<^verbatim>\<open>delta::ready\<close> for its ladder.\<close>

definition after_crawl :: "ladder_ctx \<Rightarrow> bool \<Rightarrow> crawl \<Rightarrow> ladder_payload new_job list" where
  "after_crawl C stamped c =
     names_job #
     (if cr_status c = Completed
      then counting_job (cr_platform c) (cr_queue c) (lc_delta_on C \<and> stamped) #
        (if 0 < lc_rank_lookup_limit C then [ranks_job (cr_platform c) (cr_queue c)] else [])
      else [])"

text \<open>One transaction; \<open>nid\<close> gives the ids of the next stage's jobs, \<open>nid'\<close> those of the jobs after the crawl.\<close>

definition end_leg ::
  "ladder_ctx \<Rightarrow> bool \<Rightarrow> (nat \<Rightarrow> string) \<Rightarrow> (nat \<Rightarrow> string) \<Rightarrow> int \<Rightarrow> string \<Rightarrow> string \<Rightarrow> bool \<Rightarrow> ladder_db \<Rightarrow>
     (job_db_error + ended) \<times> ladder_db" where
  "end_leg C stamped nid nid' now_ms i leg failed db =
     (case store_end_leg i leg failed now_ms (advance C nid now_ms) db of
        Inl e \<Rightarrow> (Inl e, db)
      | Inr (Finished c, db1) \<Rightarrow>
          (case queue_jobs C (with_ids nid' (after_crawl C stamped c)) now_ms db1 of
             Inl e \<Rightarrow> (Inl e, db)
           | Inr db2 \<Rightarrow> (Inr (Finished c), db2))
      | Inr (out, db1) \<Rightarrow> (Inr out, db1))"

definition fail_orphaned ::
  "ladder_ctx \<Rightarrow> (nat \<Rightarrow> string) \<Rightarrow> int \<Rightarrow> ladder_db \<Rightarrow> (job_db_error + crawl list) \<times> ladder_db" where
  "fail_orphaned C nid now_ms db =
     (case store_fail_orphaned (lc_extract C) (lc_scope C) now_ms db of
        (failed, db1) \<Rightarrow>
          if failed = [] then (Inr failed, db1)
          else
            (case queue_jobs C (with_ids nid [names_job]) now_ms db1 of
               Inl e \<Rightarrow> (Inl e, db)
             | Inr db2 \<Rightarrow> (Inr failed, db2)))"

definition phase_event :: "(counters \<Rightarrow> json) \<Rightarrow> crawl \<Rightarrow> ws_event" where
  "phase_event stats c =
     CrawlPhase (cr_id c) (cr_platform c) (cr_queue c)
       (if cr_status c = Crawling then crawl_phase_str (cr_phase c) else crawl_status_str (cr_status c)) (stats (cr_counters c))"

text \<open>The events of a committed transition, in the order they are published; \<^verbatim>\<open>/\<close> rounds towards zero.\<close>

definition announce :: "(counters \<Rightarrow> json) \<Rightarrow> ended \<Rightarrow> ws_event list" where
  "announce stats e =
     (case e of
        Nothing \<Rightarrow> []
      | Phase c \<Rightarrow> [phase_event stats c]
      | Finished c \<Rightarrow>
          phase_event stats c #
          (if cr_status c = Completed
           then [LadderCrawlCompleted (cr_id c) (cr_platform c) (cr_queue c) (entries_seen (cr_counters c)) (players_discovered (cr_counters c))
               (((case cr_finished_at c of Some t \<Rightarrow> t | None \<Rightarrow> cr_started_at c) - cr_started_at c) sdiv 1000)]
           else []))"

section \<open>Handlers\<close>

text \<open>\<open>settle\<close>: a leg whose job will run again stays outstanding.\<close>

definition settle ::
  "ladder_ctx \<Rightarrow> bool \<Rightarrow> (nat \<Rightarrow> string) \<Rightarrow> (nat \<Rightarrow> string) \<Rightarrow> int \<Rightarrow> job \<Rightarrow> string \<Rightarrow> string \<Rightarrow> job_error + unit \<Rightarrow> ladder_db \<Rightarrow>
     (job_error + unit) \<times> ladder_db" where
  "settle C stamped nid nid' now_ms job i leg result db =
     (let over = (\<lambda>failed. case end_leg C stamped nid nid' now_ms i leg failed db of
            (Inl e, db1) \<Rightarrow> (Inl (store_err C e), db1)
          | (Inr _, db1) \<Rightarrow> (result, db1)) in
      case result of
        Inr _ \<Rightarrow> over False
      | Inl (Yield t p) \<Rightarrow> (result, db)
      | Inl (Retry e) \<Rightarrow> if job_attempts job < JOB_MAX_ATTEMPTS then (result, db) else over True
      | Inl (Fail e) \<Rightarrow> over True)"

definition crawl_running :: "ladder_ctx \<Rightarrow> string \<Rightarrow> ladder_db \<Rightarrow> crawl option" where
  "crawl_running C i db =
     (case get_crawl (lc_scope C) i db of Some c \<Rightarrow> if cr_status c = Crawling then Some c else None | None \<Rightarrow> None)"

definition crawl_handler ::
  "ladder_ctx \<Rightarrow> crawl_request \<Rightarrow> (nat \<Rightarrow> string) \<Rightarrow> int \<Rightarrow> (ladder_db \<Rightarrow> ladder_db) \<Rightarrow> string \<Rightarrow> (nat \<Rightarrow> string) \<Rightarrow> int \<Rightarrow> ladder_db \<Rightarrow>
     (job_error + unit) \<times> ladder_db" where
  "crawl_handler C req nid0 now0 others i nid now_ms db =
     (case fail_orphaned C nid0 now0 db of
        (Inl e, db1) \<Rightarrow> (Inl (store_err C e), db1)
      | (Inr _, db1) \<Rightarrow>
          (case start_crawl C (lc_scope C) (lc_tier_floor C) req i nid now_ms (others db1) of
             (Inr _, db2) \<Rightarrow> (Inr (), db2)
           | (Inl (Start_invalid e), db2) \<Rightarrow> (Inl (Fail (message e)), db2)
           | (Inl (Start_db e), db2) \<Rightarrow> (Inl (store_err C e), db2)))"

type_synonym request = "string \<times> string list \<times> (string \<times> string) list"

record riot_entry =
  re_puuid :: "string option"
  re_rank :: "string option"
  re_points :: "int option"
  re_wins :: "int option"
  re_losses :: "int option"
  re_veteran :: "bool option"
  re_inactive :: "bool option"
  re_fresh_blood :: "bool option"
  re_hot_streak :: "bool option"

definition unwrap_or :: "'a \<Rightarrow> 'a option \<Rightarrow> 'a" where
  "unwrap_or d x = (case x of Some v \<Rightarrow> v | None \<Rightarrow> d)"

definition to_entry :: "string \<Rightarrow> riot_entry \<Rightarrow> ladder_entry option" where
  "to_entry tier raw =
     (let division = uppercase (unwrap_or ''I'' (re_rank raw)) in
      map_option (\<lambda>p. \<lparr>le_puuid = p, le_tier = tier, le_division = (if division \<in> set DIVISIONS then division else ''I''),
          le_points = unwrap_or 0 (re_points raw), le_wins = unwrap_or 0 (re_wins raw), le_losses = unwrap_or 0 (re_losses raw),
          le_veteran = unwrap_or False (re_veteran raw), le_inactive = unwrap_or False (re_inactive raw),
          le_fresh_blood = unwrap_or False (re_fresh_blood raw), le_hot_streak = unwrap_or False (re_hot_streak raw)\<rparr>) (re_puuid raw))"

definition record_page ::
  "ladder_ctx \<Rightarrow> leg_job \<Rightarrow> ladder_entry list \<Rightarrow> (string \<times> int) option \<Rightarrow> string option \<Rightarrow> int \<Rightarrow> ladder_db \<Rightarrow> ladder_db" where
  "record_page C leg entries cur apex now_ms db =
     write_page \<lparr>pg_scope = lc_scope C, pg_crawl = lj_crawl leg, pg_platform = lj_platform leg, pg_queue = lj_queue leg,
       pg_entries = entries, pg_cursor = cur, pg_apex_tier = apex, pg_now = now_ms\<rparr> db"

text \<open>
  One read of Riot: what others do before the handler's look at the tables and while the request is out, the answer
  (a failure, a body that does not parse with the parser's words, or its value), and the clock afterwards.
\<close>

record 'a ladder_env =
  lv_before :: "ladder_db \<Rightarrow> ladder_db"
  lv_answer :: "request \<Rightarrow> fetch_error + string + 'a"
  lv_during :: "ladder_db \<Rightarrow> ladder_db"
  lv_clock :: clock

definition apex_leg ::
  "ladder_ctx \<Rightarrow> leg_job \<Rightarrow> riot_entry list ladder_env \<Rightarrow> ladder_db \<Rightarrow> (job_error + unit) \<times> ladder_db" where
  "apex_leg C leg env db0 =
     (let db = lv_before env db0 in
      if crawl_running C (lj_crawl leg) db = None then (Inr (), db)
      else
        (case platform_parse (lj_platform leg) of
           Inl e \<Rightarrow> (Inl (Fail (message e)), db)
         | Inr p \<Rightarrow>
             (case apex_endpoint (lj_tier leg) of
                None \<Rightarrow> (Inl (Fail (quoted (lj_tier leg) @ '' is not an apex tier'')), db)
              | Some m \<Rightarrow>
                  (let db1 = lv_during env db in
                   case lv_answer env (m, [lj_queue leg], []) of
                     Inl e \<Rightarrow> (Inl (job_error_from_fetch (lv_clock env) e), db1)
                   | Inr (Inl e) \<Rightarrow> (Inl (Retry (''league list: '' @ e)), db1)
                   | Inr (Inr raw) \<Rightarrow>
                       (Inr (), record_page C leg (List.map_filter (to_entry (lj_tier leg)) raw) None (Some (lj_tier leg))
                          (c_unix_ms (lv_clock env)) db1)))))"

fun walk_loop ::
  "ladder_ctx \<Rightarrow> leg_job \<Rightarrow> string \<Rightarrow> int \<Rightarrow> nat \<Rightarrow> riot_entry list ladder_env list \<Rightarrow> ladder_db \<Rightarrow> (job_error + unit) option \<times> ladder_db" where
  "walk_loop C leg division pageno walked [] db = (None, db)"
| "walk_loop C leg division pageno walked (env # envs) db0 =
     (let db = lv_before env db0 in
      if 0 < walked \<and> walked mod CANCEL_CHECK_PAGES = 0 then (Some (Inl (take_turns (lv_clock env))), db)
      else if walked = 0 \<and> crawl_running C (lj_crawl leg) db = None then (Some (Inr ()), db)
      else
        (let db1 = lv_during env db in
         case lv_answer env (''league.entriesByTier'', [lj_queue leg, lj_tier leg, division], [(''page'', show_int pageno)]) of
           Inl e \<Rightarrow> (Some (Inl (job_error_from_fetch (lv_clock env) e)), db1)
         | Inr (Inl e) \<Rightarrow> (Some (Inl (Retry (''league page: '' @ e))), db1)
         | Inr (Inr raw) \<Rightarrow>
             if raw = [] then (Some (Inr ()), db1)
             else walk_loop C leg division (pageno + 1) (walked + 1) envs
               (record_page C leg (List.map_filter (to_entry (lj_tier leg)) raw) (Some (leg_name leg, pageno + 1)) None
                  (c_unix_ms (lv_clock env)) db1)))"

definition walk_leg ::
  "ladder_ctx \<Rightarrow> leg_job \<Rightarrow> riot_entry list ladder_env list \<Rightarrow> ladder_db \<Rightarrow> (job_error + unit) option \<times> ladder_db" where
  "walk_leg C leg envs db =
     (case platform_parse (lj_platform leg) of
        Inl e \<Rightarrow> (Some (Inl (Fail (message e))), db)
      | Inr p \<Rightarrow>
          (case lj_division leg of
             None \<Rightarrow> (Some (Inl (Fail ''a walk needs a division'')), db)
           | Some division \<Rightarrow>
               (case leg_cursor (lj_crawl leg) (leg_name leg) db of
                  None \<Rightarrow> (Some (Inr ()), db)
                | Some cur \<Rightarrow> walk_loop C leg division (max (unwrap_or 1 cur) 1) 0 envs db)))"

section \<open>Collecting match ids\<close>

definition DAY_MS :: int where
  "DAY_MS = 86400000"

definition late_since :: "int \<Rightarrow> nat \<Rightarrow> int" where
  "late_since now_ms days = (if days = 0 then i64_max else sat_i64 (now_ms - sat_i64 (int days * DAY_MS)))"

definition cursor_is_live :: "int \<Rightarrow> int \<Rightarrow> nat \<Rightarrow> bool" where
  "cursor_is_live at_ms now_ms days = (days = 0 \<or> late_since now_ms days \<le> at_ms)"

text \<open>
  The pages of one player's ids from \<open>start\<close> on: the outcome (\<open>True\<close> at the end of the list, \<open>False\<close> for a player Riot does
  not know), how far it came, the new ids counted so far and the tables.
\<close>

fun collect_pages ::
  "string \<Rightarrow> string \<Rightarrow> nat \<Rightarrow> int option \<Rightarrow> nat \<Rightarrow> nat \<Rightarrow> int \<Rightarrow> string list ladder_env list \<Rightarrow> ladder_db \<Rightarrow>
     (job_error + bool) option \<times> nat \<times> int \<times> ladder_db" where
  "collect_pages i p qid since limit start new_ids [] db =
     (if start < limit then None else Some (Inr True), start, new_ids, db)"
| "collect_pages i p qid since limit start new_ids (env # envs) db =
     (if \<not> start < limit then (Some (Inr True), start, new_ids, db)
      else
        (let count = min ID_PAGE (limit - start); db1 = lv_during env (lv_before env db) in
         case lv_answer env (''match.idsByPuuid'', [p],
             [(''start'', show_nat start), (''count'', show_nat count), (''queue'', show_nat qid)] @
             (case since of Some t \<Rightarrow> [(''startTime'', show_int t)] | None \<Rightarrow> [])) of
           Inl e \<Rightarrow>
             if code (fe_api e) = error_code.NotFound then (Some (Inr False), start, new_ids, db1)
             else (Some (Inl (job_error_from_fetch (lv_clock env) e)), start, new_ids, db1)
         | Inr (Inl e) \<Rightarrow> (Some (Inl (Retry (''match ids: '' @ e))), start, new_ids, db1)
         | Inr (Inr ids) \<Rightarrow>
             (let n = sat_u32 (length ids);
                  (added, db2) = (if 0 < n then add_match_ids i ids db1 else (0, db1));
                  start1 = sat_u32 (start + n) in
              if n < count then (Some (Inr True), start1, new_ids + added, db2)
              else collect_pages i p qid since limit start1 (new_ids + added) envs db2)))"

definition since_of :: "ladder_ctx \<Rightarrow> int option \<Rightarrow> int option" where
  "since_of C cur = map_option (\<lambda>at_ms. max (at_ms sdiv 1000 - int (lc_collect_overlap_s C)) 0) cur"

definition collect_one ::
  "ladder_ctx \<Rightarrow> collect_job \<Rightarrow> nat \<Rightarrow> string \<Rightarrow> int option \<Rightarrow> int \<Rightarrow> int \<Rightarrow> int \<Rightarrow> string list ladder_env list \<Rightarrow> ladder_db \<Rightarrow>
     (job_error + unit) option \<times> int \<times> ladder_db" where
  "collect_one C batch qid p cur began_at done_at new_ids envs db =
     (let limit = (if cur \<noteq> None then u32_max else lc_backfill_limit C) in
      case collect_pages (cj_crawl batch) p qid (since_of C cur) limit 0 new_ids envs db of
        (None, _, n, db1) \<Rightarrow> (None, n, db1)
      | (Some (Inl e), _, n, db1) \<Rightarrow> (Some (Inl e), n, db1)
      | (Some (Inr False), _, n, db1) \<Rightarrow> (Some (Inr ()), n, db1)
      | (Some (Inr True), start, n, db1) \<Rightarrow>
          (let db2 = (if cur = None \<and> lc_lookup_backfill_limit C \<le> limit
                then mark_walk_complete (lc_scope C) p (int start) done_at db1 else db1) in
           (Some (Inr ()), n, stamp_cursor (lc_scope C) (cj_platform batch) (cj_queue batch) p began_at db2)))"

text \<open>A player's turn in a batch: others before it, the three clock readings, and the pages.\<close>

record player_env =
  pv_before :: "ladder_db \<Rightarrow> ladder_db"
  pv_now :: int
  pv_began_at :: int
  pv_done_at :: int
  pv_pages :: "string list ladder_env list"

fun collect_players ::
  "ladder_ctx \<Rightarrow> collect_job \<Rightarrow> nat \<Rightarrow> string list \<Rightarrow> int \<Rightarrow> player_env list \<Rightarrow> ladder_db \<Rightarrow> (job_error + unit) option \<times> int \<times> ladder_db" where
  "collect_players C batch qid [] new_ids envs db = (Some (Inr ()), new_ids, db)"
| "collect_players C batch qid (p # ps) new_ids [] db = (None, new_ids, db)"
| "collect_players C batch qid (p # ps) new_ids (env # envs) db0 =
     (let db = pv_before env db0 in
      if crawl_running C (cj_crawl batch) db = None then (Some (Inr ()), new_ids, db)
      else
        (let cur = (case collect_cursor (lc_scope C) (cj_platform batch) (cj_queue batch) p db of
               None \<Rightarrow> None
             | Some at_ms \<Rightarrow> if cursor_is_live at_ms (pv_now env) (lc_late_stamp_days C) then Some at_ms else None);
             db1 = (if cur = None then mark_walk_started (lc_scope C) p (pv_now env) db else db) in
         case collect_one C batch qid p cur (pv_began_at env) (pv_done_at env) new_ids (pv_pages env) db1 of
           (None, n, db2) \<Rightarrow> (None, n, db2)
         | (Some (Inr _), n, db2) \<Rightarrow> collect_players C batch qid ps n envs db2
         | (Some (Inl (Yield t _)), n, db2) \<Rightarrow> (Some (Inl (Yield t (Some (lc_json C (Pay_collect (batch\<lparr>cj_puuids := p # ps\<rparr>)))))), n, db2)
         | (Some (Inl e), n, db2) \<Rightarrow> (Some (Inl e), n, db2)))"

definition collect_batch ::
  "ladder_ctx \<Rightarrow> collect_job \<Rightarrow> player_env list \<Rightarrow> ladder_db \<Rightarrow> (job_error + unit) option \<times> ladder_db" where
  "collect_batch C batch envs db =
     (case platform_parse (cj_platform batch) of
        Inl e \<Rightarrow> (Some (Inl (Fail (message e))), db)
      | Inr p \<Rightarrow>
          (case queue_id (cj_queue batch) of
             None \<Rightarrow> (Some (Inl (Fail (quoted (cj_queue batch) @ '' is not a ranked queue''))), db)
           | Some qid \<Rightarrow>
               (case collect_players C batch qid (cj_puuids batch) 0 envs db of
                  (None, n, db1) \<Rightarrow> (None, db1)
                | (Some r, n, db1) \<Rightarrow> (Some r, if 0 < n then bump (cj_crawl batch) MatchIdsSeen n db1 else db1))))"

section \<open>Handing matches to the archive\<close>

definition match_job :: "ladder_ctx \<Rightarrow> string \<Rightarrow> ladder_payload new_job" where
  "match_job C m = new_job_dedupe m (new_job_new ARCHIVE_MATCH ORDER_MATCH (Pay_match m None (Some (lc_archive_timelines C))))"

definition room_for :: "nat \<Rightarrow> int \<Rightarrow> nat \<Rightarrow> nat" where
  "room_for limit held n = (if limit = 0 then n else nat (max (int limit - held) 0))"

text \<open>One batch in one transaction; \<open>archived\<close> is what the archive holds then.\<close>

definition hand_over ::
  "ladder_ctx \<Rightarrow> archive_leg \<Rightarrow> string list \<Rightarrow> string list \<Rightarrow> string list \<Rightarrow> (nat \<Rightarrow> string) \<Rightarrow> int \<Rightarrow> ladder_db \<Rightarrow>
     job_db_error + ladder_db" where
  "hand_over C leg archived batch unarchived nid now_ms db =
     (let limit = lc_crawl_match_limit C;
          room = room_for limit (platform_matches_held archived (al_platform leg) db) (length unarchived);
          tk = min (length unarchived) room;
          left_out = length unarchived - tk in
      case queue_jobs C (with_ids nid (map (match_job C) (take tk unarchived))) now_ms db of
        Inl e \<Rightarrow> Inl e
      | Inr db1 \<Rightarrow>
          (let db2 = bump (al_crawl leg) MatchesQueued (int tk) (drop_match_ids (al_crawl leg) batch db1) in
           Inr (if 0 < left_out then mark_match_limit (al_crawl leg) limit (bump (al_crawl leg) MatchesSkipped (int left_out) db2) else db2)))"

record archive_env =
  av_before :: "ladder_db \<Rightarrow> ladder_db"
  av_archived :: "string list"
  av_between :: "ladder_db \<Rightarrow> ladder_db"
  av_archived_now :: "string list"
  av_ids :: "nat \<Rightarrow> string"
  av_now :: int

fun archive_set :: "ladder_ctx \<Rightarrow> archive_leg \<Rightarrow> archive_env list \<Rightarrow> ladder_db \<Rightarrow> (job_error + unit) option \<times> ladder_db" where
  "archive_set C leg [] db = (None, db)"
| "archive_set C leg (env # envs) db0 =
     (let db = av_before env db0 in
      if crawl_running C (al_crawl leg) db = None then (Some (Inr ()), db)
      else
        (let batch = peek_match_ids (al_crawl leg) ARCHIVE_BATCH db in
         if batch = [] then (Some (Inr ()), db)
         else
           (let unarchived = filter (\<lambda>m. m \<notin> set (av_archived env)) batch; db1 = av_between env db in
            case hand_over C leg (av_archived_now env) batch unarchived (av_ids env) (av_now env) db1 of
              Inl e \<Rightarrow> (Some (Inl (store_err C e)), db1)
            | Inr db2 \<Rightarrow> archive_set C leg envs db2)))"

end
