(* ===== verification/Poll.thy ===== *)
theory Poll
  imports Players Crawl Btree
begin

text \<open>
  Tracked players: the poll handlers, \<^verbatim>\<open>src/jobs/poll.rs\<close>, and the ticks that queue them, \<^verbatim>\<open>src/jobs/ticks.rs\<close>. The tables they
  share with everything else are one record: the players, the jobs, and the ids of the archived matches and timelines.
  As in the ladder crawl, a handler's environment says what other tasks do to the tables wherever it awaits, what Riot
  answers (a failure, a body that does not parse, or its value) and what the clock reads. A handler gives its outcome,
  the events it publishes and the tables.
\<close>

section \<open>Tables and jobs\<close>

record track_db =
  tk_players :: "player list"
  tk_jobs :: "job_row list"
  tk_matches :: "string list"
  tk_timelines :: "string list"

record poll_player =
  pp_puuid :: string
  pp_platform :: string

record archive_match_payload =
  am_match :: string
  am_puuid :: "string option"
  am_timeline :: "bool option"

record backfill_payload =
  bp_puuid :: string
  bp_platform :: string
  bp_limit :: nat
  bp_timeline :: "bool option"
  bp_queue_id :: "int option"
  bp_reason :: "string option"

datatype track_payload = Pay_player poll_player | Pay_archive_match archive_match_payload | Pay_walk backfill_payload | Pay_none

fun track_field :: "track_payload \<Rightarrow> string \<Rightarrow> string option" where
  "track_field (Pay_player p) k = map_of [(''puuid'', pp_puuid p), (''platform'', pp_platform p)] k"
| "track_field (Pay_archive_match a) k = map_of ((''matchId'', am_match a) # opt_field ''puuid'' (am_puuid a)) k"
| "track_field (Pay_walk b) k = map_of ([(''puuid'', bp_puuid b), (''platform'', bp_platform b)] @ opt_field ''reason'' (bp_reason b)) k"
| "track_field Pay_none k = None"

record poll_ctx =
  po_scope :: string
  po_catchup_limit :: nat
  po_backfill_limit :: nat
  po_archive_timelines :: bool
  po_json :: "track_payload \<Rightarrow> string"
  po_rank_json :: "(string \<times> rank) list \<Rightarrow> string"
  po_rank_parse :: "string \<Rightarrow> (string \<times> rank) list option"
  po_db_error :: "job_db_error \<Rightarrow> string"

definition po_store_err :: "poll_ctx \<Rightarrow> job_db_error \<Rightarrow> job_error" where
  "po_store_err C e = Retry (''store: '' @ po_db_error C e)"

definition POLL_PAGE :: nat where
  "POLL_PAGE = 5"

definition CATCHUP_PAGE :: nat where
  "CATCHUP_PAGE = 100"

definition MATCH_NUDGE_MS :: int where
  "MATCH_NUDGE_MS = 60000"

record 'a poll_env =
  pe_before :: "track_db \<Rightarrow> track_db"
  pe_answer :: "request \<Rightarrow> fetch_error + string + 'a"
  pe_during :: "track_db \<Rightarrow> track_db"
  pe_clock :: clock
  pe_between :: "track_db \<Rightarrow> track_db"
  pe_id :: string

definition track_enqueue :: "poll_ctx \<Rightarrow> string \<Rightarrow> track_payload new_job \<Rightarrow> int \<Rightarrow> track_db \<Rightarrow> (job_error + enqueued) \<times> track_db" where
  "track_enqueue C nid nj now_ms db =
     (case enqueue_on (po_json C) track_field nid nj now_ms (tk_jobs db) of
        (Inl e, _) \<Rightarrow> (Inl (po_store_err C e), db)
      | (Inr out, rows) \<Rightarrow> (Inr out, db\<lparr>tk_jobs := rows\<rparr>))"

definition track_enqueue_all ::
  "poll_ctx \<Rightarrow> (string \<times> track_payload new_job) list \<Rightarrow> int \<Rightarrow> track_db \<Rightarrow> (job_error + nat) \<times> track_db" where
  "track_enqueue_all C njs now_ms db =
     (case enqueue_all (po_json C) track_field njs now_ms (tk_jobs db) of
        (Inl e, _) \<Rightarrow> (Inl (po_store_err C e), db)
      | (Inr n, rows) \<Rightarrow> (Inr n, db\<lparr>tk_jobs := rows\<rparr>))"

definition poll_set :: "poll_ctx \<Rightarrow> string \<Rightarrow> poll_state \<Rightarrow> track_db \<Rightarrow> track_db" where
  "poll_set C p st db = db\<lparr>tk_players := snd (set_poll_state (po_scope C) p st (tk_players db))\<rparr>"

section \<open>Live games\<close>

record active_game =
  ag_game_id :: "int option"
  ag_queue_id :: "int option"
  ag_participants :: "(string option \<times> int option) list"

definition nudge_job :: "string \<Rightarrow> string \<Rightarrow> int \<Rightarrow> track_payload new_job" where
  "nudge_job p plat now_ms =
     (new_job_dedupe p (new_job_new POLL_MATCHES PRIORITY_POLL (Pay_player \<lparr>pp_puuid = p, pp_platform = plat\<rparr>)))
       \<lparr>nj_run_after := Some (sat_i64 (now_ms + MATCH_NUDGE_MS))\<rparr>"

text \<open>What the answer of \<^verbatim>\<open>spectator.activeGame\<close> says: 404 is a player who is not in a game.\<close>

definition live_answer :: "active_game poll_env \<Rightarrow> string \<Rightarrow> job_error + active_game option" where
  "live_answer env p =
     (case pe_answer env (''spectator.activeGame'', [p], []) of
        Inr (Inr g) \<Rightarrow> Inr (Some g)
      | Inr (Inl e) \<Rightarrow> Inl (Retry (''active game: '' @ e))
      | Inl e \<Rightarrow> if code (fe_api e) = error_code.NotFound then Inr None else Inl (job_error_from_fetch (pe_clock env) e))"

definition poll_live ::
  "poll_ctx \<Rightarrow> poll_player \<Rightarrow> active_game poll_env \<Rightarrow> track_db \<Rightarrow> (job_error + unit) \<times> ws_event list \<times> track_db" where
  "poll_live C pp env db0 =
     (case platform_parse (pp_platform pp) of
        Inl e \<Rightarrow> (Inl (Fail (message e)), [], db0)
      | Inr plat \<Rightarrow>
          (let p = pp_puuid pp; db = pe_before env db0 in
           case players_get (po_scope C, p) (tk_players db) of
             None \<Rightarrow> (Inr (), [], db)
           | Some player \<Rightarrow>
               (let db1 = pe_during env db in
                case live_answer env p of
                  Inl e \<Rightarrow> (Inl e, [], db1)
                | Inr game \<Rightarrow>
                    (case (Option.bind game ag_game_id, py_in_game player) of
                       (Some now_id, before) \<Rightarrow>
                         if Some now_id = before then (Inr (), [], db1)
                         else
                           (Inr (),
                            [GameStarted p (platform_as_str plat) now_id (Option.bind game ag_queue_id)
                               (Option.bind game (\<lambda>g. Option.bind (find (\<lambda>(q, c). q = Some p) (ag_participants g)) snd))],
                            poll_set C p (InGame (Some now_id)) db1)
                     | (None, Some ended) \<Rightarrow>
                         (let db2 = pe_between env (poll_set C p (InGame None) db1) in
                          case track_enqueue C (pe_id env) (nudge_job p (platform_as_str plat) (c_unix_ms (pe_clock env)))
                              (c_unix_ms (pe_clock env)) db2 of
                            (Inl e, db3) \<Rightarrow> (Inl e, [GameEnded p (Some (platform_as_str plat)) ended None None], db3)
                          | (Inr _, db3) \<Rightarrow> (Inr (), [GameEnded p (Some (platform_as_str plat)) ended None None], db3))
                     | (None, None) \<Rightarrow> (Inr (), [], db1)))))"

section \<open>Ranks\<close>

record league_entry =
  en_queue :: "string option"
  en_tier :: "string option"
  en_rank :: "string option"
  en_lp :: "int option"

definition snapshot_of :: "league_entry list \<Rightarrow> (string \<times> rank) list" where
  "snapshot_of es =
     btree_of (List.map_filter (\<lambda>e. map_option (\<lambda>q. (q, \<lparr>rk_tier = en_tier e, rk_rank = en_rank e, rk_lp = en_lp e\<rparr>)) (en_queue e)) es)"

definition poll_rank ::
  "poll_ctx \<Rightarrow> poll_player \<Rightarrow> league_entry list poll_env \<Rightarrow> track_db \<Rightarrow> (job_error + unit) \<times> ws_event list \<times> track_db" where
  "poll_rank C pp env db0 =
     (case platform_parse (pp_platform pp) of
        Inl e \<Rightarrow> (Inl (Fail (message e)), [], db0)
      | Inr plat \<Rightarrow>
          (let p = pp_puuid pp; db = pe_before env db0 in
           case players_get (po_scope C, p) (tk_players db) of
             None \<Rightarrow> (Inr (), [], db)
           | Some player \<Rightarrow>
               (let db1 = pe_during env db in
                case pe_answer env (''league.entriesByPuuid'', [p], []) of
                  Inl e \<Rightarrow> (Inl (job_error_from_fetch (pe_clock env) e), [], db1)
                | Inr (Inl e) \<Rightarrow> (Inl (Retry (''league entries: '' @ e)), [], db1)
                | Inr (Inr es) \<Rightarrow>
                    (let snapshot = snapshot_of es; db2 = poll_set C p (LastRank (po_rank_json C snapshot)) db1 in
                     case Option.bind (py_last_rank player) (po_rank_parse C) of
                       None \<Rightarrow> (Inr (), [], db2)
                     | Some previous \<Rightarrow>
                         (Inr (),
                          map (\<lambda>(q, after). RankChanged p q (map_of previous q) (Some after))
                            (filter (\<lambda>(q, after). map_of previous q \<noteq> Some after) snapshot), db2)))))"

section \<open>Matches\<close>

definition archive_priority :: "int \<Rightarrow> int" where
  "archive_priority depth =
     (if depth < int POLL_PAGE then PRIORITY_INTERACTIVE else PRIORITY_ARCHIVE_DEPTH + depth div 10)"

text \<open>One turn of the loop: the page at \<open>start\<close>, cut at the cursor.\<close>

fun match_pages ::
  "string \<Rightarrow> string option \<Rightarrow> nat \<Rightarrow> nat \<Rightarrow> string list \<Rightarrow> string list poll_env list \<Rightarrow> track_db \<Rightarrow>
     (job_error + bool) option \<times> string list \<times> track_db" where
  "match_pages p cur cap start collected [] db = (None, collected, db)"
| "match_pages p cur cap start collected (env # envs) db0 =
     (let db = pe_during env (pe_before env db0); count = (if start = 0 then POLL_PAGE else CATCHUP_PAGE) in
      case pe_answer env (''match.idsByPuuid'', [p], [(''start'', show_nat start), (''count'', show_nat count)]) of
        Inl e \<Rightarrow> (Some (Inl (job_error_from_fetch (pe_clock env) e)), collected, db)
      | Inr (Inl e) \<Rightarrow> (Some (Inl (Retry (''match ids: '' @ e))), collected, db)
      | Inr (Inr ids) \<Rightarrow>
          if ids = [] then (Some (Inr True), collected, db)
          else if (case cur of Some c \<Rightarrow> c \<in> set ids | None \<Rightarrow> False) then
            (Some (Inr True), collected @ takeWhile (\<lambda>m. Some m \<noteq> cur) ids, db)
          else if cur = None \<or> cap = 0 \<or> length ids < count then (Some (Inr True), collected @ ids, db)
          else if cap \<le> start + length ids then (Some (Inr False), collected @ ids, db)
          else match_pages p cur cap (start + length ids) (collected @ ids) envs db)"

text \<open>The index of an id in what was collected; a \<^verbatim>\<open>HashMap\<close> collected from an iterator keeps the last.\<close>

definition depth_of :: "string list \<Rightarrow> string \<Rightarrow> int" where
  "depth_of ids m = (case map_of (rev (zip ids (map int [0..<length ids]))) m of Some d \<Rightarrow> d | None \<Rightarrow> 0)"

definition poll_match_job :: "poll_ctx \<Rightarrow> string \<Rightarrow> string list \<Rightarrow> string \<Rightarrow> track_payload new_job" where
  "poll_match_job C p ids m =
     new_job_dedupe m (new_job_new ARCHIVE_MATCH (archive_priority (depth_of ids m))
       (Pay_archive_match \<lparr>am_match = m, am_puuid = Some p, am_timeline = Some (po_archive_timelines C)\<rparr>))"

definition catchup_job :: "poll_ctx \<Rightarrow> string \<Rightarrow> string \<Rightarrow> track_payload new_job" where
  "catchup_job C p plat =
     new_job_dedupe p (new_job_new BACKFILL_PLAYER PRIORITY_BACKFILL
       (Pay_walk \<lparr>bp_puuid = p, bp_platform = plat, bp_limit = po_backfill_limit C, bp_timeline = None, bp_queue_id = None,
          bp_reason = Some ''catchup''\<rparr>))"

text \<open>The end of a poll: other tasks before each of its reads and writes, the clock, and the ids of the new jobs.\<close>

record finish_env =
  fv_catchup :: "track_db \<Rightarrow> track_db"
  fv_filter :: "track_db \<Rightarrow> track_db"
  fv_queue :: "track_db \<Rightarrow> track_db"
  fv_set :: "track_db \<Rightarrow> track_db"
  fv_now :: int
  fv_id :: string
  fv_ids :: "nat \<Rightarrow> string"

definition queue_collected :: "poll_ctx \<Rightarrow> string \<Rightarrow> string list \<Rightarrow> finish_env \<Rightarrow> track_db \<Rightarrow> (job_error + unit) \<times> track_db" where
  "queue_collected C p collected fin db =
     (case collected of
        [] \<Rightarrow> (Inr (), db)
      | newest # _ \<Rightarrow>
          (let db1 = fv_filter fin db; unarchived = filter (\<lambda>m. m \<notin> set (tk_matches db1)) collected in
           case track_enqueue_all C (with_ids (fv_ids fin) (map (poll_match_job C p collected) unarchived)) (fv_now fin) (fv_queue fin db1) of
             (Inl e, db2) \<Rightarrow> (Inl e, db2)
           | (Inr _, db2) \<Rightarrow> (Inr (), poll_set C p (LastSeenMatch newest) (fv_set fin db2))))"

definition poll_matches ::
  "poll_ctx \<Rightarrow> poll_player \<Rightarrow> (track_db \<Rightarrow> track_db) \<Rightarrow> string list poll_env list \<Rightarrow> finish_env \<Rightarrow> track_db \<Rightarrow> (job_error + unit) option \<times> track_db" where
  "poll_matches C pp before envs fin db0 =
     (case platform_parse (pp_platform pp) of
        Inl e \<Rightarrow> (Some (Inl (Fail (message e))), db0)
      | Inr plat \<Rightarrow>
          (let p = pp_puuid pp; db = before db0 in
           case players_get (po_scope C, p) (tk_players db) of
             None \<Rightarrow> (Some (Inr ()), db)
           | Some player \<Rightarrow>
               (case match_pages p (py_last_seen player) (po_catchup_limit C) 0 [] envs db of
                  (None, _, db1) \<Rightarrow> (None, db1)
                | (Some (Inl e), _, db1) \<Rightarrow> (Some (Inl e), db1)
                | (Some (Inr True), collected, db1) \<Rightarrow>
                    (case queue_collected C p collected fin db1 of (r, db2) \<Rightarrow> (Some r, db2))
                | (Some (Inr False), collected, db1) \<Rightarrow>
                    (case track_enqueue C (fv_id fin) (catchup_job C p (platform_as_str plat)) (fv_now fin) (fv_catchup fin db1) of
                       (Inl e, db2) \<Rightarrow> (Some (Inl e), db2)
                     | (Inr _, db2) \<Rightarrow> (case queue_collected C p collected fin db2 of (r, db3) \<Rightarrow> (Some r, db3))))))"

section \<open>Ticks\<close>

definition poll_job :: "string \<Rightarrow> player \<Rightarrow> track_payload new_job" where
  "poll_job kind p =
     new_job_dedupe (py_puuid p) (new_job_new kind PRIORITY_POLL (Pay_player \<lparr>pp_puuid = py_puuid p, pp_platform = py_platform p\<rparr>))"

text \<open>One read of the tracked players, then one write; others act in between.\<close>

definition tick_fan_out ::
  "poll_ctx \<Rightarrow> string \<Rightarrow> (track_db \<Rightarrow> track_db) \<Rightarrow> (nat \<Rightarrow> string) \<Rightarrow> int \<Rightarrow> track_db \<Rightarrow> (job_db_error + nat) \<times> track_db" where
  "tick_fan_out C kind between nid now_ms db =
     (let tracked = list_tracked (po_scope C) (tk_players db) in
      if tracked = [] then (Inr 0, db)
      else
        (let db1 = between db in
         case enqueue_each (po_json C) track_field (with_ids nid (map (poll_job kind) tracked)) now_ms (tk_jobs db1) of
           Inl e \<Rightarrow> (Inl e, db1)
         | Inr (n, rows) \<Rightarrow> (Inr n, db1\<lparr>tk_jobs := rows\<rparr>)))"

definition tick_singleton :: "poll_ctx \<Rightarrow> string \<Rightarrow> int \<Rightarrow> string \<Rightarrow> int \<Rightarrow> track_db \<Rightarrow> (job_error + bool) \<times> track_db" where
  "tick_singleton C kind prio nid now_ms db =
     (case track_enqueue C nid (new_job_dedupe kind (new_job_new kind prio Pay_none)) now_ms db of
        (Inl e, db1) \<Rightarrow> (Inl e, db1)
      | (Inr out, db1) \<Rightarrow> (Inr (en_created out), db1))"

end
