(* ===== verification/Poll_Props.thy ===== *)
theory Poll_Props
  imports Poll Jobs_Invariant
begin

text \<open>
  What the pollers promise: a poll of the matches leaves no gap behind its cursor, live and rank polls report exactly
  the transitions they see, and a tick leaves a poll for every tracked player. Other tasks run wherever a handler awaits;
  what is relied on of them is stated.
\<close>

section \<open>Other tasks\<close>

text \<open>Whether a match is archived or has a job row that asks for it, and what the handlers rely on of other tasks: they take no match, no timeline, no job row and no player away.\<close>

definition asked :: "string \<Rightarrow> track_db \<Rightarrow> bool" where
  "asked m db = (m \<in> set (tk_matches db) \<or> (ARCHIVE_MATCH, Some m) \<in> (\<lambda>r. (j_kind r, j_dedupe r)) ` set (tk_jobs db))"

definition has_job :: "string \<Rightarrow> string \<Rightarrow> track_db \<Rightarrow> bool" where
  "has_job kind key db = ((kind, Some key) \<in> (\<lambda>r. (j_kind r, j_dedupe r)) ` set (tk_jobs db))"

definition tasks_keep :: "(track_db \<Rightarrow> track_db) \<Rightarrow> bool" where
  "tasks_keep f =
     (\<forall>db. set (tk_matches db) \<subseteq> set (tk_matches (f db)) \<and> set (tk_timelines db) \<subseteq> set (tk_timelines (f db)) \<and>
        (\<lambda>r. (j_kind r, j_dedupe r)) ` set (tk_jobs db) \<subseteq> (\<lambda>r. (j_kind r, j_dedupe r)) ` set (tk_jobs (f db)) \<and>
        (\<forall>k. players_get k (tk_players db) \<noteq> None \<longrightarrow> players_get k (tk_players (f db)) \<noteq> None))"

text \<open>What one change keeps of all that.\<close>

definition grows :: "track_db \<Rightarrow> track_db \<Rightarrow> bool" where
  "grows db db' =
     (set (tk_matches db) \<subseteq> set (tk_matches db') \<and> set (tk_timelines db) \<subseteq> set (tk_timelines db') \<and>
      (\<lambda>r. (j_kind r, j_dedupe r)) ` set (tk_jobs db) \<subseteq> (\<lambda>r. (j_kind r, j_dedupe r)) ` set (tk_jobs db') \<and>
      (\<forall>k. players_get k (tk_players db) \<noteq> None \<longrightarrow> players_get k (tk_players db') \<noteq> None))"

lemma grows_refl [simp]: "grows db db"
  by (simp add: grows_def)

lemma grows_trans [trans]: "grows a b \<Longrightarrow> grows b c \<Longrightarrow> grows a c"
  unfolding grows_def by (meson subset_trans)

lemma others_grows: "tasks_keep f \<Longrightarrow> grows db (f db)"
  by (simp add: tasks_keep_def grows_def)

lemma grows_asked: "grows db db' \<Longrightarrow> asked m db \<Longrightarrow> asked m db'"
  unfolding grows_def asked_def by blast

lemma grows_has_job: "grows db db' \<Longrightarrow> has_job kind key db \<Longrightarrow> has_job kind key db'"
  unfolding grows_def has_job_def by blast

lemma grows_set: "grows db (poll_set C p st db)"
  by (simp add: grows_def poll_set_def set_poll_state_def players.get_write)

lemma enqueue_on_rows: "enqueue_on json_text field nid nj now_ms rows = (r, rows') \<Longrightarrow> \<exists>new. rows' = rows @ new"
  by (auto simp: enqueue_on_def split: if_splits option.splits)

lemma enqueue_on_key:
  assumes "enqueue_on json_text field nid nj now_ms rows = (Inr out, rows')" "nj_dedupe nj = Some key"
  shows "list_ex (holds_key (nj_kind nj) (Some key)) rows'"
  using assms by (auto simp: enqueue_on_def holds_key_def new_row_def live_def Let_def list_ex_iff find_Some_iff split: if_splits option.splits)

lemma track_enqueue_grows:
  assumes "track_enqueue C nid nj now_ms db = (r, db')"
  shows "grows db db'" "\<And>out key. r = Inr out \<Longrightarrow> nj_dedupe nj = Some key \<Longrightarrow> list_ex (holds_key (nj_kind nj) (Some key)) (tk_jobs db')"
    and "tk_players db' = tk_players db" "tk_matches db' = tk_matches db"
proof -
  obtain o1 rows where e: "enqueue_on (po_json C) track_field nid nj now_ms (tk_jobs db) = (o1, rows)"
    by (cases "enqueue_on (po_json C) track_field nid nj now_ms (tk_jobs db)")
  obtain new where new: "rows = tk_jobs db @ new"
    using enqueue_on_rows [OF e] by blast
  show "grows db db'" "tk_players db' = tk_players db" "tk_matches db' = tk_matches db"
    using assms e by (auto simp: track_enqueue_def grows_def new split: sum.splits)
  show "list_ex (holds_key (nj_kind nj) (Some key)) (tk_jobs db')" if "r = Inr out" "nj_dedupe nj = Some key" for out key
    using assms e that enqueue_on_key [OF _ that(2)] by (auto simp: track_enqueue_def split: sum.splits)
qed

lemma holds_key_has_job: "list_ex (holds_key kind (Some key)) (tk_jobs db) \<Longrightarrow> has_job kind key db"
  by (force simp: list_ex_iff holds_key_def has_job_def)

lemma track_enqueue_all_grows:
  assumes "track_enqueue_all C njs now_ms db = (r, db')"
  shows "grows db db'" "tk_players db' = tk_players db" "tk_matches db' = tk_matches db"
    and "\<And>n nid nj key. r = Inr n \<Longrightarrow> (nid, nj) \<in> set njs \<Longrightarrow> nj_dedupe nj = Some key \<Longrightarrow> list_ex (holds_key (nj_kind nj) (Some key)) (tk_jobs db')"
proof -
  consider e where "r = Inl e" "db' = db" | "njs = []" "db' = db"
    | n rows new where "r = Inr n" "db' = db\<lparr>tk_jobs := rows\<rparr>" "rows = tk_jobs db @ new"
      "\<forall>(nid, nj) \<in> set njs. nj_dedupe nj \<noteq> None \<longrightarrow> list_ex (holds_key (nj_kind nj) (nj_dedupe nj)) rows"
    using assms enqueue_each_adds [of "po_json C" track_field njs now_ms "tk_jobs db"]
    by (fastforce simp: track_enqueue_all_def enqueue_all_def split: sum.splits prod.splits if_splits)
  note cases = this
  show "grows db db'" "tk_players db' = tk_players db" "tk_matches db' = tk_matches db"
    by (cases rule: cases; auto simp: grows_def)+
  show "list_ex (holds_key (nj_kind nj) (Some key)) (tk_jobs db')" if "r = Inr n" "(nid, nj) \<in> set njs" "nj_dedupe nj = Some key" for n nid nj key
    using that by (cases rule: cases) fastforce+
qed

section \<open>A poll of the matches\<close>

text \<open>Riot's list of a player's matches, newest first, read a page at a time; \<open>pages_of\<close> says that every page comes from the list.\<close>

definition pages_of :: "string \<Rightarrow> string list \<Rightarrow> string list poll_env \<Rightarrow> bool" where
  "pages_of p L env =
     (\<forall>start count. pe_answer env (''match.idsByPuuid'', [p], [(''start'', show_nat start), (''count'', show_nat count)]) =
        Inr (Inr (take count (drop start L))))"

lemma takeWhile_take_drop:
  assumes "c \<notin> set (take k L)" "c \<in> set (take n (drop k L))"
  shows "take k L @ takeWhile (\<lambda>m. m \<noteq> c) (take n (drop k L)) = takeWhile (\<lambda>m. m \<noteq> c) L"
proof -
  have L: "L = take k L @ take n (drop k L) @ drop n (drop k L)"
    by (metis append_take_drop_id)
  have "takeWhile (\<lambda>m. m \<noteq> c) (take n (drop k L) @ drop n (drop k L)) = takeWhile (\<lambda>m. m \<noteq> c) (take n (drop k L))"
    using assms(2) by (intro takeWhile_append1 [of c]) auto
  moreover have "takeWhile (\<lambda>m. m \<noteq> c) (take k L @ X) = take k L @ takeWhile (\<lambda>m. m \<noteq> c) X" for X
    using assms(1) by (intro takeWhile_append2) auto
  ultimately show ?thesis
    by (metis L)
qed

lemma takeWhile_all: "c \<notin> set L \<Longrightarrow> takeWhile (\<lambda>m. m \<noteq> c) L = L"
  by (auto simp: takeWhile_eq_all_conv)

declare match_pages.simps(2) [simp del]

lemma match_pages_ends:
  assumes "\<forall>env \<in> set envs. pages_of p L env \<and> tasks_keep (pe_before env) \<and> tasks_keep (pe_during env)"
    and "c \<notin> set (take start L)" "0 < cap" "cap \<le> start + 5 * length envs" "envs \<noteq> []"
  shows "\<exists>caught col db'. match_pages p (Some c) cap start (take start L) envs db = (Some (Inr caught), col, db') \<and> grows db db' \<and>
    (if caught then col = takeWhile (\<lambda>m. m \<noteq> c) L else cap \<le> length col \<and> (\<exists>rest. takeWhile (\<lambda>m. m \<noteq> c) L = col @ rest))"
  using assms
proof (induction envs arbitrary: start db)
  case (Cons env envs)
  define count where "count = (if start = 0 then POLL_PAGE else CATCHUP_PAGE)"
  define ids where "ids = take count (drop start L)"
  define db1 where "db1 = pe_during env (pe_before env db)"
  have count: "5 \<le> count"
    by (simp add: count_def POLL_PAGE_def CATCHUP_PAGE_def)
  have ans: "pe_answer env (''match.idsByPuuid'', [p], [(''start'', show_nat start), (''count'', show_nat count)]) = Inr (Inr ids)"
    using Cons.prems(1) by (simp add: pages_of_def ids_def)
  have g: "grows db db1"
    unfolding db1_def by (rule grows_trans [OF others_grows others_grows]) (use Cons.prems(1) in simp_all)
  have len: "length ids \<le> count"
    by (simp add: ids_def)
  have col: "take start L @ ids = take (start + count) L"
    by (simp add: ids_def take_add)
  have step: "match_pages p (Some c) cap start (take start L) (env # envs) db =
     (if ids = [] then (Some (Inr True), take start L, db1)
      else if c \<in> set ids then (Some (Inr True), take start L @ takeWhile (\<lambda>m. m \<noteq> c) ids, db1)
      else if length ids < count then (Some (Inr True), take start L @ ids, db1)
      else if cap \<le> start + length ids then (Some (Inr False), take start L @ ids, db1)
      else match_pages p (Some c) cap (start + length ids) (take start L @ ids) envs db1)"
    unfolding match_pages.simps(2) Let_def using ans Cons.prems(3) by (simp add: db1_def count_def)
  consider "ids = []" | "ids \<noteq> []" "c \<in> set ids" | "ids \<noteq> []" "c \<notin> set ids" "length ids < count"
    | "c \<notin> set ids" "length ids = count" "cap \<le> start + count" | "c \<notin> set ids" "length ids = count" "start + count < cap"
    using len by (cases "length ids = count"; cases "start + count < cap"; cases "c \<in> set ids") force+
  then show ?case
  proof cases
    case 1
    then have "take start L = L"
      using count by (simp add: ids_def)
    then show ?thesis
      using 1 step g Cons.prems(2) by (auto simp: takeWhile_all)
  next
    case 2
    then show ?thesis
      using step g takeWhile_take_drop [OF Cons.prems(2), of count] by (auto simp: ids_def)
  next
    case 3
    then have all: "take (start + count) L = L"
      by (simp add: ids_def)
    then have "c \<notin> set L"
      using 3(2) Cons.prems(2) col by (metis Un_iff set_append)
    then show ?thesis
      using 3 step g all by (auto simp: col takeWhile_all)
  next
    case 4
    have "c \<notin> set (take (start + count) L)"
      using 4(1) Cons.prems(2) by (metis Un_iff col set_append)
    then have "takeWhile (\<lambda>m. m \<noteq> c) (take (start + count) L @ drop (start + count) L) =
        take (start + count) L @ takeWhile (\<lambda>m. m \<noteq> c) (drop (start + count) L)"
      by (intro takeWhile_append2) auto
    then have "takeWhile (\<lambda>m. m \<noteq> c) L = take (start + count) L @ takeWhile (\<lambda>m. m \<noteq> c) (drop (start + count) L)"
      by simp
    moreover have "length (take (start + count) L) = start + count"
      using 4(2) count by (simp add: ids_def)
    moreover have "match_pages p (Some c) cap start (take start L) (env # envs) db = (Some (Inr False), take (start + count) L, db1)"
      unfolding step using 4 count by (auto simp: col)
    ultimately show ?thesis
      using g 4(3) by (intro exI [of _ False] exI [of _ "take (start + count) L"] exI [of _ db1]) simp
  next
    case 5
    have "c \<notin> set (take (start + count) L)"
      using 5(1) Cons.prems(2) by (metis Un_iff col set_append)
    moreover have "envs \<noteq> []" "cap \<le> start + count + 5 * length envs"
      using 5(3) Cons.prems(4) count by (cases envs; simp)+
    ultimately obtain caught cl db' where
      r: "match_pages p (Some c) cap (start + count) (take (start + count) L) envs db1 = (Some (Inr caught), cl, db')" "grows db1 db'"
        "if caught then cl = takeWhile (\<lambda>m. m \<noteq> c) L else cap \<le> length cl \<and> (\<exists>rest. takeWhile (\<lambda>m. m \<noteq> c) L = cl @ rest)"
      using Cons.IH [of "start + count" db1] Cons.prems(1,3) by (metis list.set_intros(2))
    have "match_pages p (Some c) cap start (take start L) (env # envs) db = (Some (Inr caught), cl, db')"
      unfolding step using 5 r(1) count by (auto simp: col)
    then show ?thesis
      using r(2,3) grows_trans [OF g] by blast
  qed
qed simp

lemma with_ids_snd: "snd ` set (with_ids nid xs) = set xs"
proof -
  have "map snd (with_ids nid xs) = xs"
    by (simp add: with_ids_def)
  then show ?thesis
    by (metis set_map)
qed

lemma queue_collected_asks:
  assumes "queue_collected C p collected fin db = (Inr (), db')"
    and "tasks_keep (fv_filter fin)" "tasks_keep (fv_queue fin)" "tasks_keep (fv_set fin)"
  shows "grows db db'" "m \<in> set collected \<Longrightarrow> asked m db'"
    and "collected \<noteq> [] \<Longrightarrow> players_get (po_scope C, p) (tk_players db) \<noteq> None \<Longrightarrow>
      map_option py_last_seen (players_get (po_scope C, p) (tk_players db')) = Some (Some (hd collected))"
proof -
  have "grows db db' \<and> (\<forall>m \<in> set collected. asked m db') \<and>
    (collected \<noteq> [] \<longrightarrow> players_get (po_scope C, p) (tk_players db) \<noteq> None \<longrightarrow>
      map_option py_last_seen (players_get (po_scope C, p) (tk_players db')) = Some (Some (hd collected)))"
  proof (cases collected)
    case Nil
    then show ?thesis
      using assms(1) by (simp add: queue_collected_def)
  next
    case (Cons newest rest)
    define db1 where "db1 = fv_filter fin db"
    define njs where "njs = with_ids (fv_ids fin) (map (poll_match_job C p collected) (filter (\<lambda>m. m \<notin> set (tk_matches db1)) collected))"
    obtain n db2 where q: "track_enqueue_all C njs (fv_now fin) (fv_queue fin db1) = (Inr n, db2)"
      and db': "db' = poll_set C p (LastSeenMatch newest) (fv_set fin db2)"
      using assms(1) by (auto simp: queue_collected_def Cons Let_def db1_def njs_def split: prod.splits sum.splits)
    have g: "grows db db1" "grows db1 db2" "grows db2 db'"
      unfolding db1_def db'
      by (rule others_grows [OF assms(2)])
        (rule grows_trans [OF others_grows [OF assms(3)] track_enqueue_all_grows(1) [OF q, unfolded db1_def]],
         rule grows_trans [OF others_grows [OF assms(4)] grows_set])
    have "asked m db'" if m: "m \<in> set collected" for m
    proof (cases "m \<in> set (tk_matches db1)")
      case True
      then show ?thesis
        using g(2,3) grows_asked asked_def by blast
    next
      case False
      then have "poll_match_job C p collected m \<in> snd ` set njs"
        using m by (auto simp: njs_def with_ids_snd)
      then obtain nid where "(nid, poll_match_job C p collected m) \<in> set njs"
        by auto
      then have "list_ex (holds_key ARCHIVE_MATCH (Some m)) (tk_jobs db2)"
        using track_enqueue_all_grows(4) [OF q refl] by (fastforce simp: poll_match_job_def new_job_dedupe_def new_job_new_def)
      then show ?thesis
        using holds_key_has_job g(3) grows_asked by (auto simp: asked_def has_job_def)
    qed
    moreover have "players_get (po_scope C, p) (tk_players (fv_set fin db2)) \<noteq> None"
      if "players_get (po_scope C, p) (tk_players db) \<noteq> None"
      using that g(1,2) others_grows [OF assms(4)] unfolding grows_def by metis
    moreover have "map_option py_last_seen (players_get (po_scope C, p) (tk_players db')) = Some (Some newest)"
      if "players_get (po_scope C, p) (tk_players (fv_set fin db2)) \<noteq> None"
      using that by (auto simp: db' poll_set_def set_poll_state_def players.get_write)
    moreover have "grows db db'"
      using g grows_trans by blast
    ultimately show ?thesis
      using Cons by auto
  qed
  then show "grows db db'" "m \<in> set collected \<Longrightarrow> asked m db'"
    "collected \<noteq> [] \<Longrightarrow> players_get (po_scope C, p) (tk_players db) \<noteq> None \<Longrightarrow>
      map_option py_last_seen (players_get (po_scope C, p) (tk_players db')) = Some (Some (hd collected))"
    by simp_all
qed

lemma enqueue_on_NoRows: "enqueue_on json_text field nid nj now_ms rows = (Inl e, rows') \<Longrightarrow> e = NoRows"
  by (auto simp: enqueue_on_def split: if_splits option.splits)

lemma enqueue_each_NoRows: "enqueue_each json_text field njs now_ms rows = Inl e \<Longrightarrow> e = NoRows"
proof (induction njs arbitrary: rows)
  case (Cons x njs)
  then show ?case
    by (cases x) (auto split: sum.splits prod.splits dest: enqueue_on_NoRows)
qed simp


text \<open>A world with one tracked player and an answering Riot, for the witnesses.\<close>

definition sample_poll_ctx :: poll_ctx where
  "sample_poll_ctx =
     \<lparr>po_scope = ''s'', po_catchup_limit = 5, po_backfill_limit = 20, po_archive_timelines = True,
      po_json = (\<lambda>_. ''{}''), po_rank_json = (\<lambda>_. ''{}''), po_rank_parse = (\<lambda>_. None), po_db_error = (\<lambda>_. ''db'')\<rparr>"

definition sample_player :: player where
  "sample_player =
     \<lparr>py_scope = ''s'', py_puuid = ''p'', py_platform = ''oc1'', py_game_name = None, py_tag_line = None, py_tracked = True,
      py_last_seen = Some ''OC1_1'', py_backfill = None, py_updated_at = 0, py_in_game = None, py_last_rank = None\<rparr>"

definition sample_track_db :: track_db where
  "sample_track_db = \<lparr>tk_players = [sample_player], tk_jobs = [], tk_matches = [''OC1_1''], tk_timelines = []\<rparr>"

definition paging_env :: "string list \<Rightarrow> string list poll_env" where
  "paging_env L =
     \<lparr>pe_before = (\<lambda>db. db),
      pe_answer = (\<lambda>(m, ps, qs). Inr (Inr (take (digits_val (snd (qs ! 1))) (drop (digits_val (snd (qs ! 0))) L)))),
      pe_during = (\<lambda>db. db), pe_clock = \<lparr>c_instant = 0, c_unix_ms = 0\<rparr>, pe_between = (\<lambda>db. db), pe_id = ''j''\<rparr>"

definition quiet_finish :: finish_env where
  "quiet_finish =
     \<lparr>fv_catchup = (\<lambda>db. db), fv_filter = (\<lambda>db. db), fv_queue = (\<lambda>db. db), fv_set = (\<lambda>db. db), fv_now = 9, fv_id = ''j'',
      fv_ids = (\<lambda>k. replicate k CHR ''i'')\<rparr>"

lemma tasks_keep_id [simp]: "tasks_keep (\<lambda>db. db)"
  by (simp add: tasks_keep_def)

lemma paging_env_pages: "pages_of p L (paging_env L)"
  by (simp add: pages_of_def paging_env_def)

lemma sample_poll_runs:
  "fst (poll_matches sample_poll_ctx \<lparr>pp_puuid = ''p'', pp_platform = ''oc1''\<rparr> (\<lambda>db. db) [paging_env [''OC1_2'', ''OC1_1'']] quiet_finish sample_track_db) =
     Some (Inr ())"
proof -
  have "platform_parse ''oc1'' = Inr Oc1"
    by code_simp
  then show ?thesis
    by (simp add: poll_matches_def sample_poll_ctx_def sample_track_db_def sample_player_def players_get_def py_key_def match_pages.simps(2)
        paging_env_def Let_def POLL_PAGE_def queue_collected_def quiet_finish_def track_enqueue_all_def enqueue_all_def with_ids_def enqueue_on_def)
qed


section \<open>Live games\<close>

definition keeps_game :: "string \<times> string \<Rightarrow> (track_db \<Rightarrow> track_db) \<Rightarrow> bool" where
  "keeps_game k f = (\<forall>db. map_option py_in_game (players_get k (tk_players (f db))) = map_option py_in_game (players_get k (tk_players db)))"

lemma poll_set_get:
  "players_get k (tk_players (poll_set C p st db)) =
     (if k = (po_scope C, p) then map_option (with_poll_state st) (players_get k (tk_players db)) else players_get k (tk_players db))"
  by (simp add: poll_set_def set_poll_state_def players.get_write)

text \<open>A poll of a player's live game that gets an answer publishes an event exactly when the game it sees is not the one on the player's row, and the row then holds what it saw. A new game is announced as started; no game after one as ended, and a poll of the matches is queued.\<close>

theorem live_poll_reports_transitions:
  assumes "poll_live C pp env db = (r, evs, db')" "platform_parse (pp_platform pp) = Inr plat"
    and "players_get (po_scope C, pp_puuid pp) (tk_players (pe_before env db)) = Some player" "live_answer env (pp_puuid pp) = Inr game"
    and "keeps_game (po_scope C, pp_puuid pp) (pe_during env)" "keeps_game (po_scope C, pp_puuid pp) (pe_between env)"
  defines "seen \<equiv> Option.bind game ag_game_id"
  shows "(evs = [] \<longleftrightarrow> seen = py_in_game player) \<and>
    map_option py_in_game (players_get (po_scope C, pp_puuid pp) (tk_players db')) = Some seen \<and>
    (case evs of
       [] \<Rightarrow> r = Inr ()
     | [GameStarted q _ g _ _] \<Rightarrow> q = pp_puuid pp \<and> seen = Some g \<and> r = Inr ()
     | [GameEnded q _ g _ _] \<Rightarrow> q = pp_puuid pp \<and> seen = None \<and> py_in_game player = Some g \<and>
         (r = Inr () \<longrightarrow> list_ex (holds_key POLL_MATCHES (Some q)) (tk_jobs db'))
     | _ \<Rightarrow> False)"
proof -
  let ?p = "pp_puuid pp" and ?k = "(po_scope C, pp_puuid pp)" and ?db1 = "pe_during env (pe_before env db)"
  have row: "map_option py_in_game (players_get ?k (tk_players ?db1)) = Some (py_in_game player)"
    using assms(3,5) by (simp add: keeps_game_def)
  note run = assms(1-4) [unfolded poll_live_def Let_def]
  consider "seen = py_in_game player" | g where "seen = Some g" "seen \<noteq> py_in_game player" | g where "seen = None" "py_in_game player = Some g"
    by (cases seen; cases "py_in_game player") auto
  then show ?thesis
  proof cases
    case 1
    then have "r = Inr () \<and> evs = [] \<and> db' = ?db1"
      using run by (cases "py_in_game player") (auto simp: seen_def [symmetric])
    then show ?thesis
      using 1 row by simp
  next
    case (2 g)
    have "r = Inr () \<and> db' = poll_set C ?p (InGame (Some g)) ?db1 \<and> (\<exists>x y. evs = [GameStarted ?p (platform_as_str plat) g x y])"
      using run 2 by (auto simp: seen_def [symmetric])
    then show ?thesis
      using 2 row by (auto simp: poll_set_get)
  next
    case (3 g)
    define db2 where "db2 = pe_between env (poll_set C ?p (InGame None) ?db1)"
    obtain r3 db3 where e: "track_enqueue C (pe_id env) (nudge_job ?p (platform_as_str plat) (c_unix_ms (pe_clock env))) (c_unix_ms (pe_clock env)) db2 = (r3, db3)"
      by (cases "track_enqueue C (pe_id env) (nudge_job ?p (platform_as_str plat) (c_unix_ms (pe_clock env))) (c_unix_ms (pe_clock env)) db2")
    have "evs = [GameEnded ?p (Some (platform_as_str plat)) g None None] \<and> db' = db3 \<and> (r = Inr () \<longrightarrow> (\<exists>out. r3 = Inr out))"
      using run 3 e by (auto simp: seen_def [symmetric] db2_def split: sum.splits)
    moreover have "map_option py_in_game (players_get ?k (tk_players db3)) = Some None"
      using track_enqueue_grows(3) [OF e] row assms(6) by (auto simp: db2_def keeps_game_def poll_set_get option.map_comp comp_def)
    moreover have "list_ex (holds_key POLL_MATCHES (Some ?p)) (tk_jobs db3)" if "r3 = Inr out" for out
      using track_enqueue_grows(2) [OF e that] by (simp add: nudge_job_def new_job_dedupe_def new_job_new_def)
    ultimately show ?thesis
      using 3 by auto
  qed
qed

definition answering :: "(request \<Rightarrow> fetch_error + string + 'a) \<Rightarrow> 'a poll_env" where
  "answering answer =
     \<lparr>pe_before = (\<lambda>db. db), pe_answer = answer, pe_during = (\<lambda>db. db), pe_clock = \<lparr>c_instant = 0, c_unix_ms = 0\<rparr>,
      pe_between = (\<lambda>db. db), pe_id = ''j''\<rparr>"

lemma sample_player_row:
  "players_get (po_scope sample_poll_ctx, ''p'') (tk_players (pe_before (answering a) sample_track_db)) = Some sample_player"
  by (simp add: players_get_def py_key_def sample_poll_ctx_def sample_track_db_def sample_player_def answering_def)

lemma sample_oc1: "platform_parse ''oc1'' = Inr Oc1"
  by code_simp

abbreviation sample_poll_player :: poll_player where
  "sample_poll_player \<equiv> \<lparr>pp_puuid = ''p'', pp_platform = ''oc1''\<rparr>"

abbreviation sample_game :: active_game where
  "sample_game \<equiv> \<lparr>ag_game_id = Some 7, ag_queue_id = Some 420, ag_participants = [(Some ''p'', Some 103)]\<rparr>"

theorem live_poll_reports_transitions_witness:
  "\<exists>evs db'. poll_live sample_poll_ctx sample_poll_player (answering (\<lambda>_. Inr (Inr sample_game))) sample_track_db = (Inr (), evs, db') \<and>
     evs \<noteq> [] \<and> map_option py_in_game (players_get (''s'', ''p'') (tk_players db')) = Some (Some 7)"
proof -
  let ?env = "answering (\<lambda>_. Inr (Inr sample_game))"
  obtain r evs db' where run: "poll_live sample_poll_ctx sample_poll_player ?env sample_track_db = (r, evs, db')"
    by (cases "poll_live sample_poll_ctx sample_poll_player ?env sample_track_db") auto
  have r: "r = Inr ()"
    using run sample_player_row by (auto simp: poll_live_def sample_oc1 live_answer_def answering_def sample_player_def Let_def)
  have scope: "po_scope sample_poll_ctx = ''s''"
    by (simp add: sample_poll_ctx_def)
  have "(evs = [] \<longleftrightarrow> Some 7 = py_in_game sample_player) \<and> map_option py_in_game (players_get (''s'', ''p'') (tk_players db')) = Some (Some 7)"
    using live_poll_reports_transitions [OF run, of Oc1 sample_player "Some sample_game"] sample_oc1 sample_player_row
    by (simp add: live_answer_def keeps_game_def answering_def scope)
  then show ?thesis
    using run r by (auto simp: sample_player_def)
qed

section \<open>Ranks\<close>

definition keeps_rank :: "string \<times> string \<Rightarrow> (track_db \<Rightarrow> track_db) \<Rightarrow> bool" where
  "keeps_rank k f = (\<forall>db. map_option py_last_rank (players_get k (tk_players (f db))) = map_option py_last_rank (players_get k (tk_players db)))"

text \<open>C27. Of two polls of a player's ranks in a row the second reports one change per queue whose standing in its answer differs from the first one's answer, with both standings, and nothing else; the same answer twice reports nothing. The snapshot that carries the first answer over is text on the player's row, read back as it was written.\<close>

theorem rank_polls_report_changes:
  assumes "po_rank_parse C (po_rank_json C (snapshot_of es1)) = Some (snapshot_of es1)"
    and "poll_rank C pp env1 db = (Inr (), evs1, db1)" "pe_answer env1 (''league.entriesByPuuid'', [pp_puuid pp], []) = Inr (Inr es1)"
    and "poll_rank C pp env2 db1 = (Inr (), evs2, db2)" "pe_answer env2 (''league.entriesByPuuid'', [pp_puuid pp], []) = Inr (Inr es2)"
    and "players_get (po_scope C, pp_puuid pp) (tk_players (pe_before env1 db)) \<noteq> None"
    and "keeps_rank (po_scope C, pp_puuid pp) (pe_during env1)" "keeps_rank (po_scope C, pp_puuid pp) (pe_before env2)"
  shows "evs2 = map (\<lambda>(q, after). RankChanged (pp_puuid pp) q (map_of (snapshot_of es1) q) (Some after))
      (filter (\<lambda>(q, after). map_of (snapshot_of es1) q \<noteq> Some after) (snapshot_of es2)) \<and>
    (es1 = es2 \<longrightarrow> evs2 = [])"
proof -
  let ?p = "pp_puuid pp" and ?k = "(po_scope C, pp_puuid pp)" and ?x = "pe_during env1 (pe_before env1 db)"
  obtain plat where plat: "platform_parse (pp_platform pp) = Inr plat"
    using assms(2) by (auto simp: poll_rank_def split: sum.splits)
  have "db1 = poll_set C ?p (LastRank (po_rank_json C (snapshot_of es1))) ?x"
    using assms(2,3,6) plat by (auto simp: poll_rank_def Let_def split: option.splits)
  moreover have "players_get ?k (tk_players ?x) \<noteq> None"
    using assms(6,7) by (metis (no_types, lifting) keeps_rank_def option.map_disc_iff)
  ultimately have "map_option py_last_rank (players_get ?k (tk_players (pe_before env2 db1))) = Some (Some (po_rank_json C (snapshot_of es1)))"
    using assms(8) by (auto simp: keeps_rank_def poll_set_get)
  then obtain player where "players_get ?k (tk_players (pe_before env2 db1)) = Some player" "py_last_rank player = Some (po_rank_json C (snapshot_of es1))"
    by auto
  then have evs2: "evs2 = map (\<lambda>(q, after). RankChanged ?p q (map_of (snapshot_of es1) q) (Some after))
      (filter (\<lambda>(q, after). map_of (snapshot_of es1) q \<noteq> Some after) (snapshot_of es2))"
    using assms(1,4,5) plat by (auto simp: poll_rank_def Let_def)
  moreover have "distinct (map fst (snapshot_of es2))"
    by (simp add: snapshot_of_def btree_of_distinct)
  then have "filter (\<lambda>(q, after). map_of (snapshot_of es2) q \<noteq> Some after) (snapshot_of es2) = []"
    by (auto simp: filter_empty_conv)
  ultimately show ?thesis
    by auto
qed

definition sample_rank_ctx :: poll_ctx where
  "sample_rank_ctx = sample_poll_ctx\<lparr>po_rank_parse := (\<lambda>_. Some [])\<rparr>"

abbreviation sample_league_entry :: league_entry where
  "sample_league_entry \<equiv> \<lparr>en_queue = Some ''RANKED_SOLO_5x5'', en_tier = Some ''GOLD'', en_rank = Some ''I'', en_lp = Some 10\<rparr>"

theorem rank_polls_report_changes_witness:
  "\<exists>evs1 db1 db2. poll_rank sample_rank_ctx sample_poll_player (answering (\<lambda>_. Inr (Inr []))) sample_track_db = (Inr (), evs1, db1) \<and>
     poll_rank sample_rank_ctx sample_poll_player (answering (\<lambda>_. Inr (Inr [sample_league_entry]))) db1 =
       (Inr (), [RankChanged ''p'' ''RANKED_SOLO_5x5'' None (Some \<lparr>rk_tier = Some ''GOLD'', rk_rank = Some ''I'', rk_lp = Some 10\<rparr>)], db2)"
proof -
  let ?env1 = "answering (\<lambda>_. Inr (Inr []))" and ?env2 = "answering (\<lambda>_. Inr (Inr [sample_league_entry]))"
  have row: "players_get (po_scope sample_rank_ctx, ''p'') (tk_players (pe_before ?env1 sample_track_db)) = Some sample_player"
    using sample_player_row by (simp add: sample_rank_ctx_def)
  have idle: "py_last_rank sample_player = None" "pe_before (answering a) db = db" "pe_during (answering a) db = db" "pe_answer (answering a) = a" for a and db
    by (simp_all add: sample_player_def answering_def)
  define db1 where "db1 = poll_set sample_rank_ctx ''p'' (LastRank (po_rank_json sample_rank_ctx (snapshot_of []))) sample_track_db"
  have run1: "poll_rank sample_rank_ctx sample_poll_player ?env1 sample_track_db = (Inr (), [], db1)"
    using row by (simp add: poll_rank_def sample_oc1 idle db1_def Let_def)
  have row1: "players_get (po_scope sample_rank_ctx, ''p'') (tk_players db1) \<noteq> None"
    using row by (simp add: db1_def poll_set_get idle)
  have "\<exists>evs2 db2. poll_rank sample_rank_ctx sample_poll_player ?env2 db1 = (Inr (), evs2, db2)"
    using row1 by (auto simp: poll_rank_def sample_oc1 idle Let_def split: option.split)
  then obtain evs2 db2 where run2: "poll_rank sample_rank_ctx sample_poll_player ?env2 db1 = (Inr (), evs2, db2)"
    by blast
  have "po_rank_parse sample_rank_ctx (po_rank_json sample_rank_ctx (snapshot_of [])) = Some (snapshot_of [])"
    by (simp add: sample_rank_ctx_def snapshot_of_def btree_of_def List.map_filter_def)
  then have "evs2 = map (\<lambda>(q, after). RankChanged ''p'' q (map_of (snapshot_of []) q) (Some after))
      (filter (\<lambda>(q, after). map_of (snapshot_of []) q \<noteq> Some after) (snapshot_of [sample_league_entry]))"
    using rank_polls_report_changes [OF _ run1 _ run2, of "[]" "[sample_league_entry]"] row by (simp add: idle keeps_rank_def)
  then show ?thesis
    using run1 run2 by (simp add: snapshot_of_def btree_of_def List.map_filter_def)
qed

section \<open>Ticks\<close>

text \<open>A poll tick leaves a pending or running poll of its kind for every player that was tracked when it looked, whether it queued the job or found one.\<close>

theorem tick_polls_every_tracked_player:
  assumes "tick_fan_out C kind between nid now_ms db = (Inr n, db')"
    and "p \<in> set (tk_players db)" "py_scope p = po_scope C" "py_tracked p"
  shows "list_ex (holds_key kind (Some (py_puuid p))) (tk_jobs db')"
proof -
  let ?njs = "with_ids nid (map (poll_job kind) (list_tracked (po_scope C) (tk_players db)))"
  have tracked: "p \<in> set (list_tracked (po_scope C) (tk_players db))"
    using assms(2-4) by (simp add: list_tracked_def)
  then obtain rows where rows: "enqueue_each (po_json C) track_field ?njs now_ms (tk_jobs (between db)) = Inr (n, rows)" "tk_jobs db' = rows"
    using assms(1) by (auto simp: tick_fan_out_def Let_def split: sum.splits prod.splits if_splits)
  have "poll_job kind p \<in> snd ` set ?njs"
    using tracked by (simp add: with_ids_snd)
  then show ?thesis
    using enqueue_each_adds [OF rows(1)] by (fastforce simp: rows(2) poll_job_def new_job_dedupe_def new_job_new_def)
qed

theorem tick_polls_every_tracked_player_witness:
  "\<exists>n db'. tick_fan_out sample_poll_ctx POLL_LIVE (\<lambda>db. db) (\<lambda>k. ''j'') 9 sample_track_db = (Inr n, db') \<and>
     list_ex (holds_key POLL_LIVE (Some ''p'')) (tk_jobs db')"
proof -
  obtain n db' where run: "tick_fan_out sample_poll_ctx POLL_LIVE (\<lambda>db. db) (\<lambda>k. ''j'') 9 sample_track_db = (Inr n, db')"
    by (auto simp: tick_fan_out_def list_tracked_def sample_poll_ctx_def sample_track_db_def sample_player_def Let_def with_ids_def enqueue_on_def)
  then show ?thesis
    using tick_polls_every_tracked_player [OF run, of sample_player] by (simp add: sample_track_db_def sample_player_def sample_poll_ctx_def)
qed

end
