(* ===== verification/Backfill.thy ===== *)
theory Backfill
  imports Poll_Props
begin

text \<open>
  Archiving a player's history, \<^verbatim>\<open>src/jobs/archive.rs\<close>: the job that archives one match, the walk of a player's match ids that
  queues such jobs and resumes where it stopped, and the catch-up at boot for matches without their timeline. The walk's
  progress is JSON text on the player's row; printing and reading it, and reading and setting a key of a job's payload,
  are arguments.
\<close>

section \<open>Context and state\<close>

definition BACKFILL_PAGE :: nat where
  "BACKFILL_PAGE = 100"

definition CATCH_UP_BATCH :: nat where
  "CATCH_UP_BATCH = 500"

record backfill_state =
  wk_started_at :: int
  wk_done_at :: "int option"
  wk_depth :: int
  wk_cursor :: "int option"
  wk_limit :: nat

record archive_ctx =
  ac_scope :: string
  ac_archive_timelines :: bool
  ac_lookup_backfill_limit :: nat
  ac_json :: "track_payload \<Rightarrow> string"
  ac_state_json :: "backfill_state \<Rightarrow> string"
  ac_state_parse :: "string \<Rightarrow> backfill_state option"
  ac_asks :: "string \<Rightarrow> bool"
  ac_ask :: "string \<Rightarrow> string"
  ac_db_error :: "job_db_error \<Rightarrow> string"

definition ac_store_err :: "archive_ctx \<Rightarrow> job_db_error \<Rightarrow> job_error" where
  "ac_store_err C e = Retry (''store: '' @ ac_db_error C e)"

definition backfill_state_parse :: "archive_ctx \<Rightarrow> string option \<Rightarrow> backfill_state option" where
  "backfill_state_parse C raw = Option.bind raw (ac_state_parse C)"

definition depth_priority :: "int \<Rightarrow> int" where
  "depth_priority depth = PRIORITY_ARCHIVE_DEPTH + max depth 0 div 10"

section \<open>One match\<close>

text \<open>What a fetch of a match gives here: where the answer came from, and the participants and patch read out of its body.\<close>

record match_env =
  mt_match :: "request \<Rightarrow> fetch_error + x_cache \<times> string list \<times> string option"
  mt_timeline :: "request \<Rightarrow> fetch_error + unit"
  mt_clock :: clock

definition archive_match :: "archive_ctx \<Rightarrow> archive_match_payload \<Rightarrow> match_env \<Rightarrow> (job_error + unit) \<times> ws_event list" where
  "archive_match C a env =
     (case region_from_match_id (am_match a) of
        None \<Rightarrow> (Inl (Fail (''cannot derive region from match id '' @ quoted (am_match a))), [])
      | Some region \<Rightarrow>
          (case mt_match env (''match.byId'', [am_match a], []) of
             Inl e \<Rightarrow>
               (Inl (if code (fe_api e) = error_code.NotFound then Fail (''match '' @ am_match a @ '' not found'')
                  else job_error_from_fetch (mt_clock env) e), [])
           | Inr (x, participants, patch) \<Rightarrow>
               (let evs = (if x \<noteq> XArchive then [MatchArchived (am_puuid a) (am_match a) patch participants] else []) in
                if (case am_timeline a of Some t \<Rightarrow> t | None \<Rightarrow> ac_archive_timelines C) then
                  (case mt_timeline env (''match.timeline'', [am_match a], []) of
                     Inl e \<Rightarrow> if fe_limited_until e \<noteq> None then (Inl (job_error_from_fetch (mt_clock env) e), evs) else (Inr (), evs)
                   | Inr _ \<Rightarrow> (Inr (), evs))
                else (Inr (), evs))))"

section \<open>A player's history\<close>

definition backfill_job :: "backfill_payload \<Rightarrow> track_payload new_job" where
  "backfill_job b = new_job_dedupe (bp_puuid b) (new_job_new BACKFILL_PLAYER PRIORITY_BACKFILL (Pay_walk b))"

definition walk_save :: "archive_ctx \<Rightarrow> string \<Rightarrow> backfill_state \<Rightarrow> track_db \<Rightarrow> track_db" where
  "walk_save C p st db =
     db\<lparr>tk_players := write_player (ac_scope C, p) (\<lambda>r. r\<lparr>py_backfill := Some (ac_state_json C st)\<rparr>) (tk_players db)\<rparr>"

text \<open>One page: other tasks before the request, while it is out, before the archive is looked at, before the jobs are queued and before the progress is saved.\<close>

record walk_env =
  we_before :: "track_db \<Rightarrow> track_db"
  we_answer :: "request \<Rightarrow> fetch_error + string + string list"
  we_during :: "track_db \<Rightarrow> track_db"
  we_queue :: "track_db \<Rightarrow> track_db"
  we_save :: "track_db \<Rightarrow> track_db"
  we_clock :: clock
  we_ids :: "nat \<Rightarrow> string"

definition position_of :: "string list \<Rightarrow> int \<Rightarrow> string \<Rightarrow> int" where
  "position_of ids start m =
     (case map_of (rev (zip ids (map (\<lambda>i. start + int i) [0..<length ids]))) m of Some d \<Rightarrow> d | None \<Rightarrow> start)"

definition walk_match_job :: "backfill_payload \<Rightarrow> string list \<Rightarrow> int \<Rightarrow> string \<Rightarrow> track_payload new_job" where
  "walk_match_job b ids start m =
     new_job_dedupe m (new_job_new ARCHIVE_MATCH (depth_priority (position_of ids start m))
       (Pay_archive_match \<lparr>am_match = m, am_puuid = Some (bp_puuid b), am_timeline = bp_timeline b\<rparr>))"

definition walk_request :: "backfill_payload \<Rightarrow> int \<Rightarrow> int \<Rightarrow> request" where
  "walk_request b start cnt =
     (''match.idsByPuuid'', [bp_puuid b],
      [(''start'', show_int start), (''count'', show_int cnt)] @
      (case bp_queue_id b of Some q \<Rightarrow> [(''queue'', show_int q)] | None \<Rightarrow> []))"

text \<open>The loop of the walk: its outcome (whether the history ran out), the state as it was last saved, and the tables.\<close>

fun walk_pages ::
  "archive_ctx \<Rightarrow> backfill_payload \<Rightarrow> int \<Rightarrow> backfill_state \<Rightarrow> walk_env list \<Rightarrow> track_db \<Rightarrow> (job_error + bool) option \<times> backfill_state \<times> track_db" where
  "walk_pages C b start st [] db = (if start < int (bp_limit b) then None else Some (Inr False), st, db)"
| "walk_pages C b start st (env # envs) db0 =
     (if \<not> start < int (bp_limit b) then (Some (Inr False), st, db0)
      else
        (let count = min (int BACKFILL_PAGE) (int (bp_limit b) - start); db = we_during env (we_before env db0) in
         case we_answer env (walk_request b start count) of
           Inl e \<Rightarrow> (Some (Inl (job_error_from_fetch (we_clock env) e)), st, db)
         | Inr (Inl e) \<Rightarrow> (Some (Inl (Retry (''match ids: '' @ e))), st, db)
         | Inr (Inr ids) \<Rightarrow>
             if ids = [] then (Some (Inr True), st, db)
             else
               (let unarchived = filter (\<lambda>m. m \<notin> set (tk_matches db)) ids in
                case enqueue_all (ac_json C) track_field (with_ids (we_ids env) (map (walk_match_job b ids start) unarchived))
                    (c_unix_ms (we_clock env)) (tk_jobs (we_queue env db)) of
                  (Inl e, _) \<Rightarrow> (Some (Inl (ac_store_err C e)), st, we_queue env db)
                | (Inr _, rows) \<Rightarrow>
                    (let start1 = start + int (length ids);
                         st1 = st\<lparr>wk_depth := start1, wk_cursor := Some start1\<rparr>;
                         db1 = walk_save C (bp_puuid b) st1 (we_save env ((we_queue env db)\<lparr>tk_jobs := rows\<rparr>)) in
                     if int (length ids) < count then (Some (Inr True), st1, db1) else walk_pages C b start1 st1 envs db1))))"

text \<open>The walk around its loop: other tasks before each of its writes, and its clock readings.\<close>

record walk_frame =
  wf_upsert :: "track_db \<Rightarrow> track_db"
  wf_now :: int
  wf_started :: int
  wf_first_save :: "track_db \<Rightarrow> track_db"
  wf_last_save :: "track_db \<Rightarrow> track_db"
  wf_done :: int

definition walk_begin :: "backfill_payload \<Rightarrow> int \<Rightarrow> backfill_state option \<Rightarrow> backfill_state" where
  "walk_begin b started previous =
     (case previous of
        Some s \<Rightarrow>
          if wk_cursor s \<noteq> None \<and> wk_limit s = bp_limit b then s
          else \<lparr>wk_started_at = started, wk_done_at = wk_done_at s, wk_depth = wk_depth s, wk_cursor = Some 0, wk_limit = bp_limit b\<rparr>
      | None \<Rightarrow> \<lparr>wk_started_at = started, wk_done_at = None, wk_depth = 0, wk_cursor = Some 0, wk_limit = bp_limit b\<rparr>)"

definition walk_complete :: "archive_ctx \<Rightarrow> backfill_payload \<Rightarrow> bool \<Rightarrow> bool" where
  "walk_complete C b ran_out = (ran_out \<and> bp_queue_id b = None \<or> ac_lookup_backfill_limit C \<le> bp_limit b)"

definition backfill_player ::
  "archive_ctx \<Rightarrow> backfill_payload \<Rightarrow> walk_frame \<Rightarrow> walk_env list \<Rightarrow> track_db \<Rightarrow> (job_error + unit) option \<times> track_db" where
  "backfill_player C b fr envs db0 =
     (case platform_parse (bp_platform b) of
        Inl e \<Rightarrow> (Some (Inl (Fail (message e))), db0)
      | Inr plat \<Rightarrow>
          (let db = wf_upsert fr db0;
               (player, rows) = players_upsert (ac_scope C)
                 \<lparr>up_puuid = bp_puuid b, up_platform = platform_as_str plat, up_game_name = None, up_tag_line = None, up_tracked = None\<rparr>
                 (wf_now fr) (tk_players db);
               st = walk_begin b (wf_started fr) (backfill_state_parse C (py_backfill player));
               db1 = walk_save C (bp_puuid b) st (wf_first_save fr (db\<lparr>tk_players := rows\<rparr>)) in
           case walk_pages C b (case wk_cursor st of Some k \<Rightarrow> k | None \<Rightarrow> 0) st envs db1 of
             (None, _, db2) \<Rightarrow> (None, db2)
           | (Some (Inl e), _, db2) \<Rightarrow> (Some (Inl e), db2)
           | (Some (Inr ran_out), st2, db2) \<Rightarrow>
               (let st3 = (if walk_complete C b ran_out then st2\<lparr>wk_done_at := Some (wf_done fr)\<rparr> else st2) in
                (Some (Inr ()), walk_save C (bp_puuid b) (st3\<lparr>wk_cursor := None\<rparr>) (wf_last_save fr db2)))))"

section \<open>Missing halves\<close>

definition half_job :: "string \<Rightarrow> int \<Rightarrow> track_payload new_job" where
  "half_job m prio =
     new_job_dedupe m (new_job_new ARCHIVE_MATCH prio (Pay_archive_match \<lparr>am_match = m, am_puuid = None, am_timeline = Some True\<rparr>))"

definition misses_half :: "bool \<Rightarrow> string \<Rightarrow> track_db \<Rightarrow> bool" where
  "misses_half want m db = (m \<notin> set (tk_matches db) \<or> want \<and> m \<notin> set (tk_timelines db))"

definition queue_missing_half_on ::
  "archive_ctx \<Rightarrow> string \<Rightarrow> bool \<Rightarrow> int \<Rightarrow> string \<Rightarrow> int \<Rightarrow> track_db \<Rightarrow> job_db_error + bool \<times> track_db" where
  "queue_missing_half_on C m want prio nid now_ms db =
     (if \<not> misses_half want m db then Inr (False, db)
      else
        (case enqueue_or_promote_on (ac_json C) track_field nid (half_job m prio) now_ms (tk_jobs db) of
           (Inl e, _) \<Rightarrow> Inl e
         | (Inr out, rows) \<Rightarrow>
             Inr (True, db\<lparr>tk_jobs :=
               if en_created out then rows
               else map (\<lambda>r. if j_id r = en_id out \<and> j_state r = Pending then r\<lparr>j_payload := ac_ask C (j_payload r)\<rparr> else r) rows\<rparr>)))"

text \<open>The search at boot; a match whose finished job already asked for the timeline is left out. The ids come in order.\<close>

definition missing_halves :: "archive_ctx \<Rightarrow> bool \<Rightarrow> track_db \<Rightarrow> string list" where
  "missing_halves C want db =
     sort (remdups (filter (\<lambda>m. \<not> list_ex (\<lambda>r. j_kind r = ARCHIVE_MATCH \<and> j_dedupe r = Some m \<and> (j_state r = Done \<or> j_state r = Failed) \<and>
           ac_asks C (j_payload r)) (tk_jobs db))
       ((if want then filter (\<lambda>m. m \<notin> set (tk_timelines db)) (tk_matches db) else []) @
        filter (\<lambda>m. m \<notin> set (tk_matches db)) (tk_timelines db))))"

fun queue_halves ::
  "archive_ctx \<Rightarrow> bool \<Rightarrow> (string \<Rightarrow> string) \<Rightarrow> int \<Rightarrow> string list \<Rightarrow> nat \<times> track_db \<Rightarrow> job_db_error + nat \<times> track_db" where
  "queue_halves C want nid now_ms [] acc = Inr acc"
| "queue_halves C want nid now_ms (m # ms) (n, db) =
     (case queue_missing_half_on C m want PRIORITY_CATCH_UP (nid m) now_ms db of
        Inl e \<Rightarrow> Inl e
      | Inr (lifted, db1) \<Rightarrow> queue_halves C want nid now_ms ms (n + (if lifted then 1 else 0), db1))"

text \<open>One transaction per chunk; \<open>rounds\<close> says what happens before each: others, the clock and the ids of new jobs.\<close>

fun catch_up ::
  "archive_ctx \<Rightarrow> bool \<Rightarrow> string list list \<Rightarrow> ((track_db \<Rightarrow> track_db) \<times> int \<times> (string \<Rightarrow> string)) list \<Rightarrow> nat \<Rightarrow> track_db \<Rightarrow>
     (job_db_error + nat) option \<times> track_db" where
  "catch_up C want [] rounds n db = (Some (Inr n), db)"
| "catch_up C want (ch # chs) [] n db = (None, db)"
| "catch_up C want (ch # chs) ((others, now_ms, nid) # rounds) n db =
     (let db1 = others db in
      case queue_halves C want nid now_ms ch (0, db1) of
        Inl e \<Rightarrow> (Some (Inl e), db1)
      | Inr (k, db2) \<Rightarrow> catch_up C want chs rounds (n + k) db2)"

definition queue_missing_halves ::
  "archive_ctx \<Rightarrow> bool \<Rightarrow> ((track_db \<Rightarrow> track_db) \<times> int \<times> (string \<Rightarrow> string)) list \<Rightarrow> track_db \<Rightarrow> (job_db_error + nat) option \<times> track_db" where
  "queue_missing_halves C want rounds db = catch_up C want (chunks CATCH_UP_BATCH (missing_halves C want db)) rounds 0 db"

end
