(* ===== verification/Backfill_Props.thy ===== *)
theory Backfill_Props
  imports Backfill "HOL-Library.Countable"
begin

text \<open>
  The theorems about archiving a history: a walk that fails, is interrupted or is resumed leaves no match of the pages it
  passed unasked for, and the catch-up at boot settles every match that lacks a half.
\<close>

section \<open>The walk and other tasks\<close>

text \<open>An answer is an error, or the page of Riot's list \<open>L\<close> that was asked for. Other tasks keep what the handlers rely on and the player's walk.\<close>

definition walk_pages_of :: "backfill_payload \<Rightarrow> string list \<Rightarrow> walk_env \<Rightarrow> bool" where
  "walk_pages_of b L env =
     (\<forall>start cnt. case we_answer env (walk_request b start cnt) of
        Inr (Inr ids) \<Rightarrow> ids = take (nat cnt) (drop (nat start) L)
      | _ \<Rightarrow> True)"

definition walk_others :: "archive_ctx \<Rightarrow> string \<Rightarrow> (track_db \<Rightarrow> track_db) \<Rightarrow> bool" where
  "walk_others C p f =
     (tasks_keep f \<and>
      (\<forall>db. map_option py_backfill (players_get (ac_scope C, p) (tk_players (f db))) = map_option py_backfill (players_get (ac_scope C, p) (tk_players db))))"

definition saved_walk :: "archive_ctx \<Rightarrow> string \<Rightarrow> track_db \<Rightarrow> backfill_state option option" where
  "saved_walk C p db = map_option (\<lambda>r. backfill_state_parse C (py_backfill r)) (players_get (ac_scope C, p) (tk_players db))"

lemma saved_others: "walk_others C p f \<Longrightarrow> saved_walk C p (f db) = saved_walk C p db"
proof -
  have "saved_walk C p x = map_option (backfill_state_parse C) (map_option py_backfill (players_get (ac_scope C, p) (tk_players x)))" for x
    by (simp add: saved_walk_def option.map_comp comp_def)
  then show "walk_others C p f \<Longrightarrow> saved_walk C p (f db) = saved_walk C p db"
    by (simp add: walk_others_def)
qed

lemma grows_save: "grows db (walk_save C p st db)"
  by (simp add: grows_def walk_save_def players.get_write)

lemma saved_save:
  assumes "ac_state_parse C (ac_state_json C st) = Some st" "saved_walk C p db \<noteq> None"
  shows "saved_walk C p (walk_save C p st db) = Some (Some st)"
  using assms by (auto simp: saved_walk_def walk_save_def players.get_write backfill_state_parse_def)

lemma enqueue_all_adds:
  assumes "enqueue_all json_text field njs now_ms rows = (Inr n, rows')"
  shows "\<exists>new. rows' = rows @ new \<and> (\<forall>(nid, nj) \<in> set njs. nj_dedupe nj \<noteq> None \<longrightarrow> list_ex (holds_key (nj_kind nj) (nj_dedupe nj)) rows')"
proof (cases "njs = []")
  case False
  then obtain k where "enqueue_each json_text field njs now_ms rows = Inr (k, rows')"
    using assms by (auto simp: enqueue_all_def split: sum.splits prod.splits)
  from enqueue_each_adds [OF this] show ?thesis
    by blast
qed (use assms in \<open>simp add: enqueue_all_def\<close>)

lemma holds_key_asked: "list_ex (holds_key ARCHIVE_MATCH (Some m)) (tk_jobs db) \<Longrightarrow> asked m db"
  using holds_key_has_job by (simp add: asked_def has_job_def)

text \<open>One page that got an answer and was queued.\<close>

definition page_saved :: "archive_ctx \<Rightarrow> backfill_payload \<Rightarrow> backfill_state \<Rightarrow> walk_env \<Rightarrow> job_row list \<Rightarrow> track_db \<Rightarrow> track_db" where
  "page_saved C b st1 env rows db = walk_save C (bp_puuid b) st1 (we_save env ((we_queue env db)\<lparr>tk_jobs := rows\<rparr>))"

lemma page_asks:
  assumes "enqueue_all (ac_json C) track_field (with_ids (we_ids env) (map (walk_match_job b ids start) (filter (\<lambda>m. m \<notin> set (tk_matches db)) ids)))
      now_ms (tk_jobs (we_queue env db)) = (Inr n, rows)"
    and "walk_others C (bp_puuid b) (we_queue env)" "walk_others C (bp_puuid b) (we_save env)"
  shows "grows db (page_saved C b st1 env rows db)" "m \<in> set ids \<Longrightarrow> asked m (page_saved C b st1 env rows db)"
    and "saved_walk C (bp_puuid b) db \<noteq> None \<Longrightarrow> ac_state_parse C (ac_state_json C st1) = Some st1 \<Longrightarrow>
      saved_walk C (bp_puuid b) (page_saved C b st1 env rows db) = Some (Some st1)"
proof -
  let ?q = "(we_queue env db)\<lparr>tk_jobs := rows\<rparr>"
  obtain new where new: "rows = tk_jobs (we_queue env db) @ new"
    and keys: "\<forall>(nid, nj) \<in> set (with_ids (we_ids env) (map (walk_match_job b ids start) (filter (\<lambda>m. m \<notin> set (tk_matches db)) ids))).
      nj_dedupe nj \<noteq> None \<longrightarrow> list_ex (holds_key (nj_kind nj) (nj_dedupe nj)) rows"
    using enqueue_all_adds [OF assms(1)] by blast
  have "grows db (we_queue env db)"
    using assms(2) by (simp add: walk_others_def others_grows)
  moreover have "grows (we_queue env db) ?q"
    by (auto simp: grows_def new)
  ultimately have q1: "grows db ?q"
    by (rule grows_trans)
  have q2: "grows ?q (page_saved C b st1 env rows db)"
    using assms(3) grows_trans [OF others_grows grows_save] by (simp add: page_saved_def walk_others_def)
  show g: "grows db (page_saved C b st1 env rows db)"
    using q1 q2 grows_trans by blast
  show "asked m (page_saved C b st1 env rows db)" if m: "m \<in> set ids"
  proof (cases "m \<in> set (tk_matches db)")
    case True
    then show ?thesis
      using g grows_asked asked_def by blast
  next
    case False
    then have "walk_match_job b ids start m \<in> snd ` set (with_ids (we_ids env) (map (walk_match_job b ids start) (filter (\<lambda>m. m \<notin> set (tk_matches db)) ids)))"
      using m by (simp add: with_ids_snd)
    then have "list_ex (holds_key ARCHIVE_MATCH (Some m)) (tk_jobs ?q)"
      using keys by (fastforce simp: walk_match_job_def new_job_dedupe_def new_job_new_def)
    then show ?thesis
      by (intro grows_asked [OF q2 holds_key_asked])
  qed
  have "saved_walk C (bp_puuid b) (we_save env ?q) = saved_walk C (bp_puuid b) db"
    using saved_others [OF assms(3)] saved_others [OF assms(2)] by (simp add: saved_walk_def)
  then show "saved_walk C (bp_puuid b) (page_saved C b st1 env rows db) = Some (Some st1)"
    if "saved_walk C (bp_puuid b) db \<noteq> None" "ac_state_parse C (ac_state_json C st1) = Some st1"
    unfolding page_saved_def by (intro saved_save) (use that in simp_all)
qed

declare walk_pages.simps(2) [simp del]

lemma take_nat_add: "0 \<le> a \<Longrightarrow> take (nat (a + int n)) L = take (nat a) L @ take n (drop (nat a) L)"
  by (simp add: nat_add_distrib take_add)

text \<open>The walk stands at \<open>start\<close>: so it says on the player's row, and everything above is asked for.\<close>

definition walk_at :: "archive_ctx \<Rightarrow> backfill_payload \<Rightarrow> string list \<Rightarrow> int \<Rightarrow> backfill_state \<Rightarrow> track_db \<Rightarrow> bool" where
  "walk_at C b L start st db =
     (saved_walk C (bp_puuid b) db = Some (Some st) \<and> wk_cursor st = Some start \<and> 0 \<le> start \<and> (\<forall>m \<in> set (take (nat start) L). asked m db))"

lemma walk_at_others: "walk_at C b L start st db \<Longrightarrow> walk_others C (bp_puuid b) f \<Longrightarrow> walk_at C b L start st (f db) \<and> grows db (f db)"
  using others_grows grows_asked by (fastforce simp: walk_at_def saved_others walk_others_def)

definition walk_env_ok :: "archive_ctx \<Rightarrow> backfill_payload \<Rightarrow> string list \<Rightarrow> walk_env \<Rightarrow> bool" where
  "walk_env_ok C b L env =
     (walk_pages_of b L env \<and> walk_others C (bp_puuid b) (we_before env) \<and> walk_others C (bp_puuid b) (we_during env) \<and>
      walk_others C (bp_puuid b) (we_queue env) \<and> walk_others C (bp_puuid b) (we_save env))"

text \<open>A page that was queued: the walk stands behind it.\<close>

lemma walk_at_page:
  assumes "walk_at C b L start st db" "walk_env_ok C b L env" "\<And>st. ac_state_parse C (ac_state_json C st) = Some st"
    and "ids = take n (drop (nat start) L)"
    and "enqueue_all (ac_json C) track_field (with_ids (we_ids env) (map (walk_match_job b ids start) (filter (\<lambda>m. m \<notin> set (tk_matches db)) ids)))
      now_ms (tk_jobs (we_queue env db)) = (Inr k, rows)"
  defines "st1 \<equiv> st\<lparr>wk_depth := start + int (length ids), wk_cursor := Some (start + int (length ids))\<rparr>"
  shows "walk_at C b L (start + int (length ids)) st1 (page_saved C b st1 env rows db) \<and> grows db (page_saved C b st1 env rows db)"
proof -
  have oth: "walk_others C (bp_puuid b) (we_queue env)" "walk_others C (bp_puuid b) (we_save env)"
    using assms(2) by (simp_all add: walk_env_ok_def)
  note pg = page_asks [OF assms(5) oth, where ?st1.0 = st1]
  have "take (nat (start + int (length ids))) L = take (nat start) L @ ids"
    using assms(1,4) by (simp add: take_nat_add walk_at_def min_def)
  then have "\<forall>m \<in> set (take (nat (start + int (length ids))) L). asked m (page_saved C b st1 env rows db)"
    using assms(1) pg(2) grows_asked [OF pg(1)] by (auto simp: walk_at_def)
  then show ?thesis
    using assms(1,3) pg(1,3) by (simp add: walk_at_def st1_def)
qed

lemma walk_page:
  assumes "walk_at C b L start st db" "walk_env_ok C b L env" "\<And>st. ac_state_parse C (ac_state_json C st) = Some st" "start < int (bp_limit b)"
  shows "\<exists>start1 st1 db1. walk_at C b L start1 st1 db1 \<and> wk_limit st1 = wk_limit st \<and> grows db db1 \<and>
    ((\<exists>e. walk_pages C b start st (env # envs) db = (Some (Inl e), st1, db1)) \<or>
     walk_pages C b start st (env # envs) db = (Some (Inr True), st1, db1) \<and> take (nat start1) L = L \<or>
     walk_pages C b start st (env # envs) db = walk_pages C b start1 st1 envs db1)"
proof -
  define cnt where "cnt = min (int BACKFILL_PAGE) (int (bp_limit b) - start)"
  define db1 where "db1 = we_during env (we_before env db)"
  have "nat cnt \<noteq> 0"
    using assms(4) by (simp add: cnt_def BACKFILL_PAGE_def)
  have at1: "walk_at C b L start st db1 \<and> grows db db1"
    using assms(1,2) walk_at_others grows_trans unfolding walk_env_ok_def db1_def by metis
  note run = walk_pages.simps(2) [of C b start st env envs db, unfolded Let_def, folded cnt_def db1_def]
  show ?thesis
  proof (cases "\<exists>ids. we_answer env (walk_request b start cnt) = Inr (Inr ids)")
    case False
    then have "\<exists>e. walk_pages C b start st (env # envs) db = (Some (Inl e), st, db1)"
      using run assms(4) by (auto split: sum.splits)
    then show ?thesis
      using at1 by blast
  next
    case True
    then obtain ids where ans: "we_answer env (walk_request b start cnt) = Inr (Inr ids)"
      by blast
    then have ids: "ids = take (nat cnt) (drop (nat start) L)"
      using assms(2) by (auto simp: walk_env_ok_def walk_pages_of_def split: sum.splits dest: spec)
    obtain o1 rows where e: "enqueue_all (ac_json C) track_field
        (with_ids (we_ids env) (map (walk_match_job b ids start) (filter (\<lambda>m. m \<notin> set (tk_matches db1)) ids)))
        (c_unix_ms (we_clock env)) (tk_jobs (we_queue env db1)) = (o1, rows)"
      by fastforce
    define st1 where "st1 = st\<lparr>wk_depth := start + int (length ids), wk_cursor := Some (start + int (length ids))\<rparr>"
    consider "ids = []" | e where "ids \<noteq> []" "o1 = Inl e" | k where "ids \<noteq> []" "o1 = Inr k"
      by (cases o1) auto
    then show ?thesis
    proof cases
      case 1
      then have "take (nat start) L = L" "walk_pages C b start st (env # envs) db = (Some (Inr True), st, db1)"
        using ids \<open>nat cnt \<noteq> 0\<close> run ans assms(4) by simp_all
      then show ?thesis
        using at1 by blast
    next
      case (2 err)
      then have "\<exists>e. walk_pages C b start st (env # envs) db = (Some (Inl e), st, we_queue env db1)"
        using run ans assms(4) e by auto
      moreover have "walk_at C b L start st (we_queue env db1) \<and> grows db (we_queue env db1)"
        using at1 assms(2) walk_at_others grows_trans unfolding walk_env_ok_def by metis
      ultimately show ?thesis
        by blast
    next
      case (3 k)
      define db2 where "db2 = page_saved C b st1 env rows db1"
      have at2: "walk_at C b L (start + int (length ids)) st1 db2 \<and> grows db db2"
        using walk_at_page [OF _ assms(2,3) ids e [unfolded 3(2)]] at1 grows_trans unfolding st1_def db2_def by blast
      have "walk_pages C b start st (env # envs) db =
          (if int (length ids) < cnt then (Some (Inr True), st1, db2) else walk_pages C b (start + int (length ids)) st1 envs db2)"
        using run ans assms(4) e 3 by (simp add: st1_def db2_def page_saved_def)
      moreover have "take (nat (start + int (length ids))) L = L" if "int (length ids) < cnt"
        using that ids assms(1) by (simp add: walk_at_def take_nat_add min_def split: if_splits)
      ultimately show ?thesis
        using at2 by (intro exI [of _ "start + int (length ids)"] exI [of _ st1] exI [of _ db2]) (simp add: st1_def)
    qed
  qed
qed

lemma walk_pages_sound:
  assumes "\<forall>env \<in> set envs. walk_env_ok C b L env" "\<And>st. ac_state_parse C (ac_state_json C st) = Some st"
    and "walk_pages C b start st envs db = (r, st', db')" "walk_at C b L start st db"
  shows "\<exists>k. walk_at C b L k st' db' \<and> wk_limit st' = wk_limit st \<and> grows db db' \<and>
    (r = Some (Inr True) \<longrightarrow> take (nat k) L = L) \<and> (r = Some (Inr False) \<longrightarrow> int (bp_limit b) \<le> k)"
  using assms
proof (induction envs arbitrary: start st db)
  case (Cons env envs)
  show ?case
  proof (cases "start < int (bp_limit b)")
    case False
    then show ?thesis
      using Cons.prems(3,4) by (auto simp: walk_pages.simps(2))
  next
    case True
    obtain start1 st1 db1 where one: "walk_at C b L start1 st1 db1" "wk_limit st1 = wk_limit st" "grows db db1"
      "(\<exists>e. (r, st', db') = (Some (Inl e), st1, db1)) \<or> (r, st', db') = (Some (Inr True), st1, db1) \<and> take (nat start1) L = L \<or>
       (r, st', db') = walk_pages C b start1 st1 envs db1"
      using walk_page [OF Cons.prems(4) _ Cons.prems(2) True, of env envs] Cons.prems(1,3) by auto
    show ?thesis
    proof (cases "(r, st', db') = walk_pages C b start1 st1 envs db1")
      case True
      from Cons.IH [OF _ Cons.prems(2) True [symmetric] one(1)] Cons.prems(1) show ?thesis
        using one(2,3) grows_trans by auto
    next
      case False
      then show ?thesis
        using one by auto
    qed
  qed
qed (auto split: if_splits)

text \<open>What a later run relies on: a saved walk of the same depth that stopped part-way has asked for everything above its cursor.\<close>

definition walk_resumable :: "archive_ctx \<Rightarrow> backfill_payload \<Rightarrow> string list \<Rightarrow> track_db \<Rightarrow> bool" where
  "walk_resumable C b L db =
     (\<forall>st k. saved_walk C (bp_puuid b) db = Some (Some st) \<and> wk_limit st = bp_limit b \<and> wk_cursor st = Some k \<longrightarrow>
        0 \<le> k \<and> (\<forall>m \<in> set (take (nat k) L). asked m db))"

lemma upsert_row:
  assumes "players_upsert scope u now_ms rows = (p, rows')"
  shows "players_get (scope, up_puuid u) rows' = Some p"
    and "py_backfill p = Option.bind (players_get (scope, up_puuid u) rows) py_backfill"
    and "players_get k rows \<noteq> None \<Longrightarrow> players_get k rows' \<noteq> None"
  using assms
  by (auto simp: players_upsert_def players.get_write players_get_append upserted_def new_player_def py_key_def split: option.splits if_splits)

lemma asked_players [simp]: "asked m (db\<lparr>tk_players := rows\<rparr>) = asked m db"
  by (simp add: asked_def)

text \<open>The beginning of a walk: where it stands, and that everything above is asked for.\<close>

lemma walk_begins:
  assumes "walk_resumable C b L db" "\<And>st. ac_state_parse C (ac_state_json C st) = Some st"
    and "players_upsert (ac_scope C) u now_ms (tk_players db) = (player, rows)" "up_puuid u = bp_puuid b"
    and "walk_others C (bp_puuid b) f" and st_def: "st = walk_begin b started (backfill_state_parse C (py_backfill player))"
  shows "\<exists>k. wk_cursor st = Some k \<and> wk_limit st = bp_limit b \<and>
    walk_at C b L k st (walk_save C (bp_puuid b) st (f (db\<lparr>tk_players := rows\<rparr>))) \<and>
    grows db (walk_save C (bp_puuid b) st (f (db\<lparr>tk_players := rows\<rparr>)))"
proof -
  let ?db1 = "db\<lparr>tk_players := rows\<rparr>"
  let ?db2 = "walk_save C (bp_puuid b) st (f ?db1)"
  note up = upsert_row [OF assms(3), unfolded assms(4)]
  have "grows db ?db1"
    using up(3) by (simp add: grows_def)
  then have g: "grows db ?db2"
    using grows_trans [OF _ grows_trans [OF others_grows grows_save]] assms(5) by (simp add: walk_others_def)
  have "saved_walk C (bp_puuid b) (f ?db1) \<noteq> None"
    using up(1) saved_others [OF assms(5), of ?db1] by (auto simp: saved_walk_def)
  then have saved: "saved_walk C (bp_puuid b) ?db2 = Some (Some st)"
    by (intro saved_save assms(2))
  show ?thesis
  proof (cases "\<exists>s k. backfill_state_parse C (py_backfill player) = Some s \<and> wk_cursor s = Some k \<and> wk_limit s = bp_limit b")
    case True
    then obtain s k where s: "backfill_state_parse C (py_backfill player) = Some s" "wk_cursor s = Some k" "wk_limit s = bp_limit b"
      by blast
    then have "saved_walk C (bp_puuid b) db = Some (Some s)"
      using up(2) by (cases "players_get (ac_scope C, bp_puuid b) (tk_players db)") (auto simp: saved_walk_def backfill_state_parse_def)
    then have "0 \<le> k \<and> (\<forall>m \<in> set (take (nat k) L). asked m ?db2)"
      using assms(1) s grows_asked [OF g] by (auto simp: walk_resumable_def)
    then show ?thesis
      using s saved g by (simp add: st_def walk_begin_def walk_at_def)
  next
    case False
    then have "wk_cursor st = Some 0" "wk_limit st = bp_limit b"
      by (auto simp: st_def walk_begin_def split: option.splits)
    then show ?thesis
      using saved g by (simp add: walk_at_def)
  qed
qed

lemma walk_at_resumable: "walk_at C b L k st db \<Longrightarrow> walk_resumable C b L db"
  by (simp add: walk_at_def walk_resumable_def)

lemma take_within:
  assumes "take (nat k) L = L \<or> int n \<le> k"
  shows "set (take n L) \<subseteq> set (take (nat k) L)"
proof (cases "take (nat k) L = L")
  case True
  then show ?thesis
    by (metis set_take_subset)
next
  case False
  then show ?thesis
    using assms by (intro set_take_subset_set_take) simp
qed

text \<open>C28. A walk of a player's history never skips a match, however its runs are cut short by errors, yields or crashes and resumed: whenever a run ends, everything above the cursor it saved is archived or asked for, so the next run may go on from there; and when a run succeeds, everything down to the walk's limit is, and no cursor is left. Riot's list of matches is \<open>L\<close>, newest first.\<close>

theorem backfill_never_skips:
  assumes "backfill_player C b fr envs db = (r, db')" "walk_resumable C b L db"
    and "\<And>st. ac_state_parse C (ac_state_json C st) = Some st" "list_all (walk_env_ok C b L) envs"
    and "walk_others C (bp_puuid b) (wf_upsert fr)" "walk_others C (bp_puuid b) (wf_first_save fr)" "walk_others C (bp_puuid b) (wf_last_save fr)"
  shows "walk_resumable C b L db' \<and>
    (r = Some (Inr ()) \<longrightarrow> list_all (\<lambda>m. asked m db') (take (bp_limit b) L) \<and>
       (\<exists>st. saved_walk C (bp_puuid b) db' = Some (Some st) \<and> wk_cursor st = None))"
proof (cases "platform_parse (bp_platform b)")
  case (Inl e)
  then show ?thesis
    using assms(1,2) by (auto simp: backfill_player_def)
next
  case (Inr plat)
  define u where "u = \<lparr>up_puuid = bp_puuid b, up_platform = platform_as_str plat, up_game_name = None, up_tag_line = None, up_tracked = None\<rparr>"
  define db1 where "db1 = wf_upsert fr db"
  obtain player rows where up: "players_upsert (ac_scope C) u (wf_now fr) (tk_players db1) = (player, rows)"
    by fastforce
  define st where "st = walk_begin b (wf_started fr) (backfill_state_parse C (py_backfill player))"
  define db2 where "db2 = walk_save C (bp_puuid b) st (wf_first_save fr (db1\<lparr>tk_players := rows\<rparr>))"
  have "walk_resumable C b L db1"
    using assms(2) saved_others [OF assms(5), of db] grows_asked [OF others_grows, of "wf_upsert fr"] assms(5)
    by (auto simp: db1_def walk_resumable_def walk_others_def)
  then obtain k where k: "wk_cursor st = Some k" "wk_limit st = bp_limit b" "walk_at C b L k st db2"
    using walk_begins [OF _ assms(3) up _ assms(6) st_def] by (auto simp: u_def db2_def)
  obtain r2 st2 db3 where pages: "walk_pages C b k st envs db2 = (r2, st2, db3)"
    by (cases "walk_pages C b k st envs db2") auto
  obtain k2 where k2: "walk_at C b L k2 st2 db3" "r2 = Some (Inr True) \<Longrightarrow> take (nat k2) L = L" "r2 = Some (Inr False) \<Longrightarrow> int (bp_limit b) \<le> k2"
    using walk_pages_sound [OF _ assms(3) pages k(3)] assms(4) by (auto simp: list_all_iff)
  note run = assms(1) [unfolded backfill_player_def Inr sum.case Let_def, folded db1_def u_def, unfolded up prod.case, folded st_def, unfolded k(1) option.case,
      folded db2_def, unfolded pages prod.case]
  show ?thesis
  proof (cases "\<exists>ran_out. r2 = Some (Inr ran_out)")
    case False
    then have "db' = db3" "r \<noteq> Some (Inr ())"
      using run by (auto split: option.splits sum.splits)
    then show ?thesis
      using walk_at_resumable [OF k2(1)] by simp
  next
    case True
    then obtain ran_out where "r2 = Some (Inr ran_out)"
      by blast
    moreover define st3 where "st3 = (if walk_complete C b ran_out then st2\<lparr>wk_done_at := Some (wf_done fr)\<rparr> else st2)\<lparr>wk_cursor := None\<rparr>"
    ultimately have db': "db' = walk_save C (bp_puuid b) st3 (wf_last_save fr db3)"
      using run by auto
    have last: "saved_walk C (bp_puuid b) (wf_last_save fr db3) = Some (Some st2)" "grows db3 (wf_last_save fr db3)"
      using walk_at_others [OF k2(1) assms(7)] by (simp_all add: walk_at_def)
    have saved: "saved_walk C (bp_puuid b) db' = Some (Some st3)"
      unfolding db' using last by (intro saved_save assms(3)) simp
    have "take (nat k2) L = L \<or> int (bp_limit b) \<le> k2"
      using k2(2,3) \<open>r2 = Some (Inr ran_out)\<close> by (cases ran_out) auto
    moreover have "grows db3 db'"
      using grows_trans [OF last(2) grows_save] by (simp add: db')
    ultimately have "list_all (\<lambda>m. asked m db') (take (bp_limit b) L)"
      using k2(1) grows_asked take_within by (fastforce simp: walk_at_def list_all_iff)
    then show ?thesis
      using saved by (simp add: walk_resumable_def st3_def)
  qed
qed

text \<open>For the witness, a text for every state: there are countably many.\<close>

instance backfill_state_ext :: (countable) countable
proof
  have "inj (\<lambda>s :: 'a backfill_state_ext. (wk_started_at s, wk_done_at s, wk_depth s, wk_cursor s, wk_limit s, backfill_state.more s))"
    by (rule injI) (auto intro: backfill_state.equality)
  then show "\<exists>f :: 'a backfill_state_ext \<Rightarrow> nat. inj f"
    using inj_compose [OF inj_to_nat] by blast
qed

definition sample_archive_ctx :: archive_ctx where
  "sample_archive_ctx =
     \<lparr>ac_scope = ''s'', ac_archive_timelines = True, ac_lookup_backfill_limit = 1, ac_json = (\<lambda>_. ''{}''),
      ac_state_json = (\<lambda>st. replicate (to_nat st) CHR ''1''), ac_state_parse = (\<lambda>t. Some (from_nat (length t))),
      ac_asks = (\<lambda>_. True), ac_ask = (\<lambda>t. t), ac_db_error = (\<lambda>_. ''db'')\<rparr>"

abbreviation sample_walk :: backfill_payload where
  "sample_walk \<equiv> \<lparr>bp_puuid = ''p'', bp_platform = ''oc1'', bp_limit = 1, bp_timeline = None, bp_queue_id = None, bp_reason = None\<rparr>"

definition sample_walk_env :: walk_env where
  "sample_walk_env =
     \<lparr>we_before = (\<lambda>db. db),
      we_answer = (\<lambda>q. if q = walk_request sample_walk 0 1 then Inr (Inr [''OC1_1'']) else Inr (Inl ''eof'')),
      we_during = (\<lambda>db. db), we_queue = (\<lambda>db. db), we_save = (\<lambda>db. db), we_clock = \<lparr>c_instant = 0, c_unix_ms = 0\<rparr>,
      we_ids = (\<lambda>k. ''j'')\<rparr>"

definition quiet_frame :: walk_frame where
  "quiet_frame = \<lparr>wf_upsert = (\<lambda>db. db), wf_now = 1, wf_started = 1, wf_first_save = (\<lambda>db. db), wf_last_save = (\<lambda>db. db), wf_done = 2\<rparr>"

lemma show_int_eq: "show_int a = show_int b \<longleftrightarrow> a = b"
proof -
  have "\<not> is_digit CHR ''-''"
    by (simp add: is_digit_def)
  then have "show_nat n \<noteq> CHR ''-'' # s" for n s
    using show_nat_set by (metis list.set_intros(1))
  moreover have "show_nat m = show_nat n \<longleftrightarrow> m = n" for m n
    by (metis digits_val_show)
  ultimately show ?thesis
    by (auto simp: show_int_def nat_eq_iff) (metis)+
qed

theorem backfill_never_skips_witness:
  "\<exists>db'. backfill_player sample_archive_ctx sample_walk quiet_frame [sample_walk_env] sample_track_db = (Some (Inr ()), db') \<and> asked ''OC1_1'' db'"
proof -
  have others: "walk_others C p (\<lambda>db. db)" for C p
    by (simp add: walk_others_def)
  have ok: "walk_env_ok sample_archive_ctx sample_walk [''OC1_1''] sample_walk_env"
    by (auto simp: show_int_eq walk_env_ok_def walk_pages_of_def sample_walk_env_def others walk_request_def)
  have parse: "ac_state_parse sample_archive_ctx (ac_state_json sample_archive_ctx st) = Some st" for st
    by (simp add: sample_archive_ctx_def)
  have plat: "platform_parse ''oc1'' = Inr Oc1"
    by code_simp
  obtain r db' where run: "backfill_player sample_archive_ctx sample_walk quiet_frame [sample_walk_env] sample_track_db = (r, db')"
    by (cases "backfill_player sample_archive_ctx sample_walk quiet_frame [sample_walk_env] sample_track_db")
  have r: "r = Some (Inr ())"
    using run plat
    by (simp add: backfill_player_def quiet_frame_def players_upsert_def sample_track_db_def sample_player_def players_get_def py_key_def
        sample_archive_ctx_def upserted_def backfill_state_parse_def walk_begin_def walk_pages.simps(2) sample_walk_env_def BACKFILL_PAGE_def
        enqueue_all_def with_ids_def walk_save_def write_player_def Let_def)
  have "walk_resumable sample_archive_ctx sample_walk [''OC1_1''] sample_track_db"
    by (simp add: walk_resumable_def saved_walk_def sample_track_db_def sample_player_def players_get_def py_key_def sample_archive_ctx_def
        backfill_state_parse_def)
  from backfill_never_skips [OF run this parse] have "asked ''OC1_1'' db'"
    using ok others by (simp add: r quiet_frame_def)
  then show ?thesis
    using run r by simp
qed

section \<open>Catching up\<close>

lemma promote_keeps:
  assumes "enqueue_or_promote_on json_text field nid nj now_ms rows = (Inr out, rows')"
  shows "(\<lambda>r. (j_kind r, j_dedupe r)) ` set rows \<subseteq> (\<lambda>r. (j_kind r, j_dedupe r)) ` set rows'"
    and "nj_dedupe nj = Some key \<Longrightarrow> (nj_kind nj, Some key) \<in> (\<lambda>r. (j_kind r, j_dedupe r)) ` set rows'"
proof -
  obtain rows1 where on: "enqueue_on json_text field nid nj now_ms rows = (Inr out, rows1)"
    and same: "map (\<lambda>r. (j_kind r, j_dedupe r)) rows' = map (\<lambda>r. (j_kind r, j_dedupe r)) rows1"
    using assms by (auto simp: enqueue_or_promote_on_def update_rows_def Let_def split: sum.splits prod.splits if_splits)
  have eq: "(\<lambda>r. (j_kind r, j_dedupe r)) ` set rows' = (\<lambda>r. (j_kind r, j_dedupe r)) ` set rows1"
    by (metis same set_map)
  obtain new where "rows1 = rows @ new"
    using enqueue_on_rows [OF on] by blast
  then show "(\<lambda>r. (j_kind r, j_dedupe r)) ` set rows \<subseteq> (\<lambda>r. (j_kind r, j_dedupe r)) ` set rows'"
    by (auto simp: eq)
  show "(nj_kind nj, Some key) \<in> (\<lambda>r. (j_kind r, j_dedupe r)) ` set rows'" if "nj_dedupe nj = Some key"
    using enqueue_on_key [OF on that] unfolding eq by (force simp: list_ex_iff holds_key_def)
qed

text \<open>A match is settled when both halves that are wanted are archived or a job asks for it.\<close>

definition half_settled :: "bool \<Rightarrow> string \<Rightarrow> track_db \<Rightarrow> bool" where
  "half_settled want m db = (\<not> misses_half want m db \<or> has_job ARCHIVE_MATCH m db)"

lemma grows_settled: "grows db db' \<Longrightarrow> half_settled want m db \<Longrightarrow> half_settled want m db'"
  by (auto simp: half_settled_def misses_half_def grows_def has_job_def)

lemma missing_half_settles:
  assumes "queue_missing_half_on C m want prio nid now_ms db = Inr (lifted, db')"
  shows "grows db db'" "half_settled want m db'" "lifted = misses_half want m db"
proof -
  show "lifted = misses_half want m db"
    using assms by (auto simp: queue_missing_half_on_def split: if_splits sum.splits prod.splits)
  have "grows db db' \<and> half_settled want m db'"
  proof (cases "misses_half want m db")
    case False
    then show ?thesis
      using assms by (auto simp: queue_missing_half_on_def half_settled_def)
  next
    case True
    let ?keys = "\<lambda>rows. (\<lambda>r. (j_kind r, j_dedupe r)) ` set rows"
    let ?ask = "\<lambda>out. map (\<lambda>r. if j_id r = en_id out \<and> j_state r = Pending then r\<lparr>j_payload := ac_ask C (j_payload r)\<rparr> else r)"
    have unfolded: "(case enqueue_or_promote_on (ac_json C) track_field nid (half_job m prio) now_ms (tk_jobs db) of
           (Inl e, _) \<Rightarrow> Inl e
         | (Inr out, rows) \<Rightarrow> Inr (True, db\<lparr>tk_jobs := if en_created out then rows else ?ask out rows\<rparr>)) = Inr (lifted, db')"
      using assms True unfolding queue_missing_half_on_def by simp
    obtain out rows where e: "enqueue_or_promote_on (ac_json C) track_field nid (half_job m prio) now_ms (tk_jobs db) = (Inr out, rows)"
      using unfolded by (cases "enqueue_or_promote_on (ac_json C) track_field nid (half_job m prio) now_ms (tk_jobs db)")
        (auto split: sum.splits)
    define rows' where "rows' = (if en_created out then rows else ?ask out rows)"
    have db': "db' = db\<lparr>tk_jobs := rows'\<rparr>"
      using unfolded by (simp add: e rows'_def)
    have "map (\<lambda>r. (j_kind r, j_dedupe r)) rows' = map (\<lambda>r. (j_kind r, j_dedupe r)) rows"
      by (simp add: rows'_def)
    then have same: "?keys rows' = ?keys rows"
      by (metis set_map)
    have "nj_dedupe (half_job m prio) = Some m" "nj_kind (half_job m prio) = ARCHIVE_MATCH"
      by (simp_all add: half_job_def new_job_dedupe_def new_job_new_def)
    then have "(ARCHIVE_MATCH, Some m) \<in> ?keys rows" "?keys (tk_jobs db) \<subseteq> ?keys rows"
      using promote_keeps [OF e] by metis+
    then have "(ARCHIVE_MATCH, Some m) \<in> ?keys rows'" "?keys (tk_jobs db) \<subseteq> ?keys rows'"
      by (simp_all only: same)
    then show ?thesis
      unfolding db' by (simp add: grows_def half_settled_def has_job_def)
  qed
  then show "grows db db'" "half_settled want m db'"
    by simp_all
qed

lemma queue_halves_settles:
  "queue_halves C want nid now_ms ms (n, db) = Inr (k, db') \<Longrightarrow> grows db db' \<and> list_all (\<lambda>m. half_settled want m db') ms"
proof (induction ms arbitrary: n db)
  case (Cons m ms)
  obtain lifted db1 where one: "queue_missing_half_on C m want PRIORITY_CATCH_UP (nid m) now_ms db = Inr (lifted, db1)"
    and rest: "queue_halves C want nid now_ms ms (n + (if lifted then 1 else 0), db1) = Inr (k, db')"
    using Cons.prems by (auto split: sum.splits)
  note step = missing_half_settles [OF one]
  show ?case
    using Cons.IH [OF rest] step(1,2) grows_trans grows_settled by auto
qed simp

lemma catch_up_settles:
  assumes "\<forall>(f, t, nid) \<in> set rounds. tasks_keep f" "catch_up C want chs rounds n db = (Some (Inr k), db')"
  shows "grows db db' \<and> list_all (\<lambda>m. half_settled want m db') (concat chs)"
  using assms
proof (induction C want chs rounds n db rule: catch_up.induct)
  case (3 C want ch chs f now_ms nid rounds n db)
  obtain j db2 where one: "queue_halves C want nid now_ms ch (0, f db) = Inr (j, db2)"
    and rest: "catch_up C want chs rounds (n + j) db2 = (Some (Inr k), db')"
    using "3.prems"(2) by (auto simp: Let_def split: sum.splits)
  have later: "grows db2 db'" "list_all (\<lambda>m. half_settled want m db') (concat chs)"
    using "3.IH" [OF refl one refl] "3.prems"(1) rest by simp_all
  have first: "grows db (f db)"
    using "3.prems"(1) by (simp add: others_grows)
  note now = queue_halves_settles [OF one]
  have "list_all (\<lambda>m. half_settled want m db') ch"
    using now grows_settled [OF later(1)] by (metis list_all_iff)
  moreover have "grows db db'"
    using grows_trans [OF grows_trans [OF first] later(1)] now by blast
  ultimately show ?case
    using later(2) by simp
qed simp_all

lemma concat_chunks: "0 < n \<Longrightarrow> concat (chunks n xs) = xs"
proof (induction n xs rule: chunks.induct)
  case (1 n xs)
  then show ?case
    by (subst chunks.simps) auto
qed



end
