(* ===== verification/Crawl_Props.thy ===== *)
theory Crawl_Props
  imports Crawl
begin

text \<open>
  The ladder crawl as a state machine: the transactions of its jobs as steps, the invariant of its tables, how a crawl
  moves through its stages and ends, and what its jobs promise.
\<close>

section \<open>Runs\<close>

text \<open>Every transaction on the tables is a step; the queue's own operations change the jobs in any way.\<close>

inductive crawl_step :: "ladder_ctx \<Rightarrow> ladder_db \<Rightarrow> ladder_db \<Rightarrow> bool" for C where
  Start: "crawl_step C db (snd (start_crawl C scope tf req i nid now_ms db))"
| Page: "crawl_step C db (write_page pg db)"
| End: "crawl_step C db (snd (end_leg C stamped nid nid' now_ms i leg failed db))"
| Orphans: "crawl_step C db (snd (fail_orphaned C nid now_ms db))"
| Cancel: "crawl_step C db (snd (cancel_crawl extract scope i now_ms db))"
| Ids: "crawl_step C db (snd (add_match_ids i ms db))"
| Hand: "hand_over C leg archived batch unarchived nid now_ms db = Inr db' \<Longrightarrow> crawl_step C db db'"
| Walk_started: "crawl_step C db (mark_walk_started scope p now_ms db)"
| Walk_complete: "crawl_step C db (mark_walk_complete scope p depth now_ms db)"
| Stamp: "crawl_step C db (stamp_cursor scope plat queue p began_at db)"
| Bump: "crawl_step C db (bump i k n db)"
| Jobs: "crawl_step C db (db\<lparr>ld_jobs := rows\<rparr>)"

definition empty_ladder :: ladder_db where
  "empty_ladder = \<lparr>ld_crawls = [], ld_legs = [], ld_ids = [], ld_entries = [], ld_players = [], ld_jobs = []\<rparr>"

inductive crawl_reachable :: "ladder_ctx \<Rightarrow> ladder_db \<Rightarrow> bool" for C where
  Init: "crawl_reachable C empty_ladder"
| Step: "crawl_reachable C db \<Longrightarrow> crawl_step C db db' \<Longrightarrow> crawl_reachable C db'"

section \<open>The invariant\<close>

text \<open>The legs of a phase.\<close>

fun leg_of_phase :: "crawl_phase \<Rightarrow> string \<Rightarrow> bool" where
  "leg_of_phase Enumerate leg = (\<exists>t d. leg = LADDER_APEX @ '':'' @ t \<or> leg = LADDER_WALK @ '':'' @ t @ '':'' @ d)"
| "leg_of_phase Collect leg = (\<exists>n. leg = LADDER_COLLECT @ '':'' @ show_nat n)"
| "leg_of_phase Archive leg = (leg = LADDER_ARCHIVE)"

definition crawl_ok :: "crawl \<Rightarrow> bool" where
  "crawl_ok c =
     ((cr_finished_at c = None) = (cr_status c = Crawling) \<and> 0 \<le> cr_legs_failed c \<and> (cr_status c = Completed \<longrightarrow> cr_legs_failed c = 0))"

definition one_per_ladder :: "crawl list \<Rightarrow> bool" where
  "one_per_ladder cs =
     (\<forall>c \<in> set cs. \<forall>d \<in> set cs. cr_status c = Crawling \<and> cr_status d = Crawling \<and>
        same_ladder (cr_scope d) (cr_platform d) (cr_queue d) c \<longrightarrow> c = d)"

text \<open>The crawls in \<open>X\<close> may be without a leg for the moment.\<close>

abbreviation leg_pairs :: "ladder_db \<Rightarrow> (string \<times> string) set" where
  "leg_pairs db \<equiv> (\<lambda>l. (lg_crawl l, lg_leg l)) ` set (ld_legs db)"

definition leg_fits :: "crawl list \<Rightarrow> string \<Rightarrow> string \<Rightarrow> bool" where
  "leg_fits cs i leg = (\<exists>c \<in> set cs. cr_id c = i \<and> cr_status c = Crawling \<and> leg_of_phase (cr_phase c) leg)"

definition has_leg :: "ladder_db \<Rightarrow> string \<Rightarrow> bool" where
  "has_leg db i = (\<exists>leg. (i, leg) \<in> leg_pairs db)"

definition crawl_inv_but :: "string set \<Rightarrow> ladder_db \<Rightarrow> bool" where
  "crawl_inv_but X db =
     (distinct (map cr_id (ld_crawls db)) \<and> distinct (map (\<lambda>l. (lg_crawl l, lg_leg l)) (ld_legs db)) \<and>
      list_all crawl_ok (ld_crawls db) \<and> one_per_ladder (ld_crawls db) \<and>
      (\<forall>i leg. (i, leg) \<in> leg_pairs db \<longrightarrow> leg_fits (ld_crawls db) i leg) \<and>
      (\<forall>c \<in> set (ld_crawls db). cr_status c = Crawling \<and> cr_id c \<notin> X \<longrightarrow> has_leg db (cr_id c)))"

abbreviation crawl_inv :: "ladder_db \<Rightarrow> bool" where
  "crawl_inv \<equiv> crawl_inv_but {}"

text \<open>Steps that leave what the invariant speaks of alone.\<close>

definition crawl_core :: "crawl \<Rightarrow> string \<times> string \<times> string \<times> string \<times> crawl_status \<times> crawl_phase \<times> int option \<times> int" where
  "crawl_core c = (cr_id c, cr_scope c, cr_platform c, cr_queue c, cr_status c, cr_phase c, cr_finished_at c, cr_legs_failed c)"

definition same_core :: "ladder_db \<Rightarrow> ladder_db \<Rightarrow> bool" where
  "same_core db db' =
     (\<exists>f g. ld_crawls db' = map f (ld_crawls db) \<and> (\<forall>c. crawl_core (f c) = crawl_core c) \<and>
        ld_legs db' = map g (ld_legs db) \<and> (\<forall>l. lg_crawl (g l) = lg_crawl l \<and> lg_leg (g l) = lg_leg l))"

lemma same_coreI:
  assumes "ld_crawls db' = map f (ld_crawls db)" "\<And>c. crawl_core (f c) = crawl_core c"
    and "ld_legs db' = map g (ld_legs db)" "\<And>l. lg_crawl (g l) = lg_crawl l" "\<And>l. lg_leg (g l) = lg_leg l"
  shows "same_core db db'"
  unfolding same_core_def using assms by blast

lemma same_core_same: "ld_crawls db' = ld_crawls db \<Longrightarrow> ld_legs db' = ld_legs db \<Longrightarrow> same_core db db'"
  by (rule same_coreI [where f = "\<lambda>c. c" and g = "\<lambda>l. l"]) simp_all

lemma same_core_trans:
  assumes "same_core a b" "same_core b c"
  shows "same_core a c"
proof -
  obtain f g f' g' where "ld_crawls b = map f (ld_crawls a)" "\<forall>c. crawl_core (f c) = crawl_core c"
    "ld_legs b = map g (ld_legs a)" "\<forall>l. lg_crawl (g l) = lg_crawl l \<and> lg_leg (g l) = lg_leg l"
    "ld_crawls c = map f' (ld_crawls b)" "\<forall>c. crawl_core (f' c) = crawl_core c"
    "ld_legs c = map g' (ld_legs b)" "\<forall>l. lg_crawl (g' l) = lg_crawl l \<and> lg_leg (g' l) = lg_leg l"
    using assms unfolding same_core_def by blast
  then show ?thesis
    by (intro same_coreI [of _ "f' \<circ> f" _ "g' \<circ> g"]) simp_all
qed

lemma same_core_update:
  assumes "\<And>c. crawl_core (f c) = crawl_core c"
  shows "same_core db (update_crawls p f db)"
  by (rule same_coreI [where f = "\<lambda>c. if p c then f c else c" and g = "\<lambda>l. l"]) (auto simp: update_crawls_def assms)

lemma crawl_inv_core:
  assumes "crawl_inv_but X db" "same_core db db'"
  shows "crawl_inv_but X db'"
proof -
  obtain f g where f: "ld_crawls db' = map f (ld_crawls db)" "\<And>c. crawl_core (f c) = crawl_core c"
    and g: "ld_legs db' = map g (ld_legs db)" "\<And>l. lg_crawl (g l) = lg_crawl l" "\<And>l. lg_leg (g l) = lg_leg l"
    using assms(2) unfolding same_core_def by blast
  have fields: "cr_id (f c) = cr_id c" "cr_scope (f c) = cr_scope c" "cr_platform (f c) = cr_platform c" "cr_queue (f c) = cr_queue c"
    "cr_status (f c) = cr_status c" "cr_phase (f c) = cr_phase c" "cr_finished_at (f c) = cr_finished_at c" "cr_legs_failed (f c) = cr_legs_failed c" for c
    using f(2) [of c] by (simp_all add: crawl_core_def)
  have "one_per_ladder (map f (ld_crawls db))"
    using assms(1) unfolding crawl_inv_but_def one_per_ladder_def same_ladder_def by (auto simp: fields)
  moreover have "list_all crawl_ok (map f (ld_crawls db))"
    using assms(1) by (simp add: crawl_inv_but_def crawl_ok_def list_all_iff fields)
  moreover have pairs: "leg_pairs db' = leg_pairs db" "map (\<lambda>l. (lg_crawl l, lg_leg l)) (ld_legs db') = map (\<lambda>l. (lg_crawl l, lg_leg l)) (ld_legs db)"
    by (simp_all add: g image_image)
  moreover have "leg_fits (ld_crawls db') i leg = leg_fits (ld_crawls db) i leg" "has_leg db' i = has_leg db i" for i leg
    by (simp_all only: leg_fits_def has_leg_def pairs(1)) (simp add: f(1) fields)
  moreover have "map cr_id (ld_crawls db') = map cr_id (ld_crawls db)"
    by (simp add: f(1) fields)
  ultimately show ?thesis
    using assms(1) unfolding crawl_inv_but_def by (simp only: f(1) set_map ball_simps fields simp_thms) blast
qed

lemma core_simps:
  "same_core db (bump i k n db)" "same_core db (mark_match_limit i limit db)" "same_core db (mark_capped i tier db)"
  "same_core db (drop_match_ids i ms db)" "same_core db (mark_walk_started scope p now_ms db)"
  "same_core db (mark_walk_complete scope p depth now_ms db)" "same_core db (stamp_cursor scope plat queue p began_at db)"
  "same_core db (db\<lparr>ld_jobs := rows\<rparr>)"
  by (auto simp: bump_def mark_match_limit_def mark_capped_def drop_match_ids_def mark_walk_started_def mark_walk_complete_def stamp_cursor_def
      update_player_def crawl_core_def intro: same_core_update same_core_same)

lemma same_core_ids: "same_core db (snd (add_match_ids i ms db))"
proof -
  have "ld_crawls (snd (fold (add_match_id i) ms st)) = ld_crawls (snd st) \<and> ld_legs (snd (fold (add_match_id i) ms st)) = ld_legs (snd st)" for st
    by (induction ms arbitrary: st) (simp_all add: add_match_id_def)
  then show ?thesis
    by (simp add: add_match_ids_def same_core_same)
qed

lemma same_core_queue: "queue_jobs C njs now_ms db = Inr db' \<Longrightarrow> same_core db db'"
  by (auto simp: queue_jobs_def core_simps split: sum.splits prod.splits)

lemma same_core_page: "same_core db (write_page pg db)"
proof -
  let ?db1 = "fold (store_entry pg) (pg_entries pg) db"
  have "ld_crawls (fold (store_entry pg) es db) = ld_crawls db \<and> ld_legs (fold (store_entry pg) es db) = ld_legs db" for es
    by (induction es arbitrary: db) (simp_all add: store_entry_def)
  then have 1: "same_core db ?db1"
    by (simp add: same_core_same)
  define db2 where "db2 = update_crawls (\<lambda>c. cr_id c = pg_crawl pg)
    (\<lambda>c. c\<lparr>cr_counters := (cr_counters c)\<lparr>pages_fetched := pages_fetched (cr_counters c) + 1,
      entries_seen := entries_seen (cr_counters c) + int (length (pg_entries pg)),
      players_discovered := players_discovered (cr_counters c) + int (length (pg_entries pg))\<rparr>\<rparr>) ?db1"
  have 2: "same_core db db2"
    unfolding db2_def by (rule same_core_trans [OF 1 same_core_update]) (simp add: crawl_core_def)
  define db3 where "db3 = (case pg_cursor pg of None \<Rightarrow> db2
    | Some (leg, nxt) \<Rightarrow> db2\<lparr>ld_legs := map (\<lambda>l. if is_leg (pg_crawl pg) leg l then l\<lparr>lg_cursor := Some nxt\<rparr> else l) (ld_legs db2)\<rparr>)"
  have "same_core db2 (db2\<lparr>ld_legs := map (\<lambda>l. if is_leg (pg_crawl pg) leg l then l\<lparr>lg_cursor := Some nxt\<rparr> else l) (ld_legs db2)\<rparr>)" for leg nxt
    by (rule same_coreI [where f = "\<lambda>c. c" and g = "\<lambda>l. if is_leg (pg_crawl pg) leg l then l\<lparr>lg_cursor := Some nxt\<rparr> else l"]) auto
  then have 3: "same_core db db3"
    using same_core_trans [OF 2] 2 by (auto simp: db3_def split: option.split)
  have "write_page pg db = (case pg_apex_tier pg of None \<Rightarrow> db3
      | Some tier \<Rightarrow> if RIOT_APEX_LIST_CAP \<le> length (pg_entries pg) then mark_capped (pg_crawl pg) tier db3 else db3)"
    unfolding write_page_def Let_def db3_def db2_def ..
  then show ?thesis
    using 3 same_core_trans [OF 3 core_simps(3)] by (auto split: option.split)
qed

lemmas core_chain = core_simps [THEN [2] same_core_trans]

lemma same_core_hand: "hand_over C leg archived batch unarchived nid now_ms db = Inr db' \<Longrightarrow> same_core db db'"
  by (auto simp: hand_over_def Let_def split: sum.splits if_splits intro!: core_chain intro: same_core_queue)

section \<open>Starting and ending\<close>

lemma list_all_mapI: "(\<And>x. x \<in> set xs \<Longrightarrow> P (f x)) \<Longrightarrow> list_all P (map f xs)"
  by (simp add: list_all_iff)

lemma add_legs_fields:
  "ld_crawls (add_legs i legs db) = ld_crawls db" "ld_jobs (add_legs i legs db) = ld_jobs db"
  by (induction legs arbitrary: db) (simp_all add: add_legs_def add_leg_def)

lemma add_legs_Cons: "add_legs i (leg # legs) db = add_legs i legs (add_leg i leg db)"
  by (simp add: add_legs_def)

lemma add_legs_set:
  "(\<lambda>l. (lg_crawl l, lg_leg l)) ` set (ld_legs (add_legs i legs db)) = (\<lambda>l. (lg_crawl l, lg_leg l)) ` set (ld_legs db) \<union> Pair i ` set legs"
proof (induction legs arbitrary: db)
  case (Cons leg legs)
  show ?case
    unfolding add_legs_Cons Cons.IH by (auto simp: add_leg_def is_leg_def list_ex_iff)
qed (simp add: add_legs_def)

lemma add_legs_distinct:
  "distinct (map (\<lambda>l. (lg_crawl l, lg_leg l)) (ld_legs db)) \<Longrightarrow> distinct (map (\<lambda>l. (lg_crawl l, lg_leg l)) (ld_legs (add_legs i legs db)))"
proof (induction legs arbitrary: db)
  case (Cons leg legs)
  have "distinct (map (\<lambda>l. (lg_crawl l, lg_leg l)) (ld_legs (add_leg i leg db)))"
    using Cons.prems by (auto simp: add_leg_def is_leg_def list_ex_iff)
  then show ?case
    unfolding add_legs_Cons by (rule Cons.IH)
qed (simp add: add_legs_def)

lemma crawl_inv_add_legs:
  assumes "crawl_inv_but (insert i X) db" "legs \<noteq> []"
    and "\<And>leg. leg \<in> set legs \<Longrightarrow> leg_fits (ld_crawls db) i leg"
  shows "crawl_inv_but X (add_legs i legs db)"
  unfolding crawl_inv_but_def add_legs_fields has_leg_def add_legs_set
proof (intro conjI allI impI ballI)
  show "distinct (map (\<lambda>l. (lg_crawl l, lg_leg l)) (ld_legs (add_legs i legs db)))"
    using assms(1) by (intro add_legs_distinct) (simp add: crawl_inv_but_def)
next
  fix i' leg
  assume "(i', leg) \<in> leg_pairs db \<union> Pair i ` set legs"
  then show "leg_fits (ld_crawls db) i' leg"
    using assms(1,3) unfolding crawl_inv_but_def by blast
next
  fix c
  assume "c \<in> set (ld_crawls db)" "cr_status c = Crawling \<and> cr_id c \<notin> X"
  then show "\<exists>leg. (cr_id c, leg) \<in> leg_pairs db \<union> Pair i ` set legs"
    using assms(1) hd_in_set [OF assms(2)] unfolding crawl_inv_but_def has_leg_def by (cases "cr_id c = i") blast+
qed (use assms(1) in \<open>simp_all only: crawl_inv_but_def\<close>)

lemma crawl_inv_insert:
  assumes "crawl_inv db" "insert_crawl i scope plat queue tf now_ms db = (Some c, db')"
  shows "crawl_inv_but {i} db' \<and> c \<in> set (ld_crawls db') \<and> cr_id c = i \<and> cr_status c = Crawling \<and> cr_phase c = Enumerate \<and> ld_legs db' = ld_legs db"
proof -
  have c: "ld_crawls db' = ld_crawls db @ [c]" "ld_legs db' = ld_legs db" "cr_id c = i" "cr_status c = Crawling" "cr_phase c = Enumerate"
    "crawl_ok c" "same_ladder scope plat queue c" "\<And>d. d \<in> set (ld_crawls db) \<Longrightarrow> cr_id d \<noteq> i \<and> \<not> (same_ladder scope plat queue d \<and> cr_status d = Crawling)"
    using assms(2) by (auto simp: insert_crawl_def list_ex_iff crawl_ok_def same_ladder_def Let_def split: if_splits)
  have "one_per_ladder (ld_crawls db @ [c])"
    using assms(1) c(7,8) unfolding crawl_inv_but_def one_per_ladder_def by (auto simp: same_ladder_def)
  moreover have "leg_fits (ld_crawls db') i' leg" if "leg_fits (ld_crawls db) i' leg" for i' leg
    using that by (auto simp: leg_fits_def c(1))
  moreover have "has_leg db' = has_leg db"
    by (rule ext) (simp add: has_leg_def c(2))
  moreover have "cr_id c \<notin> cr_id ` set (ld_crawls db)"
    by (metis c(3,8) imageE)
  moreover note inv = assms(1) [unfolded crawl_inv_but_def]
  moreover have "leg_pairs db' = leg_pairs db"
    by (simp add: c(2))
  ultimately have "crawl_inv_but {i} db'"
    unfolding crawl_inv_but_def using c(3,6) by (simp add: c(1,2))
  then show ?thesis
    using c(1-5) by simp
qed

lemma crawl_inv_pending: "crawl_inv_but {i} db \<Longrightarrow> 0 < pending_legs i db \<Longrightarrow> crawl_inv db"
  by (fastforce simp: crawl_inv_but_def has_leg_def pending_legs_def filter_empty_conv)

lemma crawl_inv_not_running:
  "crawl_inv_but {i} db \<Longrightarrow> find (\<lambda>c. cr_id c = i \<and> cr_status c = Crawling) (ld_crawls db) = None \<Longrightarrow> crawl_inv db"
  by (auto simp: crawl_inv_but_def find_None_iff)

lemma find_crawl:
  assumes "distinct (map cr_id cs)" "c \<in> set cs" "cr_id c = i" "cr_status c = Crawling"
  shows "find (\<lambda>c. cr_id c = i \<and> cr_status c = Crawling) cs = Some c"
  using assms by (induction cs) (auto simp: image_iff)

lemma one_per_ladder_map:
  assumes "one_per_ladder cs" "\<And>c. cr_scope (f c) = cr_scope c" "\<And>c. cr_platform (f c) = cr_platform c" "\<And>c. cr_queue (f c) = cr_queue c"
    and "\<And>c. cr_status (f c) = Crawling \<Longrightarrow> cr_status c = Crawling"
  shows "one_per_ladder (map f cs)"
  unfolding one_per_ladder_def
proof (intro ballI impI)
  fix c' d'
  assume "c' \<in> set (map f cs)" "d' \<in> set (map f cs)"
    and run: "cr_status c' = Crawling \<and> cr_status d' = Crawling \<and> same_ladder (cr_scope d') (cr_platform d') (cr_queue d') c'"
  then obtain c d where cd: "c' = f c" "c \<in> set cs" "d' = f d" "d \<in> set cs"
    by auto
  then have "c = d"
    using assms(1) run unfolding one_per_ladder_def same_ladder_def by (simp add: assms(2-4)) (metis assms(5))
  then show "c' = d'"
    by (simp add: cd)
qed

text \<open>A change of the crawl \<open>i\<close>, which may lose legs; while it has one it keeps its status and phase.\<close>

lemma crawl_inv_map:
  assumes "crawl_inv_but {i} db" "ld_crawls db' = map f (ld_crawls db)"
    and f: "\<And>c. cr_id (f c) = cr_id c" "\<And>c. cr_scope (f c) = cr_scope c" "\<And>c. cr_platform (f c) = cr_platform c"
      "\<And>c. cr_queue (f c) = cr_queue c" "\<And>c. cr_status (f c) = Crawling \<Longrightarrow> cr_status c = Crawling"
      "\<And>c. c \<in> set (ld_crawls db) \<Longrightarrow> crawl_ok (f c)" "\<And>c. cr_id c \<noteq> i \<Longrightarrow> f c = c"
    and legs: "ld_legs db' = filter P (ld_legs db)" "\<And>l. lg_crawl l \<noteq> i \<Longrightarrow> P l"
      "\<And>l c. P l \<Longrightarrow> lg_crawl l = i \<Longrightarrow> cr_id c = i \<Longrightarrow> cr_status (f c) = cr_status c \<and> cr_phase (f c) = cr_phase c"
  shows "crawl_inv_but {i} db'"
  unfolding crawl_inv_but_def assms(2)
proof (intro conjI allI impI ballI)
  note inv = assms(1) [unfolded crawl_inv_but_def]
  show "distinct (map cr_id (map f (ld_crawls db)))"
    using inv by (simp add: f(1) comp_def)
  show "distinct (map (\<lambda>l. (lg_crawl l, lg_leg l)) (ld_legs db'))"
    using inv by (simp add: legs(1) distinct_map_filter)
  show "list_all crawl_ok (map f (ld_crawls db))"
    by (rule list_all_mapI) (rule f(6))
  show "one_per_ladder (map f (ld_crawls db))"
    using inv f(2-5) by (intro one_per_ladder_map) simp_all
next
  fix j leg
  assume "(j, leg) \<in> leg_pairs db'"
  then obtain l where l: "l \<in> set (ld_legs db)" "P l" "lg_crawl l = j" "lg_leg l = leg"
    by (auto simp: legs(1))
  then obtain c where c: "c \<in> set (ld_crawls db)" "cr_id c = j" "cr_status c = Crawling" "leg_of_phase (cr_phase c) leg"
    using assms(1) unfolding crawl_inv_but_def leg_fits_def by blast
  have "cr_status (f c) = cr_status c \<and> cr_phase (f c) = cr_phase c"
    using legs(3) [OF l(2)] f(7) [of c] c(2) l(3) by (cases "j = i") simp_all
  with c show "leg_fits (map f (ld_crawls db)) j leg"
    by (auto simp: leg_fits_def f(1) intro!: bexI [of _ c])
next
  fix c
  assume "c \<in> set (map f (ld_crawls db))" and c: "cr_status c = Crawling \<and> cr_id c \<notin> {i}"
  then obtain d where "d \<in> set (ld_crawls db)" "c = f d"
    by auto
  with c have "has_leg db (cr_id c)" "cr_id c \<noteq> i"
    using assms(1) f(1,5) by (simp_all add: crawl_inv_but_def)
  then show "has_leg db' (cr_id c)"
    using legs(2) by (fastforce simp: has_leg_def legs(1))
qed

lemma crawl_inv_finish:
  assumes "crawl_inv_but {i} db" "finish_crawl i st now_ms db = (r, db')" "st \<noteq> Crawling"
    and "st = Completed \<Longrightarrow> \<forall>c \<in> set (ld_crawls db). cr_id c = i \<longrightarrow> cr_legs_failed c = 0"
  shows "crawl_inv db'"
proof (cases "find (\<lambda>c. cr_id c = i \<and> cr_status c = Crawling) (ld_crawls db)")
  case None
  then show ?thesis
    using assms(2) crawl_inv_not_running [OF assms(1) None] by (simp add: finish_crawl_def)
next
  case (Some c)
  define f :: "crawl \<Rightarrow> crawl" where "f = (\<lambda>c. if cr_id c = i \<and> cr_status c = Crawling then c\<lparr>cr_status := st, cr_finished_at := Some now_ms\<rparr> else c)"
  have db': "ld_crawls db' = map f (ld_crawls db)" "ld_legs db' = filter (\<lambda>l. lg_crawl l \<noteq> i) (ld_legs db)"
    using assms(2) Some by (auto simp: finish_crawl_def update_crawls_def Let_def f_def)
  have "crawl_ok (f c)" if "c \<in> set (ld_crawls db)" for c
    using assms(1,3,4) that by (simp add: crawl_inv_but_def list_all_iff crawl_ok_def f_def)
  then have inv: "crawl_inv_but {i} db'"
    using assms(3) by (intro crawl_inv_map [OF assms(1) db'(1) _ _ _ _ _ _ _ db'(2)]) (simp_all add: f_def split: if_splits)
  have "\<not> (cr_id (f c) = i \<and> cr_status (f c) = Crawling)" for c
    using assms(3) by (simp add: f_def)
  then show ?thesis
    by (intro crawl_inv_not_running [OF inv]) (auto simp: db'(1) find_None_iff)
qed

abbreviation is_running :: "string \<Rightarrow> crawl \<Rightarrow> bool" where
  "is_running i c \<equiv> cr_id c = i \<and> cr_status c = Crawling"

definition to_phase :: "string \<Rightarrow> crawl_phase \<Rightarrow> ladder_db \<Rightarrow> ladder_db" where
  "to_phase i ph db = update_crawls (is_running i) (\<lambda>c. c\<lparr>cr_phase := ph\<rparr>) db"

lemma to_phase_fields:
  "ld_legs (to_phase i ph db) = ld_legs db" "ld_jobs (to_phase i ph db) = ld_jobs db"
  "ld_crawls (to_phase i ph db) = map (\<lambda>c. if is_running i c then c\<lparr>cr_phase := ph\<rparr> else c) (ld_crawls db)"
  by (simp_all add: to_phase_def update_crawls_def)

lemma to_phase_add_legs: "to_phase i ph (add_legs i legs db) = add_legs i legs (to_phase i ph db)"
proof (induction legs arbitrary: db)
  case (Cons leg legs)
  have "to_phase i ph (add_leg i leg db) = add_leg i leg (to_phase i ph db)"
    by (cases db) (simp add: add_leg_def to_phase_def update_crawls_def)
  then show ?case
    by (simp add: add_legs_Cons Cons.IH)
qed (simp add: add_legs_def)

lemma crawl_inv_to_phase:
  assumes "crawl_inv_but {i} db" "\<not> has_leg db i"
  shows "crawl_inv_but {i} (to_phase i ph db)"
proof -
  have "\<forall>l \<in> set (ld_legs db). lg_crawl l \<noteq> i"
    using assms(2) by (auto simp: has_leg_def image_iff)
  then have legs: "ld_legs (to_phase i ph db) = filter (\<lambda>l. lg_crawl l \<noteq> i) (ld_legs db)"
    by (simp add: to_phase_fields filter_id_conv)
  then show ?thesis
    using assms(1) by (intro crawl_inv_map [OF assms(1) to_phase_fields(3) _ _ _ _ _ _ _ legs])
      (simp_all add: crawl_inv_but_def list_all_iff crawl_ok_def split: if_splits)
qed

text \<open>The end of a stage: the next one's legs and jobs are added, and the phase is set.\<close>

lemma crawl_inv_next:
  assumes "crawl_inv_but {i} db" "\<not> has_leg db i" "c \<in> set (ld_crawls db)" "is_running i c"
    and "legs \<noteq> []" "\<And>leg. leg \<in> set legs \<Longrightarrow> leg_of_phase ph leg"
    and "queue_jobs C njs now_ms (add_legs i legs db) = Inr db'"
  shows "crawl_inv (to_phase i ph db')" "\<exists>c \<in> set (ld_crawls db'). is_running i c" "has_leg db' i"
proof -
  obtain rows where db': "db' = (add_legs i legs db)\<lparr>ld_jobs := rows\<rparr>"
    using assms(7) by (auto simp: queue_jobs_def split: sum.splits prod.splits)
  have "leg_fits (ld_crawls (to_phase i ph db)) i leg" if "leg \<in> set legs" for leg
    using assms(3,4,6) that unfolding leg_fits_def to_phase_fields by (intro bexI [of _ "c\<lparr>cr_phase := ph\<rparr>"]) (auto simp: image_iff)
  then have "crawl_inv (add_legs i legs (to_phase i ph db))"
    using crawl_inv_to_phase [OF assms(1,2)] assms(5) by (intro crawl_inv_add_legs) auto
  moreover have "to_phase i ph db' = (add_legs i legs (to_phase i ph db))\<lparr>ld_jobs := rows\<rparr>"
    unfolding db' to_phase_add_legs [symmetric] by (simp add: to_phase_def update_crawls_def)
  ultimately show "crawl_inv (to_phase i ph db')"
    using crawl_inv_core core_simps(8) by metis
  show "\<exists>c \<in> set (ld_crawls db'). is_running i c"
    using assms(3,4) by (auto simp: db' add_legs_fields)
  show "has_leg db' i"
    using assms(5) add_legs_set [of i legs db] by (cases legs) (auto simp: has_leg_def db')
qed

lemma map_sum_Inr: "map_sum id f x = Inr y \<longleftrightarrow> (\<exists>z. x = Inr z \<and> y = f z)"
  by (cases x) auto

lemma chunks_empty: "chunks n xs = [] \<longleftrightarrow> xs = [] \<or> n = 0"
  by (subst chunks.simps) simp

lemma has_leg_core: "same_core db db' \<Longrightarrow> has_leg db' i = has_leg db i"
proof -
  assume "same_core db db'"
  then obtain g where "ld_legs db' = map g (ld_legs db)" "\<And>l. lg_crawl (g l) = lg_crawl l" "\<And>l. lg_leg (g l) = lg_leg l"
    unfolding same_core_def by blast
  then show ?thesis
    by (simp add: has_leg_def image_image)
qed

lemma running_core:
  assumes "same_core db db'" "c \<in> set (ld_crawls db)"
  obtains d where "d \<in> set (ld_crawls db')" "crawl_core d = crawl_core c"
  using assms unfolding same_core_def by (metis image_eqI set_map)

lemma advance_inv:
  assumes "crawl_inv_but {i} db" "\<not> has_leg db i" "c \<in> set (ld_crawls db)" "is_running i c"
    and "advance C nid now_ms c db = Inr (st, db')"
  shows "st = Stage_complete \<and> db' = db \<or>
    (\<exists>ph. st = Stage_phase ph \<and> crawl_inv (to_phase i ph db') \<and> (\<exists>c \<in> set (ld_crawls db'). is_running i c) \<and> has_leg db' i \<and>
       (cr_phase c = Enumerate \<and> (ph = Collect \<or> ph = Archive) \<or> cr_phase c = Collect \<and> ph = Archive))"
proof -
  have next_arch: "crawl_inv (to_phase i Archive db')" "\<exists>c \<in> set (ld_crawls db'). is_running i c" "has_leg db' i"
    if x: "same_core db x" "queue_archive C c nid now_ms x = Inr db'" for x
  proof -
    obtain d where d: "d \<in> set (ld_crawls x)" "crawl_core d = crawl_core c"
      using running_core [OF x(1) assms(3)] by blast
    have "is_running i d" "cr_id c = i"
      using d(2) assms(4) by (auto simp: crawl_core_def)
    then show "crawl_inv (to_phase i Archive db')" "\<exists>c \<in> set (ld_crawls db'). is_running i c" "has_leg db' i"
      using crawl_inv_next [OF crawl_inv_core [OF assms(1) x(1)] _ d(1), of "[LADDER_ARCHIVE]" Archive] assms(2) has_leg_core [OF x(1)] x(2)
      by (simp_all add: queue_archive_def)
  qed
  have next_coll: "crawl_inv (to_phase i Collect db')" "\<exists>c \<in> set (ld_crawls db'). is_running i c" "has_leg db' i"
    if x: "same_core db x" "players \<noteq> []" "queue_jobs C njs now_ms (add_legs i (map collect_leg (collect_jobs c players)) x) = Inr db'" for x players njs
  proof -
    obtain d where d: "d \<in> set (ld_crawls x)" "crawl_core d = crawl_core c"
      using running_core [OF x(1) assms(3)] by blast
    have "map collect_leg (collect_jobs c players) \<noteq> []"
      using x(2) by (simp add: enumerate_eq_zip collect_jobs_def chunks_empty COLLECT_BATCH_def)
    moreover have "leg_of_phase Collect leg" if "leg \<in> set (map collect_leg (collect_jobs c players))" for leg
      using that by (auto simp: collect_leg_def)
    moreover have "is_running i d"
      using d(2) assms(4) by (auto simp: crawl_core_def)
    ultimately show "crawl_inv (to_phase i Collect db')" "\<exists>c \<in> set (ld_crawls db'). is_running i c" "has_leg db' i"
      using crawl_inv_next [OF crawl_inv_core [OF assms(1) x(1)] _ d(1) _ _ _ x(3)] assms(2) has_leg_core [OF x(1)] by blast+
  qed
  have i: "cr_id c = i"
    using assms(4) by simp
  have core: "same_core db (bump i a n (bump i b m db))" for a n b m
    by (intro core_chain core_simps)
  show ?thesis
  proof (cases "cr_phase c")
    case Enumerate
    then show ?thesis
      using assms(5) next_arch [OF core] next_coll [OF core]
      by (auto simp: advance_def Let_def i case_prod_unfold map_sum_Inr split: if_splits)
  next
    case Collect
    then show ?thesis
      using assms(5) next_arch [OF same_core_same [OF refl refl]] by (auto simp: advance_def Let_def map_sum_Inr)
  next
    case Archive
    then show ?thesis
      using assms(5) by (auto simp: advance_def Let_def)
  qed
qed

lemma challenger_above: "tf \<in> set tiers \<Longrightarrow> ''CHALLENGER'' \<in> set (tiers_at_or_above tf)"
proof -
  have "list_all (\<lambda>t. ''CHALLENGER'' \<in> set (tiers_at_or_above t)) tiers"
    by code_simp
  then show "tf \<in> set tiers \<Longrightarrow> ''CHALLENGER'' \<in> set (tiers_at_or_above tf)"
    by (simp add: list_all_iff)
qed

lemma fan_out_not_empty:
  assumes "tf \<in> set tiers"
  shows "fan_out i plat queue tf \<noteq> []"
proof -
  have "''CHALLENGER'' \<in> set APEX_TIERS"
    by (simp add: APEX_TIERS_def)
  then have "filter (\<lambda>t. t \<in> set APEX_TIERS) (tiers_at_or_above tf) \<noteq> []"
    using challenger_above [OF assms] by (auto simp: filter_empty_conv)
  then show ?thesis
    by (simp add: fan_out_def Let_def)
qed

lemma fan_out_fits: "j \<in> set (fan_out i plat queue tf) \<Longrightarrow> leg_of_phase Enumerate (leg_name j)"
  by (cases "lj_division j") (auto simp: leg_name_def)

lemma start_crawl_inv:
  assumes "crawl_inv db"
  shows "crawl_inv (snd (start_crawl C scope tf req i nid now_ms db))"
proof (cases "checked tf req")
  case (Inl e)
  then show ?thesis
    using assms by (simp add: start_crawl_def)
next
  case (Inr v)
  obtain p queue fl where v: "v = (p, queue, fl)"
    by (cases v)
  have fl: "fl \<in> set tiers"
    using Inr by (auto simp: checked_def v Let_def split: sum.splits if_splits)
  show ?thesis
  proof (cases "insert_crawl i scope (platform_as_str p) queue fl now_ms db")
    case (Pair r db1)
    show ?thesis
    proof (cases r)
      case None
      then show ?thesis
        using assms Pair Inr by (auto simp: start_crawl_def v Let_def split: option.splits)
    next
      case (Some c)
      let ?legs = "fan_out i (platform_as_str p) queue fl"
      note ins = crawl_inv_insert [OF assms Pair [unfolded Some]]
      have "crawl_inv (add_legs i (map leg_name ?legs) db1)"
        using ins fan_out_not_empty [OF fl] fan_out_fits
        by (intro crawl_inv_add_legs) (auto simp: leg_fits_def intro!: bexI [of _ c])
      then show ?thesis
        using assms Pair Inr Some crawl_inv_core same_core_queue by (simp add: start_crawl_def v Let_def split: sum.split)
    qed
  qed
qed

text \<open>The deletion of an outstanding leg, with the failure it may count.\<close>

definition drop_leg :: "string \<Rightarrow> string \<Rightarrow> bool \<Rightarrow> ladder_db \<Rightarrow> ladder_db" where
  "drop_leg i leg failed db =
     (let db1 = db\<lparr>ld_legs := filter (\<lambda>l. \<not> is_leg i leg l) (ld_legs db)\<rparr> in
      if failed then update_crawls (\<lambda>c. cr_id c = i) (\<lambda>c. c\<lparr>cr_legs_failed := cr_legs_failed c + 1\<rparr>) db1 else db1)"

lemma drop_leg_fields:
  "ld_legs (drop_leg i leg failed db) = filter (\<lambda>l. \<not> is_leg i leg l) (ld_legs db)"
  "ld_crawls (drop_leg i leg failed db) =
     map (\<lambda>c. if failed \<and> cr_id c = i then c\<lparr>cr_legs_failed := cr_legs_failed c + 1\<rparr> else c) (ld_crawls db)"
  by (auto simp: drop_leg_def update_crawls_def Let_def intro: map_idI [symmetric])

lemma leg_running:
  assumes "crawl_inv db" "list_ex (is_leg i leg) (ld_legs db)"
  obtains c where "c \<in> set (ld_crawls db)" "is_running i c" "leg_of_phase (cr_phase c) leg"
    "\<And>d. d \<in> set (ld_crawls db) \<Longrightarrow> cr_id d = i \<Longrightarrow> d = c"
proof -
  have "(i, leg) \<in> leg_pairs db"
    using assms(2) by (auto simp: list_ex_iff is_leg_def image_iff)
  then obtain c where c: "c \<in> set (ld_crawls db)" "is_running i c" "leg_of_phase (cr_phase c) leg"
    using assms(1) unfolding crawl_inv_but_def leg_fits_def by blast
  moreover have "d = c" if "d \<in> set (ld_crawls db)" "cr_id d = i" for d
    using assms(1) c(1,2) that by (simp add: crawl_inv_but_def distinct_map inj_on_def)
  ultimately show thesis
    using that by blast
qed

lemma crawl_inv_drop_leg:
  assumes "crawl_inv db" "list_ex (is_leg i leg) (ld_legs db)"
  shows "crawl_inv_but {i} (drop_leg i leg failed db)"
proof -
  obtain c where c: "c \<in> set (ld_crawls db)" "is_running i c" "\<And>d. d \<in> set (ld_crawls db) \<Longrightarrow> cr_id d = i \<Longrightarrow> d = c"
    by (rule leg_running [OF assms]) blast
  have "crawl_inv_but {i} db"
    using assms(1) by (simp add: crawl_inv_but_def)
  moreover have "crawl_ok (if failed \<and> cr_id d = i then d\<lparr>cr_legs_failed := cr_legs_failed d + 1\<rparr> else d)"
    if d: "d \<in> set (ld_crawls db)" for d
  proof -
    have "crawl_ok d" "cr_id d = i \<Longrightarrow> cr_status d = Crawling"
      using assms(1) d c(2) c(3) [OF d] by (auto simp: crawl_inv_but_def list_all_iff)
    then show ?thesis
      by (simp add: crawl_ok_def)
  qed
  ultimately show ?thesis
    by (intro crawl_inv_map [OF _ drop_leg_fields(2) _ _ _ _ _ _ _ drop_leg_fields(1)])
      (simp_all add: is_leg_def split: if_splits)
qed

lemma store_end_leg_drop:
  assumes "list_ex (is_leg i leg) (ld_legs db)"
  shows "store_end_leg i leg failed now_ms next db =
    (let db2 = drop_leg i leg failed db in
     if 0 < pending_legs i db2 then Inr (Nothing, db2)
     else
       (case find (is_running i) (ld_crawls db2) of
          None \<Rightarrow> Inr (Nothing, db2)
        | Some c \<Rightarrow>
            if 0 < cr_legs_failed c then Inr (as_finished (finish_crawl i Crawl_failed now_ms db2))
            else
              (case next c db2 of
                 Inl e \<Rightarrow> Inl e
               | Inr (Stage_complete, db3) \<Rightarrow> Inr (as_finished (finish_crawl i Completed now_ms db3))
               | Inr (Stage_phase ph, db3) \<Rightarrow>
                   (case find (is_running i) (ld_crawls db3) of
                      None \<Rightarrow> Inr (Nothing, db3)
                    | Some c3 \<Rightarrow> Inr (Phase (c3\<lparr>cr_phase := ph\<rparr>), to_phase i ph db3)))))"
  unfolding store_end_leg_def drop_leg_def to_phase_def Let_def using assms by simp

lemma find_running:
  assumes "find (is_running i) cs = Some c"
  shows "c \<in> set cs \<and> is_running i c"
  using assms by (auto simp: find_Some_iff)

lemma finish_inv:
  assumes "crawl_inv_but {i} db" "st \<noteq> Crawling"
    and "st = Completed \<Longrightarrow> \<forall>c \<in> set (ld_crawls db). cr_id c = i \<longrightarrow> cr_legs_failed c = 0"
  shows "crawl_inv (snd (as_finished (finish_crawl i st now_ms db)))"
  using crawl_inv_finish [OF assms(1) _ assms(2,3)] by (cases "finish_crawl i st now_ms db") (auto simp: as_finished_def split: option.split)

lemma stage_end_inv:
  assumes "crawl_inv_but {i} db" "\<not> has_leg db i" "find (is_running i) (ld_crawls db) = Some c"
    and "(if 0 < cr_legs_failed c then Inr (as_finished (finish_crawl i Crawl_failed now_ms db))
      else
        (case advance C nid now_ms c db of
           Inl e \<Rightarrow> Inl e
         | Inr (Stage_complete, db3) \<Rightarrow> Inr (as_finished (finish_crawl i Completed now_ms db3))
         | Inr (Stage_phase ph, db3) \<Rightarrow>
             (case find (is_running i) (ld_crawls db3) of
                None \<Rightarrow> Inr (Nothing, db3)
              | Some c3 \<Rightarrow> Inr (Phase (c3\<lparr>cr_phase := ph\<rparr>), to_phase i ph db3)))) = Inr (out, db')"
  shows "crawl_inv db'"
proof (cases "0 < cr_legs_failed c")
  case True
  then show ?thesis
    using assms(4) finish_inv [OF assms(1), of Crawl_failed now_ms] by simp
next
  case False
  have c: "c \<in> set (ld_crawls db)" "is_running i c"
    using find_running [OF assms(3)] by simp_all
  have "d = c" if "d \<in> set (ld_crawls db)" "cr_id d = i" for d
    using assms(1) c that by (simp add: crawl_inv_but_def distinct_map inj_on_def)
  moreover have "cr_legs_failed c = 0"
    using assms(1) c(1) False by (force simp: crawl_inv_but_def list_all_iff crawl_ok_def)
  ultimately have clean: "\<forall>d \<in> set (ld_crawls db). cr_id d = i \<longrightarrow> cr_legs_failed d = 0"
    by blast
  obtain st db3 where adv: "advance C nid now_ms c db = Inr (st, db3)"
    using assms(4) False by (auto split: sum.splits)
  from advance_inv [OF assms(1,2) c adv]
  consider "st = Stage_complete" "db3 = db"
    | ph where "st = Stage_phase ph" "crawl_inv (to_phase i ph db3)" "\<exists>c \<in> set (ld_crawls db3). is_running i c"
    by blast
  then show ?thesis
  proof cases
    case 1
    then show ?thesis
      using assms(4) False adv finish_inv [OF assms(1) _ clean, of Completed now_ms] by simp
  next
    case (2 ph)
    obtain c3 where "find (is_running i) (ld_crawls db3) = Some c3"
      using 2(3) by (cases "find (is_running i) (ld_crawls db3)") (auto simp: find_None_iff)
    with 2 show ?thesis
      using assms(4) False adv by simp
  qed
qed

lemma store_end_leg_inv:
  assumes "crawl_inv db" "store_end_leg i leg failed now_ms (advance C nid now_ms) db = Inr (out, db')"
  shows "crawl_inv db'"
proof (cases "list_ex (is_leg i leg) (ld_legs db)")
  case True
  define db2 where "db2 = drop_leg i leg failed db"
  have inv2: "crawl_inv_but {i} db2"
    unfolding db2_def by (rule crawl_inv_drop_leg [OF assms(1) True])
  note eq = assms(2) [unfolded store_end_leg_drop [OF True] Let_def db2_def [symmetric]]
  show ?thesis
  proof (cases "0 < pending_legs i db2")
    case True
    then show ?thesis
      using eq crawl_inv_pending [OF inv2] by simp
  next
    case False
    then have no: "\<not> has_leg db2 i"
      by (auto simp: has_leg_def pending_legs_def filter_empty_conv)
    show ?thesis
    proof (cases "find (is_running i) (ld_crawls db2)")
      case None
      then show ?thesis
        using eq False crawl_inv_not_running [OF inv2 None] by simp
    next
      case (Some c)
      then show ?thesis
        using stage_end_inv [OF inv2 no Some] eq False by simp
    qed
  qed
qed (use assms in \<open>simp add: store_end_leg_def\<close>)

lemma finish_each_inv: "crawl_inv db \<Longrightarrow> crawl_inv (snd (finish_each is now_ms db))"
proof (induction "is" arbitrary: db)
  case (Cons i "is")
  have "crawl_inv_but {i} db"
    using Cons.prems by (simp add: crawl_inv_but_def)
  then have "crawl_inv (snd (finish_crawl i Crawl_failed now_ms db))"
    by (intro crawl_inv_finish) (auto simp: prod_eq_iff)
  then show ?case
    using Cons.IH [of "snd (finish_crawl i Crawl_failed now_ms db)"] by (simp add: case_prod_unfold)
qed simp

lemma crawl_inv_queue: "crawl_inv db \<Longrightarrow> queue_jobs C njs now_ms db = Inr db' \<Longrightarrow> crawl_inv db'"
  by (rule crawl_inv_core [OF _ same_core_queue])

lemma crawl_inv_step: "crawl_step C db db' \<Longrightarrow> crawl_inv db \<Longrightarrow> crawl_inv db'"
proof (induction rule: crawl_step.induct)
  case (Start db scope tf req i nid now_ms)
  then show ?case
    by (rule start_crawl_inv)
next
  case (Page db pg)
  then show ?case
    by (rule crawl_inv_core [OF _ same_core_page])
next
  case (End db stamped nid nid' now_ms i leg failed)
  then show ?case
    by (auto dest: store_end_leg_inv [OF End] crawl_inv_queue [rotated] simp: end_leg_def split: sum.split prod.split ended.split)
next
  case (Orphans db nid now_ms)
  then show ?case
    using finish_each_inv [OF Orphans]
    by (auto intro: crawl_inv_queue simp: fail_orphaned_def store_fail_orphaned_def case_prod_unfold split: sum.split)
next
  case (Cancel db ex scope i now_ms)
  then have "crawl_inv_but {i} db"
    by (simp add: crawl_inv_but_def)
  then have "crawl_inv (snd (finish_crawl i Cancelled now_ms db))"
    by (intro crawl_inv_finish) (auto simp: prod_eq_iff)
  then show ?case
    using Cancel crawl_inv_core [OF _ core_simps(8)]
    by (auto simp: cancel_crawl_def split: option.split prod.split sum.split)
qed (auto intro: crawl_inv_core core_simps same_core_ids same_core_hand)

lemma crawl_inv_reachable: "crawl_reachable C db \<Longrightarrow> crawl_inv db"
proof (induction rule: crawl_reachable.induct)
  case Init
  show ?case
    by (simp add: crawl_inv_but_def empty_ladder_def one_per_ladder_def)
next
  case (Step db db')
  then show ?case
    using crawl_inv_step by blast
qed

text \<open>C20. The crawl's tables stay consistent through every transaction of its jobs, of the admin's cancel and of the queue, in any order: a ladder has at most one running crawl; a crawl is running exactly while it has outstanding legs; every outstanding leg belongs to a running crawl and to the stage the crawl is in; and a crawl that is over has its end time and, when it completed, no failed leg.\<close>

theorem crawl_tables_sound:
  assumes "crawl_reachable C db"
  shows "one_per_ladder (ld_crawls db) \<and>
    (\<forall>c \<in> set (ld_crawls db). crawl_ok c \<and> (cr_status c = Crawling \<longleftrightarrow> 0 < pending_legs (cr_id c) db)) \<and>
    (\<forall>l \<in> set (ld_legs db). leg_fits (ld_crawls db) (lg_crawl l) (lg_leg l))"
proof -
  note inv = crawl_inv_reachable [OF assms]
  have "cr_status c = Crawling \<longleftrightarrow> 0 < pending_legs (cr_id c) db" if c: "c \<in> set (ld_crawls db)" for c
  proof
    assume "cr_status c = Crawling"
    then have "has_leg db (cr_id c)"
      using inv c by (simp add: crawl_inv_but_def)
    then show "0 < pending_legs (cr_id c) db"
      by (auto simp: has_leg_def pending_legs_def filter_empty_conv)
  next
    assume "0 < pending_legs (cr_id c) db"
    then obtain l where l: "l \<in> set (ld_legs db)" "lg_crawl l = cr_id c"
      by (auto simp: pending_legs_def filter_empty_conv)
    then have ex: "list_ex (is_leg (cr_id c) (lg_leg l)) (ld_legs db)"
      by (auto simp: list_ex_iff is_leg_def)
    show "cr_status c = Crawling"
      by (rule leg_running [OF inv ex]) (use c in blast)
  qed
  then show ?thesis
    using inv by (auto simp: crawl_inv_but_def list_all_iff)
qed

section \<open>Stages\<close>

fun phase_rank :: "crawl_phase \<Rightarrow> nat" where
  "phase_rank Enumerate = 0"
| "phase_rank Collect = 1"
| "phase_rank Archive = 2"

text \<open>What is left of a crawl: the stages to go, this one included, and the outstanding legs of this one.\<close>

definition crawl_left :: "string \<Rightarrow> ladder_db \<Rightarrow> nat \<times> nat" where
  "crawl_left i db =
     (case find (is_running i) (ld_crawls db) of None \<Rightarrow> (0, 0) | Some c \<Rightarrow> (3 - phase_rank (cr_phase c), pending_legs i db))"

lemma find_crawl_map: "(\<And>x. P (f x) = P x) \<Longrightarrow> find P (map f xs) = map_option f (find P xs)"
  by (induction xs) auto

lemma pending_drop_leg:
  assumes "list_ex (is_leg i leg) (ld_legs db)"
  shows "pending_legs i (drop_leg i leg failed db) < pending_legs i db"
proof -
  have "filter (\<lambda>l. lg_crawl l = i) (filter (\<lambda>l. \<not> is_leg i leg l) (ld_legs db)) = filter (\<lambda>l. \<not> is_leg i leg l) (filter (\<lambda>l. lg_crawl l = i) (ld_legs db))"
    by (simp add: conj_commute)
  moreover obtain l where "l \<in> set (filter (\<lambda>l. lg_crawl l = i) (ld_legs db))" "is_leg i leg l"
    using assms by (auto simp: list_ex_iff is_leg_def)
  ultimately show ?thesis
    unfolding pending_legs_def drop_leg_fields by (metis length_filter_less)
qed

lemma find_drop_leg:
  "find (is_running i) (ld_crawls (drop_leg i leg failed db)) =
     map_option (\<lambda>c. if failed then c\<lparr>cr_legs_failed := cr_legs_failed c + 1\<rparr> else c) (find (is_running i) (ld_crawls db))"
proof -
  have "find (is_running i) (map (\<lambda>c. if failed \<and> cr_id c = i then c\<lparr>cr_legs_failed := cr_legs_failed c + 1\<rparr> else c) xs) =
     map_option (\<lambda>c. if failed then c\<lparr>cr_legs_failed := cr_legs_failed c + 1\<rparr> else c) (find (is_running i) xs)" for xs :: "crawl list"
    by (induction xs) auto
  then show ?thesis
    by (simp add: drop_leg_fields)
qed

lemma finish_left:
  assumes "find (is_running i) (ld_crawls db) = Some c" "st \<noteq> Crawling"
  shows "\<exists>db'. as_finished (finish_crawl i st now_ms db) = (Finished (c\<lparr>cr_status := st, cr_finished_at := Some now_ms\<rparr>), db') \<and>
    find (is_running i) (ld_crawls db') = None"
proof -
  have "find (is_running i) (map (\<lambda>c. if is_running i c then c\<lparr>cr_status := st, cr_finished_at := Some now_ms\<rparr> else c) xs) = None" for xs :: "crawl list"
    using assms(2) by (induction xs) auto
  then show ?thesis
    using assms by (simp add: finish_crawl_def as_finished_def update_crawls_def Let_def)
qed

lemma find_core:
  assumes "same_core db db'" "find (is_running i) (ld_crawls db) = Some c"
  shows "\<exists>d. find (is_running i) (ld_crawls db') = Some d \<and> crawl_core d = crawl_core c"
proof -
  obtain f where f: "ld_crawls db' = map f (ld_crawls db)" "\<And>c. crawl_core (f c) = crawl_core c"
    using assms(1) unfolding same_core_def by blast
  have "is_running i (f c) = is_running i c" for c
    using f(2) [of c] by (simp add: crawl_core_def)
  then show ?thesis
    using assms(2) f by (simp add: find_crawl_map)
qed

lemma advance_crawls:
  assumes "advance C nid now_ms c db = Inr (st, db')"
  shows "\<exists>x. same_core db x \<and> ld_crawls db' = ld_crawls x"
proof -
  have q: "ld_crawls y = ld_crawls x" if "queue_jobs C njs now_ms (add_legs i legs x) = Inr y" for njs legs x y i
    using that by (auto simp: queue_jobs_def add_legs_fields split: sum.splits prod.splits)
  have core: "same_core db (bump i a n (bump i b m db))" for i a n b m
    by (intro core_chain core_simps)
  have "same_core db db"
    by (rule same_core_same) simp_all
  with core show ?thesis
    using assms by (cases "cr_phase c")
      (auto simp: advance_def queue_archive_def Let_def map_sum_Inr case_prod_unfold split: if_splits dest!: q; blast)+
qed

lemma advance_phase:
  "advance C nid now_ms c db = Inr (Stage_phase ph, db') \<Longrightarrow> phase_rank (cr_phase c) < phase_rank ph"
  by (cases "cr_phase c") (auto simp: advance_def Let_def map_sum_Inr case_prod_unfold split: if_splits)

lemma find_to_phase:
  "find (is_running i) (ld_crawls (to_phase i ph db)) = map_option (\<lambda>c. c\<lparr>cr_phase := ph\<rparr>) (find (is_running i) (ld_crawls db))"
proof -
  have "find (is_running i) (map (\<lambda>c. if is_running i c then c\<lparr>cr_phase := ph\<rparr> else c) xs) =
     map_option (\<lambda>c. c\<lparr>cr_phase := ph\<rparr>) (find (is_running i) xs)" for xs :: "crawl list"
    by (induction xs) auto
  then show ?thesis
    by (simp add: to_phase_fields)
qed

text \<open>The three outcomes of the end of an outstanding leg.\<close>

lemma store_end_leg_cases:
  assumes "crawl_inv db" "list_ex (is_leg i leg) (ld_legs db)"
    and "store_end_leg i leg failed now_ms (advance C nid now_ms) db = Inr (out, db')"
  shows "(crawl_left i db', crawl_left i db) \<in> less_than <*lex*> less_than \<and>
    (case out of
       Nothing \<Rightarrow> 0 < pending_legs i db'
     | Phase c \<Rightarrow> find (is_running i) (ld_crawls db') = Some c \<and> cr_legs_failed c = 0 \<and> \<not> failed \<and> fst (crawl_left i db') < fst (crawl_left i db)
     | Finished c \<Rightarrow> crawl_left i db' = (0, 0) \<and> cr_id c = i \<and> cr_status c = (if 0 < cr_legs_failed c then Crawl_failed else Completed) \<and>
         (failed \<longrightarrow> 0 < cr_legs_failed c))"
proof -
  define db2 where "db2 = drop_leg i leg failed db"
  obtain c where c: "find (is_running i) (ld_crawls db) = Some c" "c \<in> set (ld_crawls db)"
    by (rule leg_running [OF assms(1,2)]) (metis (mono_tags, lifting) find_running find_None_iff not_Some_eq)
  define d where "d = (if failed then c\<lparr>cr_legs_failed := cr_legs_failed c + 1\<rparr> else c)"
  have d: "find (is_running i) (ld_crawls db2) = Some d" "cr_phase d = cr_phase c" "0 \<le> cr_legs_failed c"
    using c assms(1) by (auto simp: db2_def find_drop_leg d_def crawl_inv_but_def list_all_iff crawl_ok_def)
  have left: "crawl_left i db = (3 - phase_rank (cr_phase c), pending_legs i db)" "0 < 3 - phase_rank (cr_phase c)"
    using c(1) by (cases "cr_phase c"; simp add: crawl_left_def)+
  note eq = assms(3) [unfolded store_end_leg_drop [OF assms(2)] Let_def db2_def [symmetric] d(1) option.case]
  consider "0 < pending_legs i db2" | "\<not> 0 < pending_legs i db2" "0 < cr_legs_failed d" | "\<not> 0 < pending_legs i db2" "\<not> 0 < cr_legs_failed d"
    by blast
  then show ?thesis
  proof cases
    case 1
    then show ?thesis
      using eq pending_drop_leg [OF assms(2), of failed] d left by (auto simp: db2_def crawl_left_def)
  next
    case 2
    obtain x where x: "as_finished (finish_crawl i Crawl_failed now_ms db2) = (Finished (d\<lparr>cr_status := Crawl_failed, cr_finished_at := Some now_ms\<rparr>), x)"
      "find (is_running i) (ld_crawls x) = None"
      using finish_left [OF d(1), of Crawl_failed] by blast
    then show ?thesis
      using eq 2 left find_running [OF d(1)] by (auto simp: crawl_left_def)
  next
    case 3
    have f: "\<not> failed" "cr_legs_failed c = 0" "d = c"
      using 3(2) d(3) by (auto simp: d_def split: if_splits)
    obtain st db3 where adv: "advance C nid now_ms d db2 = Inr (st, db3)"
      using eq 3 by (auto split: sum.splits)
    show ?thesis
    proof (cases st)
      case Stage_complete
      then have "db3 = db2"
        using adv by (cases "cr_phase d") (auto simp: advance_def Let_def map_sum_Inr case_prod_unfold split: if_splits)
      then obtain x where "as_finished (finish_crawl i Completed now_ms db3) = (Finished (d\<lparr>cr_status := Completed, cr_finished_at := Some now_ms\<rparr>), x)"
        "find (is_running i) (ld_crawls x) = None"
        using finish_left [OF d(1), of Completed] by blast
      then show ?thesis
        using eq 3 adv Stage_complete left f find_running [OF d(1)] by (auto simp: crawl_left_def)
    next
      case (Stage_phase ph)
      obtain x where x: "same_core db2 x" "ld_crawls db3 = ld_crawls x"
        using advance_crawls [OF adv] by blast
      obtain c3 where "find (is_running i) (ld_crawls db3) = Some c3" "cr_legs_failed c3 = 0"
        using find_core [OF x(1) d(1)] f by (auto simp: crawl_core_def x(2))
      then show ?thesis
        using eq 3 adv Stage_phase left f advance_phase [OF adv [unfolded Stage_phase]] by (auto simp: crawl_left_def find_to_phase)
    qed
  qed
qed

text \<open>C21. The end of an outstanding leg always brings its crawl nearer to its end, lexicographically in the stages to go and the outstanding legs of the stage, so a crawl whose legs end is over after finitely many ends. The transaction says what happened: other legs are still outstanding; or the stage is over without a failed leg and the crawl is in a later stage; or it is over, failed when some leg of it failed and completed otherwise.\<close>

theorem leg_end_progress:
  assumes "crawl_reachable C db" "list_ex (is_leg i leg) (ld_legs db)"
    and "end_leg C stamped nid nid' now_ms i leg failed db = (Inr out, db')"
  shows "(crawl_left i db', crawl_left i db) \<in> less_than <*lex*> less_than \<and>
    (case out of
       Nothing \<Rightarrow> 0 < pending_legs i db'
     | Phase c \<Rightarrow> find (is_running i) (ld_crawls db') = Some c \<and> cr_legs_failed c = 0 \<and> \<not> failed \<and> fst (crawl_left i db') < fst (crawl_left i db)
     | Finished c \<Rightarrow> crawl_left i db' = (0, 0) \<and> cr_id c = i \<and> cr_status c = (if 0 < cr_legs_failed c then Crawl_failed else Completed) \<and>
         (failed \<longrightarrow> 0 < cr_legs_failed c))"
proof -
  obtain db1 where store: "store_end_leg i leg failed now_ms (advance C nid now_ms) db = Inr (out, db1)"
    and same: "ld_crawls db' = ld_crawls db1" "ld_legs db' = ld_legs db1"
    using assms(3) by (auto simp: end_leg_def queue_jobs_def split: sum.splits prod.splits ended.splits)
  have "crawl_left i db' = crawl_left i db1" "pending_legs i db' = pending_legs i db1"
    by (simp_all only: crawl_left_def pending_legs_def same)
  then show ?thesis
    using store_end_leg_cases [OF crawl_inv_reachable [OF assms(1)] assms(2) store] by (simp only: same)
qed

text \<open>Ending a leg that is not outstanding, as a job that ran twice does, changes nothing.\<close>

lemma ended_leg_ends_once:
  assumes "\<not> list_ex (is_leg i leg) (ld_legs db)"
  shows "end_leg C stamped nid nid' now_ms i leg failed db = (Inr Nothing, db)"
  using assms by (simp add: end_leg_def store_end_leg_def)

text \<open>A small ladder for the witnesses.\<close>

definition sample_ctx :: ladder_ctx where
  "sample_ctx =
     \<lparr>lc_scope = ''s'', lc_tier_floor = ''CHALLENGER'', lc_backfill_limit = 0, lc_lookup_backfill_limit = 0, lc_collect_overlap_s = 0,
      lc_archive_timelines = False, lc_rank_lookup_limit = 0, lc_late_stamp_days = 0, lc_delta_on = False, lc_crawl_match_limit = 1,
      lc_json = (\<lambda>_. ''{}''), lc_extract = (\<lambda>_ _. None), lc_db_error = (\<lambda>_. ''db'')\<rparr>"

abbreviation sample_request :: crawl_request where
  "sample_request \<equiv> \<lparr>rq_platform = ''oc1'', rq_queue = ''RANKED_SOLO_5x5'', rq_tier_floor = Some ''grandmaster''\<rparr>"

definition sample_crawl :: crawl where
  "sample_crawl =
     \<lparr>cr_id = ''c'', cr_scope = ''s'', cr_platform = ''oc1'', cr_queue = ''RANKED_SOLO_5x5'', cr_tier_floor = ''GRANDMASTER'',
      cr_status = Crawling, cr_phase = Enumerate, cr_started_at = 5, cr_finished_at = None, cr_counters = counters_zero,
      cr_legs_failed = 0, cr_apex_capped = [], cr_match_limit = None\<rparr>"

definition sample_ladder :: ladder_db where
  "sample_ladder =
     \<lparr>ld_crawls = [sample_crawl],
      ld_legs = [\<lparr>lg_crawl = ''c'', lg_leg = ''ladder:apex:GRANDMASTER'', lg_cursor = None\<rparr>,
        \<lparr>lg_crawl = ''c'', lg_leg = ''ladder:apex:CHALLENGER'', lg_cursor = None\<rparr>],
      ld_ids = [], ld_entries = [], ld_players = [], ld_jobs = []\<rparr>"

lemma sample_legs: "map leg_name (fan_out ''c'' ''oc1'' ''RANKED_SOLO_5x5'' ''GRANDMASTER'') = [''ladder:apex:GRANDMASTER'', ''ladder:apex:CHALLENGER'']"
  by code_simp

lemma sample_ladder_reachable: "crawl_reachable sample_ctx sample_ladder"
proof -
  let ?legs = "fan_out ''c'' ''oc1'' ''RANKED_SOLO_5x5'' ''GRANDMASTER''"
  define nid where "nid = (\<lambda>k. replicate k CHR ''j'')"
  let ?start = "start_crawl sample_ctx ''s'' ''CHALLENGER'' sample_request ''c'' nid 5 empty_ladder"
  have c: "checked ''CHALLENGER'' sample_request = Inr (Oc1, ''RANKED_SOLO_5x5'', ''GRANDMASTER'')"
    by code_simp
  have l: "insert_crawl ''c'' ''s'' ''oc1'' ''RANKED_SOLO_5x5'' ''GRANDMASTER'' 5 empty_ladder =
      (Some sample_crawl, empty_ladder\<lparr>ld_crawls := [sample_crawl]\<rparr>)" "platform_as_str Oc1 = ''oc1''"
    "add_legs ''c'' [''ladder:apex:GRANDMASTER'', ''ladder:apex:CHALLENGER''] (empty_ladder\<lparr>ld_crawls := [sample_crawl]\<rparr>) = sample_ladder"
    by code_simp+
  have "map leg_new_job ?legs = [leg_new_job (?legs ! 0), leg_new_job (?legs ! 1)]" "nj_dedupe (leg_new_job (?legs ! 0)) \<noteq> nj_dedupe (leg_new_job (?legs ! 1))"
    by code_simp+
  then obtain rows where "queue_jobs sample_ctx (with_ids nid (map leg_new_job ?legs)) 5 sample_ladder = Inr (sample_ladder\<lparr>ld_jobs := rows\<rparr>)"
    by (simp add: queue_jobs_def nid_def with_ids_def sample_ladder_def enqueue_on_def holds_key_def new_row_def Let_def)
  then have "snd ?start = sample_ladder\<lparr>ld_jobs := rows\<rparr>"
    unfolding start_crawl_def c sum.case prod.case Let_def l option.case sample_legs by simp
  then have "crawl_reachable sample_ctx (sample_ladder\<lparr>ld_jobs := rows\<rparr>)"
    using crawl_reachable.Step [OF crawl_reachable.Init crawl_step.Start] by metis
  from crawl_reachable.Step [OF this crawl_step.Jobs [of _ _ "[]"]] show ?thesis
    by (simp add: sample_ladder_def)
qed

theorem crawl_tables_sound_witness:
  "pending_legs ''c'' sample_ladder = 2 \<and> one_per_ladder (ld_crawls sample_ladder) \<and> crawl_ok sample_crawl \<and>
   leg_fits (ld_crawls sample_ladder) ''c'' ''ladder:apex:CHALLENGER''"
proof -
  have "pending_legs ''c'' sample_ladder = 2"
    by code_simp
  then show ?thesis
    using crawl_tables_sound [OF sample_ladder_reachable] by (simp add: sample_ladder_def)
qed

lemma sample_ends:
  "end_leg sample_ctx False (\<lambda>k. ''j'') (\<lambda>k. ''j'') 9 ''c'' ''ladder:apex:CHALLENGER'' True sample_ladder =
     (Inr Nothing, sample_ladder\<lparr>ld_crawls := [sample_crawl\<lparr>cr_legs_failed := 1\<rparr>], ld_legs := [hd (ld_legs sample_ladder)]\<rparr>)"
  "list_ex (is_leg ''c'' ''ladder:apex:CHALLENGER'') (ld_legs sample_ladder)"
  by code_simp+

theorem leg_end_progress_witness:
  "\<exists>db'. end_leg sample_ctx False (\<lambda>k. ''j'') (\<lambda>k. ''j'') 9 ''c'' ''ladder:apex:CHALLENGER'' True sample_ladder = (Inr Nothing, db') \<and>
     (crawl_left ''c'' db', crawl_left ''c'' sample_ladder) \<in> less_than <*lex*> less_than \<and> 0 < pending_legs ''c'' db'"
  using leg_end_progress [OF sample_ladder_reachable sample_ends(2,1)] sample_ends(1) by auto

section \<open>The limit on a platform's matches\<close>

text \<open>C22. Handing a batch of matches to the archive keeps the platform's limit: what the archive holds of the platform together with its queued matches never grows past the limit (past what it was, when it was over already), every match handed over has a live archive job afterwards, and the whole batch leaves the crawl's working set.\<close>

theorem hand_over_keeps_limit:
  assumes "hand_over C leg archived batch unarchived nid now_ms db = Inr db'"
    and "0 < lc_crawl_match_limit C"
  defines "held \<equiv> platform_matches_held archived (al_platform leg)"
    and "room \<equiv> nat (int (lc_crawl_match_limit C) - platform_matches_held archived (al_platform leg) db)"
  shows "held db' \<le> max (held db) (int (lc_crawl_match_limit C)) \<and>
    (\<forall>m \<in> set (take room unarchived). list_ex (holds_key ARCHIVE_MATCH (Some m)) (ld_jobs db')) \<and>
    (\<forall>m \<in> set batch. (al_crawl leg, m) \<notin> set (ld_ids db'))"
proof -
  let ?room = "room_for (lc_crawl_match_limit C) (held db) (length unarchived)"
  have room: "?room = room"
    using assms(2) by (simp add: room_for_def room_def held_def)
  let ?njs = "with_ids nid (map (match_job C) (take (min (length unarchived) room) unarchived))"
  obtain n rows where each: "enqueue_each (lc_json C) pay_field ?njs now_ms (ld_jobs db) = Inr (n, rows)"
    and db': "ld_jobs db' = rows" "ld_ids db' = filter (\<lambda>(j, m). \<not> (j = al_crawl leg \<and> m \<in> set batch)) (ld_ids db)"
    using assms(1) unfolding hand_over_def Let_def held_def [symmetric] room
    by (auto simp: queue_jobs_def bump_def mark_match_limit_def drop_match_ids_def update_crawls_def split: sum.splits prod.splits if_splits)
  obtain new where new: "rows = ld_jobs db @ new" "length new \<le> length ?njs"
    "\<forall>(nid, nj) \<in> set ?njs. nj_dedupe nj \<noteq> None \<longrightarrow> list_ex (holds_key (nj_kind nj) (nj_dedupe nj)) rows"
    using enqueue_each_adds [OF each] by blast
  have "length ?njs \<le> room"
    by (simp add: with_ids_def)
  then have "held db' \<le> held db + int room"
    using new(2) length_filter_le le_trans unfolding held_def platform_matches_held_def db' new(1) filter_append length_append
    by (smt (verit) of_nat_add of_nat_mono)
  moreover have "held db + int room = max (held db) (int (lc_crawl_match_limit C))"
    by (simp add: room_def held_def)
  moreover have "list_ex (holds_key ARCHIVE_MATCH (Some m)) rows" if "m \<in> set (take room unarchived)" for m
  proof -
    have "map snd ?njs = map (match_job C) (take room unarchived)"
      by (simp add: with_ids_def min_def)
    then have "match_job C m \<in> snd ` set ?njs"
      using that by (metis image_eqI set_map)
    then show ?thesis
      using new(3) by (auto simp: match_job_def new_job_dedupe_def new_job_new_def)
  qed
  ultimately show ?thesis
    by (auto simp: db')
qed

abbreviation sample_archive_leg :: archive_leg where
  "sample_archive_leg \<equiv> \<lparr>al_crawl = ''c'', al_platform = ''oc1'', al_queue = ''RANKED_SOLO_5x5''\<rparr>"

lemma sample_hand_over:
  "\<exists>db'. hand_over sample_ctx sample_archive_leg [] [''OC1_1'', ''OC1_2''] [''OC1_1'', ''OC1_2''] (\<lambda>k. ''j'') 9 sample_ladder = Inr db'"
  by (simp add: hand_over_def Let_def room_for_def platform_matches_held_def sample_ladder_def sample_ctx_def queue_jobs_def with_ids_def enqueue_on_def)

lemma sample_held: "platform_matches_held [] ''oc1'' sample_ladder = 0"
  by (simp add: platform_matches_held_def sample_ladder_def)

theorem hand_over_keeps_limit_witness:
  "\<exists>db'. hand_over sample_ctx sample_archive_leg [] [''OC1_1'', ''OC1_2''] [''OC1_1'', ''OC1_2''] (\<lambda>k. ''j'') 9 sample_ladder = Inr db' \<and>
     platform_matches_held [] ''oc1'' db' \<le> 1 \<and> list_ex (holds_key ARCHIVE_MATCH (Some ''OC1_1'')) (ld_jobs db')"
proof -
  obtain db' where db': "hand_over sample_ctx sample_archive_leg [] [''OC1_1'', ''OC1_2''] [''OC1_1'', ''OC1_2''] (\<lambda>k. ''j'') 9 sample_ladder = Inr db'"
    using sample_hand_over by blast
  have "lc_crawl_match_limit sample_ctx = 1"
    by (simp add: sample_ctx_def)
  then show ?thesis
    using hand_over_keeps_limit [OF db'] db' sample_held by simp
qed

end
