(* ===== verification/Ws_Props.thy ===== *)
theory Ws_Props
  imports Ws
begin

text \<open>
  Sockets, publishers and administrators as a transition system, the invariant that ties the hub's channels to what the
  sockets stream and still owe, what a socket was ever sent, and the promises of the realtime socket.
\<close>

section \<open>Runs\<close>

definition put_socket :: "nat \<Rightarrow> ws_socket \<Rightarrow> 'c ws_world \<Rightarrow> 'c ws_world" where
  "put_socket i s w = w\<lparr>ws_sockets := AList.update i s (ws_sockets w)\<rparr>"

definition seen_close :: "nat \<Rightarrow> 'c hub \<Rightarrow> 'c hub" where
  "seen_close i h = h\<lparr>hb_conns := map (\<lambda>(j, c). (j, if j = i then c\<lparr>co_changed := False\<rparr> else c)) (hb_conns h)\<rparr>"

definition set_topic :: "topic \<Rightarrow> 'c \<Rightarrow> 'c hub \<Rightarrow> 'c hub" where
  "set_topic t c h = h\<lparr>hb_topics := AList.update t c (hb_topics h)\<rparr>"

definition put_busy :: "nat \<Rightarrow> ws_socket option \<times> 'c hub \<Rightarrow> 'c ws_world \<Rightarrow> 'c ws_world" where
  "put_busy i r w =
     (case r of
        (Some s, h) \<Rightarrow> put_socket i s (w\<lparr>ws_hub := h\<rparr>)
      | (None, h) \<Rightarrow> w\<lparr>ws_hub := h, ws_sockets := AList.delete i (ws_sockets w)\<rparr>)"

text \<open>The state of a run is the world and the list of what was published, a topic with its frame.\<close>

inductive ws_step ::
  "'c broadcast \<Rightarrow> (string \<Rightarrow> raw_frame option) \<Rightarrow> 'c ws_world \<times> (topic \<times> string) list \<Rightarrow> 'c ws_world \<times> (topic \<times> string) list \<Rightarrow> bool"
  for B from_json
where
  Connect: "ws_step B from_json (w, l) (ws_connect cl k w, l)"
| Publish: "ws_step B from_json (w, l) (w\<lparr>ws_hub := snd (hub_publish B t event frame (ws_hub w))\<rparr>, l @ [(t, frame)])"
| Close_consumer: "ws_step B from_json (w, l) (w\<lparr>ws_hub := snd (close_consumer cid (ws_hub w))\<rparr>, l)"
| Close_all: "ws_step B from_json (w, l) (w\<lparr>ws_hub := hub_shutdown (ws_hub w)\<rparr>, l)"
| See_close: "map_of (ws_sockets w) i = Some s \<Longrightarrow> so_pc s = Idle \<Longrightarrow> map_of (hb_conns (ws_hub w)) i = Some c \<Longrightarrow> co_changed c \<Longrightarrow>
     ws_step B from_json (w, l) (put_socket i (on_close k c s) (w\<lparr>ws_hub := seen_close i (ws_hub w)\<rparr>), l)"
| Inbound: "map_of (ws_sockets w) i = Some s \<Longrightarrow> so_pc s = Idle \<Longrightarrow>
     ws_step B from_json (w, l) (put_socket i (on_inbound from_json now_ms m s) w, l)"
| Stream: "map_of (ws_sockets w) i = Some s \<Longrightarrow> so_pc s = Idle \<Longrightarrow> t \<in> set (so_streams s) \<Longrightarrow>
     map_of (hb_topics (ws_hub w)) t = Some c \<Longrightarrow> bc_poll B i c = (Some it, c') \<Longrightarrow>
     ws_step B from_json (w, l) (put_socket i (on_stream k t it s) (w\<lparr>ws_hub := set_topic t c' (ws_hub w)\<rparr>), l)"
| Tick: "map_of (ws_sockets w) i = Some s \<Longrightarrow> so_pc s = Idle \<Longrightarrow>
     ws_step B from_json (w, l) (put_socket i (on_tick k s) w, l)"
| Busy: "map_of (ws_sockets w) i = Some s \<Longrightarrow> so_pc s \<noteq> Idle \<Longrightarrow>
     ws_step B from_json (w, l) (put_busy i (busy_step B k i s (ws_hub w)) w, l)"

inductive ws_reachable ::
  "'c broadcast \<Rightarrow> (string \<Rightarrow> raw_frame option) \<Rightarrow> 'c ws_world \<times> (topic \<times> string) list \<Rightarrow> bool"
  for B from_json
where
  Init: "ws_reachable B from_json (\<lparr>ws_hub = hub_new capacity, ws_sockets = []\<rparr>, [])"
| Step: "ws_reachable B from_json x \<Longrightarrow> ws_step B from_json x y \<Longrightarrow> ws_reachable B from_json y"

section \<open>The hub's operations and the receivers of a topic\<close>

definition chan_recv :: "'c broadcast \<Rightarrow> 'c hub \<Rightarrow> topic \<Rightarrow> nat list" where
  "chan_recv B h t = (case map_of (hb_topics h) t of None \<Rightarrow> [] | Some c \<Rightarrow> bc_receivers B c)"

definition topics_of :: "'c hub \<Rightarrow> topic set" where
  "topics_of h = fst ` set (hb_topics h)"

lemma topics_of_map_of: "t \<in> topics_of h \<longleftrightarrow> map_of (hb_topics h) t \<noteq> None"
  by (simp add: topics_of_def map_of_eq_None_iff)

lemma laws:
  assumes "broadcast_laws B"
  shows bc_new: "bc_receivers B (bc_channel B n) = []"
    and bc_len: "bc_count B c = length (bc_receivers B c)"
    and bc_sub: "r \<notin> set (bc_receivers B c) \<Longrightarrow> bc_receivers B (bc_subscribe B r c) = bc_receivers B c @ [r]"
    and bc_sub_unread: "r \<notin> set (bc_receivers B c) \<Longrightarrow> bc_unread B (bc_subscribe B r c) = (bc_unread B c)(r := [])"
    and bc_dropped: "bc_receivers B (bc_drop B r c) = removeAll r (bc_receivers B c)"
    and bc_drop_unread: "q \<noteq> r \<Longrightarrow> bc_unread B (bc_drop B r c) q = bc_unread B c q"
    and bc_sent: "bc_receivers B (snd (bc_send B m c)) = bc_receivers B c"
    and bc_sent_to: "fst (bc_send B m c) = (if bc_receivers B c = [] then None else Some (length (bc_receivers B c)))"
    and bc_send_unread: "r \<in> set (bc_receivers B c) \<Longrightarrow> bc_unread B (snd (bc_send B m c)) r = bc_unread B c r @ [m]"
    and bc_polled: "r \<in> set (bc_receivers B c) \<Longrightarrow> bc_receivers B (snd (bc_poll B r c)) = bc_receivers B c"
    and bc_poll_unread: "r \<in> set (bc_receivers B c) \<Longrightarrow>
      poll_law (bc_unread B c r) (fst (bc_poll B r c)) (bc_unread B (snd (bc_poll B r c)) r)"
    and bc_poll_other: "r \<in> set (bc_receivers B c) \<Longrightarrow> q \<noteq> r \<Longrightarrow> bc_unread B (snd (bc_poll B r c)) q = bc_unread B c q"
  using assms unfolding broadcast_laws_def by blast+

lemma chan_recv_subscribe:
  assumes "broadcast_laws B" "r \<notin> set (chan_recv B h t)"
  shows "chan_recv B (hub_subscribe B t r h) t' = (if t' = t then chan_recv B h t @ [r] else chan_recv B h t')"
  using assms(2) by (auto simp: chan_recv_def hub_subscribe_def Let_def update_conv' laws [OF assms(1)] split: option.splits)

lemma chan_recv_drop:
  assumes "broadcast_laws B"
  shows "chan_recv B (drop_receiver B t r h) t' = (if t' = t then removeAll r (chan_recv B h t) else chan_recv B h t')"
  by (auto simp: chan_recv_def drop_receiver_def update_conv' laws [OF assms] split: option.splits)

lemma chan_recv_release:
  assumes "broadcast_laws B"
  shows "chan_recv B (hub_release B t h) t' = chan_recv B h t'"
  by (auto simp: chan_recv_def hub_release_def Let_def delete_conv' laws [OF assms] split: option.splits)

lemma chan_recv_send_to:
  assumes "broadcast_laws B"
  shows "chan_recv B (snd (send_to B t m h)) t' = chan_recv B h t'"
    "fst (send_to B t m h) = length (chan_recv B h t)"
  using bc_sent [OF assms, of m] bc_sent_to [OF assms, of m]
  by (auto simp: chan_recv_def send_to_def update_conv' case_prod_unfold split: option.splits)

lemma chan_recv_publish:
  assumes "broadcast_laws B"
  shows "chan_recv B (snd (hub_publish B t e m h)) t' = chan_recv B h t'"
    "fst (hub_publish B t e m h) = length (chan_recv B h t) + (if t = FIREHOSE then 0 else length (chan_recv B h FIREHOSE))"
proof -
  have same: "chan_recv B (h\<lparr>hb_published := p\<rparr>) = chan_recv B h" for p
    by (rule ext) (simp add: chan_recv_def)
  show "chan_recv B (snd (hub_publish B t e m h)) t' = chan_recv B h t'"
    by (simp add: hub_publish_def Let_def case_prod_unfold chan_recv_send_to [OF assms] same)
  show "fst (hub_publish B t e m h) = length (chan_recv B h t) + (if t = FIREHOSE then 0 else length (chan_recv B h FIREHOSE))"
    by (simp add: hub_publish_def Let_def case_prod_unfold chan_recv_send_to [OF assms] same is_firehose_def)
qed

lemma chan_recv_poll:
  assumes "broadcast_laws B" "map_of (hb_topics h) t = Some c" "r \<in> set (chan_recv B h t)" "bc_poll B r c = (x, c')"
  shows "chan_recv B (set_topic t c' h) t' = chan_recv B h t'"
  using assms(2-4) bc_polled [OF assms(1), of r c] by (auto simp: chan_recv_def set_topic_def update_conv')

text \<open>What each operation leaves of the rest of the hub.\<close>

definition keeps :: "'c hub \<Rightarrow> 'c hub \<Rightarrow> bool" where
  "keeps h h' = (map fst (hb_conns h') = map fst (hb_conns h) \<and> hb_next_conn h' = hb_next_conn h \<and>
     (distinct (map fst (hb_topics h)) \<longrightarrow> distinct (map fst (hb_topics h'))))"

lemma hub_keeps:
  "keeps h (hub_subscribe B t r h)" "keeps h (drop_receiver B t r h)" "keeps h (hub_release B t h)"
  "keeps h (snd (hub_publish B t e m h))" "keeps h (set_topic t c h)" "keeps h (seen_close i h)"
  "keeps h (snd (close_consumer cid h))" "keeps h (hub_shutdown h)" "keeps h h"
  by (auto simp: keeps_def hub_subscribe_def drop_receiver_def hub_release_def hub_publish_def send_to_def set_topic_def seen_close_def
      close_consumer_def hub_shutdown_def Let_def distinct_update distinct_delete case_prod_unfold comp_def split: option.splits)

lemma topics_of_simps:
  "topics_of (hub_subscribe B t r h) = insert t (topics_of h)"
  "topics_of (drop_receiver B t r h) = topics_of h"
  "topics_of (snd (hub_publish B t e m h)) = topics_of h"
  "topics_of (set_topic t c h) = insert t (topics_of h)"
  "topics_of (seen_close i h) = topics_of h"
  by (auto simp: set_eq_iff topics_of_map_of hub_subscribe_def drop_receiver_def hub_publish_def send_to_def set_topic_def
      seen_close_def Let_def update_conv' case_prod_unfold split: option.splits if_splits)

lemma topics_of_release:
  assumes "broadcast_laws B"
  shows "topics_of (hub_release B t h) = (if chan_recv B h t = [] then topics_of h - {t} else topics_of h)"
  by (auto simp: topics_of_map_of hub_release_def Let_def delete_conv' chan_recv_def laws [OF assms] split: option.splits if_splits)

lemma subscriptions_simps [simp]:
  "hb_subscriptions (hub_subscribe B t r h) = hb_subscriptions h + 1"
  "hb_subscriptions (drop_receiver B t r h) = hb_subscriptions h"
  "hb_subscriptions (hub_release B t h) = hb_subscriptions h - 1"
  "hb_subscriptions (snd (hub_publish B t e m h)) = hb_subscriptions h"
  "hb_subscriptions (set_topic t c h) = hb_subscriptions h"
  "hb_subscriptions (seen_close i h) = hb_subscriptions h"
  "hb_subscriptions (snd (close_consumer cid h)) = hb_subscriptions h"
  "hb_subscriptions (hub_shutdown h) = hb_subscriptions h"
  by (auto simp: hub_subscribe_def drop_receiver_def hub_release_def hub_publish_def send_to_def set_topic_def seen_close_def
      close_consumer_def hub_shutdown_def Let_def case_prod_unfold split: option.splits)

section \<open>The invariant\<close>

declare map_of_eq_Some_iff [simp del]

text \<open>The topics whose release a socket still owes, and how many subscriptions it counts for.\<close>

definition owed :: "ws_socket \<Rightarrow> topic set" where
  "owed s = (set (so_held s) - set (so_streams s)) \<union> (case so_pc s of Releasing t rest \<Rightarrow> {t} | _ \<Rightarrow> {})"

definition due :: "ws_socket \<Rightarrow> nat" where
  "due s = length (so_held s) + (case so_pc s of Releasing t rest \<Rightarrow> 1 | _ \<Rightarrow> 0)"

definition mine :: "ws_socket \<Rightarrow> topic set" where
  "mine s = set (so_streams s) \<union> owed s"

definition socket_ok :: "ws_socket \<Rightarrow> bool" where
  "socket_ok s =
     (distinct (so_held s) \<and> length (so_held s) \<le> MAX_TOPICS_PER_SOCKET \<and> distinct (so_streams s) \<and> set (so_streams s) \<subseteq> set (so_held s) \<and>
      (so_pc s \<noteq> Ending \<longrightarrow> so_streams s = so_held s) \<and> (\<forall>t rest. so_pc s = Releasing t rest \<longrightarrow> t \<notin> set (so_held s)) \<and>
      (\<forall>t \<in> set (so_held s). topic_parse t = Some t \<and> (is_admin t \<longrightarrow> cl_admin (so_client s))))"

definition ws_inv :: "'c broadcast \<Rightarrow> 'c ws_world \<Rightarrow> bool" where
  "ws_inv B w =
     (distinct (map fst (hb_topics (ws_hub w))) \<and> distinct (map fst (ws_sockets w)) \<and>
      map fst (hb_conns (ws_hub w)) = map fst (ws_sockets w) \<and>
      (\<forall>i \<in> fst ` set (ws_sockets w). i < hb_next_conn (ws_hub w)) \<and>
      list_all (\<lambda>(i, s). socket_ok s) (ws_sockets w) \<and>
      (\<forall>t. distinct (chan_recv B (ws_hub w) t) \<and>
         set (chan_recv B (ws_hub w) t) = {i. \<exists>s. map_of (ws_sockets w) i = Some s \<and> t \<in> set (so_streams s)}) \<and>
      (\<forall>t \<in> topics_of (ws_hub w). \<exists>i s. map_of (ws_sockets w) i = Some s \<and> t \<in> mine s) \<and>
      hb_subscriptions (ws_hub w) = of_nat (sum_list (map (\<lambda>(i, s). due s) (ws_sockets w))))"

lemma sum_update:
  fixes f :: "nat \<times> 'a \<Rightarrow> nat"
  assumes "distinct (map fst xs)" "map_of xs i = Some s"
  shows "sum_list (map f (AList.update i s' xs)) + f (i, s) = sum_list (map f xs) + f (i, s')"
  using assms by (induction xs) (auto split: if_splits)

lemma sum_delete:
  fixes f :: "nat \<times> 'a \<Rightarrow> nat"
  assumes "distinct (map fst xs)" "map_of xs i = Some s"
  shows "sum_list (map f (AList.delete i xs)) + f (i, s) = sum_list (map f xs)"
  using assms
proof (induction xs)
  case (Cons x xs)
  show ?case
  proof (cases "fst x = i")
    case True
    have "AList.delete i xs = xs"
      using Cons.prems(1) True by (intro AList.delete_id) auto
    then show ?thesis
      using Cons.prems True by (auto simp: delete_simps)
  next
    case False
    then show ?thesis
      using Cons by (auto simp: delete_simps)
  qed
qed simp

lemma ws_inv_socket: "ws_inv B w \<Longrightarrow> map_of (ws_sockets w) i = Some s \<Longrightarrow> socket_ok s"
  by (auto simp: ws_inv_def list_all_iff dest!: map_of_SomeD)

lemma ws_inv_live: "ws_inv B w \<Longrightarrow> t \<in> topics_of (ws_hub w) \<Longrightarrow> \<exists>i s. map_of (ws_sockets w) i = Some s \<and> t \<in> mine s"
  by (simp add: ws_inv_def)

lemma ws_inv_recv:
  "ws_inv B w \<Longrightarrow> distinct (chan_recv B (ws_hub w) t)"
  "ws_inv B w \<Longrightarrow> set (chan_recv B (ws_hub w) t) = {i. \<exists>s. map_of (ws_sockets w) i = Some s \<and> t \<in> set (so_streams s)}"
  by (simp_all add: ws_inv_def)

lemma map_fst_update: "k \<in> fst ` set xs \<Longrightarrow> map fst (AList.update k v xs) = map fst xs"
  by (induction xs) auto

lemma list_all_update:
  "distinct (map fst xs) \<Longrightarrow> list_all (\<lambda>(i, s). P s) xs \<Longrightarrow> P v \<Longrightarrow> list_all (\<lambda>(i, s). P s) (AList.update k v xs)"
  by (induction xs) auto

text \<open>A step of one socket keeps the invariant if the hub follows it.\<close>

lemma ws_inv_put:
  assumes "ws_inv B w" "map_of (ws_sockets w) i = Some s" "socket_ok s'" "keeps (ws_hub w) h'"
    and "\<And>t. distinct (chan_recv B h' t) \<and>
      set (chan_recv B h' t) = set (chan_recv B (ws_hub w) t) - {i} \<union> (if t \<in> set (so_streams s') then {i} else {})"
    and "\<And>t. t \<in> topics_of h' \<Longrightarrow> t \<in> mine s' \<or> (\<exists>j q. j \<noteq> i \<and> map_of (ws_sockets w) j = Some q \<and> t \<in> mine q)"
    and "hb_subscriptions h' + of_nat (due s) = hb_subscriptions (ws_hub w) + of_nat (due s')"
  shows "ws_inv B (put_socket i s' (w\<lparr>ws_hub := h'\<rparr>))"
proof -
  let ?n = "AList.update i s' (ws_sockets w)"
  have i: "i \<in> fst ` set (ws_sockets w)" and d: "distinct (map fst (ws_sockets w))"
    using assms(1) map_of_SomeD [OF assms(2)] by (force simp: ws_inv_def)+
  have sum: "sum_list (map (\<lambda>(i, s). due s) ?n) + due s = sum_list (map (\<lambda>(i, s). due s) (ws_sockets w)) + due s'"
    using sum_update [OF d assms(2), of "\<lambda>(i, s). due s"] by simp
  have "hb_subscriptions h' + of_nat (due s) = of_nat (sum_list (map (\<lambda>(i, s). due s) ?n)) + of_nat (due s)"
    using assms(1,7) unfolding of_nat_add [symmetric] sum by (simp add: ws_inv_def)
  then have subs: "hb_subscriptions h' = of_nat (sum_list (map (\<lambda>(i, s). due s) ?n))"
    by simp
  have recv: "set (chan_recv B h' t) = {j. \<exists>q. map_of ?n j = Some q \<and> t \<in> set (so_streams q)}" for t
    using assms(1) assms(5) [of t] by (auto simp: ws_inv_def update_conv')
  have live: "\<exists>j q. map_of ?n j = Some q \<and> t \<in> mine q" if t: "t \<in> topics_of h'" for t
  proof (cases "t \<in> mine s'")
    case False
    then obtain j q where "j \<noteq> i" "map_of (ws_sockets w) j = Some q" "t \<in> mine q"
      using assms(6) [OF t] by blast
    then show ?thesis
      by (intro exI [of _ j] exI [of _ q]) (simp add: update_conv')
  qed (auto simp: update_conv')
  have "\<forall>j \<in> fst ` set ?n. j < hb_next_conn h'"
    using assms(1,4) i by (auto simp: ws_inv_def keeps_def dom_update)
  moreover have "map fst (hb_conns h') = map fst ?n" "distinct (map fst (hb_topics h'))"
    using assms(1,4) by (simp_all add: ws_inv_def keeps_def map_fst_update [OF i])
  moreover have "list_all (\<lambda>(i, s). socket_ok s) ?n"
    using assms(1,3) by (intro list_all_update d) (simp_all add: ws_inv_def)
  ultimately show ?thesis
    using subs recv live assms(5) d by (simp add: ws_inv_def put_socket_def distinct_update)
qed

text \<open>Steps that touch only the socket, and steps that touch only other parts of the hub.\<close>

lemma put_socket_hub: "put_socket i s w = put_socket i s (w\<lparr>ws_hub := ws_hub w\<rparr>)"
  by simp

lemma ws_inv_local:
  assumes "ws_inv B w" "map_of (ws_sockets w) i = Some s" "socket_ok s'" "keeps (ws_hub w) h'"
    and "\<And>t. chan_recv B h' t = chan_recv B (ws_hub w) t" "topics_of h' \<subseteq> topics_of (ws_hub w)"
    and "hb_subscriptions h' = hb_subscriptions (ws_hub w)"
    and "set (so_streams s') = set (so_streams s)" "mine s \<subseteq> mine s'" "due s' = due s"
  shows "ws_inv B (put_socket i s' (w\<lparr>ws_hub := h'\<rparr>))"
proof (rule ws_inv_put [OF assms(1-4)])
  show "distinct (chan_recv B h' t) \<and>
      set (chan_recv B h' t) = set (chan_recv B (ws_hub w) t) - {i} \<union> (if t \<in> set (so_streams s') then {i} else {})" for t
    using assms(2) by (auto simp: assms(5,8) ws_inv_recv [OF assms(1)])
  show "t \<in> mine s' \<or> (\<exists>j q. j \<noteq> i \<and> map_of (ws_sockets w) j = Some q \<and> t \<in> mine q)" if t: "t \<in> topics_of h'" for t
  proof -
    obtain j q where jq: "map_of (ws_sockets w) j = Some q" "t \<in> mine q"
      using ws_inv_live [OF assms(1) subsetD [OF assms(6) t]] by blast
    show ?thesis
    proof (cases "j = i")
      case True
      then have "t \<in> mine s'"
        using jq assms(2,9) by auto
      then show ?thesis ..
    next
      case False
      then show ?thesis
        using jq by blast
    qed
  qed
qed (simp add: assms(7,10))

lemma ws_inv_hub:
  assumes "ws_inv B w" "keeps (ws_hub w) h'" "\<And>t. chan_recv B h' t = chan_recv B (ws_hub w) t"
    and "topics_of h' = topics_of (ws_hub w)" "hb_subscriptions h' = hb_subscriptions (ws_hub w)"
  shows "ws_inv B (w\<lparr>ws_hub := h'\<rparr>)"
  using assms(1,2) by (simp add: ws_inv_def keeps_def assms(3-5))

section \<open>Every step keeps the invariant\<close>

lemma ws_inv_init: "ws_inv B \<lparr>ws_hub = hub_new capacity, ws_sockets = []\<rparr>"
  by (simp add: ws_inv_def hub_new_def chan_recv_def topics_of_def)

lemma update_notin: "k \<notin> fst ` set xs \<Longrightarrow> AList.update k v xs = xs @ [(k, v)]"
  by (induction xs) auto

lemma ws_inv_connect:
  assumes "ws_inv B w"
  shows "ws_inv B (ws_connect cl k w)"
proof -
  let ?i = "hb_next_conn (ws_hub w)"
  have new: "?i \<notin> fst ` set (ws_sockets w)" and conns: "map fst (hb_conns (ws_hub w)) = map fst (ws_sockets w)"
    using assms by (auto simp: ws_inv_def)
  then have "?i \<notin> fst ` set (hb_conns (ws_hub w))"
    by (metis list.set_map)
  note app = update_notin [OF new] update_notin [OF this]
  let ?s = "send_all k [Reply (Ready (cl_consumer cl))]
    \<lparr>so_client = cl, so_held = [], so_streams = [], so_missed = 0, so_pc = Idle, so_out = []\<rparr>"
  let ?w = "ws_connect cl k w"
  have sock: "ws_sockets ?w = ws_sockets w @ [(?i, ?s)]" and hub: "hb_topics (ws_hub ?w) = hb_topics (ws_hub w)"
    "hb_subscriptions (ws_hub ?w) = hb_subscriptions (ws_hub w)" "map fst (hb_conns (ws_hub ?w)) = map fst (ws_sockets ?w)"
    "hb_next_conn (ws_hub ?w) = Suc ?i"
    using conns by (simp_all add: ws_connect_def hub_register_def Let_def app)
  have empty: "so_streams ?s = []" "mine ?s = {}" "due ?s = 0" "socket_ok ?s"
    by (simp_all add: send_all_def mine_def owed_def due_def socket_ok_def)
  have get: "map_of (ws_sockets ?w) j = Some q \<longleftrightarrow> map_of (ws_sockets w) j = Some q \<or> j = ?i \<and> q = ?s" for j q
    using new by (auto simp: sock map_add_def map_of_eq_None_iff [THEN iffD2] split: option.splits)
  have "chan_recv B (ws_hub ?w) = chan_recv B (ws_hub w)" "topics_of (ws_hub ?w) = topics_of (ws_hub w)"
    by (auto simp: chan_recv_def topics_of_def hub)
  note same = this
  have "\<forall>t \<in> topics_of (ws_hub ?w). \<exists>j q. map_of (ws_sockets ?w) j = Some q \<and> t \<in> mine q"
    using ws_inv_live [OF assms] unfolding same get by blast
  moreover have "{j. \<exists>q. map_of (ws_sockets ?w) j = Some q \<and> t \<in> set (so_streams q)} =
      {j. \<exists>q. map_of (ws_sockets w) j = Some q \<and> t \<in> set (so_streams q)}" for t
    using empty(1) by (auto simp: get)
  moreover have "\<forall>j \<in> fst ` set (ws_sockets ?w). j < hb_next_conn (ws_hub ?w)"
    using assms by (auto simp: sock hub ws_inv_def)
  ultimately show ?thesis
    using assms new hub(3) empty(3,4) by (simp add: ws_inv_def same hub(1,2)) (simp add: sock)
qed

text \<open>The turns of an idle socket keep what it holds.\<close>

lemma send_all_simps [simp]:
  "so_held (send_all k ms s) = so_held s" "so_streams (send_all k ms s) = so_streams s" "so_client (send_all k ms s) = so_client s"
  "so_pc (send_all k ms s) = (if k < length ms then Ending else Idle)"
  by (simp_all add: send_all_def)

definition same_topics :: "ws_socket \<Rightarrow> ws_socket \<Rightarrow> bool" where
  "same_topics s s' =
     (so_held s' = so_held s \<and> so_streams s' = so_streams s \<and> so_client s' = so_client s \<and>
      (\<forall>t rest. so_pc s' \<noteq> Releasing t rest) \<and> (so_pc s' = Ending \<or> so_pc s \<noteq> Ending))"

lemma same_topics_turns:
  assumes "so_pc s = Idle"
  shows "same_topics s (on_close k c s)" "same_topics s (on_inbound from_json now_ms m s)" "same_topics s (on_stream k t it s)"
    "same_topics s (on_tick k s)"
  using assms
  by (auto simp: same_topics_def on_close_def on_inbound_def on_stream_def on_tick_def Let_def split: inbound.split sum.split client_frame.split)

lemma same_topics_facts:
  assumes "same_topics s s'" "\<forall>t rest. so_pc s \<noteq> Releasing t rest"
  shows "set (so_streams s') = set (so_streams s)" "mine s' = mine s" "due s' = due s" "socket_ok s \<Longrightarrow> socket_ok s'"
  using assms by (auto simp: same_topics_def mine_def owed_def due_def socket_ok_def split: pc.split)

lemma ws_inv_turn:
  assumes "ws_inv B w" "map_of (ws_sockets w) i = Some s" "same_topics s s'" "\<forall>t rest. so_pc s \<noteq> Releasing t rest" "keeps (ws_hub w) h'"
    and "\<And>t. chan_recv B h' t = chan_recv B (ws_hub w) t" "topics_of h' \<subseteq> topics_of (ws_hub w)"
    and "hb_subscriptions h' = hb_subscriptions (ws_hub w)"
  shows "ws_inv B (put_socket i s' (w\<lparr>ws_hub := h'\<rparr>))"
  using same_topics_facts [OF assms(3,4)] ws_inv_socket [OF assms(1,2)]
  by (intro ws_inv_local [OF assms(1,2) _ assms(5-8)]) auto

lemma busy_subscribe:
  assumes "broadcast_laws B" "ws_inv B w" "map_of (ws_sockets w) i = Some s" "so_pc s = Subscribing (raw # rest) out"
  shows "ws_inv B (put_busy i (busy_step B k i s (ws_hub w)) w)"
proof (cases "fst (sub_one raw rest out s)")
  case False
  then obtain s' where s': "sub_one raw rest out s = (False, s')"
    by (metis prod.collapse)
  then have "same_topics s s'"
    using assms(4) by (auto simp: sub_one_def same_topics_def split: option.splits if_splits)
  then show ?thesis
    using assms(4) s' ws_inv_turn [OF assms(2,3), of s' "ws_hub w"] by (simp add: busy_step_def put_busy_def hub_keeps)
next
  case True
  then have raw: "topic_parse raw = Some raw" "raw \<notin> set (so_held s)" "length (so_held s) < MAX_TOPICS_PER_SOCKET"
    "is_admin raw \<longrightarrow> cl_admin (so_client s)"
    by (auto simp: sub_one_def topic_parse_def Let_def split: option.splits if_splits)
  let ?s = "s\<lparr>so_held := so_held s @ [raw], so_streams := so_streams s @ [raw], so_pc := Subscribing rest out\<rparr>"
  let ?h = "hub_subscribe B raw i (ws_hub w)"
  have ok: "socket_ok s" and held: "so_streams s = so_held s"
    using ws_inv_socket [OF assms(2,3)] assms(4) by (auto simp: socket_ok_def)
  have fresh: "i \<notin> set (chan_recv B (ws_hub w) raw)"
    using raw(2) assms(3) held by (auto simp: ws_inv_recv [OF assms(2)])
  have "ws_inv B (put_socket i ?s (w\<lparr>ws_hub := ?h\<rparr>))"
  proof (rule ws_inv_put [OF assms(2,3)])
    show "distinct (chan_recv B ?h t) \<and>
      set (chan_recv B ?h t) = set (chan_recv B (ws_hub w) t) - {i} \<union> (if t \<in> set (so_streams ?s) then {i} else {})" for t
      using assms(3) fresh ws_inv_recv(1) [OF assms(2)] ws_inv_recv(2) [OF assms(2), of t]
      by (auto simp: chan_recv_subscribe [OF assms(1) fresh])
    show "t \<in> mine ?s \<or> (\<exists>j q. j \<noteq> i \<and> map_of (ws_sockets w) j = Some q \<and> t \<in> mine q)" if t: "t \<in> topics_of ?h" for t
    proof (cases "t = raw")
      case False
      then obtain j q where "map_of (ws_sockets w) j = Some q" "t \<in> mine q"
        using ws_inv_live [OF assms(2), of t] t by (auto simp: topics_of_simps)
      moreover have "mine s \<subseteq> mine ?s"
        using assms(4) by (auto simp: mine_def owed_def)
      ultimately show ?thesis
        using assms(3) by (cases "j = i") auto
    qed (simp add: mine_def)
  qed (use ok raw held assms(4) in \<open>auto simp: socket_ok_def due_def hub_keeps\<close>)
  then show ?thesis
    using assms(4) raw by (cases "is_admin raw") (simp_all add: busy_step_def put_busy_def sub_one_def)
qed

text \<open>A socket that drops a receiver, and one that releases a topic it no longer receives.\<close>

lemma ws_inv_drop:
  assumes "broadcast_laws B" "ws_inv B w" "map_of (ws_sockets w) i = Some s" "socket_ok s'" "t \<in> set (so_streams s)"
    and "set (so_streams s') = set (so_streams s) - {t}" "mine s \<subseteq> mine s'" "due s' = due s"
  shows "ws_inv B (put_socket i s' (w\<lparr>ws_hub := drop_receiver B t i (ws_hub w)\<rparr>))"
proof (rule ws_inv_put [OF assms(2-4)])
  let ?h = "drop_receiver B t i (ws_hub w)"
  show "distinct (chan_recv B ?h t') \<and>
      set (chan_recv B ?h t') = set (chan_recv B (ws_hub w) t') - {i} \<union> (if t' \<in> set (so_streams s') then {i} else {})" for t'
    using assms(3,6) by (auto simp: chan_recv_drop [OF assms(1)] ws_inv_recv [OF assms(2)] distinct_removeAll)
  show "t' \<in> mine s' \<or> (\<exists>j q. j \<noteq> i \<and> map_of (ws_sockets w) j = Some q \<and> t' \<in> mine q)" if t': "t' \<in> topics_of ?h" for t'
  proof -
    obtain j q where "map_of (ws_sockets w) j = Some q" "t' \<in> mine q"
      using ws_inv_live [OF assms(2), of t'] t' by (auto simp: topics_of_simps)
    then show ?thesis
      using assms(3,7) by (cases "j = i") auto
  qed
qed (simp_all add: hub_keeps assms(8))

lemma ws_inv_release:
  assumes "broadcast_laws B" "ws_inv B w" "map_of (ws_sockets w) i = Some s" "socket_ok s'"
    and "so_streams s' = so_streams s" "t \<notin> set (so_streams s)" "mine s \<subseteq> insert t (mine s')" "due s = Suc (due s')"
  shows "ws_inv B (put_socket i s' (w\<lparr>ws_hub := hub_release B t (ws_hub w)\<rparr>))"
proof (rule ws_inv_put [OF assms(2-4)])
  let ?h = "hub_release B t (ws_hub w)"
  show "distinct (chan_recv B ?h t') \<and>
      set (chan_recv B ?h t') = set (chan_recv B (ws_hub w) t') - {i} \<union> (if t' \<in> set (so_streams s') then {i} else {})" for t'
    using assms(3,5) by (auto simp: chan_recv_release [OF assms(1)] ws_inv_recv [OF assms(2)])
  show "t' \<in> mine s' \<or> (\<exists>j q. j \<noteq> i \<and> map_of (ws_sockets w) j = Some q \<and> t' \<in> mine q)" if t': "t' \<in> topics_of ?h" for t'
  proof (cases "t' = t")
    case True
    then obtain j where "j \<in> set (chan_recv B (ws_hub w) t)"
      using t' by (auto simp: topics_of_release [OF assms(1)] split: if_splits) (metis list.set_intros(1) neq_Nil_conv)
    then obtain q where "map_of (ws_sockets w) j = Some q" "t \<in> set (so_streams q)"
      by (auto simp: ws_inv_recv [OF assms(2)])
    then show ?thesis
      using assms(3,6) True by (cases "j = i") (auto simp: mine_def)
  next
    case False
    then have "t' \<in> topics_of (ws_hub w)"
      using t' by (auto simp: topics_of_release [OF assms(1)] split: if_splits)
    then obtain j q where "map_of (ws_sockets w) j = Some q" "t' \<in> mine q"
      using ws_inv_live [OF assms(2)] by blast
    then show ?thesis
      using assms(3,7) False by (cases "j = i") auto
  qed
qed (simp_all add: hub_keeps assms(8))

lemma map_fst_delete: "map fst (AList.delete k xs) = filter (\<lambda>j. k \<noteq> j) (map fst xs)"
  by (induction xs) (auto simp: delete_simps)

lemma ws_inv_gone:
  assumes "ws_inv B w" "map_of (ws_sockets w) i = Some s" "so_held s = []" "so_streams s = []" "so_pc s = Ending"
  shows "ws_inv B (w\<lparr>ws_hub := hub_unregister i (ws_hub w), ws_sockets := AList.delete i (ws_sockets w)\<rparr>)"
proof -
  let ?n = "AList.delete i (ws_sockets w)"
  have none: "mine s = {}" "due s = 0"
    using assms(3-5) by (simp_all add: mine_def owed_def due_def)
  have d: "distinct (map fst (ws_sockets w))"
    using assms(1) by (simp add: ws_inv_def)
  have "map fst (hb_conns (hub_unregister i (ws_hub w))) = map fst ?n"
    using assms(1) by (simp add: ws_inv_def hub_unregister_def map_fst_delete)
  moreover have "sum_list (map (\<lambda>(i, s). due s) ?n) = sum_list (map (\<lambda>(i, s). due s) (ws_sockets w))"
    using sum_delete [OF d assms(2), of "\<lambda>(i, s). due s"] none(2) by simp
  moreover have "\<exists>j q. map_of ?n j = Some q \<and> t \<in> mine q" if t: "t \<in> topics_of (ws_hub w)" for t
  proof -
    obtain j q where jq: "map_of (ws_sockets w) j = Some q" "t \<in> mine q"
      using ws_inv_live [OF assms(1) t] by blast
    then have "j \<noteq> i"
      using assms(2) none(1) by auto
    then show ?thesis
      using jq by (intro exI [of _ j] exI [of _ q]) (simp add: delete_conv')
  qed
  moreover have "{j. \<exists>q. map_of ?n j = Some q \<and> t \<in> set (so_streams q)} = {j. \<exists>q. map_of (ws_sockets w) j = Some q \<and> t \<in> set (so_streams q)}" for t
    using assms(2,4) by (auto simp: delete_conv')
  moreover have "\<forall>j \<in> fst ` set ?n. j < hb_next_conn (ws_hub w)" "list_all (\<lambda>(i, s). socket_ok s) ?n"
    using assms(1) by (auto simp: ws_inv_def AList.delete_eq list_all_iff)
  moreover have "chan_recv B (hub_unregister i (ws_hub w)) = chan_recv B (ws_hub w)" "topics_of (hub_unregister i (ws_hub w)) = topics_of (ws_hub w)"
    "hb_subscriptions (hub_unregister i (ws_hub w)) = hb_subscriptions (ws_hub w)" "hb_next_conn (hub_unregister i (ws_hub w)) = hb_next_conn (ws_hub w)"
    "hb_topics (hub_unregister i (ws_hub w)) = hb_topics (ws_hub w)"
    by (auto simp: hub_unregister_def chan_recv_def topics_of_def)
  ultimately show ?thesis
    using assms(1) d by (simp add: ws_inv_def distinct_delete)
qed

lemma busy_unsubscribe:
  assumes "broadcast_laws B" "ws_inv B w" "map_of (ws_sockets w) i = Some s" "so_pc s = Unsubscribing (raw # rest)" "raw \<in> set (so_held s)"
  shows "ws_inv B (put_busy i (busy_step B k i s (ws_hub w)) w)"
proof -
  let ?s = "s\<lparr>so_held := remove1 raw (so_held s), so_streams := remove1 raw (so_streams s), so_pc := Releasing raw rest\<rparr>"
  have ok: "socket_ok s" and held: "so_streams s = so_held s"
    using ws_inv_socket [OF assms(2,3)] assms(4) by (auto simp: socket_ok_def)
  have "Suc (length (so_held s) - 1) = length (so_held s)"
    using length_pos_if_in_set [OF assms(5)] by simp
  then have "due ?s = due s"
    using assms(4,5) by (simp add: due_def length_remove1)
  moreover have "socket_ok ?s"
    using ok held by (auto simp: socket_ok_def length_remove1 dest: notin_set_remove1)
  ultimately have "ws_inv B (put_socket i ?s (w\<lparr>ws_hub := drop_receiver B raw i (ws_hub w)\<rparr>))"
    using ok held assms(4,5) by (intro ws_inv_drop [OF assms(1-3)]) (auto simp: socket_ok_def mine_def owed_def)
  then show ?thesis
    using assms(4,5) by (simp add: busy_step_def put_busy_def)
qed

lemma ws_inv_busy:
  assumes "broadcast_laws B" "ws_inv B w" "map_of (ws_sockets w) i = Some s" "so_pc s \<noteq> Idle"
  shows "ws_inv B (put_busy i (busy_step B k i s (ws_hub w)) w)"
proof -
  have ok: "socket_ok s"
    by (rule ws_inv_socket [OF assms(2,3)])
  note turn = ws_inv_turn [OF assms(2,3), where h' = "ws_hub w", simplified]
  show ?thesis
  proof (cases "so_pc s")
    case (Subscribing raws out)
    then show ?thesis
      using turn busy_subscribe [OF assms(1-3)] by (cases raws) (simp_all add: busy_step_def put_busy_def hub_keeps same_topics_def)
  next
    case (Unsubscribing raws)
    show ?thesis
    proof (cases "raws \<noteq> [] \<and> hd raws \<in> set (so_held s)")
      case True
      then show ?thesis
        using busy_unsubscribe [OF assms(1-3)] Unsubscribing by (cases raws) auto
    next
      case False
      then show ?thesis
        using Unsubscribing turn by (cases raws) (simp_all add: busy_step_def put_busy_def hub_keeps same_topics_def)
    qed
  next
    case (Releasing t rest)
    then have "t \<notin> set (so_streams s)"
      using ok by (auto simp: socket_ok_def)
    then show ?thesis
      using ok Releasing ws_inv_release [OF assms(1-3), of "s\<lparr>so_pc := Unsubscribing rest\<rparr>" t]
      by (simp add: busy_step_def put_busy_def socket_ok_def mine_def owed_def due_def)
  next
    case (Replying replies)
    then show ?thesis
      using turn by (simp add: busy_step_def put_busy_def hub_keeps same_topics_def)
  next
    case Ending
    then show ?thesis
      using ok ws_inv_gone [OF assms(2,3)]
      by (auto simp: busy_step_def put_busy_def socket_ok_def mine_def owed_def due_def split: list.split intro!: ws_inv_drop [OF assms(1-3)] ws_inv_release [OF assms(1-3)])
  qed (use assms(4) in simp)
qed

lemma ws_inv_step:
  assumes "broadcast_laws B" "ws_step B from_json x y" "ws_inv B (fst x)"
  shows "ws_inv B (fst y)"
  using assms(2,3)
proof (induction rule: ws_step.induct)
  case (Connect w l cl k)
  then show ?case
    by (simp add: ws_inv_connect)
next
  case (Publish w l t event frame)
  then show ?case
    by (simp add: ws_inv_hub hub_keeps chan_recv_publish [OF assms(1)] topics_of_simps)
next
  case (Close_consumer w l cid)
  then show ?case
    by (auto simp: close_consumer_def chan_recv_def topics_of_def intro!: ws_inv_hub hub_keeps(7) [of _ cid, unfolded close_consumer_def snd_conv])
next
  case (Close_all w l)
  then show ?case
    by (auto simp: hub_shutdown_def chan_recv_def topics_of_def intro!: ws_inv_hub hub_keeps(8) [unfolded hub_shutdown_def])
next
  case (See_close w i s c l k)
  have "chan_recv B (seen_close i (ws_hub w)) = chan_recv B (ws_hub w)"
    by (rule ext) (simp add: seen_close_def chan_recv_def)
  then show ?case
    using See_close ws_inv_turn [OF _ See_close(1) same_topics_turns(1) [OF See_close(2)], of B "seen_close i (ws_hub w)"]
    by (simp add: hub_keeps topics_of_simps)
next
  case (Inbound w i s l now_ms m)
  then show ?case
    using ws_inv_turn [OF _ Inbound(1) same_topics_turns(2) [OF Inbound(2)], of B "ws_hub w"] by (simp add: hub_keeps)
next
  case (Stream w i s t c it c' l k)
  have i: "i \<in> set (chan_recv B (ws_hub w) t)"
    using Stream(1,3,6) by (simp add: ws_inv_recv)
  have "t \<in> topics_of (ws_hub w)"
    using Stream(4) by (simp add: topics_of_map_of)
  then show ?case
    using Stream ws_inv_turn [OF _ Stream(1) same_topics_turns(3) [OF Stream(2)], of B "set_topic t c' (ws_hub w)"]
    by (simp add: hub_keeps topics_of_simps insert_absorb chan_recv_poll [OF assms(1) Stream(4) i Stream(5)])
next
  case (Tick w i s l k)
  then show ?case
    using ws_inv_turn [OF _ Tick(1) same_topics_turns(4) [OF Tick(2)], of B "ws_hub w"] by (simp add: hub_keeps)
next
  case (Busy w i s l k)
  then show ?case
    by (simp add: ws_inv_busy [OF assms(1)])
qed

lemma ws_inv_reachable:
  assumes "broadcast_laws B"
  shows "ws_reachable B from_json x \<Longrightarrow> ws_inv B (fst x)"
proof (induction rule: ws_reachable.induct)
  case (Init capacity)
  show ?case
    by (simp add: ws_inv_init)
next
  case (Step x y)
  then show ?case
    using ws_inv_step [OF assms] by blast
qed

section \<open>What a ws_socket is sent\<close>

definition chan_unread :: "'c broadcast \<Rightarrow> 'c hub \<Rightarrow> topic \<Rightarrow> nat \<Rightarrow> string set" where
  "chan_unread B h t i =
     (if i \<in> set (chan_recv B h t) then set (case map_of (hb_topics h) t of None \<Rightarrow> [] | Some c \<Rightarrow> bc_unread B c i) else {})"

text \<open>A frame that a topic carries: published there, or anywhere when the topic is the firehose.\<close>

definition carried :: "(topic \<times> string) list \<Rightarrow> topic \<Rightarrow> string set" where
  "carried l t = {f. \<exists>u. (u, f) \<in> set l \<and> (u = t \<or> t = FIREHOSE)}"

definition events_ok :: "(topic \<times> string) list \<Rightarrow> ws_socket \<Rightarrow> bool" where
  "events_ok l s = (\<forall>t f. Event_text t f \<in> set (so_out s) \<longrightarrow> f \<in> carried l t \<and> (is_admin t \<longrightarrow> cl_admin (so_client s)))"

definition log_inv :: "'c broadcast \<Rightarrow> 'c ws_world \<times> (topic \<times> string) list \<Rightarrow> bool" where
  "log_inv B x = (case x of (w, l) \<Rightarrow>
     (\<forall>t i. chan_unread B (ws_hub w) t i \<subseteq> carried l t) \<and> list_all (\<lambda>(i, s). events_ok l s) (ws_sockets w))"

lemma carried_append: "carried l t \<subseteq> carried (l @ l') t"
  by (auto simp: carried_def)

lemma carried_published: "f \<in> carried (l @ [(t, f)]) t" "f \<in> carried (l @ [(t, f)]) FIREHOSE"
  by (auto simp: carried_def)

lemma chan_unread_cong: "hb_topics h' = hb_topics h \<Longrightarrow> chan_unread B h' t i = chan_unread B h t i"
  by (simp only: chan_unread_def chan_recv_def)

lemma chan_unread_send_to:
  assumes "broadcast_laws B"
  shows "chan_unread B (snd (send_to B t m h)) t' i \<subseteq> chan_unread B h t' i \<union> (if t' = t then {m} else {})"
  using bc_sent [OF assms, of m] bc_send_unread [OF assms, of i _ m]
  by (auto simp: chan_unread_def chan_recv_def send_to_def update_conv' case_prod_unfold split: option.splits if_splits)

lemma chan_unread_publish:
  assumes "broadcast_laws B"
  shows "chan_unread B (snd (hub_publish B t e m h)) t' i \<subseteq> chan_unread B h t' i \<union> (if t' = t \<or> t' = FIREHOSE then {m} else {})"
proof -
  have same: "chan_unread B (h\<lparr>hb_published := p\<rparr>) = chan_unread B h" for p
    by (intro ext chan_unread_cong) simp
  let ?h0 = "h\<lparr>hb_published := AList.update e ((case map_of (hb_published h) e of Some k \<Rightarrow> k | None \<Rightarrow> 0) + 1) (hb_published h)\<rparr>"
  have "snd (hub_publish B t e m h) =
      (if is_firehose t then snd (send_to B t m ?h0) else snd (send_to B FIREHOSE m (snd (send_to B t m ?h0))))"
    by (simp add: hub_publish_def Let_def case_prod_unfold)
  then show ?thesis
    using chan_unread_send_to [OF assms, of t m ?h0 t' i] chan_unread_send_to [OF assms, of FIREHOSE m "snd (send_to B t m ?h0)" t' i]
    by (auto simp: same split: if_splits)
qed

lemma chan_unread_subscribe:
  assumes "broadcast_laws B" "r \<notin> set (chan_recv B h t)"
  shows "chan_unread B (hub_subscribe B t r h) t' i \<subseteq> chan_unread B h t' i"
  using assms(2)
  by (auto simp: chan_unread_def chan_recv_def hub_subscribe_def Let_def update_conv' laws [OF assms(1)] split: option.splits if_splits)

lemma chan_unread_drop:
  assumes "broadcast_laws B"
  shows "chan_unread B (drop_receiver B t r h) t' i \<subseteq> chan_unread B h t' i"
  by (auto simp: chan_unread_def chan_recv_def drop_receiver_def update_conv' laws [OF assms] split: option.splits if_splits)

lemma chan_unread_release:
  assumes "broadcast_laws B"
  shows "chan_unread B (hub_release B t h) t' i \<subseteq> chan_unread B h t' i"
  by (auto simp: chan_unread_def chan_recv_def hub_release_def Let_def delete_conv' split: option.splits if_splits)

lemma chan_unread_poll:
  assumes "broadcast_laws B" "map_of (hb_topics h) t = Some c" "r \<in> set (chan_recv B h t)" "bc_poll B r c = (Some it, c')"
  shows "chan_unread B (set_topic t c' h) t' i \<subseteq> chan_unread B h t' i" "it = Got f \<Longrightarrow> f \<in> chan_unread B h t r"
proof -
  have r: "r \<in> set (bc_receivers B c)"
    using assms(2,3) by (simp add: chan_recv_def)
  have "poll_law (bc_unread B c r) (Some it) (bc_unread B c' r)" "bc_receivers B c' = bc_receivers B c"
    "\<And>q. q \<noteq> r \<Longrightarrow> bc_unread B c' q = bc_unread B c q"
    using bc_poll_unread [OF assms(1) r] bc_polled [OF assms(1) r] bc_poll_other [OF assms(1) r] assms(4) by simp_all
  note polled = this
  have "set (bc_unread B c' q) \<subseteq> set (bc_unread B c q)" for q
    using polled(1,3) set_drop_subset by (cases "q = r") (auto simp: poll_law_def split: item.splits dest: in_set_dropD)
  then show "chan_unread B (set_topic t c' h) t' i \<subseteq> chan_unread B h t' i"
    using assms(2) polled(2) by (auto simp: chan_unread_def chan_recv_def set_topic_def update_conv' split: if_splits)
  show "it = Got f \<Longrightarrow> f \<in> chan_unread B h t r"
    using polled(1) r assms(2) by (simp add: chan_unread_def chan_recv_def poll_law_def)
qed

lemma events_ok_append: "events_ok l s \<Longrightarrow> events_ok (l @ l') s"
  using carried_append by (fastforce simp: events_ok_def)

lemma events_ok_turns:
  assumes "events_ok l s"
  shows "events_ok l (on_close k c s)" "events_ok l (on_inbound from_json now_ms m s)" "events_ok l (on_tick k s)"
  using assms
  by (auto simp: events_ok_def on_close_def on_inbound_def on_tick_def send_all_def close_frame_def Let_def
      split: inbound.splits sum.splits client_frame.splits closing.splits if_splits dest!: in_set_takeD)

lemma events_ok_stream:
  assumes "events_ok l s" "\<And>f. it = Got f \<Longrightarrow> f \<in> carried l t" "is_admin t \<longrightarrow> cl_admin (so_client s)"
  shows "events_ok l (on_stream k t it s)"
  using assms by (auto simp: events_ok_def on_stream_def send_all_def split: item.splits if_splits dest!: in_set_takeD)

lemma events_ok_busy:
  assumes "events_ok l s" "busy_step B k i s h = (Some s', h')"
  shows "events_ok l s'"
  using assms
  by (auto simp: events_ok_def busy_step_def sub_one_def send_all_def split: pc.splits list.splits option.splits prod.splits if_splits
      dest!: in_set_takeD)

lemma log_inv_put:
  assumes "log_inv B (w, l)" "\<And>t i. chan_unread B h' t i \<subseteq> chan_unread B (ws_hub w) t i" "events_ok l s'" "distinct (map fst (ws_sockets w))"
  shows "log_inv B (put_socket i s' (w\<lparr>ws_hub := h'\<rparr>), l)"
proof -
  have "list_all (\<lambda>(i, s). events_ok l s) (AList.update i s' (ws_sockets w))"
    using assms(1,3,4) by (intro list_all_update) (simp_all add: log_inv_def)
  moreover have "chan_unread B h' t i \<subseteq> carried l t" for t i
    using assms(1,2) by (fastforce simp: log_inv_def)
  ultimately show ?thesis
    by (simp add: log_inv_def put_socket_def)
qed

lemma log_inv_socket: "log_inv B (w, l) \<Longrightarrow> map_of (ws_sockets w) i = Some s \<Longrightarrow> events_ok l s"
  by (auto simp: log_inv_def list_all_iff dest!: map_of_SomeD)

lemma chan_unread_busy:
  assumes "broadcast_laws B" "ws_inv B w" "map_of (ws_sockets w) i = Some s"
  shows "chan_unread B (snd (busy_step B k i s (ws_hub w))) t j \<subseteq> chan_unread B (ws_hub w) t j"
proof -
  have "chan_unread B (hub_subscribe B raw i (ws_hub w)) t j \<subseteq> chan_unread B (ws_hub w) t j"
    if "so_pc s = Subscribing (raw # rest) out" "fst (sub_one raw rest out s)" for raw rest out
  proof (rule chan_unread_subscribe [OF assms(1)])
    have "so_streams s = so_held s" "raw \<notin> set (so_held s)"
      using ws_inv_socket [OF assms(2,3)] that
      by (auto simp: socket_ok_def sub_one_def topic_parse_def Let_def split: option.splits if_splits)
    then show "i \<notin> set (chan_recv B (ws_hub w) raw)"
      using assms(3) by (simp add: ws_inv_recv [OF assms(2)])
  qed
  moreover have "chan_unread B (hub_unregister i (ws_hub w)) t j = chan_unread B (ws_hub w) t j"
    by (rule chan_unread_cong) (simp add: hub_unregister_def)
  ultimately show ?thesis
    using chan_unread_drop [OF assms(1)] chan_unread_release [OF assms(1)]
    by (auto simp: busy_step_def case_prod_unfold split: pc.split list.split)
qed

lemma log_inv_step:
  assumes "broadcast_laws B" "ws_step B from_json x y" "ws_inv B (fst x)" "log_inv B x"
  shows "log_inv B y"
proof -
  have d: "distinct (map fst (ws_sockets (fst x)))"
    using assms(3) by (simp add: ws_inv_def)
  have put: "log_inv B (w, l) \<Longrightarrow> events_ok l s' \<Longrightarrow> distinct (map fst (ws_sockets w)) \<Longrightarrow> log_inv B (put_socket i s' w, l)"
    for w :: "'a ws_world" and l s' i
    using log_inv_put [of B w l "ws_hub w" s' i] by simp
  show ?thesis
    using assms(2-4) d
  proof (induction rule: ws_step.induct)
    case (Connect w l cl k)
    have "\<And>t i. chan_unread B (ws_hub (ws_connect cl k w)) t i = chan_unread B (ws_hub w) t i"
      by (rule chan_unread_cong) (simp add: ws_connect_def hub_register_def Let_def)
    then show ?case
      using Connect by (auto simp: log_inv_def ws_connect_def hub_register_def Let_def events_ok_def send_all_def
          intro!: list_all_update dest!: in_set_takeD)
  next
    case (Publish w l t event frame)
    have "chan_unread B (snd (hub_publish B t event frame (ws_hub w))) t' i \<subseteq> carried (l @ [(t, frame)]) t'" for t' i
      using chan_unread_publish [OF assms(1), of t event frame "ws_hub w" t' i] Publish(2)
        carried_append [of l t' "[(t, frame)]"] carried_published [of frame l t] by (fastforce simp: log_inv_def split: if_splits)
    then show ?case
      using Publish(2) by (auto simp: log_inv_def list_all_iff intro: events_ok_append)
  next
    case (Close_consumer w l cid)
    have "\<And>t i. chan_unread B (snd (close_consumer cid (ws_hub w))) t i = chan_unread B (ws_hub w) t i"
      by (rule chan_unread_cong) (simp add: close_consumer_def)
    then show ?case
      using Close_consumer by (simp add: log_inv_def)
  next
    case (Close_all w l)
    have "\<And>t i. chan_unread B (hub_shutdown (ws_hub w)) t i = chan_unread B (ws_hub w) t i"
      by (rule chan_unread_cong) (simp add: hub_shutdown_def)
    then show ?case
      using Close_all by (simp add: log_inv_def)
  next
    case (See_close w i s c l k)
    have "\<And>t i'. chan_unread B (seen_close i (ws_hub w)) t i' = chan_unread B (ws_hub w) t i'"
      by (rule chan_unread_cong) (simp add: seen_close_def)
    then show ?case
      using See_close by (intro log_inv_put) (simp_all add: events_ok_turns log_inv_socket)
  next
    case (Inbound w i s l now_ms m)
    then show ?case
      by (intro put) (simp_all add: events_ok_turns log_inv_socket)
  next
    case (Stream w i s t c it c' l k)
    have i: "i \<in> set (chan_recv B (ws_hub w) t)"
      using Stream(1,3,6) by (simp add: ws_inv_recv)
    note poll = chan_unread_poll [OF assms(1) Stream(4) i Stream(5)]
    have "is_admin t \<longrightarrow> cl_admin (so_client s)"
      using ws_inv_socket [OF Stream(6) [simplified] Stream(1)] Stream(3) by (auto simp: socket_ok_def)
    moreover have "f \<in> carried l t" if "it = Got f" for f
      using poll(2) [OF that] Stream(7) by (auto simp: log_inv_def)
    ultimately show ?case
      using Stream by (intro log_inv_put poll(1) events_ok_stream) (simp_all add: log_inv_socket)
  next
    case (Tick w i s l k)
    then show ?case
      by (intro put) (simp_all add: events_ok_turns log_inv_socket)
  next
    case (Busy w i s l k)
    obtain r h where r: "busy_step B k i s (ws_hub w) = (r, h)"
      by (cases "busy_step B k i s (ws_hub w)")
    have unread: "chan_unread B h t j \<subseteq> chan_unread B (ws_hub w) t j" for t j
      using chan_unread_busy [OF assms(1) Busy(3) [simplified] Busy(1), of k t j] r by simp
    show ?case
    proof (cases r)
      case None
      then show ?thesis
        using unread Busy(4) r by (fastforce simp: put_busy_def log_inv_def AList.delete_eq list_all_iff)
    next
      case (Some s')
      then show ?thesis
        using Busy(5) r unread events_ok_busy [OF log_inv_socket [OF Busy(4,1)], of B k i "ws_hub w" s' h]
        by (simp add: put_busy_def) (intro log_inv_put [OF Busy(4)], auto)
    qed
  qed
qed

lemma log_inv_reachable:
  assumes "broadcast_laws B"
  shows "ws_reachable B from_json x \<Longrightarrow> log_inv B x"
proof (induction rule: ws_reachable.induct)
  case (Init capacity)
  show ?case
    by (simp add: log_inv_def hub_new_def chan_unread_def chan_recv_def)
next
  case (Step x y)
  then show ?case
    using log_inv_step [OF assms _ ws_inv_reachable [OF assms]] by blast
qed

section \<open>Promises\<close>


text \<open>C18. A socket without the admin scope never sees an admin topic: every event it was ever sent was published on the very
  topic it names, which is a player's or the patch topic, and it holds no other.\<close>

theorem admin_topics_guarded:
  assumes "broadcast_laws B" "ws_reachable B from_json (w, l)" "map_of (ws_sockets w) i = Some s" "\<not> cl_admin (so_client s)"
  shows "(Event_text t f \<in> set (so_out s) \<longrightarrow> (t, f) \<in> set l \<and> t \<notin> set [FIREHOSE, METRICS, LADDER]) \<and>
    (t \<in> set (so_held s) \<longrightarrow> t \<notin> set [FIREHOSE, METRICS, LADDER] \<and> topic_parse t = Some t)"
proof -
  have "events_ok l s" "socket_ok s"
    using log_inv_socket [OF log_inv_reachable [OF assms(1,2)] assms(3)]
      ws_inv_socket [OF _ assms(3)] ws_inv_reachable [OF assms(1,2)] by auto
  then show ?thesis
    using assms(4) by (auto simp: events_ok_def carried_def socket_ok_def is_admin_def)
qed

section \<open>A channel, and runs on it\<close>

type_synonym ring = "nat \<times> (nat \<times> string list) list"

definition ring_poll :: "nat \<Rightarrow> ring \<Rightarrow> item option \<times> ring" where
  "ring_poll r c =
     (case map_of (snd c) r of
        None \<Rightarrow> (None, c)
      | Some q \<Rightarrow>
          let put = (\<lambda>q'. (fst c, map (\<lambda>(j, x). (j, if j = r then q' else x)) (snd c))) in
          if q = [] then (None, c)
          else if fst c < length q then (Some (Lagged (length q - fst c)), put (drop (length q - fst c) q))
          else (Some (Got (hd q)), put (tl q)))"

definition ring_ops :: "ring broadcast" where
  "ring_ops =
     \<lparr>bc_channel = (\<lambda>n. (n, [])), bc_subscribe = (\<lambda>r c. (fst c, snd c @ [(r, [])])),
      bc_drop = (\<lambda>r c. (fst c, filter (\<lambda>(j, q). j \<noteq> r) (snd c))),
      bc_send = (\<lambda>m c. if snd c = [] then (None, c) else (Some (length (snd c)), (fst c, map (\<lambda>(j, q). (j, q @ [m])) (snd c)))),
      bc_count = (\<lambda>c. length (snd c)), bc_poll = ring_poll, bc_receivers = (\<lambda>c. map fst (snd c)),
      bc_unread = (\<lambda>c r. case map_of (snd c) r of None \<Rightarrow> [] | Some q \<Rightarrow> q)\<rparr>"

lemma ring_laws: "broadcast_laws ring_ops"
proof -
  have drop: "map fst (filter (\<lambda>(j, q). j \<noteq> r) qs) = removeAll r (map fst qs)" for r and qs :: "(nat \<times> string list) list"
    by (induction qs) auto
  have gone: "map_of (filter (\<lambda>(j, q). j \<noteq> r) qs) i = (if i = r then None else map_of qs i)" for r i and qs :: "(nat \<times> string list) list"
    by (induction qs) auto
  have put: "map_of (map (\<lambda>(j, x). (j, if j = r then q' else x)) qs) i = (if i = r \<and> map_of qs r \<noteq> None then Some q' else map_of qs i)"
    for r i q' and qs :: "(nat \<times> string list) list"
    by (induction qs) auto
  have snoc: "map_of (map (\<lambda>(j, q). (j, q @ [m])) qs) i = map_option (\<lambda>q. q @ [m]) (map_of qs i)" for m i and qs :: "(nat \<times> string list) list"
    by (induction qs) auto
  have mem: "(r \<in> fst ` set qs) = (map_of qs r \<noteq> None)" for r and qs :: "(nat \<times> string list) list"
    by (simp add: map_of_eq_None_iff)
  have keys: "map fst (map (\<lambda>(j, x). (j, f j x)) qs) = map fst qs" for f and qs :: "(nat \<times> string list) list"
    by auto
  have poll: "bc_receivers ring_ops (snd (ring_poll r c)) = bc_receivers ring_ops c \<and>
      poll_law (bc_unread ring_ops c r) (fst (ring_poll r c)) (bc_unread ring_ops (snd (ring_poll r c)) r) \<and>
      (\<forall>i. i \<noteq> r \<longrightarrow> bc_unread ring_ops (snd (ring_poll r c)) i = bc_unread ring_ops c i)"
    if r: "r \<in> set (bc_receivers ring_ops c)" for r c
  proof -
    obtain q where "map_of (snd c) r = Some q"
      using r by (auto simp: ring_ops_def mem)
    then show ?thesis
      by (auto simp: ring_ops_def ring_poll_def poll_law_def Let_def put keys)
  qed
  have "bc_unread ring_ops (bc_subscribe ring_ops r c) = (bc_unread ring_ops c)(r := [])" if "r \<notin> set (bc_receivers ring_ops c)" for r c
    using that by (auto simp: ring_ops_def mem map_add_def fun_eq_iff split: option.splits)
  moreover have "bc_unread ring_ops (snd (bc_send ring_ops m c)) r = bc_unread ring_ops c r @ [m]" if "r \<in> set (bc_receivers ring_ops c)" for m r c
    using that by (auto simp: ring_ops_def mem snoc)
  moreover have "bc_receivers ring_ops (snd (bc_send ring_ops m c)) = bc_receivers ring_ops c" for m c
    by (auto simp: ring_ops_def)
  ultimately show ?thesis
    unfolding broadcast_laws_def using poll by (simp add: ring_ops_def drop gone)
qed

datatype action =
    Do_connect client
  | Do_publish topic string string
  | Do_inbound nat inbound
  | Do_stream nat topic
  | Do_busy nat

fun act :: "(string \<Rightarrow> raw_frame option) \<Rightarrow> action \<Rightarrow> ring ws_world \<times> (topic \<times> string) list \<Rightarrow> (ring ws_world \<times> (topic \<times> string) list) option" where
  "act from_json (Do_connect cl) (w, l) = Some (ws_connect cl 9 w, l)"
| "act from_json (Do_publish t e f) (w, l) = Some (w\<lparr>ws_hub := snd (hub_publish ring_ops t e f (ws_hub w))\<rparr>, l @ [(t, f)])"
| "act from_json (Do_inbound i m) (w, l) =
     (case map_of (ws_sockets w) i of
        Some s \<Rightarrow> if so_pc s = Idle then Some (put_socket i (on_inbound from_json 0 m s) w, l) else None
      | None \<Rightarrow> None)"
| "act from_json (Do_stream i t) (w, l) =
     (case map_of (ws_sockets w) i of
        Some s \<Rightarrow>
          (case map_of (hb_topics (ws_hub w)) t of
             Some c \<Rightarrow>
               (case ring_poll i c of
                  (Some it, c') \<Rightarrow>
                    if so_pc s = Idle \<and> t \<in> set (so_streams s)
                    then Some (put_socket i (on_stream 9 t it s) (w\<lparr>ws_hub := set_topic t c' (ws_hub w)\<rparr>), l) else None
                | (None, c') \<Rightarrow> None)
           | None \<Rightarrow> None)
      | None \<Rightarrow> None)"
| "act from_json (Do_busy i) (w, l) =
     (case map_of (ws_sockets w) i of
        Some s \<Rightarrow> if so_pc s \<noteq> Idle then Some (put_busy i (busy_step ring_ops 9 i s (ws_hub w)) w, l) else None
      | None \<Rightarrow> None)"

fun acts :: "(string \<Rightarrow> raw_frame option) \<Rightarrow> action list \<Rightarrow> ring ws_world \<times> (topic \<times> string) list \<Rightarrow> (ring ws_world \<times> (topic \<times> string) list) option" where
  "acts from_json [] x = Some x"
| "acts from_json (a # as) x = Option.bind (act from_json a x) (acts from_json as)"

lemma act_step: "act from_json a x = Some y \<Longrightarrow> ws_step ring_ops from_json x y"
proof (induction from_json a x rule: act.induct)
  case (4 from_json i t w l)
  then show ?case
    using ws_step.Stream [of w i _ t _ ring_ops _ _ from_json l 9] by (auto simp: ring_ops_def split: option.splits prod.splits if_splits)
qed (auto intro: ws_step.intros split: option.splits if_splits)

lemma acts_reachable: "acts from_json as x = Some y \<Longrightarrow> ws_reachable ring_ops from_json x \<Longrightarrow> ws_reachable ring_ops from_json y"
proof (induction as arbitrary: x)
  case (Cons a as)
  then obtain z where "act from_json a x = Some z" "acts from_json as z = Some y"
    by (auto simp: bind_eq_Some_conv)
  then show ?case
    using Cons.IH act_step ws_reachable.Step [OF Cons.prems(2)] by blast
qed simp

definition sample_json :: "string \<Rightarrow> raw_frame option" where
  "sample_json t =
     (let frame = (\<lambda>op x. Some \<lparr>rf_op = Some (JString op), rf_topics = Some (JArray [JString x])\<rparr>) in
      if t = ''p'' then frame ''subscribe'' PATCH
      else if t = ''f'' then frame ''subscribe'' FIREHOSE
      else if t = ''u'' then frame ''unsubscribe'' FIREHOSE
      else None)"

definition sample_client :: "bool \<Rightarrow> client" where
  "sample_client a = \<lparr>cl_consumer_id = ''c'', cl_consumer = ''web'', cl_admin = a\<rparr>"

definition sample_init :: "ring ws_world \<times> (topic \<times> string) list" where
  "sample_init = (\<lparr>ws_hub = hub_new CAPACITY, ws_sockets = []\<rparr>, [])"

definition frame_of :: "string \<Rightarrow> action list" where
  "frame_of t = [Do_inbound 0 (Text_in t), Do_busy 0, Do_busy 0, Do_busy 0]"

definition events_of :: "ws_socket \<Rightarrow> string list" where
  "events_of s = List.map_filter (\<lambda>m. case m of Event_text t f \<Rightarrow> Some f | _ \<Rightarrow> None) (so_out s)"

text \<open>What a run leaves: what socket 0 holds, the events it was sent, and whether every receiver has read everything.\<close>

definition summary :: "(ring ws_world \<times> (topic \<times> string) list) option \<Rightarrow> (topic list \<times> string list \<times> bool) option" where
  "summary r =
     (case r of
        None \<Rightarrow> None
      | Some (w, l) \<Rightarrow>
          map_option (\<lambda>s. (so_held s, events_of s, list_all (\<lambda>(t, c). list_all (\<lambda>(i, q). q = []) (snd c)) (hb_topics (ws_hub w))))
            (map_of (ws_sockets w) 0))"

definition run_of :: "bool \<Rightarrow> action list \<Rightarrow> (ring ws_world \<times> (topic \<times> string) list) option" where
  "run_of admin as = acts sample_json (Do_connect (sample_client admin) # frame_of ''p'' @ as) sample_init"

lemma run_of_reachable: "run_of admin as = Some x \<Longrightarrow> ws_reachable ring_ops sample_json x"
  using acts_reachable [of sample_json _ sample_init x] ws_reachable.Init [folded sample_init_def]
  unfolding run_of_def sample_init_def by blast



theorem admin_topics_guarded_witness:
  "\<exists>w l s. run_of False [Do_publish PATCH ''patch.new'' ''e'', Do_stream 0 PATCH] = Some (w, l) \<and> map_of (ws_sockets w) 0 = Some s \<and>
     Event_text PATCH ''e'' \<in> set (so_out s) \<and> (PATCH, ''e'') \<in> set l \<and> PATCH \<notin> set [FIREHOSE, METRICS, LADDER]"
proof -
  let ?r = "run_of False [Do_publish PATCH ''patch.new'' ''e'', Do_stream 0 PATCH]"
  have "Option.bind ?r (\<lambda>(w, l). map_option (\<lambda>s. (cl_admin (so_client s), list_ex (\<lambda>m. m = Event_text PATCH ''e'') (so_out s)))
      (map_of (ws_sockets w) 0)) = Some (False, True)"
    by code_simp
  then obtain w l s where r: "?r = Some (w, l)" "map_of (ws_sockets w) 0 = Some s" "\<not> cl_admin (so_client s)"
    "Event_text PATCH ''e'' \<in> set (so_out s)"
    by (auto simp: bind_eq_Some_conv list_ex_iff)
  then show ?thesis
    using admin_topics_guarded [OF ring_laws run_of_reachable [OF r(1)] r(2,3), of PATCH "''e''"] r by auto
qed

end
