(* ===== verification/Pack.thy ===== *)
theory Pack
  imports Text_Ops "HOL-Library.Monad_Syntax" "HOL-Library.Multiset"
begin

text \<open>
  Packs, \<^verbatim>\<open>src/archive/pack.rs\<close>: many archived bodies in one object, with an index at its end. Bytes are natural
  numbers. The libraries are arguments: the digest \<open>sha\<close> (SHA-256) and its hex form, the zstd codec of the index,
  and the JSON of an index line; the functions take them together as a record.
\<close>

type_synonym bytes = "nat list"

definition MAGIC :: bytes where
  "MAGIC = [82, 80, 88, 80, 65, 67, 75, 49]"

definition TRAILER_LEN :: nat where
  "TRAILER_LEN = 16"

datatype kind = Match | Timeline

fun kind_as_str :: "kind \<Rightarrow> string" where
  "kind_as_str Match = ''match''"
| "kind_as_str Timeline = ''timeline''"

fun kind_table :: "kind \<Rightarrow> string" where
  "kind_table Match = ''matches''"
| "kind_table Timeline = ''timelines''"

datatype pack_error =
  Empty | Duplicate_body string | EmptyBody string | NotAPack string | Bad_index string | Zstd

record 'd entry =
  e_kind :: kind
  e_match_id :: string
  e_offset :: nat
  e_len :: nat
  e_sha256 :: 'd

record line =
  ln_kind :: kind
  ln_match_id :: string
  ln_offset :: nat
  ln_len :: nat
  ln_sha256 :: string

record 'd codec =
  sha :: "bytes \<Rightarrow> 'd"
  hex_encode :: "'d \<Rightarrow> string"
  hex_decode :: "string \<Rightarrow> string + 'd"
  zstd_encode :: "bytes \<Rightarrow> bytes option"
  zstd_decode :: "bytes \<Rightarrow> bytes option"
  to_json :: "line \<Rightarrow> string + bytes"
  from_json :: "bytes \<Rightarrow> string + line"

record ('u, 'd) pack =
  p_id :: 'u
  p_kind :: kind
  p_bytes :: bytes
  p_entries :: "'d entry list"
  p_sha256 :: 'd

definition pack_metadata :: "'d codec \<Rightarrow> ('u, 'd) pack \<Rightarrow> (string \<times> string) list" where
  "pack_metadata C p = [(''sha256'', hex_encode C (p_sha256 p)), (''bodies'', show_nat (length (p_entries p)))]"

section \<open>Little-endian integers\<close>

fun le_bytes :: "nat \<Rightarrow> nat \<Rightarrow> bytes" where
  "le_bytes 0 n = []"
| "le_bytes (Suc k) n = n mod 256 # le_bytes k (n div 256)"

fun from_le :: "bytes \<Rightarrow> nat" where
  "from_le [] = 0"
| "from_le (b # bs) = b + 256 * from_le bs"

section \<open>Building\<close>

text \<open>\<^verbatim>\<open>windows(2).find(..)\<close>: the first id that its neighbour repeats.\<close>

fun repeated :: "(string \<times> bytes) list \<Rightarrow> string option" where
  "repeated ((a, x) # (b, y) # rest) = (if a = b then Some a else repeated ((b, y) # rest))"
| "repeated _ = None"

text \<open>The loop over the bodies, with what it has put out: bytes, entries and index lines.\<close>

fun build_loop ::
  "'d codec \<Rightarrow> kind \<Rightarrow> (string \<times> bytes) list \<Rightarrow> bytes \<Rightarrow> 'd entry list \<Rightarrow> bytes \<Rightarrow>
     pack_error + bytes \<times> 'd entry list \<times> bytes" where
  "build_loop C kind [] out entries lines = Inr (out, entries, lines)"
| "build_loop C kind ((match_id, body) # rest) out entries lines =
     (if body = [] then Inl (EmptyBody match_id)
      else
        (let entry = \<lparr>e_kind = kind, e_match_id = match_id, e_offset = length out, e_len = length body, e_sha256 = sha C body\<rparr> in
         case to_json C \<lparr>ln_kind = kind, ln_match_id = match_id, ln_offset = e_offset entry, ln_len = e_len entry,
             ln_sha256 = hex_encode C (e_sha256 entry)\<rparr> of
           Inl e \<Rightarrow> Inl (Bad_index e)
         | Inr l \<Rightarrow> build_loop C kind rest (out @ body) (entries @ [entry]) (lines @ l @ [10])))"

definition build :: "'d codec \<Rightarrow> 'u \<Rightarrow> kind \<Rightarrow> (string \<times> bytes) list \<Rightarrow> pack_error + ('u, 'd) pack" where
  "build C pid kind bodies =
     (if bodies = [] then Inl Empty
      else
        (let sorted_bodies = sort_key fst bodies in
         case repeated sorted_bodies of
           Some m \<Rightarrow> Inl (Duplicate_body m)
         | None \<Rightarrow>
             (case build_loop C kind sorted_bodies [] [] [] of
                Inl e \<Rightarrow> Inl e
              | Inr (out, entries, lines) \<Rightarrow>
                  (case zstd_encode C lines of
                     None \<Rightarrow> Inl Zstd
                   | Some index \<Rightarrow>
                       (let bytes = out @ index @ le_bytes 8 (length index) @ MAGIC in
                        Inr \<lparr>p_id = pid, p_kind = kind, p_bytes = bytes, p_entries = entries, p_sha256 = sha C bytes\<rparr>)))))"

section \<open>Reading\<close>

definition index_range :: "nat \<Rightarrow> bytes \<Rightarrow> pack_error + nat \<times> nat" where
  "index_range sz trailer =
     (if sz < TRAILER_LEN \<or> length trailer \<noteq> TRAILER_LEN then Inl (NotAPack ''shorter than its trailer'')
      else if drop 8 trailer \<noteq> MAGIC then Inl (NotAPack ''no RPXPACK1 trailer'')
      else
        (let len = from_le (take 8 trailer); fin = sz - TRAILER_LEN in
         if len \<le> fin then Inr (fin - len, fin) else Inl (NotAPack ''index longer than the pack'')))"

text \<open>One line of the index, after \<open>entries\<close>; \<open>n\<close> counts lines from zero. Sums of \<^verbatim>\<open>u64\<close> that overflow are refused.\<close>

definition index_entry ::
  "'d codec \<Rightarrow> kind \<Rightarrow> nat \<Rightarrow> 'd entry list \<Rightarrow> nat \<Rightarrow> bytes \<Rightarrow> pack_error + 'd entry" where
  "index_entry C kind bodies_end entries n raw =
     (case from_json C raw of
        Inl e \<Rightarrow> Inl (Bad_index (''line '' @ show_nat (n + 1) @ '': '' @ e))
      | Inr line \<Rightarrow>
          (case hex_decode C (ln_sha256 line) of
             Inl e \<Rightarrow> Inl (Bad_index (''line '' @ show_nat (n + 1) @ '': sha256: '' @ e))
           | Inr digest \<Rightarrow>
               (let entry = \<lparr>e_kind = ln_kind line, e_match_id = ln_match_id line, e_offset = ln_offset line,
                      e_len = ln_len line, e_sha256 = digest\<rparr> in
                if e_kind entry \<noteq> kind then
                  Inl (Bad_index (e_match_id entry @ '' is a '' @ kind_as_str (e_kind entry) @ '', not a '' @ kind_as_str kind))
                else if e_len entry = 0 \<or> u64_max < e_offset entry + e_len entry \<or> bodies_end < e_offset entry + e_len entry then
                  Inl (Bad_index (e_match_id entry @ '' lies outside the bodies''))
                else if entries \<noteq> [] \<and> (e_match_id entry \<le> e_match_id (last entries) \<or>
                    e_offset entry < e_offset (last entries) + e_len (last entries)) then
                  Inl (Bad_index (e_match_id entry @ '' is out of order''))
                else Inr entry)))"

fun index_loop ::
  "'d codec \<Rightarrow> kind \<Rightarrow> nat \<Rightarrow> nat \<Rightarrow> bytes list \<Rightarrow> 'd entry list \<Rightarrow> pack_error + 'd entry list" where
  "index_loop C kind bodies_end n [] entries = Inr entries"
| "index_loop C kind bodies_end n (raw # raws) entries =
     (if raw = [] then index_loop C kind bodies_end (n + 1) raws entries
      else
        (case index_entry C kind bodies_end entries n raw of
           Inl e \<Rightarrow> Inl e
         | Inr entry \<Rightarrow> index_loop C kind bodies_end (n + 1) raws (entries @ [entry])))"

definition parse_index :: "'d codec \<Rightarrow> kind \<Rightarrow> bytes \<Rightarrow> nat \<Rightarrow> pack_error + 'd entry list" where
  "parse_index C kind compressed bodies_end =
     (case zstd_decode C compressed of
        None \<Rightarrow> Inl Zstd
      | Some txt \<Rightarrow>
          (case index_loop C kind bodies_end 0 (split_on 10 txt) [] of
             Inl e \<Rightarrow> Inl e
           | Inr entries \<Rightarrow> if entries = [] then Inl (Bad_index ''no entries'') else Inr entries))"

definition slice :: "nat \<Rightarrow> nat \<Rightarrow> bytes \<Rightarrow> bytes" where
  "slice start fin bs = take (fin - start) (drop start bs)"

definition pack_read :: "'d codec \<Rightarrow> kind \<Rightarrow> bytes \<Rightarrow> pack_error + 'd entry list" where
  "pack_read C kind pack =
     (case index_range (length pack) (drop (length pack - TRAILER_LEN) pack) of
        Inl e \<Rightarrow> Inl e
      | Inr (start, fin) \<Rightarrow> parse_index C kind (slice start fin pack) start)"

text \<open>\<^verbatim>\<open>pack.get(a..b)\<close> is \<open>None\<close> when the range ends past the slice.\<close>

definition pack_verify :: "'d codec \<Rightarrow> bytes \<Rightarrow> 'd entry list \<Rightarrow> bool" where
  "pack_verify C pack entries =
     list_all (\<lambda>e. e_offset e + e_len e \<le> length pack \<and>
        sha C (slice (e_offset e) (e_offset e + e_len e) pack) = e_sha256 e) entries"

section \<open>Keys\<close>

text \<open>
  The object key of a pack. A ULID and its calendar month are the libraries': \<open>ulid_text\<close> and \<open>ulid_parse\<close> print and
  read one, \<open>year_month\<close> is the UTC year and month of its time stamp.
\<close>

definition pack_key :: "('u \<Rightarrow> string) \<Rightarrow> ('u \<Rightarrow> nat \<times> nat) \<Rightarrow> kind \<Rightarrow> 'u \<Rightarrow> string" where
  "pack_key ulid_text year_month kind u =
     (case year_month u of (y, m) \<Rightarrow>
        ''packs/'' @ kind_table kind @ ''/'' @ pad 4 y @ ''/'' @ pad 2 m @ ''/'' @ ulid_text u @ ''.pack'')"

definition parse_key ::
  "('u \<Rightarrow> string) \<Rightarrow> (string \<Rightarrow> 'u option) \<Rightarrow> ('u \<Rightarrow> nat \<times> nat) \<Rightarrow> string \<Rightarrow> (kind \<times> 'u) option" where
  "parse_key ulid_text ulid_parse year_month key =
     do {
       rest \<leftarrow> strip_prefix ''packs/'' key;
       (table, rest) \<leftarrow> split_once CHR ''/'' rest;
       kind \<leftarrow> find (\<lambda>k. kind_table k = table) [Match, Timeline];
       (_, name) \<leftarrow> rsplit_once CHR ''/'' rest;
       name \<leftarrow> strip_suffix ''.pack'' name;
       u \<leftarrow> ulid_parse name;
       if pack_key ulid_text year_month kind u = key then Some (kind, u) else None
     }"

section \<open>Layout of a pack\<close>

lemma length_le_bytes [simp]: "length (le_bytes k n) = k"
  by (induction k arbitrary: n) auto

lemma from_le_bytes: "n < 256 ^ k \<Longrightarrow> from_le (le_bytes k n) = n"
proof (induction k arbitrary: n)
  case (Suc k)
  then have "n div 256 < 256 ^ k"
    by (simp add: less_mult_imp_div_less mult.commute)
  then show ?case
    using Suc.IH [of "n div 256"] by simp
qed simp

text \<open>The entries of bodies laid back to back from an offset, and the index line of an entry.\<close>

fun layout :: "'d codec \<Rightarrow> kind \<Rightarrow> nat \<Rightarrow> (string \<times> bytes) list \<Rightarrow> 'd entry list" where
  "layout C kind off [] = []"
| "layout C kind off ((m, b) # rest) =
     \<lparr>e_kind = kind, e_match_id = m, e_offset = off, e_len = length b, e_sha256 = sha C b\<rparr> # layout C kind (off + length b) rest"

definition line_of :: "'d codec \<Rightarrow> 'd entry \<Rightarrow> line" where
  "line_of C e = \<lparr>ln_kind = e_kind e, ln_match_id = e_match_id e, ln_offset = e_offset e, ln_len = e_len e,
     ln_sha256 = hex_encode C (e_sha256 e)\<rparr>"

lemma layout_append: "layout C kind off (xs @ ys) = layout C kind off xs @ layout C kind (off + length (concat (map snd xs))) ys"
  by (induction xs arbitrary: off) (auto simp: add.assoc)

lemma layout_ids [simp]: "map e_match_id (layout C kind off bodies) = map fst bodies"
  by (induction bodies arbitrary: off) auto

lemma build_loop_Inr:
  assumes "build_loop C kind bodies out entries lines = Inr (out', entries', lines')"
  shows "\<exists>ls. out' = out @ concat (map snd bodies) \<and> entries' = entries @ layout C kind (length out) bodies \<and>
    list_all2 (\<lambda>e l. to_json C (line_of C e) = Inr l) (layout C kind (length out) bodies) ls \<and>
    lines' = lines @ concat (map (\<lambda>l. l @ [10]) ls) \<and> [] \<notin> snd ` set bodies"
  using assms
proof (induction bodies arbitrary: out entries lines)
  case (Cons mb rest)
  obtain m b where mb: "mb = (m, b)"
    by (cases mb)
  let ?e = "\<lparr>e_kind = kind, e_match_id = m, e_offset = length out, e_len = length b, e_sha256 = sha C b\<rparr>"
  obtain l where l: "to_json C (line_of C ?e) = Inr l" "b \<noteq> []"
    "build_loop C kind rest (out @ b) (entries @ [?e]) (lines @ l @ [10]) = Inr (out', entries', lines')"
    using Cons.prems by (auto simp: mb line_of_def Let_def split: if_splits sum.splits)
  obtain ls where ls: "out' = (out @ b) @ concat (map snd rest)" "entries' = (entries @ [?e]) @ layout C kind (length (out @ b)) rest"
    "list_all2 (\<lambda>e l. to_json C (line_of C e) = Inr l) (layout C kind (length (out @ b)) rest) ls"
    "lines' = (lines @ l @ [10]) @ concat (map (\<lambda>l. l @ [10]) ls)" "[] \<notin> snd ` set rest"
    using Cons.IH [OF l(3)] by blast
  show ?case
    using ls l(1,2) by (intro exI [of _ "l # ls"]) (auto simp: mb)
qed auto

lemma repeated_None: "sorted (map fst bodies) \<Longrightarrow> repeated bodies = None \<Longrightarrow> sorted_wrt (<) (map fst bodies)"
  by (induction bodies rule: repeated.induct) (auto split: if_splits simp: less_le order_trans)

section \<open>The index reads back\<close>

definition codec_ok :: "'d codec \<Rightarrow> bool" where
  "codec_ok C =
     ((\<forall>bs z. zstd_encode C bs = Some z \<longrightarrow> zstd_decode C z = Some bs) \<and>
      (\<forall>l bs. to_json C l = Inr bs \<longrightarrow> from_json C bs = Inr l \<and> 10 \<notin> set bs \<and> bs \<noteq> []) \<and>
      (\<forall>d. hex_decode C (hex_encode C d) = Inr d))"

lemma split_lines: "\<forall>l \<in> set ls. d \<notin> set l \<Longrightarrow> split_on d (concat (map (\<lambda>l. l @ [d]) ls)) = ls @ [[]]"
  by (induction ls) (auto simp: split_on_append)

lemma index_entry_line:
  assumes "codec_ok C" "to_json C (line_of C e) = Inr l" "e_kind e = kind" "e_len e \<noteq> 0"
    "e_offset e + e_len e \<le> bodies_end" "bodies_end \<le> u64_max"
    "pre = [] \<or> e_match_id (last pre) < e_match_id e \<and> e_offset (last pre) + e_len (last pre) \<le> e_offset e"
  shows "index_entry C kind bodies_end pre n l = Inr e"
proof -
  have "from_json C l = Inr (line_of C e)" "hex_decode C (hex_encode C (e_sha256 e)) = Inr (e_sha256 e)"
    using assms(1,2) by (auto simp: codec_ok_def)
  then show ?thesis
    using assms(3-7) by (auto simp: index_entry_def line_of_def Let_def)
qed

lemma index_loop_layout:
  assumes "codec_ok C" "list_all2 (\<lambda>e l. to_json C (line_of C e) = Inr l) (layout C kind off bodies) ls"
    "sorted_wrt (<) (map fst bodies)" "[] \<notin> snd ` set bodies" "off + length (concat (map snd bodies)) \<le> bodies_end"
    "bodies_end \<le> u64_max"
    "pre = [] \<or> (\<forall>m \<in> fst ` set bodies. e_match_id (last pre) < m) \<and> e_offset (last pre) + e_len (last pre) \<le> off"
  shows "index_loop C kind bodies_end n (ls @ [[]]) pre = Inr (pre @ layout C kind off bodies)"
  using assms(2-5,7)
proof (induction bodies arbitrary: off ls pre n)
  case (Cons mb rest)
  obtain m b where mb: "mb = (m, b)"
    by (cases mb)
  let ?e = "\<lparr>e_kind = kind, e_match_id = m, e_offset = off, e_len = length b, e_sha256 = sha C b\<rparr>"
  obtain l ls' where ls: "ls = l # ls'" "to_json C (line_of C ?e) = Inr l"
    "list_all2 (\<lambda>e l. to_json C (line_of C e) = Inr l) (layout C kind (off + length b) rest) ls'"
    using Cons.prems(1) by (auto simp: mb list_all2_Cons1)
  have "l \<noteq> []"
    using assms(1) ls(2) by (auto simp: codec_ok_def)
  moreover have "index_entry C kind bodies_end pre n l = Inr ?e"
    using Cons.prems ls(2) assms(6) by (intro index_entry_line [OF assms(1)]) (auto simp: mb)
  moreover have "index_loop C kind bodies_end (n + 1) (ls' @ [[]]) (pre @ [?e]) =
      Inr ((pre @ [?e]) @ layout C kind (off + length b) rest)"
    using Cons.prems ls(3) by (intro Cons.IH) (auto simp: mb)
  ultimately show ?case
    by (simp add: ls(1) mb)
qed simp

lemma build_Inr:
  assumes "build C pid kind bodies = Inr p"
  obtains index ls where
    "p_entries p = layout C kind 0 (sort_key fst bodies)" "sorted_wrt (<) (map fst (sort_key fst bodies))"
    "[] \<notin> snd ` set bodies" "bodies \<noteq> []"
    "list_all2 (\<lambda>e l. to_json C (line_of C e) = Inr l) (p_entries p) ls"
    "zstd_encode C (concat (map (\<lambda>l. l @ [10]) ls)) = Some index"
    "p_bytes p = concat (map snd (sort_key fst bodies)) @ index @ le_bytes 8 (length index) @ MAGIC"
proof -
  let ?s = "sort_key fst bodies"
  obtain out entries lines index where b: "bodies \<noteq> []" "repeated ?s = None"
      "build_loop C kind ?s [] [] [] = Inr (out, entries, lines)" "zstd_encode C lines = Some index"
      "p_bytes p = out @ index @ le_bytes 8 (length index) @ MAGIC" "p_entries p = entries"
    using assms by (auto simp: build_def Let_def split: if_splits option.splits sum.splits)
  obtain ls where ls: "out = concat (map snd ?s)" "entries = layout C kind 0 ?s"
      "list_all2 (\<lambda>e l. to_json C (line_of C e) = Inr l) (layout C kind 0 ?s) ls"
      "lines = concat (map (\<lambda>l. l @ [10]) ls)" "[] \<notin> snd ` set ?s"
    using build_loop_Inr [OF b(3)] by auto
  show thesis
    using that [of ls index] b ls repeated_None [OF _ b(2)] by simp
qed

lemma parse_index_built:
  assumes "codec_ok C" "list_all2 (\<lambda>e l. to_json C (line_of C e) = Inr l) (layout C kind 0 bodies) ls"
    "zstd_encode C (concat (map (\<lambda>l. l @ [10]) ls)) = Some index"
    "sorted_wrt (<) (map fst bodies)" "[] \<notin> snd ` set bodies" "bodies \<noteq> []" "length (concat (map snd bodies)) \<le> u64_max"
  shows "parse_index C kind index (length (concat (map snd bodies))) = Inr (layout C kind 0 bodies)"
proof -
  have "10 \<notin> set l" if l: "l \<in> set ls" for l
  proof -
    obtain i where i: "i < length ls" "ls ! i = l"
      using l by (auto simp: in_set_conv_nth)
    then have "to_json C (line_of C (layout C kind 0 bodies ! i)) = Inr l"
      using assms(2) by (auto simp: list_all2_conv_all_nth)
    then show ?thesis
      using assms(1) by (auto simp: codec_ok_def)
  qed
  then have "split_on 10 (concat (map (\<lambda>l. l @ [10]) ls)) = ls @ [[]]"
    by (intro split_lines) auto
  moreover have "zstd_decode C index = Some (concat (map (\<lambda>l. l @ [10]) ls))"
    using assms(1,3) by (auto simp: codec_ok_def)
  moreover have "index_loop C kind (length (concat (map snd bodies))) 0 (ls @ [[]]) [] = Inr (layout C kind 0 bodies)"
    using index_loop_layout [OF assms(1,2,4,5), of "length (concat (map snd bodies))" "[]" 0] assms(7) by simp
  moreover have "layout C kind 0 bodies \<noteq> []"
    using assms(6) by (cases bodies) auto
  ultimately show ?thesis
    by (simp add: parse_index_def)
qed

lemma layout_slice:
  assumes "(m, b) \<in> set bodies"
  shows "\<exists>e \<in> set (layout C kind off bodies). e_match_id e = m \<and> e_len e = length b \<and> e_sha256 e = sha C b \<and>
    off \<le> e_offset e \<and> slice (e_offset e - off) (e_offset e - off + e_len e) (concat (map snd bodies) @ tail) = b"
proof -
  obtain xs ys where bodies: "bodies = xs @ (m, b) # ys"
    using assms by (meson split_list)
  let ?o = "off + length (concat (map snd xs))"
  let ?e = "\<lparr>e_kind = kind, e_match_id = m, e_offset = ?o, e_len = length b, e_sha256 = sha C b\<rparr>"
  have "?e \<in> set (layout C kind off bodies)"
    by (simp add: bodies layout_append)
  moreover have "slice (length (concat (map snd xs))) (length (concat (map snd xs)) + length b) (concat (map snd bodies) @ tail) = b"
    by (simp add: bodies slice_def)
  ultimately show ?thesis
    by (intro bexI [of _ ?e]) simp_all
qed

lemma layout_verifies:
  "pack_verify C (pre @ concat (map snd bodies) @ tail) (layout C kind (length pre) bodies)"
proof (induction bodies arbitrary: pre)
  case (Cons mb rest)
  obtain m b where mb: "mb = (m, b)"
    by (cases mb)
  show ?case
    using Cons.IH [of "pre @ b"] by (simp add: mb pack_verify_def slice_def)
qed (simp add: pack_verify_def)

section \<open>Properties\<close>

text \<open>C15. A pack describes itself: reading back the bytes of a built pack gives exactly the entries it was built
  with, every digest checks out, and each body that went in is found, under its id and nowhere else, at the
  range its entry names.\<close>

theorem pack_round_trip:
  assumes "codec_ok C" "build C pid kind bodies = Inr p" "length (p_bytes p) \<le> u64_max"
  shows "pack_read C kind (p_bytes p) = Inr (p_entries p) \<and> pack_verify C (p_bytes p) (p_entries p) \<and>
    map e_match_id (p_entries p) = sort (map fst bodies) \<and> distinct (map fst bodies) \<and>
    (\<forall>m b. (m, b) \<in> set bodies \<longrightarrow> (\<exists>e. e \<in> set (p_entries p) \<and> e_match_id e = m \<and> e_len e = length b \<and> e_sha256 e = sha C b \<and>
       slice (e_offset e) (e_offset e + e_len e) (p_bytes p) = b))"
proof -
  let ?s = "sort_key fst bodies"
  let ?out = "concat (map snd ?s)"
  obtain index ls where b: "p_entries p = layout C kind 0 ?s" "sorted_wrt (<) (map fst ?s)" "[] \<notin> snd ` set bodies" "bodies \<noteq> []"
      "list_all2 (\<lambda>e l. to_json C (line_of C e) = Inr l) (p_entries p) ls"
      "zstd_encode C (concat (map (\<lambda>l. l @ [10]) ls)) = Some index"
      "p_bytes p = ?out @ index @ le_bytes 8 (length index) @ MAGIC"
    using build_Inr [OF assms(2)] by metis
  have trailer: "drop (length (p_bytes p) - TRAILER_LEN) (p_bytes p) = le_bytes 8 (length index) @ MAGIC"
    by (simp add: b(7) TRAILER_LEN_def MAGIC_def)
  have len: "length (p_bytes p) = length ?out + length index + 16"
    by (simp add: b(7) MAGIC_def)
  then have "index_range (length (p_bytes p)) (le_bytes 8 (length index) @ MAGIC) = Inr (length ?out, length ?out + length index)"
    using from_le_bytes [of "length index" 8] assms(3) by (simp add: index_range_def TRAILER_LEN_def MAGIC_def u64_max_def Let_def)
  moreover have "slice (length ?out) (length ?out + length index) (p_bytes p) = index"
    by (simp add: b(7) slice_def)
  moreover have "?s \<noteq> []"
    using b(4) by (metis length_0_conv length_sort)
  then have "parse_index C kind index (length ?out) = Inr (p_entries p)"
    using parse_index_built [OF assms(1) _ b(6,2), of kind] b(1,3,5) len assms(3) by simp
  ultimately have "pack_read C kind (p_bytes p) = Inr (p_entries p)"
    by (simp add: pack_read_def trailer)
  moreover have "pack_verify C (p_bytes p) (p_entries p)"
    using layout_verifies [of C "[]" ?s] by (simp add: b(1,7))
  moreover have sorted: "map fst ?s = sort (map fst bodies)"
    by (rule properties_for_sort [symmetric]) (simp_all add: mset_map)
  moreover have "distinct (map fst bodies)"
    using b(2) unfolding sorted strict_sorted_iff by simp
  moreover have "\<exists>e. e \<in> set (p_entries p) \<and> e_match_id e = m \<and> e_len e = length x \<and> e_sha256 e = sha C x \<and>
      slice (e_offset e) (e_offset e + e_len e) (p_bytes p) = x" if "(m, x) \<in> set bodies" for m x
    using layout_slice [of m x ?s C kind 0 "index @ le_bytes 8 (length index) @ MAGIC"] that by (auto simp: b(1,7))
  ultimately show ?thesis
    by (simp add: b(1))
qed

text \<open>A codec for the witnesses: the digest is the content, compression is the identity, and a line is written in unary.\<close>

definition unary :: "nat list \<Rightarrow> bytes" where
  "unary ns = concat (map (\<lambda>n. replicate n 1 @ [0]) ns)"

definition line_nats :: "line \<Rightarrow> nat list" where
  "line_nats l = (if ln_kind l = Match then 0 else 1) # ln_offset l # ln_len l # length (ln_match_id l) #
     map of_char (ln_match_id l) @ map of_char (ln_sha256 l)"

definition nats_line :: "nat list \<Rightarrow> line" where
  "nats_line ns =
     (case ns of k # off # len # n # cs \<Rightarrow>
        \<lparr>ln_kind = (if k = 0 then Match else Timeline), ln_match_id = map char_of (take n cs), ln_offset = off, ln_len = len,
         ln_sha256 = map char_of (drop n cs)\<rparr>)"

definition from_unary :: "bytes \<Rightarrow> nat list" where
  "from_unary bs = map length (butlast (split_on 0 bs))"

definition sample_codec :: "string codec" where
  "sample_codec =
     \<lparr>sha = map char_of, hex_encode = (\<lambda>d. d), hex_decode = Inr, zstd_encode = Some, zstd_decode = Some,
      to_json = (\<lambda>l. Inr (unary (line_nats l))), from_json = (\<lambda>bs. Inr (nats_line (from_unary bs)))\<rparr>"

lemma from_unary_unary: "from_unary (unary ns) = ns"
proof -
  have "unary ns = concat (map (\<lambda>l. l @ [0]) (map (\<lambda>n. replicate n (Suc 0)) ns))"
    by (simp add: unary_def comp_def)
  also have "split_on 0 \<dots> = map (\<lambda>n. replicate n (Suc 0)) ns @ [[]]"
    by (rule split_lines) auto
  finally have "split_on 0 (unary ns) = map (\<lambda>n. replicate n (Suc 0)) ns @ [[]]" .
  then show ?thesis
    by (simp add: from_unary_def comp_def)
qed

lemma sample_codec_ok: "codec_ok sample_codec"
proof -
  have "nats_line (line_nats l) = l" for l
    by (cases l) (auto simp: nats_line_def line_nats_def comp_def kind.distinct intro: kind.exhaust)
  moreover have "10 \<notin> set (unary ns)" for ns
    by (auto simp: unary_def)
  moreover have "unary (line_nats l) \<noteq> []" for l
    by (simp add: unary_def line_nats_def)
  ultimately show ?thesis
    by (simp add: codec_ok_def sample_codec_def from_unary_unary)
qed

theorem pack_round_trip_witness:
  "\<exists>p. build sample_codec () Match [(''B'', [7]), (''A'', [9])] = Inr p \<and> pack_read sample_codec Match (p_bytes p) = Inr (p_entries p) \<and>
     map e_match_id (p_entries p) = [''A'', ''B'']"
proof -
  let ?b = "build sample_codec () Match [(''B'', [7]), (''A'', [9])]"
  obtain p where p: "?b = Inr p" "length (p_bytes p) \<le> u64_max"
    by (simp add: build_def sample_codec_def u64_max_def Let_def unary_def line_nats_def MAGIC_def)
  show ?thesis
    using pack_round_trip [OF sample_codec_ok p] p(1) by simp
qed

definition index_safe :: "kind \<Rightarrow> nat \<Rightarrow> 'd entry list \<Rightarrow> bool" where
  "index_safe kind bodies_end entries =
     (list_all (\<lambda>e. e_kind e = kind \<and> 0 < e_len e \<and> e_offset e + e_len e \<le> bodies_end) entries \<and>
      sorted_wrt (\<lambda>e f. e_match_id e < e_match_id f \<and> e_offset e + e_len e \<le> e_offset f) entries)"

lemma index_safe_snoc:
  assumes "index_safe kind bodies_end entries" "index_entry C kind bodies_end entries n raw = Inr e"
  shows "index_safe kind bodies_end (entries @ [e])"
proof -
  have e: "e_kind e = kind" "0 < e_len e" "e_offset e + e_len e \<le> bodies_end"
    "entries \<noteq> [] \<Longrightarrow> e_match_id (last entries) < e_match_id e \<and> e_offset (last entries) + e_len (last entries) \<le> e_offset e"
    using assms(2) by (auto simp: index_entry_def Let_def split: sum.splits if_splits)
  have "e_match_id f < e_match_id e \<and> e_offset f + e_len f \<le> e_offset e" if f: "f \<in> set entries" for f
  proof -
    have split: "entries = butlast entries @ [last entries]"
      using f by (metis append_butlast_last_id empty_iff list.set(1))
    then have "f = last entries \<or> e_match_id f < e_match_id (last entries) \<and> e_offset f + e_len f \<le> e_offset (last entries)"
    proof -
      have "sorted_wrt (\<lambda>e f. e_match_id e < e_match_id f \<and> e_offset e + e_len e \<le> e_offset f) (butlast entries @ [last entries])"
        using assms(1) split by (simp add: index_safe_def)
      moreover have "f \<in> set (butlast entries) \<or> f = last entries"
        using f split by (metis Un_iff empty_iff insert_iff list.set set_append)
      ultimately show ?thesis
        by (auto simp: sorted_wrt_append)
    qed
    moreover have "entries \<noteq> []"
      using f by auto
    ultimately show ?thesis
      using e(4) by (auto intro: less_trans)
  qed
  then show ?thesis
    using assms(1) e by (auto simp: index_safe_def sorted_wrt_append)
qed

lemma index_safe_loop:
  "index_loop C kind bodies_end n raws entries = Inr es \<Longrightarrow> index_safe kind bodies_end entries \<Longrightarrow> index_safe kind bodies_end es"
  by (induction raws arbitrary: n entries) (auto split: if_splits sum.splits dest: index_safe_snoc)

text \<open>An index that is accepted is safe to use, whatever bytes it came from: it has entries, all of the pack's
  kind, with ids in strictly increasing order, and their ranges are not empty, do not overlap, and lie inside
  the bodies.\<close>

theorem parsed_index_is_safe:
  assumes "parse_index C kind compressed bodies_end = Inr entries"
  shows "entries \<noteq> [] \<and> index_safe kind bodies_end entries"
proof -
  have "index_safe kind bodies_end ([] :: 'a entry list)"
    by (simp add: index_safe_def)
  then show ?thesis
    using assms by (auto simp: parse_index_def dest: index_safe_loop split: option.splits sum.splits if_splits)
qed

definition sample_line :: line where
  "sample_line = \<lparr>ln_kind = Match, ln_match_id = ''A'', ln_offset = 0, ln_len = 1, ln_sha256 = ''x''\<rparr>"

lemma sample_parsed:
  "parse_index sample_codec Match (unary (line_nats sample_line) @ [10]) 5 =
     Inr [\<lparr>e_kind = Match, e_match_id = ''A'', e_offset = 0, e_len = 1, e_sha256 = ''x''\<rparr>]"
proof -
  have "10 \<notin> set (unary ns)" for ns
    by (auto simp: unary_def)
  then have "split_on 10 (unary (line_nats sample_line) @ [10]) = [unary (line_nats sample_line), []]"
    using split_lines [of "[unary (line_nats sample_line)]" 10] by simp
  moreover have "unary (line_nats sample_line) \<noteq> []"
    by (simp add: unary_def line_nats_def)
  moreover have "from_json sample_codec (unary (line_nats sample_line)) = Inr sample_line"
    using sample_codec_ok by (auto simp: codec_ok_def sample_codec_def)
  ultimately show ?thesis
    by (simp add: parse_index_def index_entry_def sample_line_def sample_codec_def Let_def u64_max_def)
qed

theorem parsed_index_is_safe_witness:
  "index_safe Match 5 [\<lparr>e_kind = Match, e_match_id = ''A'', e_offset = 0, e_len = 1, e_sha256 = ''x''\<rparr>]"
  using parsed_index_is_safe [OF sample_parsed] by blast

section \<open>Keys\<close>

lemma pack_key_parses:
  assumes "ulid_parse (ulid_text u) = Some u" "CHR ''/'' \<notin> set (ulid_text u)"
  shows "parse_key ulid_text ulid_parse year_month (pack_key ulid_text year_month kind u) = Some (kind, u)"
proof -
  obtain y m where ym: "year_month u = (y, m)"
    by (cases "year_month u")
  let ?rest = "(pad 4 y @ ''/'' @ pad 2 m) @ CHR ''/'' # (ulid_text u @ ''.pack'')"
  have "CHR ''/'' \<notin> set (kind_table kind)"
    by (cases kind) auto
  then have "split_once CHR ''/'' (kind_table kind @ CHR ''/'' # ?rest) = Some (kind_table kind, ?rest)"
    by (rule split_once_append)
  moreover have "rsplit_once CHR ''/'' ?rest = Some (pad 4 y @ ''/'' @ pad 2 m, ulid_text u @ ''.pack'')"
    unfolding rsplit_once_def using assms(2) split_once_append [of "CHR ''/''" "rev (ulid_text u @ ''.pack'')" "rev (pad 4 y @ ''/'' @ pad 2 m)"]
    by simp
  moreover have "strip_suffix ''.pack'' (ulid_text u @ ''.pack'') = Some (ulid_text u)"
    by (simp add: strip_suffix_Some)
  moreover have "find (\<lambda>k. kind_table k = kind_table kind) [Match, Timeline] = Some kind"
    by (cases kind) auto
  moreover have "strip_prefix ''packs/'' (pack_key ulid_text year_month kind u) = Some (kind_table kind @ CHR ''/'' # ?rest)"
    by (simp add: strip_prefix_Some pack_key_def ym)
  ultimately show ?thesis
    using assms(1) by (simp add: parse_key_def)
qed

end
