(* ===== verification/Archive.thy ===== *)
theory Archive
  imports Pack
begin

text \<open>
  The match archive, \<^verbatim>\<open>src/archive/matches.rs\<close> and \<^verbatim>\<open>src/archive/offload.rs\<close>, with the two tables that say where packed
  bodies are (\<^verbatim>\<open>record_on\<close> and \<^verbatim>\<open>locate_on\<close> of \<^verbatim>\<open>src/archive/pack.rs\<close>). Of a row of \<open>matches\<close> or \<open>timelines\<close> the model keeps
  the columns that decide where its body is; the columns and facts derived from the body are left out. A
  transaction is a function of the tables. The bucket is the map from keys to objects that its calls see.
\<close>

record 'u ulids =
  ulid_text :: "'u \<Rightarrow> string"
  ulid_parse :: "string \<Rightarrow> 'u option"
  year_month :: "'u \<Rightarrow> nat \<times> nat"

abbreviation object_key :: "'u ulids \<Rightarrow> kind \<Rightarrow> 'u \<Rightarrow> string" where
  "object_key U \<equiv> pack_key (ulid_text U) (year_month U)"

record body_row =
  br_blob :: bytes
  br_archived_at :: int
  br_packed_at :: "int option"
  br_offloaded_at :: "int option"

record 'd pack_row =
  pr_kind :: kind
  pr_bytes :: int
  pr_bodies :: int
  pr_live_bytes :: int
  pr_sha256 :: 'd
  pr_created_at :: int

record 'd location =
  lo_pack_id :: string
  lo_offset :: int
  lo_len :: int
  lo_sha256 :: 'd

record 'd archive =
  ar_rows :: "kind \<Rightarrow> (string \<times> body_row) list"
  ar_packs :: "(string \<times> 'd pack_row) list"
  ar_locations :: "((string \<times> kind) \<times> 'd location) list"

text \<open>\<^verbatim>\<open>n as i64\<close>, and \<^verbatim>\<open>i.try_into::<u64>().unwrap_or(0)\<close>\<close>

definition as_i64 :: "nat \<Rightarrow> int" where
  "as_i64 n = (if int n \<le> i64_max then int n else int n - 2 ^ 64)"

definition to_u64 :: "int \<Rightarrow> nat" where
  "to_u64 i = nat i"

definition map_row :: "string \<Rightarrow> (body_row \<Rightarrow> body_row) \<Rightarrow> (string \<times> body_row) list \<Rightarrow> (string \<times> body_row) list" where
  "map_row i f rows = map (\<lambda>(j, r). (j, if j = i then f r else r)) rows"

definition with_rows :: "kind \<Rightarrow> ((string \<times> body_row) list \<Rightarrow> (string \<times> body_row) list) \<Rightarrow> 'd archive \<Rightarrow> 'd archive" where
  "with_rows kind f a = a\<lparr>ar_rows := (ar_rows a)(kind := f (ar_rows a kind))\<rparr>"

section \<open>Archiving\<close>

text \<open>\<open>REPACK\<close>: the same bytes stay packed, other bytes must be packed again.\<close>

definition repack :: "bytes \<Rightarrow> body_row \<Rightarrow> int option" where
  "repack blob r = (if br_blob r = blob then br_packed_at r else None)"

text \<open>The upsert of \<open>put_stored\<close> and \<open>put_timeline_stored\<close> (a timeline has no time of its own).\<close>

definition put_blob :: "kind \<Rightarrow> string \<Rightarrow> bytes \<Rightarrow> int \<Rightarrow> 'd archive \<Rightarrow> bool \<times> 'd archive" where
  "put_blob kind i blob now_ms a =
     (case map_of (ar_rows a kind) i of
        None \<Rightarrow>
          (True, with_rows kind (\<lambda>rows. rows @
             [(i, \<lparr>br_blob = blob, br_archived_at = now_ms, br_packed_at = None, br_offloaded_at = None\<rparr>)]) a)
      | Some r \<Rightarrow>
          (repack blob r = None,
           with_rows kind (map_row i (\<lambda>r. r\<lparr>br_blob := blob,
             br_archived_at := (if kind = Match then now_ms else br_archived_at r),
             br_packed_at := repack blob r, br_offloaded_at := None\<rparr>)) a))"

definition put_stored :: "(bytes \<Rightarrow> bytes option) \<Rightarrow> kind \<Rightarrow> string \<Rightarrow> bytes \<Rightarrow> int \<Rightarrow> 'd archive \<Rightarrow> nat option \<times> 'd archive" where
  "put_stored enc kind i body now_ms a =
     (case enc body of
        None \<Rightarrow> (None, a)
      | Some blob \<Rightarrow>
          (case put_blob kind i blob now_ms a of (unpacked, a1) \<Rightarrow> (Some (if unpacked then length blob else 0), a1)))"

section \<open>Recording a pack\<close>

text \<open>The three statements of \<open>locate_on\<close> for one entry.\<close>

definition moved :: "string \<Rightarrow> kind \<Rightarrow> string \<Rightarrow> 'd archive \<Rightarrow> 'd archive" where
  "moved i kind pack_id a =
     (case map_of (ar_locations a) (i, kind) of
        None \<Rightarrow> a
      | Some l \<Rightarrow>
          if lo_pack_id l = pack_id then a
          else a\<lparr>ar_packs := map (\<lambda>(q, p). (q, if q = lo_pack_id l then p\<lparr>pr_live_bytes := pr_live_bytes p - lo_len l\<rparr> else p)) (ar_packs a)\<rparr>)"

definition located :: "kind \<Rightarrow> string \<Rightarrow> 'd entry \<Rightarrow> 'd archive \<Rightarrow> 'd archive" where
  "located kind pack_id e a =
     a\<lparr>ar_locations := AList.update (e_match_id e, kind)
        \<lparr>lo_pack_id = pack_id, lo_offset = as_i64 (e_offset e), lo_len = as_i64 (e_len e), lo_sha256 = e_sha256 e\<rparr> (ar_locations a)\<rparr>"

definition mark_packed :: "kind \<Rightarrow> string \<Rightarrow> int \<Rightarrow> 'd archive \<Rightarrow> 'd archive" where
  "mark_packed kind i now_ms a =
     with_rows kind (map_row i (\<lambda>r. if br_packed_at r = None then r\<lparr>br_packed_at := Some now_ms\<rparr> else r)) a"

definition locate_entry :: "kind \<Rightarrow> string \<Rightarrow> int \<Rightarrow> 'd entry \<Rightarrow> 'd archive \<Rightarrow> 'd archive" where
  "locate_entry kind pack_id packed_at e a =
     mark_packed kind (e_match_id e) packed_at (located kind pack_id e (moved (e_match_id e) kind pack_id a))"

definition locate_on :: "string \<Rightarrow> kind \<Rightarrow> 'd entry list \<Rightarrow> int \<Rightarrow> 'd archive \<Rightarrow> 'd archive" where
  "locate_on pack_id kind entries packed_at a = fold (locate_entry kind pack_id packed_at) entries a"

text \<open>The insert fails, and with it the transaction, when the pack id is taken.\<close>

definition record_on ::
  "string \<Rightarrow> kind \<Rightarrow> nat \<Rightarrow> 'd \<Rightarrow> 'd entry list \<Rightarrow> int \<Rightarrow> 'd archive \<Rightarrow> 'd archive option" where
  "record_on pack_id kind sz digest entries now_ms a =
     (if map_of (ar_packs a) pack_id \<noteq> None then None
      else
        (let row = \<lparr>pr_kind = kind, pr_bytes = as_i64 sz, pr_bodies = as_i64 (length entries),
              pr_live_bytes = as_i64 (sum_list (map e_len entries)), pr_sha256 = digest, pr_created_at = now_ms\<rparr> in
         Some (locate_on pack_id kind entries now_ms (a\<lparr>ar_packs := ar_packs a @ [(pack_id, row)]\<rparr>))))"

section \<open>Offloading\<close>

definition CHUNK :: nat where
  "CHUNK = 500"

definition local_bodies :: "'d archive \<Rightarrow> kind \<Rightarrow> string list \<Rightarrow> (string \<times> bytes) list" where
  "local_bodies a kind ids =
     concat (map (\<lambda>chunk. map (\<lambda>(i, r). (i, br_blob r)) (filter (\<lambda>(i, r). i \<in> set chunk \<and> br_blob r \<noteq> []) (ar_rows a kind)))
       (chunks CHUNK ids))"

datatype offload_error = Objects | Pack_failed pack_error | Verify string | Taken_id

text \<open>
  What the bucket answers to the upload, to the \<open>head\<close> (the size, and the digest in the metadata if it keeps any)
  and to the read of the whole object; \<open>None\<close> is an error of the call.
\<close>

record bucket_answers =
  ba_put :: bool
  ba_head :: "(nat \<times> string option) option option"
  ba_get :: "bytes option"

definition offload_verify :: "'d codec \<Rightarrow> bucket_answers \<Rightarrow> ('u, 'd) pack \<Rightarrow> offload_error + unit" where
  "offload_verify C env p =
     (let want = hex_encode C (p_sha256 p); sz = length (p_bytes p) in
      case ba_head env of
        None \<Rightarrow> Inl Objects
      | Some None \<Rightarrow> Inl (Verify ''not found after the upload'')
      | Some (Some (n, meta)) \<Rightarrow>
          if n \<noteq> sz then Inl (Verify (show_nat n @ '' bytes stored, '' @ show_nat sz @ '' written''))
          else if meta \<noteq> None \<and> meta \<noteq> Some want then
            Inl (Verify (''sha256 metadata '' @ the meta @ '', expected '' @ want))
          else
            (case ba_get env of
               None \<Rightarrow> Inl Objects
             | Some stored \<Rightarrow>
                 if length stored \<noteq> sz then Inl Objects
                 else if hex_encode C (sha C stored) = want then Inr ()
                 else Inl (Verify ''stored bytes differ from the pack'')))"

record written =
  wr_key :: string
  wr_bodies :: nat
  wr_bytes :: nat

text \<open>
  \<open>write_pack\<close>: the bodies are read, the pack built, uploaded and verified, and recorded; \<open>others\<close> is what other writers do to the tables
  between the read and the record.
\<close>

definition write_pack ::
  "'u ulids \<Rightarrow> 'd codec \<Rightarrow> kind \<Rightarrow> string list \<Rightarrow> 'u \<Rightarrow> int \<Rightarrow> bucket_answers \<Rightarrow> ('d archive \<Rightarrow> 'd archive) \<Rightarrow> 'd archive \<Rightarrow>
     (offload_error + written option) \<times> 'd archive" where
  "write_pack U C kind ids u now_ms env others a =
     (let bodies = local_bodies a kind ids in
      if bodies = [] then (Inr None, a)
      else
        (case build C u kind bodies of
           Inl e \<Rightarrow> (Inl (Pack_failed e), a)
         | Inr p \<Rightarrow>
             if \<not> ba_put env then (Inl Objects, others a)
             else
               (case offload_verify C env p of
                  Inl e \<Rightarrow> (Inl e, others a)
                | Inr _ \<Rightarrow>
                    (case record_on (ulid_text U u) kind (length (p_bytes p)) (p_sha256 p) (p_entries p) now_ms (others a) of
                       None \<Rightarrow> (Inl Taken_id, others a)
                     | Some a1 \<Rightarrow>
                         (Inr (Some \<lparr>wr_key = object_key U kind u, wr_bodies = length (p_entries p), wr_bytes = length (p_bytes p)\<rparr>), a1)))))"

definition can_free :: "kind \<Rightarrow> 'd archive \<Rightarrow> string \<Rightarrow> body_row \<Rightarrow> bool" where
  "can_free kind a i r =
     (br_packed_at r \<noteq> None \<and> br_offloaded_at r = None \<and> map_of (ar_locations a) (i, kind) \<noteq> None)"

definition free_chunk :: "kind \<Rightarrow> int \<Rightarrow> string list \<Rightarrow> nat \<times> 'd archive \<Rightarrow> nat \<times> 'd archive" where
  "free_chunk kind now_ms chunk st =
     (let a = snd st; hit = (\<lambda>(i, r). i \<in> set chunk \<and> can_free kind a i r) in
      (fst st + length (filter hit (ar_rows a kind)),
       with_rows kind (map (\<lambda>(i, r). (i, if hit (i, r) then r\<lparr>br_blob := [], br_offloaded_at := Some now_ms\<rparr> else r))) a))"

definition free :: "kind \<Rightarrow> string list \<Rightarrow> int \<Rightarrow> 'd archive \<Rightarrow> nat \<times> 'd archive" where
  "free kind ids now_ms a = fold (free_chunk kind now_ms) (chunks CHUNK ids) (0, a)"

text \<open>The rows the offload looks at: unpacked ones with their length and the time their match was archived, in its order.\<close>

definition match_archived_at :: "'d archive \<Rightarrow> string \<Rightarrow> int option" where
  "match_archived_at a i = map_option br_archived_at (map_of (ar_rows a Match) i)"

definition unpacked_rows :: "'d archive \<Rightarrow> kind \<Rightarrow> (string \<times> nat \<times> int option) list" where
  "unpacked_rows a kind =
     (let rows = filter (\<lambda>(i, r). br_packed_at r = None) (ar_rows a kind) in
      case kind of
        Match \<Rightarrow> map (\<lambda>(i, r). (i, length (br_blob r), Some (br_archived_at r))) (sort_key (\<lambda>(i, r). br_archived_at r) rows)
      | Timeline \<Rightarrow> map (\<lambda>(i, r). (i, length (br_blob r), match_archived_at a i)) (sort_key fst rows))"

fun pack_scan ::
  "nat \<Rightarrow> int \<Rightarrow> (string \<times> nat \<times> int option) list \<Rightarrow> string list \<Rightarrow> nat \<Rightarrow> bool \<Rightarrow> string list option" where
  "pack_scan target cutoff [] ids bytes old = (if old \<and> ids \<noteq> [] then Some ids else None)"
| "pack_scan target cutoff ((i, len, at_ms) # rows) ids bytes old =
     (if len = 0 then pack_scan target cutoff rows ids bytes old
      else if ids \<noteq> [] \<and> target < bytes + len then Some ids
      else
        (let ids1 = ids @ [i]; bytes1 = bytes + len;
             old1 = (old \<or> (case at_ms of Some t \<Rightarrow> t < cutoff | None \<Rightarrow> False)) in
         if target \<le> bytes1 then Some ids1 else pack_scan target cutoff rows ids1 bytes1 old1))"

definition next_pack :: "'d archive \<Rightarrow> kind \<Rightarrow> nat \<Rightarrow> int \<Rightarrow> string list option" where
  "next_pack a kind target cutoff = pack_scan target cutoff (unpacked_rows a kind) [] 0 False"

definition due_to_free :: "'d archive \<Rightarrow> kind \<Rightarrow> int \<Rightarrow> string \<times> body_row \<Rightarrow> bool" where
  "due_to_free a kind cutoff row =
     (br_packed_at (snd row) \<noteq> None \<and> br_offloaded_at (snd row) = None \<and>
      (case (case kind of Match \<Rightarrow> Some (br_archived_at (snd row)) | Timeline \<Rightarrow> match_archived_at a (fst row)) of
         Some t \<Rightarrow> t < cutoff | None \<Rightarrow> False))"

definition offload_next_free :: "'d archive \<Rightarrow> kind \<Rightarrow> int \<Rightarrow> nat \<Rightarrow> string list" where
  "offload_next_free a kind cutoff limit =
     take limit (map fst (filter (\<lambda>row. due_to_free a kind cutoff row \<and> map_of (ar_locations a) (fst row, kind) \<noteq> None) (ar_rows a kind)))"

record backlog =
  to_pack :: nat
  to_free :: nat
  unpacked_bytes :: nat

definition backlog_of :: "'d archive \<Rightarrow> kind \<Rightarrow> int \<Rightarrow> backlog" where
  "backlog_of a kind cutoff =
     (let rows = filter (\<lambda>(i, r). br_packed_at r = None) (ar_rows a kind) in
      \<lparr>to_pack = length rows, to_free = length (filter (due_to_free a kind cutoff) (ar_rows a kind)),
       unpacked_bytes = sum_list (map (\<lambda>(i, r). length (br_blob r)) rows)\<rparr>)"

section \<open>Reading\<close>

definition FILTER_CHUNK :: nat where
  "FILTER_CHUNK = 500"

datatype 'd stored = Local bytes | Offloaded "'d location option"

text \<open>A local body that does not decompress fails the whole read.\<close>

fun stored_rows :: "'d codec \<Rightarrow> 'd archive \<Rightarrow> kind \<Rightarrow> (string \<times> body_row) list \<Rightarrow> (string \<times> 'd stored) list option" where
  "stored_rows C a kind [] = Some []"
| "stored_rows C a kind ((i, r) # rows) =
     (case (if br_blob r = [] then Some (Offloaded (map_of (ar_locations a) (i, kind)))
            else map_option Local (zstd_decode C (br_blob r))) of
        None \<Rightarrow> None
      | Some s \<Rightarrow> map_option (\<lambda>rest. (i, s) # rest) (stored_rows C a kind rows))"

definition read_rows :: "'d codec \<Rightarrow> 'd archive \<Rightarrow> kind \<Rightarrow> string list \<Rightarrow> (string \<times> 'd stored) list option" where
  "read_rows C a kind ids =
     stored_rows C a kind (concat (map (\<lambda>chunk. filter (\<lambda>(i, r). i \<in> set chunk) (ar_rows a kind)) (chunks FILTER_CHUNK ids)))"

text \<open>\<open>get_ranges\<close> with its check for short reads: every range or an error.\<close>

definition get_ranges :: "(string \<Rightarrow> bytes option) \<Rightarrow> string \<Rightarrow> (nat \<times> nat) list \<Rightarrow> bytes list option" where
  "get_ranges bucket key ranges =
     (case bucket key of
        None \<Rightarrow> None
      | Some obj \<Rightarrow>
          if list_all (\<lambda>(s, e). e \<le> length obj) ranges then Some (map (\<lambda>(s, e). slice s e obj) ranges) else None)"

definition fetch_from_pack ::
  "'u ulids \<Rightarrow> 'd codec \<Rightarrow> (string \<Rightarrow> bytes option) \<Rightarrow> kind \<Rightarrow> string \<Rightarrow> (string \<times> 'd location) list \<Rightarrow> (string \<times> bytes) list" where
  "fetch_from_pack U C bucket kind pack_id bodies =
     (case ulid_parse U pack_id of
        None \<Rightarrow> []
      | Some u \<Rightarrow>
          (case get_ranges bucket (object_key U kind u)
              (map (\<lambda>(i, l). (to_u64 (lo_offset l), to_u64 (lo_offset l) + to_u64 (lo_len l))) bodies) of
             None \<Rightarrow> []
           | Some parts \<Rightarrow>
               List.map_filter (\<lambda>((i, l), part).
                   if sha C part = lo_sha256 l then map_option (\<lambda>body. (i, body)) (zstd_decode C part) else None)
                 (zip bodies parts)))"

definition local_part :: "(string \<times> 'd stored) list \<Rightarrow> (string \<times> bytes) list" where
  "local_part rows = List.map_filter (\<lambda>(i, s). case s of Local b \<Rightarrow> Some (i, b) | Offloaded _ \<Rightarrow> None) rows"

definition away_part :: "(string \<times> 'd stored) list \<Rightarrow> (string \<times> 'd location) list" where
  "away_part rows = List.map_filter (\<lambda>(i, s). case s of Offloaded (Some l) \<Rightarrow> Some (i, l) | _ \<Rightarrow> None) rows"

text \<open>\<open>bucket\<close> is \<open>None\<close> when no object store is configured.\<close>

definition read_bodies ::
  "'u ulids \<Rightarrow> 'd codec \<Rightarrow> (string \<Rightarrow> bytes option) option \<Rightarrow> 'd archive \<Rightarrow> kind \<Rightarrow> string list \<Rightarrow> (string \<times> bytes) list option" where
  "read_bodies U C bucket a kind ids =
     (if ids = [] then Some []
      else
        map_option (\<lambda>rows.
          local_part rows @
          (case bucket of
             None \<Rightarrow> []
           | Some b \<Rightarrow>
               concat (map (\<lambda>pack_id. fetch_from_pack U C b kind pack_id (filter (\<lambda>(i, l). lo_pack_id l = pack_id) (away_part rows)))
                 (sort (remdups (map (\<lambda>(i, l). lo_pack_id l) (away_part rows)))))))
          (read_rows C a kind ids))"

definition archive_get ::
  "'u ulids \<Rightarrow> 'd codec \<Rightarrow> (string \<Rightarrow> bytes option) option \<Rightarrow> 'd archive \<Rightarrow> kind \<Rightarrow> string \<Rightarrow> bytes option option" where
  "archive_get U C bucket a kind i = map_option (\<lambda>found. map_of found i) (read_bodies U C bucket a kind [i])"

definition filter_unarchived :: "'d archive \<Rightarrow> string list \<Rightarrow> string list" where
  "filter_unarchived a ids =
     (if ids = [] then []
      else
        (let known = concat (map (\<lambda>chunk. filter (\<lambda>i. i \<in> set chunk) (map fst (ar_rows a Match))) (chunks FILTER_CHUNK ids)) in
         filter (\<lambda>i. i \<notin> set known) ids))"

section \<open>Totals\<close>

record body_states =
  bs_local :: int
  bs_packed :: int
  bs_offloaded :: int

definition body_states_of :: "'d archive \<Rightarrow> kind \<Rightarrow> int \<Rightarrow> body_states" where
  "body_states_of a kind n =
     (let rows = map snd (ar_rows a kind);
          l = int (length (filter (\<lambda>r. br_packed_at r = None) rows));
          p = int (length (filter (\<lambda>r. br_packed_at r \<noteq> None \<and> br_offloaded_at r = None) rows)) in
      \<lparr>bs_local = l, bs_packed = p, bs_offloaded = max (n - l - p) 0\<rparr>)"

end
