(* ===== verification/Archive_Props.thy ===== *)
theory Archive_Props
  imports Archive
begin

text \<open>
  What the archive promises: steps of the tables, the bucket and the packs under way, the invariant that every row is
  held by the table or by a recorded pack, and that every archived body can be read.
\<close>

section \<open>Runs of the archive\<close>

text \<open>
  Completed matches do not change, so the archive stores one body per kind and id: \<open>content\<close>. A state has the
  tables, the bucket, and the packs that have been built but not recorded. Anything may be written to the bucket
  except over the key of a recorded pack (keys carry a fresh ULID), and a pack is recorded only after the
  check of the bytes read back, as \<open>write_pack\<close> does it; anything may happen in between.
\<close>

definition blob_of :: "'d codec \<Rightarrow> (kind \<Rightarrow> string \<Rightarrow> bytes) \<Rightarrow> kind \<Rightarrow> string \<Rightarrow> bytes" where
  "blob_of C content k i = the (zstd_encode C (content k i))"

definition recorded_key :: "'u ulids \<Rightarrow> 'd archive \<Rightarrow> string \<Rightarrow> bool" where
  "recorded_key U a key = (\<exists>q u k. q \<in> fst ` set (ar_packs a) \<and> ulid_parse U q = Some u \<and> object_key U k u = key)"

inductive archive_step ::
  "'u ulids \<Rightarrow> 'd codec \<Rightarrow> (kind \<Rightarrow> string \<Rightarrow> bytes) \<Rightarrow>
     'd archive \<times> (string \<Rightarrow> bytes option) \<times> ('u, 'd) pack list \<Rightarrow> 'd archive \<times> (string \<Rightarrow> bytes option) \<times> ('u, 'd) pack list \<Rightarrow> bool"
  for U C content
where
  Put: "archive_step U C content (a, b, ps) (snd (put_stored (zstd_encode C) k i (content k i) now a), b, ps)"
| Build: "build C u k (local_bodies a k ids) = Inr p \<Longrightarrow> int (length (p_bytes p)) \<le> i64_max \<Longrightarrow>
     archive_step U C content (a, b, ps) (a, b, p # ps)"
| Upload: "\<not> recorded_key U a key \<Longrightarrow> archive_step U C content (a, b, ps) (a, b(key \<mapsto> obj), ps)"
| Record: "p \<in> set ps \<Longrightarrow> ba_get env = b (object_key U (p_kind p) (p_id p)) \<Longrightarrow> offload_verify C env p = Inr () \<Longrightarrow>
     record_on (ulid_text U (p_id p)) (p_kind p) (length (p_bytes p)) (p_sha256 p) (p_entries p) now a = Some a' \<Longrightarrow>
     archive_step U C content (a, b, ps) (a', b, ps)"
| Free: "archive_step U C content (a, b, ps) (snd (free k ids now a), b, ps)"

definition empty_archive :: "'d archive" where
  "empty_archive = \<lparr>ar_rows = (\<lambda>k. []), ar_packs = [], ar_locations = []\<rparr>"

inductive archive_reachable ::
  "'u ulids \<Rightarrow> 'd codec \<Rightarrow> (kind \<Rightarrow> string \<Rightarrow> bytes) \<Rightarrow> 'd archive \<times> (string \<Rightarrow> bytes option) \<times> ('u, 'd) pack list \<Rightarrow> bool"
  for U C content
where
  Init: "archive_reachable U C content (empty_archive, b, [])"
| Step: "archive_reachable U C content s \<Longrightarrow> archive_step U C content s s' \<Longrightarrow> archive_reachable U C content s'"

section \<open>The invariant\<close>

definition location_ok ::
  "'u ulids \<Rightarrow> 'd codec \<Rightarrow> 'd archive \<Rightarrow> (string \<Rightarrow> bytes option) \<Rightarrow> kind \<Rightarrow> bytes \<Rightarrow> 'd location \<Rightarrow> bool" where
  "location_ok U C a b k blob l =
     (lo_pack_id l \<in> fst ` set (ar_packs a) \<and> 0 \<le> lo_offset l \<and> 0 \<le> lo_len l \<and> lo_sha256 l = sha C blob \<and>
      (case ulid_parse U (lo_pack_id l) of
         None \<Rightarrow> False
       | Some u \<Rightarrow>
           (case b (object_key U k u) of
              None \<Rightarrow> False
            | Some obj \<Rightarrow> nat (lo_offset l) + nat (lo_len l) \<le> length obj \<and>
                slice (nat (lo_offset l)) (nat (lo_offset l) + nat (lo_len l)) obj = blob)))"

definition pack_holds :: "'d codec \<Rightarrow> (kind \<Rightarrow> string \<Rightarrow> bytes) \<Rightarrow> ('u, 'd) pack \<Rightarrow> bool" where
  "pack_holds C content p =
     (int (length (p_bytes p)) \<le> i64_max \<and> p_sha256 p = sha C (p_bytes p) \<and>
      list_all (\<lambda>e. e_offset e + e_len e \<le> length (p_bytes p) \<and>
          slice (e_offset e) (e_offset e + e_len e) (p_bytes p) = blob_of C content (p_kind p) (e_match_id e) \<and>
          e_sha256 e = sha C (blob_of C content (p_kind p) (e_match_id e))) (p_entries p))"

definition rows_ok :: "'d codec \<Rightarrow> (kind \<Rightarrow> string \<Rightarrow> bytes) \<Rightarrow> 'd archive \<Rightarrow> kind \<Rightarrow> bool" where
  "rows_ok C content a k =
     (distinct (map fst (ar_rows a k)) \<and>
      list_all (\<lambda>(i, r). br_blob r = blob_of C content k i \<or> br_blob r = [] \<and> map_of (ar_locations a) (i, k) \<noteq> None) (ar_rows a k))"

definition locations_ok ::
  "'u ulids \<Rightarrow> 'd codec \<Rightarrow> (kind \<Rightarrow> string \<Rightarrow> bytes) \<Rightarrow> 'd archive \<Rightarrow> (string \<Rightarrow> bytes option) \<Rightarrow> bool" where
  "locations_ok U C content a b =
     (\<forall>i k l. map_of (ar_locations a) (i, k) = Some l \<longrightarrow> location_ok U C a b k (blob_of C content k i) l)"

definition archive_inv ::
  "'u ulids \<Rightarrow> 'd codec \<Rightarrow> (kind \<Rightarrow> string \<Rightarrow> bytes) \<Rightarrow> 'd archive \<times> (string \<Rightarrow> bytes option) \<times> ('u, 'd) pack list \<Rightarrow> bool" where
  "archive_inv U C content s =
     (case s of (a, b, ps) \<Rightarrow>
        (\<forall>k. rows_ok C content a k) \<and> locations_ok U C content a b \<and> list_all (pack_holds C content) ps)"

text \<open>What the invariant needs of the libraries: ULIDs read back as printed, the body codec is lossless and never
  gives an empty frame, and the digest tells different bytes apart.\<close>

definition libraries_ok :: "'u ulids \<Rightarrow> 'd codec \<Rightarrow> bool" where
  "libraries_ok U C =
     ((\<forall>u. ulid_parse U (ulid_text U u) = Some u) \<and>
      (\<forall>bs. \<exists>z. zstd_encode C bs = Some z \<and> z \<noteq> [] \<and> zstd_decode C z = Some bs) \<and>
      (\<forall>x y. sha C x = sha C y \<longrightarrow> x = y) \<and> (\<forall>d. hex_decode C (hex_encode C d) = Inr d))"

lemma blob_of:
  assumes "libraries_ok U C"
  shows "zstd_encode C (content k i) = Some (blob_of C content k i)" "blob_of C content k i \<noteq> []"
    "zstd_decode C (blob_of C content k i) = Some (content k i)"
proof -
  obtain z where "zstd_encode C (content k i) = Some z" "z \<noteq> []" "zstd_decode C z = Some (content k i)"
    using assms unfolding libraries_ok_def by blast
  then show "zstd_encode C (content k i) = Some (blob_of C content k i)" "blob_of C content k i \<noteq> []"
    "zstd_decode C (blob_of C content k i) = Some (content k i)"
    by (simp_all add: blob_of_def)
qed

lemma layout_entry:
  assumes "e \<in> set (layout C kind (length pre) bodies)"
  shows "\<exists>x. (e_match_id e, x) \<in> set bodies \<and> e_sha256 e = sha C x \<and> e_offset e + e_len e \<le> length (pre @ concat (map snd bodies) @ tail) \<and>
    slice (e_offset e) (e_offset e + e_len e) (pre @ concat (map snd bodies) @ tail) = x"
  using assms
proof (induction bodies arbitrary: pre)
  case (Cons mb rest)
  obtain m x where mb: "mb = (m, x)"
    by (cases mb)
  consider "e = \<lparr>e_kind = kind, e_match_id = m, e_offset = length pre, e_len = length x, e_sha256 = sha C x\<rparr>"
    | "e \<in> set (layout C kind (length (pre @ x)) rest)"
    using Cons.prems by (auto simp: mb)
  then show ?case
  proof cases
    case 1
    then show ?thesis
      by (intro exI [of _ x]) (simp add: mb slice_def)
  next
    case 2
    then show ?thesis
      using Cons.IH [OF 2] by (auto simp: mb)
  qed
qed simp

lemma local_bodies_ok: "rows_ok C content a k \<Longrightarrow> (i, x) \<in> set (local_bodies a k ids) \<Longrightarrow> x = blob_of C content k i"
  by (auto simp: local_bodies_def rows_ok_def list_all_iff)

lemma pack_holds_built:
  assumes "rows_ok C content a k" "build C u k (local_bodies a k ids) = Inr p" "int (length (p_bytes p)) \<le> i64_max"
  shows "pack_holds C content p"
proof -
  let ?s = "sort_key fst (local_bodies a k ids)"
  obtain tail where p: "p_entries p = layout C k 0 ?s" "p_bytes p = concat (map snd ?s) @ tail"
    using build_Inr [OF assms(2)] by metis
  have "p_kind p = k" "p_sha256 p = sha C (p_bytes p)"
    using assms(2) by (auto simp: build_def Let_def split: if_splits option.splits sum.splits)
  moreover have "e_offset e + e_len e \<le> length (p_bytes p) \<and> slice (e_offset e) (e_offset e + e_len e) (p_bytes p) = blob_of C content k (e_match_id e) \<and>
      e_sha256 e = sha C (blob_of C content k (e_match_id e))" if e: "e \<in> set (p_entries p)" for e
  proof -
    have "e \<in> set (layout C k (length []) ?s)"
      using e p(1) by simp
    from layout_entry [OF this, of tail]
    obtain x where x: "(e_match_id e, x) \<in> set ?s" "e_sha256 e = sha C x" "e_offset e + e_len e \<le> length (p_bytes p)"
      "slice (e_offset e) (e_offset e + e_len e) (p_bytes p) = x"
      by (auto simp: p(2))
    moreover have "x = blob_of C content k (e_match_id e)"
      using local_bodies_ok [OF assms(1)] x(1) by simp
    ultimately show ?thesis
      by simp
  qed
  ultimately show ?thesis
    using assms(3) by (simp add: pack_holds_def list_all_iff)
qed

section \<open>Every step keeps the invariant\<close>

lemma map_row_fst [simp]: "map fst (map_row i f rows) = map fst rows"
  by (auto simp: map_row_def)

lemma in_map_row: "(j, r) \<in> set (map_row i f rows) \<longleftrightarrow> (\<exists>q. (j, q) \<in> set rows \<and> r = (if j = i then f q else q))"
  by (force simp: map_row_def)

lemma with_rows_fields [simp]:
  "ar_packs (with_rows k f a) = ar_packs a" "ar_locations (with_rows k f a) = ar_locations a"
  "ar_rows (with_rows k f a) k' = (if k' = k then f (ar_rows a k) else ar_rows a k')"
  by (simp_all add: with_rows_def)

text \<open>Locations that stay, packs that stay, rows whose blob stays or becomes the right one.\<close>

lemma locations_ok_cong:
  "ar_locations a' = ar_locations a \<Longrightarrow> fst ` set (ar_packs a') = fst ` set (ar_packs a) \<Longrightarrow>
     locations_ok U C content a' b = locations_ok U C content a b"
  by (simp add: locations_ok_def location_ok_def)

lemma rows_ok_put:
  assumes "libraries_ok U C" "rows_ok C content a k'"
  shows "rows_ok C content (snd (put_stored (zstd_encode C) k i (content k i) now a)) k'"
proof (cases "map_of (ar_rows a k) i")
  case None
  then have "i \<notin> fst ` set (ar_rows a k)"
    by (simp add: map_of_eq_None_iff)
  then show ?thesis
    using assms(2) None by (auto simp: rows_ok_def put_stored_def put_blob_def blob_of(1) [OF assms(1)])
next
  case (Some r)
  then show ?thesis
    using assms(2)
    by (fastforce simp: rows_ok_def put_stored_def put_blob_def blob_of(1) [OF assms(1)] list_all_iff in_map_row split: if_splits)
qed

lemma put_stored_fields [simp]:
  "ar_packs (snd (put_stored enc k i body now a)) = ar_packs a"
  "ar_locations (snd (put_stored enc k i body now a)) = ar_locations a"
  by (simp_all add: put_stored_def put_blob_def split: option.split)

lemma free_chunk_fields [simp]:
  "ar_packs (snd (free_chunk k now ids st)) = ar_packs (snd st)"
  "ar_locations (snd (free_chunk k now ids st)) = ar_locations (snd st)"
  by (simp_all add: free_chunk_def Let_def)

lemma rows_ok_free_chunk: "rows_ok C content (snd st) k' \<Longrightarrow> rows_ok C content (snd (free_chunk k now ids st)) k'"
  by (auto simp: rows_ok_def free_chunk_def Let_def list_all_iff can_free_def case_prod_unfold comp_def)

lemma free_ok:
  "\<forall>k. rows_ok C content a k \<Longrightarrow>
     (\<forall>k. rows_ok C content (snd (free kind ids now a)) k) \<and> ar_packs (snd (free kind ids now a)) = ar_packs a \<and>
     ar_locations (snd (free kind ids now a)) = ar_locations a"
proof -
  have "(\<forall>k. rows_ok C content (snd (fold (free_chunk kind now) cs st)) k) \<and>
      ar_packs (snd (fold (free_chunk kind now) cs st)) = ar_packs (snd st) \<and>
      ar_locations (snd (fold (free_chunk kind now) cs st)) = ar_locations (snd st)"
    if "\<forall>k. rows_ok C content (snd st) k" for cs st
    using that
  proof (induction cs arbitrary: st)
    case (Cons c cs)
    have "\<forall>k. rows_ok C content (snd (free_chunk kind now c st)) k"
      using Cons.prems rows_ok_free_chunk by blast
    from Cons.IH [OF this] show ?case
      by simp
  qed simp
  then show "\<forall>k. rows_ok C content a k \<Longrightarrow> ?thesis"
    unfolding free_def by (metis snd_conv)
qed

lemma moved_fields [simp]:
  "ar_rows (moved i k q a) = ar_rows a" "ar_locations (moved i k q a) = ar_locations a"
  "fst ` set (ar_packs (moved i k q a)) = fst ` set (ar_packs a)"
  by (simp_all add: moved_def image_image case_prod_unfold split: option.split)

lemma locate_entry_fields [simp]:
  "ar_locations (locate_entry k q t e a) = AList.update (e_match_id e, k)
     \<lparr>lo_pack_id = q, lo_offset = as_i64 (e_offset e), lo_len = as_i64 (e_len e), lo_sha256 = e_sha256 e\<rparr> (ar_locations a)"
  "fst ` set (ar_packs (locate_entry k q t e a)) = fst ` set (ar_packs a)"
  by (simp_all add: locate_entry_def located_def mark_packed_def)

lemma rows_ok_locate_entry:
  assumes "rows_ok C content a k'"
  shows "rows_ok C content (locate_entry k q t e a) k'"
proof -
  let ?u = "AList.update (e_match_id e, k)
     \<lparr>lo_pack_id = q, lo_offset = as_i64 (e_offset e), lo_len = as_i64 (e_len e), lo_sha256 = e_sha256 e\<rparr> (ar_locations a)"
  have loc: "map_of ?u (i, k') \<noteq> None" if "map_of (ar_locations a) (i, k') \<noteq> None" for i
    using that by (simp add: update_conv')
  have "list_all (\<lambda>(i, r). br_blob r = blob_of C content k' i \<or> br_blob r = [] \<and> map_of ?u (i, k') \<noteq> None) (ar_rows a k')"
    using assms loc by (auto simp: rows_ok_def list_all_iff)
  then show ?thesis
    using assms
    by (auto simp: rows_ok_def locate_entry_def located_def mark_packed_def map_row_def list_all_iff case_prod_unfold comp_def)
qed

lemma as_i64_small: "int n \<le> i64_max \<Longrightarrow> as_i64 n = int n"
  by (simp add: as_i64_def)

lemma locations_ok_locate_entry:
  assumes "locations_ok U C content a b" "q \<in> fst ` set (ar_packs a)" "ulid_parse U q = Some u"
    and "b (object_key U k u) = Some obj" "int (length obj) \<le> i64_max" "e_offset e + e_len e \<le> length obj"
    and "slice (e_offset e) (e_offset e + e_len e) obj = blob_of C content k (e_match_id e)"
    and "e_sha256 e = sha C (blob_of C content k (e_match_id e))"
  shows "locations_ok U C content (locate_entry k q t e a) b"
proof -
  have "int (e_offset e) \<le> i64_max" "int (e_len e) \<le> i64_max"
    using assms(5,6) by linarith+
  then show ?thesis
    using assms by (auto simp: locations_ok_def location_ok_def update_conv' as_i64_small split: if_splits)
qed

lemma record_on_ok:
  assumes "libraries_ok U C" "\<forall>k. rows_ok C content a k" "locations_ok U C content a b" "pack_holds C content p"
    and "b (object_key U (p_kind p) (p_id p)) = Some (p_bytes p)"
    and "record_on (ulid_text U (p_id p)) (p_kind p) n d (p_entries p) now a = Some a'"
  shows "(\<forall>k. rows_ok C content a' k) \<and> locations_ok U C content a' b"
proof -
  let ?q = "ulid_text U (p_id p)"
  let ?f = "locate_entry (p_kind p) ?q now"
  obtain row where a': "a' = fold ?f (p_entries p) (a\<lparr>ar_packs := ar_packs a @ [(?q, row)]\<rparr>)"
    using assms(6) by (auto simp: record_on_def locate_on_def Let_def split: if_splits)
  have u: "ulid_parse U ?q = Some (p_id p)"
    using assms(1) by (simp add: libraries_ok_def)
  have len: "int (length (p_bytes p)) \<le> i64_max"
    using assms(4) by (simp add: pack_holds_def)
  have "(\<forall>k. rows_ok C content (fold ?f es x) k) \<and> locations_ok U C content (fold ?f es x) b"
    if "set es \<subseteq> set (p_entries p)" "\<forall>k. rows_ok C content x k" "locations_ok U C content x b" "?q \<in> fst ` set (ar_packs x)" for es x
    using that
  proof (induction es arbitrary: x)
    case (Cons e es)
    have e: "e_offset e + e_len e \<le> length (p_bytes p)"
      "slice (e_offset e) (e_offset e + e_len e) (p_bytes p) = blob_of C content (p_kind p) (e_match_id e)"
      "e_sha256 e = sha C (blob_of C content (p_kind p) (e_match_id e))"
      using assms(4) Cons.prems(1) by (auto simp: pack_holds_def list_all_iff)
    have "locations_ok U C content (?f e x) b"
      by (rule locations_ok_locate_entry [OF Cons.prems(3,4) u assms(5) len e])
    moreover have "\<forall>k. rows_ok C content (?f e x) k"
      using Cons.prems(2) rows_ok_locate_entry by blast
    ultimately show ?case
      using Cons.IH [of "?f e x"] Cons.prems(1,4) by simp
  qed simp
  moreover have "rows_ok C content (a\<lparr>ar_packs := ps\<rparr>) k = rows_ok C content a k" for k ps
    by (simp add: rows_ok_def)
  moreover have "locations_ok U C content (a\<lparr>ar_packs := ar_packs a @ [(?q, row)]\<rparr>) b"
    using assms(3) by (fastforce simp: locations_ok_def location_ok_def)
  ultimately show ?thesis
    using assms(2) unfolding a' by simp
qed

lemma offload_verify_bytes:
  assumes "libraries_ok U C" "p_sha256 p = sha C (p_bytes p)" "offload_verify C env p = Inr ()"
  shows "ba_get env = Some (p_bytes p)"
proof -
  obtain stored where "ba_get env = Some stored" "hex_encode C (sha C stored) = hex_encode C (p_sha256 p)"
    using assms(3) by (auto simp: offload_verify_def Let_def split: option.splits if_splits prod.splits)
  moreover have "sha C stored = sha C (p_bytes p)"
    using calculation(2) assms(1,2) unfolding libraries_ok_def by (metis sum.inject(2))
  ultimately show ?thesis
    using assms(1) by (simp add: libraries_ok_def)
qed

lemma archive_inv_step:
  assumes "libraries_ok U C" "archive_step U C content s s'" "archive_inv U C content s"
  shows "archive_inv U C content s'"
  using assms(2,3)
proof (induction rule: archive_step.induct)
  case (Put a b ps k i now)
  let ?a = "snd (put_stored (zstd_encode C) k i (content k i) now a)"
  have "\<forall>k'. rows_ok C content ?a k'"
    using Put rows_ok_put [OF assms(1)] by (simp only: archive_inv_def prod.case) blast
  then show ?case
    using Put locations_ok_cong [of ?a a U C content b] by (simp add: archive_inv_def)
next
  case (Build u k a ids p b ps)
  then show ?case
    by (auto simp: archive_inv_def intro: pack_holds_built)
next
  case (Upload a key b ps obj)
  have "location_ok U C a (b(key \<mapsto> obj)) k x l" if "location_ok U C a b k x l" for k x l
    using that Upload(1) by (fastforce simp: location_ok_def recorded_key_def split: option.splits)
  then show ?case
    using Upload(2) by (auto simp: archive_inv_def locations_ok_def)
next
  case (Record p ps env b now a a')
  then have p: "pack_holds C content p"
    by (auto simp: archive_inv_def list_all_iff)
  then have "b (object_key U (p_kind p) (p_id p)) = Some (p_bytes p)"
    using offload_verify_bytes [OF assms(1) _ Record(3)] Record(2) by (simp add: pack_holds_def)
  then show ?case
    using record_on_ok [OF assms(1) _ _ p _ Record(4), of b] Record(5) by (auto simp: archive_inv_def)
next
  case (Free a b ps k ids now)
  then show ?case
    using free_ok [of C content a k ids now] locations_ok_cong [of "snd (free k ids now a)" a U C content b]
    by (auto simp: archive_inv_def)
qed

lemma archive_inv_reachable:
  assumes "libraries_ok U C"
  shows "archive_reachable U C content s \<Longrightarrow> archive_inv U C content s"
proof (induction rule: archive_reachable.induct)
  case (Init b)
  show ?case
    by (simp add: archive_inv_def empty_archive_def rows_ok_def locations_ok_def)
qed (rule archive_inv_step [OF assms])

section \<open>Reading back\<close>

lemma filter_one_row:
  assumes "distinct (map fst rows)" "(i, r) \<in> set rows"
  shows "filter (\<lambda>(j, q). j \<in> set [i]) rows = [(i, r)]"
  using assms
proof (induction rows)
  case (Cons x rows)
  have "filter (\<lambda>(j, q). j = i) rows = []" if "i \<notin> fst ` set rows"
    using that by (force simp: filter_empty_conv)
  then show ?case
    using Cons by force
qed simp

lemma read_rows_one:
  assumes "distinct (map fst (ar_rows a k))" "(i, r) \<in> set (ar_rows a k)"
  shows "read_rows C a k [i] = stored_rows C a k [(i, r)]"
  using filter_one_row [OF assms] by (simp add: read_rows_def chunks.simps FILTER_CHUNK_def)

lemma fetch_one:
  assumes "location_ok U C a b k blob l" "zstd_decode C blob = Some body"
  shows "fetch_from_pack U C b k (lo_pack_id l) [(i, l)] = [(i, body)]"
proof -
  obtain u obj where "ulid_parse U (lo_pack_id l) = Some u" "b (object_key U k u) = Some obj"
    "nat (lo_offset l) + nat (lo_len l) \<le> length obj"
    "slice (nat (lo_offset l)) (nat (lo_offset l) + nat (lo_len l)) obj = blob" "lo_sha256 l = sha C blob"
    using assms(1) by (auto simp: location_ok_def split: option.splits)
  then show ?thesis
    using assms(2) by (simp add: fetch_from_pack_def get_ranges_def to_u64_def List.map_filter_simps)
qed

lemma archive_get_ok:
  assumes "libraries_ok U C" "archive_inv U C content (a, b, ps)" "i \<in> fst ` set (ar_rows a k)"
  shows "archive_get U C (Some b) a k i = Some (Some (content k i))"
proof -
  obtain r where r: "(i, r) \<in> set (ar_rows a k)"
    using assms(3) by auto
  have inv: "rows_ok C content a k" "locations_ok U C content a b"
    using assms(2) by (auto simp: archive_inv_def)
  then have rows: "read_rows C a k [i] = stored_rows C a k [(i, r)]"
    by (intro read_rows_one r) (simp add: rows_ok_def)
  consider "br_blob r = blob_of C content k i" | l where "br_blob r = []" "map_of (ar_locations a) (i, k) = Some l"
    using inv(1) r by (auto simp: rows_ok_def list_all_iff)
  then show ?thesis
  proof cases
    case 1
    then show ?thesis
      by (simp add: archive_get_def read_bodies_def rows blob_of [OF assms(1)] local_part_def away_part_def List.map_filter_simps)
  next
    case 2
    then have "fetch_from_pack U C b k (lo_pack_id l) [(i, l)] = [(i, content k i)]"
      using inv(2) by (intro fetch_one [of U C a b k "blob_of C content k i"] blob_of(3) [OF assms(1)]) (simp add: locations_ok_def)
    then show ?thesis
      by (simp add: archive_get_def read_bodies_def rows 2 local_part_def away_part_def List.map_filter_simps)
  qed
qed

text \<open>A \<open>write_pack\<close> that succeeds is a \<open>Build\<close>, then whatever others do, then a \<open>Record\<close>.\<close>

lemma build_names: "build C u k bodies = Inr p \<Longrightarrow> p_kind p = k \<and> p_id p = u"
  by (auto simp: build_def Let_def split: if_splits option.splits sum.splits)

lemma write_pack_phases:
  assumes "write_pack U C k ids u now env others a = (Inr (Some w), a')"
  shows "\<exists>p. build C u k (local_bodies a k ids) = Inr p \<and> offload_verify C env p = Inr () \<and>
    record_on (ulid_text U u) k (length (p_bytes p)) (p_sha256 p) (p_entries p) now (others a) = Some a'"
  using assms by (auto simp: write_pack_def Let_def split: if_splits sum.splits option.splits)

lemma write_pack_reachable:
  assumes "write_pack U C k ids u now env others a = (Inr (Some w), a')"
    and "build C u k (local_bodies a k ids) = Inr p" "archive_reachable U C content (others a, b, p # ps)"
    and "ba_get env = b (object_key U k u)"
  shows "archive_reachable U C content (a', b, p # ps)"
proof -
  have "offload_verify C env p = Inr ()"
    "record_on (ulid_text U (p_id p)) (p_kind p) (length (p_bytes p)) (p_sha256 p) (p_entries p) now (others a) = Some a'"
    using write_pack_phases [OF assms(1)] assms(2) build_names [OF assms(2)] by auto
  then show ?thesis
    using build_names [OF assms(2)] assms(4)
    by (intro archive_reachable.Step [OF assms(3)] archive_step.Record [of p]) auto
qed

text \<open>A codec and identifiers that meet the assumptions.\<close>

definition archive_codec :: "bytes codec" where
  "archive_codec =
     \<lparr>sha = (\<lambda>bs. bs), hex_encode = (\<lambda>d. map char_of (unary d)), hex_decode = (\<lambda>s. Inr (from_unary (map of_char s))),
      zstd_encode = (\<lambda>bs. Some (0 # bs)), zstd_decode = (\<lambda>z. case z of [] \<Rightarrow> None | _ # bs \<Rightarrow> Some bs),
      to_json = to_json sample_codec, from_json = from_json sample_codec\<rparr>"

definition archive_ulids :: "nat ulids" where
  "archive_ulids = \<lparr>ulid_text = (\<lambda>n. replicate n (CHR ''u'')), ulid_parse = (\<lambda>s. Some (length s)), year_month = (\<lambda>n. (2024, 6))\<rparr>"

lemma libraries_ok_sample: "libraries_ok archive_ulids archive_codec"
proof -
  have "map (of_char \<circ> char_of) (unary d) = unary d" for d :: "nat list"
    by (rule map_idI) (auto simp: unary_def split: if_splits)
  then show ?thesis
    by (simp add: libraries_ok_def archive_ulids_def archive_codec_def from_unary_unary)
qed


text \<open>The run of the witness: a body is archived, packed, uploaded, recorded and freed.\<close>

definition sample_put :: "bytes \<Rightarrow> bytes archive \<Rightarrow> bytes archive" where
  "sample_put body a = snd (put_stored (zstd_encode archive_codec) Match ''A'' body 1 a)"

definition sample_answers :: "bytes \<Rightarrow> bucket_answers" where
  "sample_answers bs = \<lparr>ba_put = True, ba_head = Some (Some (length bs, None)), ba_get = Some bs\<rparr>"

lemma sample_bodies: "local_bodies (sample_put body empty_archive) Match [''A''] = [(''A'', 0 # body)]"
  by (simp add: local_bodies_def chunks.simps CHUNK_def sample_put_def put_stored_def put_blob_def archive_codec_def empty_archive_def with_rows_def)

lemma sample_verify: "p_sha256 p = p_bytes p \<Longrightarrow> offload_verify archive_codec (sample_answers (p_bytes p)) p = Inr ()"
  by (simp add: offload_verify_def sample_answers_def archive_codec_def)

definition sample_recorded :: "bytes \<Rightarrow> bytes \<Rightarrow> bytes archive" where
  "sample_recorded body obj =
     the (record_on ''u'' Match (length obj) obj
       [\<lparr>e_kind = Match, e_match_id = ''A'', e_offset = 0, e_len = Suc (length body), e_sha256 = 0 # body\<rparr>] 2 (sample_put body empty_archive))"

lemma sample_freed_row:
  "map_of (ar_rows (snd (free Match [''A''] 3 (sample_recorded [7] obj))) Match) ''A'' =
     Some \<lparr>br_blob = [], br_archived_at = 1, br_packed_at = Some 2, br_offloaded_at = Some 3\<rparr>"
  by (simp add: free_def chunks.simps CHUNK_def free_chunk_def sample_recorded_def record_on_def locate_on_def locate_entry_def
      sample_put_def put_stored_def put_blob_def archive_codec_def empty_archive_def with_rows_def map_row_def mark_packed_def
      located_def moved_def can_free_def Let_def)

lemma record_fresh: "ar_packs a = [] \<Longrightarrow> record_on q k n d es t a = Some (the (record_on q k n d es t a))"
  by (simp add: record_on_def)

lemma sample_put_packs [simp]: "ar_packs (sample_put body a) = ar_packs a"
  by (simp add: sample_put_def)

lemma empty_archive_packs [simp]: "ar_packs empty_archive = []"
  by (simp add: empty_archive_def)


definition sample_raced :: "bytes \<Rightarrow> bytes archive" where
  "sample_raced obj =
     the (record_on ''uu'' Match (length obj) obj
       [\<lparr>e_kind = Match, e_match_id = ''A'', e_offset = 0, e_len = 2, e_sha256 = [0, 5]\<rparr>] 2 (sample_put [6] (sample_put [5] empty_archive)))"

lemma sample_raced_rows:
  "ar_rows (sample_raced obj) Match = [(''A'', \<lparr>br_blob = [0, 6], br_archived_at = 1, br_packed_at = Some 2, br_offloaded_at = None\<rparr>)]"
  "map_of (ar_locations (sample_raced obj)) (''A'', Match) = Some \<lparr>lo_pack_id = ''uu'', lo_offset = 0, lo_len = 2, lo_sha256 = [0, 5]\<rparr>"
  by (simp_all add: sample_raced_def record_on_def locate_on_def locate_entry_def sample_put_def put_stored_def put_blob_def repack_def
      archive_codec_def empty_archive_def with_rows_def map_row_def mark_packed_def located_def moved_def Let_def as_i64_def i64_max_def)

lemma sample_write_raced:
  assumes "build archive_codec (2::nat) Match [(''A'', [0, 5])] = Inr p" "p_sha256 p = p_bytes p"
    and "p_entries p = [\<lparr>e_kind = Match, e_match_id = ''A'', e_offset = 0, e_len = 2, e_sha256 = [0, 5]\<rparr>]"
  shows "snd (write_pack archive_ulids archive_codec Match [''A''] 2 2 (sample_answers (p_bytes p)) (sample_put [6]) (sample_put [5] empty_archive))
    = sample_raced (p_bytes p)"
proof -
  have "record_on (ulid_text archive_ulids 2) Match (length (p_bytes p)) (p_sha256 p) (p_entries p) 2
      (sample_put [6] (sample_put [5] empty_archive)) = Some (sample_raced (p_bytes p))"
    using assms record_fresh [of "sample_put [6] (sample_put [5] empty_archive)"]
    by (simp add: sample_raced_def archive_ulids_def eval_nat_numeral)
  moreover have "ba_put (sample_answers (p_bytes p))"
    by (simp add: sample_answers_def)
  ultimately show ?thesis
    using assms sample_verify [OF assms(2)] by (simp add: write_pack_def sample_bodies)
qed


end
