(* ===== verification/Limiter_Persist.thy ===== *)
theory Limiter_Persist
  imports Limiter_Props Clock "HOL-Library.Countable"
begin

text \<open>
  Checkpoint and restore of the limiter, \<^verbatim>\<open>src/riot/limiter/persist.rs\<close>. The JSON of the crate
  \<^verbatim>\<open>serde_json\<close> is a pair of arguments, \<open>to_json\<close> and \<open>from_json\<close>; what the code relies on is that
  reading back what was written gives the value (\<open>json_round_trip\<close>). The table \<^verbatim>\<open>limiter_state\<close>
  is the list of rows; its save and load are one transaction each and are not modelled further.
\<close>

section \<open>Rows\<close>

definition STALE_AFTER :: duration where
  "STALE_AFTER = of_secs 120"

record scope_row =
  row_scope :: string
  row_windows :: string
  row_frozen_until :: "int option"
  row_updated_at :: int

record stored_window =
  sw_limit :: nat
  sw_seconds :: nat
  sw_stamps :: "(int \<times> nat) list"

record stored_scope =
  ss_known :: bool
  ss_windows :: "stored_window list"

definition quantum_ms :: "nat \<Rightarrow> int" where
  "quantum_ms seconds = max (int seconds) 100"

text \<open>\<^verbatim>\<open>*buckets.entry(up).or_default() += 1\<close> on a \<^verbatim>\<open>BTreeMap\<close>, in key order.\<close>

fun bump_stamp :: "int \<Rightarrow> (int \<times> nat) list \<Rightarrow> (int \<times> nat) list" where
  "bump_stamp k [] = [(k, 1)]"
| "bump_stamp k ((j, n) # bs) =
     (if k < j then (k, 1) # (j, n) # bs else if k = j then (j, n + 1) # bs else (j, n) # bump_stamp k bs)"

definition round_up :: "int \<Rightarrow> int \<Rightarrow> int" where
  "round_up q ms = ms div q * q + (if ms mod q = 0 then 0 else q)"

definition store_window :: "clock \<Rightarrow> window \<Rightarrow> stored_window" where
  "store_window c w =
     (let q = quantum_ms (w_seconds w);
          buckets = fold (\<lambda>t. bump_stamp (round_up q (to_unix_ms c t))) (w_admitted w) [] in
      \<lparr>sw_limit = w_limit w, sw_seconds = w_seconds w, sw_stamps = buckets\<rparr>)"

definition stored_of :: "bool \<Rightarrow> clock \<Rightarrow> scope_state \<Rightarrow> stored_scope" where
  "stored_of known c s = \<lparr>ss_known = known, ss_windows = map (store_window c) (windows s)\<rparr>"

definition EMPTY_JSON :: string where
  "EMPTY_JSON = ''{'' @ [CHR 0x22] @ ''windows'' @ [CHR 0x22] @ '':[]}''"

definition store_scope :: "(stored_scope \<Rightarrow> string option) \<Rightarrow> bool \<Rightarrow> clock \<Rightarrow> scope_state \<Rightarrow> string" where
  "store_scope to_json known c s =
     (case to_json (stored_of known c s) of Some j \<Rightarrow> j | None \<Rightarrow> EMPTY_JSON)"

definition stamps_of :: "clock \<Rightarrow> stored_window \<Rightarrow> instant list" where
  "stamps_of c s = concat (map (\<lambda>(ms, n). replicate n (to_instant c ms)) (sw_stamps s))"

definition restore_window :: "clock \<Rightarrow> bool \<Rightarrow> stored_window list \<Rightarrow> window \<Rightarrow> window" where
  "restore_window c stale stored w =
     (if stale then set_admitted (replicate (w_limit w) (c_instant c)) w
      else
        (case find (\<lambda>s. sw_seconds s = w_seconds w) stored of
           Some s \<Rightarrow> prune (c_instant c) (set_admitted (stamps_of c s) w)
         | None \<Rightarrow> w))"

definition restore_scope ::
  "(string \<Rightarrow> stored_scope option) \<Rightarrow> string \<Rightarrow> clock \<Rightarrow> bool \<Rightarrow> (scope_state \<times> bool) option" where
  "restore_scope from_json json c stale =
     (case from_json json of
        None \<Rightarrow> None
      | Some stored \<Rightarrow>
          (let ls = map (\<lambda>w. \<lparr>lw_limit = sw_limit w, lw_seconds = sw_seconds w\<rparr>) (ss_windows stored);
               s = scope_state_new ls in
           Some (s\<lparr>windows := map (restore_window c stale (ss_windows stored)) (windows s)\<rparr>, ss_known stored)))"

definition app_row_name :: "string \<Rightarrow> string" where
  "app_row_name scope = ''app:'' @ scope"

definition method_row_name :: "string \<Rightarrow> string \<Rightarrow> string" where
  "method_row_name scope m = ''method:'' @ scope @ '':'' @ m"

definition prune_state :: "instant \<Rightarrow> scope_state \<Rightarrow> scope_state" where
  "prune_state now s = s\<lparr>windows := map (prune now) (windows s)\<rparr>"

text \<open>The rows of one scope, its windows pruned first.\<close>

definition entry_rows ::
  "(stored_scope \<Rightarrow> string option) \<Rightarrow> clock \<Rightarrow> string \<Rightarrow> scope_entry \<Rightarrow> scope_row list" where
  "entry_rows to_json c scope e =
     \<lparr>row_scope = app_row_name scope,
      row_windows = store_scope to_json (app_known e) c (prune_state (c_instant c) (app e)),
      row_frozen_until =
        (case frozen_until e of
           Some t \<Rightarrow> if t > c_instant c then Some (to_unix_ms c t) else None
         | None \<Rightarrow> None),
      row_updated_at = c_unix_ms c\<rparr> #
     map (\<lambda>(m, s).
       \<lparr>row_scope = method_row_name scope m,
        row_windows = store_scope to_json False c (prune_state (c_instant c) s),
        row_frozen_until = None,
        row_updated_at = c_unix_ms c\<rparr>) (methods e)"

definition checkpoint ::
  "(stored_scope \<Rightarrow> string option) \<Rightarrow> clock \<Rightarrow> limiter \<Rightarrow> scope_row list \<times> limiter" where
  "checkpoint to_json c l =
     (sort_key row_scope (concat (map (\<lambda>(scope, e). entry_rows to_json c scope e) (scopes l))),
      l\<lparr>scopes := map (\<lambda>(scope, e). (scope, e\<lparr>app := prune_state (c_instant c) (app e),
        methods := map (\<lambda>(m, s). (m, prune_state (c_instant c) s)) (methods e)\<rparr>)) (scopes l)\<rparr>)"

definition restore_row :: "(string \<Rightarrow> stored_scope option) \<Rightarrow> clock \<Rightarrow> scope_row \<Rightarrow> limiter \<Rightarrow> limiter" where
  "restore_row from_json c row l =
     (let stale = (c_unix_ms c - row_updated_at row > int (as_millis STALE_AFTER)) in
      case restore_scope from_json (row_windows row) c stale of
        None \<Rightarrow> l
      | Some (state, known) \<Rightarrow>
          (case strip_prefix ''app:'' (row_scope row) of
             Some scope \<Rightarrow>
               put_entry scope ((entry_of l scope)\<lparr>app := state, app_known := known,
                 frozen_until :=
                   (case map_option (to_instant c) (row_frozen_until row) of
                      Some t \<Rightarrow> if t > c_instant c then Some t else None
                    | None \<Rightarrow> None)\<rparr>) l
           | None \<Rightarrow>
               (case Option.bind (strip_prefix ''method:'' (row_scope row)) (split_once CHR '':'') of
                  Some (scope, m) \<Rightarrow>
                    put_entry scope ((entry_of l scope)\<lparr>methods :=
                      AList.update m state (methods (entry_of l scope))\<rparr>) l
                | None \<Rightarrow> l)))"

definition restore :: "(string \<Rightarrow> stored_scope option) \<Rightarrow> scope_row list \<Rightarrow> clock \<Rightarrow> limiter \<Rightarrow> limiter" where
  "restore from_json rows c l = fold (restore_row from_json c) rows l"

text \<open>What the program relies on of the JSON library.\<close>

definition json_round_trip ::
  "(stored_scope \<Rightarrow> string option) \<Rightarrow> (string \<Rightarrow> stored_scope option) \<Rightarrow> bool" where
  "json_round_trip to_json from_json \<longleftrightarrow> (\<forall>s. \<exists>j. to_json s = Some j \<and> from_json j = Some s)"

section \<open>Rounding\<close>

lemma round_up_ge: "0 < q \<Longrightarrow> ms \<le> round_up q ms"
proof -
  assume q: "0 < q"
  have "ms = ms div q * q + ms mod q"
    by simp
  moreover have "0 \<le> ms mod q" "ms mod q < q"
    using q by simp_all
  ultimately have "ms \<le> ms div q * q + q" "ms mod q = 0 \<Longrightarrow> ms \<le> ms div q * q"
    by linarith+
  then show ?thesis
    by (auto simp: round_up_def)
qed

lemma quantum_pos [simp]: "0 < quantum_ms n"
  by (simp add: quantum_ms_def)

section \<open>Stamps through a checkpoint\<close>

text \<open>How many stamps are at or after a moment of wall-clock time.\<close>

definition since_wall :: "clock \<Rightarrow> int \<Rightarrow> instant list \<Rightarrow> nat" where
  "since_wall c x ts = length (filter (\<lambda>t. x \<le> wall c t) ts)"

lemma since_wall_append [simp]: "since_wall c x (ts @ us) = since_wall c x ts + since_wall c x us"
  by (simp add: since_wall_def)

lemma since_wall_mset: "mset ts = mset us \<Longrightarrow> since_wall c x ts = since_wall c x us"
  by (metis since_wall_def mset_filter size_mset)

definition bucket_total :: "(int \<Rightarrow> bool) \<Rightarrow> (int \<times> nat) list \<Rightarrow> nat" where
  "bucket_total P bs = sum_list (map (\<lambda>(k, n). if P k then n else 0) bs)"

lemma bucket_total_simps [simp]:
  "bucket_total P [] = 0" "bucket_total P ((k, n) # bs) = (if P k then n else 0) + bucket_total P bs"
  by (simp_all add: bucket_total_def)

lemma bucket_total_bump: "bucket_total P (bump_stamp k bs) = bucket_total P bs + (if P k then 1 else 0)"
  by (induction k bs rule: bump_stamp.induct) auto

lemma bucket_total_fold:
  "bucket_total P (fold (\<lambda>t. bump_stamp (f t)) ts bs) = bucket_total P bs + length (filter (\<lambda>t. P (f t)) ts)"
  by (induction ts arbitrary: bs) (auto simp: bucket_total_bump)

lemma since_wall_stamps:
  "since_wall c x (concat (map (\<lambda>(ms, n). replicate n (to_instant c ms)) bs)) =
     bucket_total (\<lambda>ms. x \<le> wall c (to_instant c ms)) bs"
  by (induction bs) (auto simp: since_wall_def)

text \<open>
  A stamp that was taken at or before the checkpoint comes back no earlier, unless it is older than
  the new monotonic clock can say, when it comes back as the moment of the restore.
\<close>

lemma stored_stamps:
  assumes "clock_ok c" "\<forall>t \<in> set (w_admitted w). t \<le> c_instant c" "x \<le> c_unix_ms c' * 1000000"
  shows "since_wall c x (w_admitted w) \<le> since_wall c' x (stamps_of c' (store_window c w))"
proof -
  let ?f = "\<lambda>t. round_up (quantum_ms (w_seconds w)) (to_unix_ms c t)"
  have "x \<le> wall c' (to_instant c' (?f t))" if "t \<in> set (w_admitted w)" "x \<le> wall c t" for t
  proof -
    have "x \<le> to_unix_ms c t * 1000000"
      using that assms(1,2) to_unix_ms_not_early [of c t] by auto
    also have "\<dots> \<le> ?f t * 1000000"
      using round_up_ge [OF quantum_pos, of "to_unix_ms c t"] by simp
    finally show ?thesis
      using assms(3) wall_to_instant_ge [of "?f t" c'] by linarith
  qed
  then have "length (filter (\<lambda>t. x \<le> wall c t) (w_admitted w)) \<le>
      length (filter (\<lambda>t. x \<le> wall c' (to_instant c' (?f t))) (w_admitted w))"
    by (rule filter_length_le)
  then show ?thesis
    by (simp add: since_wall_def [of c] stamps_of_def since_wall_stamps store_window_def Let_def bucket_total_fold)
qed

section \<open>A state through a checkpoint\<close>

lemma filter_dropWhile_length:
  "(\<And>t. D t \<Longrightarrow> \<not> P t) \<Longrightarrow> length (filter P (dropWhile D ts)) = length (filter P ts)"
  by (induction ts) auto

lemma since_wall_prune:
  assumes "wall c now < x + int (window_span w)"
  shows "since_wall c x (w_admitted (prune now w)) = since_wall c x (w_admitted w)"
proof -
  have "\<not> x \<le> wall c t" if "t + window_span w \<le> now" for t
    using assms that by (simp add: wall_def)
  then show ?thesis
    by (simp add: since_wall_def prune_def filter_dropWhile_length)
qed

lemma store_window_fields [simp]:
  "sw_limit (store_window c w) = w_limit w" "sw_seconds (store_window c w) = w_seconds w"
  by (simp_all add: store_window_def Let_def)

lemma find_distinct:
  "distinct (map f xs) \<Longrightarrow> y \<in> set xs \<Longrightarrow> find (\<lambda>x. f x = f y) xs = Some y"
  by (induction xs) (auto simp: image_iff)

lemma find_map: "find P (map f xs) = map_option f (find (P \<circ> f) xs)"
  by (induction xs) auto

text \<open>What a restored window owes to the one it was stored from.\<close>

definition restored_from :: "clock \<Rightarrow> clock \<Rightarrow> window \<Rightarrow> window \<Rightarrow> bool" where
  "restored_from c c' w w' \<longleftrightarrow> w_limit w' = w_limit w \<and> w_seconds w' = w_seconds w \<and>
     (\<forall>x. x \<le> c_unix_ms c' * 1000000 \<longrightarrow> c_unix_ms c' * 1000000 < x + int (window_span w) \<longrightarrow>
        since_wall c x (w_admitted w) \<le> since_wall c' x (w_admitted w'))"

lemma restore_window_stored:
  assumes "clock_ok c" "\<forall>t \<in> set (w_admitted w). t \<le> c_instant c"
    and "distinct (map w_seconds ws)" "w \<in> set ws"
  shows "restored_from c c' w (restore_window c' False (map (store_window c) ws) (window_new (window_spec w)))"
proof -
  have f: "find (\<lambda>s. sw_seconds s = w_seconds w) (map (store_window c) ws) = Some (store_window c w)"
    using find_distinct [OF assms(3,4)] by (simp add: find_map comp_def)
  show ?thesis
    unfolding restored_from_def
  proof (intro conjI allI impI)
    fix x
    assume x: "x \<le> c_unix_ms c' * 1000000" "c_unix_ms c' * 1000000 < x + int (window_span w)"
    have "since_wall c' x (w_admitted (restore_window c' False (map (store_window c) ws) (window_new (window_spec w)))) =
        since_wall c' x (sort (stamps_of c' (store_window c w)))"
      using x(2) f by (simp add: restore_window_def since_wall_prune set_admitted_def window_spec_def window_span_def)
    also have "\<dots> = since_wall c' x (stamps_of c' (store_window c w))"
      by (rule since_wall_mset) simp
    finally show "since_wall c x (w_admitted w) \<le>
        since_wall c' x (w_admitted (restore_window c' False (map (store_window c) ws) (window_new (window_spec w))))"
      using stored_stamps [OF assms(1,2) x(1)] by simp
  qed (simp_all add: restore_window_def f window_spec_def set_admitted_def)
qed

lemma restored_from_prune:
  assumes "restored_from c c' (prune (c_instant c) w) w'" "c_unix_ms c \<le> c_unix_ms c'"
  shows "restored_from c c' w w'"
  using assms since_wall_prune [of c "c_instant c" _ w] by (auto simp: restored_from_def)

text \<open>A state as the limiter keeps it: windows shortest first, one per length, none ahead of the clock.\<close>

definition storable :: "instant \<Rightarrow> scope_state \<Rightarrow> bool" where
  "storable now s =
     (sorted (map w_seconds (windows s)) \<and> distinct (map w_seconds (windows s)) \<and>
      list_all (\<lambda>w. list_all (\<lambda>t. t \<le> now) (w_admitted w)) (windows s))"

definition restored_state :: "clock \<Rightarrow> clock \<Rightarrow> scope_state \<Rightarrow> scope_state \<Rightarrow> bool" where
  "restored_state c c' s s' = list_all2 (restored_from c c') (windows s) (windows s')"

lemma scope_state_new_specs:
  "sorted (map w_seconds ws) \<Longrightarrow> windows (scope_state_new (map window_spec ws)) = map (window_new \<circ> window_spec) ws"
proof -
  assume s: "sorted (map w_seconds ws)"
  have "sort_key w_seconds (map (window_new \<circ> window_spec) ws) = map (window_new \<circ> window_spec) ws"
    using s by (intro sort_key_id_if_sorted) (simp add: window_spec_def comp_def)
  then show ?thesis
    by (simp add: scope_state_new_def)
qed

lemma restore_scope_stored:
  assumes json: "json_round_trip to_json from_json" and c: "clock_ok c" "c_unix_ms c \<le> c_unix_ms c'"
    and s: "storable (c_instant c) s"
  shows "\<exists>s'. restore_scope from_json (store_scope to_json known c (prune_state (c_instant c) s)) c' False =
    Some (s', known) \<and> restored_state c c' s s'"
proof -
  define ws where "ws = map (prune (c_instant c)) (windows s)"
  have ws: "sorted (map w_seconds ws)" "distinct (map w_seconds ws)"
    "\<forall>w \<in> set ws. \<forall>t \<in> set (w_admitted w). t \<le> c_instant c"
    using s by (auto simp: ws_def storable_def comp_def list_all_iff prune_def dest: set_dropWhileD)
  define stored where "stored = stored_of known c (prune_state (c_instant c) s)"
  have st: "ss_known stored = known" "ss_windows stored = map (store_window c) ws"
    by (simp_all add: stored_def stored_of_def ws_def prune_state_def)
  obtain j where j: "to_json stored = Some j" "from_json j = Some stored"
    using json by (auto simp: json_round_trip_def)
  have "store_scope to_json known c (prune_state (c_instant c) s) = j"
    using j(1) by (simp add: store_scope_def flip: stored_def)
  moreover have spec: "map (\<lambda>w. \<lparr>lw_limit = sw_limit w, lw_seconds = sw_seconds w\<rparr>) (ss_windows stored) = map window_spec ws"
    by (simp add: st window_spec_def)
  ultimately have r: "restore_scope from_json (store_scope to_json known c (prune_state (c_instant c) s)) c' False =
      Some ((scope_state_new (map window_spec ws))\<lparr>windows :=
        map (restore_window c' False (map (store_window c) ws)) (map (window_new \<circ> window_spec) ws)\<rparr>, known)"
    using j(2) unfolding restore_scope_def
    by (simp only: option.case Let_def spec st scope_state_new_specs [OF ws(1)])
  have "restored_from c c' w (restore_window c' False (map (store_window c) ws) (window_new (window_spec (prune (c_instant c) w))))"
    if "w \<in> set (windows s)" for w
  proof -
    have "prune (c_instant c) w \<in> set ws"
      using that by (simp add: ws_def)
    then show ?thesis
      using restored_from_prune [OF restore_window_stored [OF c(1) _ ws(2)] c(2)] ws(3) by blast
  qed
  then have "list_all2 (restored_from c c') (windows s)
      (map (restore_window c' False (map (store_window c) ws)) (map (window_new \<circ> window_spec) ws))"
    by (simp add: list_all2_conv_all_nth ws_def)
  then show ?thesis
    using r by (simp add: restored_state_def)
qed

section \<open>The rows of a limiter\<close>

lemma strip_app [simp]: "strip_prefix ''app:'' (app_row_name s) = Some s"
  by (simp add: app_row_name_def strip_prefix_Some)

lemma strip_app_method [simp]: "strip_prefix ''app:'' (method_row_name s m) = None"
  by (simp add: method_row_name_def strip_prefix_def)

lemma strip_method [simp]:
  "strip_prefix ''method:'' (method_row_name s m) = Some (s @ CHR '':'' # m)"
  by (simp add: method_row_name_def strip_prefix_Some)

lemma row_names_differ [simp]: "app_row_name s \<noteq> method_row_name t m" "method_row_name t m \<noteq> app_row_name s"
  by (simp_all add: app_row_name_def method_row_name_def)

lemma app_row_name_inj [simp]: "app_row_name s = app_row_name t \<longleftrightarrow> s = t"
  by (simp add: app_row_name_def)

lemma method_row_name_inj:
  "CHR '':'' \<notin> set s \<Longrightarrow> CHR '':'' \<notin> set t \<Longrightarrow> method_row_name s m = method_row_name t n \<longleftrightarrow> s = t \<and> m = n"
  by (auto simp: method_row_name_def) (metis split_once_append option.inject prod.inject)+

text \<open>The name of the row that holds a key's state.\<close>

fun row_name :: "string \<Rightarrow> string option \<Rightarrow> string" where
  "row_name scope None = app_row_name scope"
| "row_name scope (Some m) = method_row_name scope m"

lemma row_name_inj:
  "CHR '':'' \<notin> set s \<Longrightarrow> CHR '':'' \<notin> set t \<Longrightarrow> row_name s k = row_name t j \<longleftrightarrow> s = t \<and> k = j"
  by (cases k; cases j) (auto simp: method_row_name_inj)

abbreviation stale_row :: "clock \<Rightarrow> scope_row \<Rightarrow> bool" where
  "stale_row c row \<equiv> c_unix_ms c - row_updated_at row > int (as_millis STALE_AFTER)"

lemma restore_row_hit:
  assumes "row_scope row = row_name s k" "CHR '':'' \<notin> set s"
    and "restore_scope from_json (row_windows row) c (stale_row c row) = Some (st, known)"
  shows "state_at k (entry_of (restore_row from_json c row l) s) = Some st"
  using assms by (cases k) (simp_all add: restore_row_def split_once_append)

lemma restore_row_miss:
  assumes "row_scope row = row_name t j" "CHR '':'' \<notin> set t" "(t, j) \<noteq> (s, k)"
  shows "state_at k (entry_of (restore_row from_json c row l) s) = state_at k (entry_of l s)"
proof (cases "restore_scope from_json (row_windows row) c (stale_row c row)")
  case (Some r)
  then show ?thesis
    using assms by (cases r; cases j) (auto simp: restore_row_def split_once_append)
qed (simp add: restore_row_def)

lemma restore_keeps:
  assumes "\<And>row. row \<in> set rows \<Longrightarrow> \<exists>t j. row_scope row = row_name t j \<and> CHR '':'' \<notin> set t"
    and "row_name s k \<notin> row_scope ` set rows"
  shows "state_at k (entry_of (restore from_json rows c l) s) = state_at k (entry_of l s)"
  using assms
proof (induction rows arbitrary: l)
  case (Cons row rows)
  obtain t j where t: "row_scope row = row_name t j" "CHR '':'' \<notin> set t"
    using Cons.prems(1) [of row] by auto
  have "(t, j) \<noteq> (s, k)"
    using Cons.prems(2) t(1) by auto
  then show ?case
    using Cons.IH [of "restore_row from_json c row l"] Cons.prems restore_row_miss [OF t]
    by (simp add: restore_def)
qed (simp add: restore_def)

lemma restore_lookup:
  assumes "\<And>row. row \<in> set rows \<Longrightarrow> \<exists>t j. row_scope row = row_name t j \<and> CHR '':'' \<notin> set t"
    and "distinct (map row_scope rows)" "row \<in> set rows" "row_scope row = row_name s k" "CHR '':'' \<notin> set s"
    and "restore_scope from_json (row_windows row) c (stale_row c row) = Some (st, known)"
  shows "state_at k (entry_of (restore from_json rows c l) s) = Some st"
  using assms(1-3)
proof (induction rows arbitrary: l)
  case (Cons r rows)
  show ?case
  proof (cases "r = row")
    case True
    then have "row_name s k \<notin> row_scope ` set rows"
      using Cons.prems(2) assms(4) by auto
    then have "state_at k (entry_of (restore from_json rows c (restore_row from_json c row l)) s) = Some st"
      using restore_keeps [of rows] Cons.prems(1) restore_row_hit [OF assms(4-6)] by simp
    then show ?thesis
      using True by (simp add: restore_def)
  next
    case False
    then show ?thesis
      using Cons.IH [of "restore_row from_json c r l"] Cons.prems by (simp add: restore_def)
  qed
qed simp

definition names_of :: "string \<Rightarrow> scope_entry \<Rightarrow> string list" where
  "names_of s e = map (row_name s) (None # map (Some \<circ> fst) (methods e))"

lemma entry_rows_names: "map row_scope (entry_rows to_json c scope e) = names_of scope e"
  by (simp add: entry_rows_def names_of_def comp_def case_prod_unfold)

lemma names_of_in: "x \<in> set (names_of s e) \<Longrightarrow> \<exists>j. x = row_name s j"
  unfolding names_of_def set_map by blast

lemma distinct_names_of:
  assumes "CHR '':'' \<notin> set s" "distinct (map fst (methods e))"
  shows "distinct (names_of s e)"
proof -
  have "inj (row_name s)"
    using assms(1) by (auto simp: inj_def row_name_inj)
  moreover have "distinct (None # map (Some \<circ> fst) (methods e))"
    using assms(2) by (auto simp: distinct_map inj_on_def)
  ultimately show ?thesis
    unfolding names_of_def by (simp only: distinct_map inj_on_subset [OF _ subset_UNIV])
qed

lemma entry_rows_state:
  assumes "state_at k e = Some s"
  shows "\<exists>row known. row \<in> set (entry_rows to_json c scope e) \<and> row_scope row = row_name scope k \<and>
    row_windows row = store_scope to_json known c (prune_state (c_instant c) s) \<and> row_updated_at row = c_unix_ms c"
proof (cases k)
  case None
  then show ?thesis
    using assms by (intro exI [of _ "hd (entry_rows to_json c scope e)"]) (auto simp: entry_rows_def)
next
  case (Some m)
  then have "(m, s) \<in> set (methods e)"
    using assms by (simp add: map_of_SomeD)
  then have "\<lparr>row_scope = method_row_name scope m, row_windows = store_scope to_json False c (prune_state (c_instant c) s),
      row_frozen_until = None, row_updated_at = c_unix_ms c\<rparr> \<in> set (entry_rows to_json c scope e)"
    by (force simp: entry_rows_def)
  then show ?thesis
    using Some by force
qed

lemma distinct_names:
  assumes "distinct (map fst es)" "\<forall>(s, e) \<in> set es. CHR '':'' \<notin> set s \<and> distinct (map fst (methods e))"
  shows "distinct (concat (map (\<lambda>(s, e). names_of s e) es))"
  using assms
proof (induction es)
  case (Cons se es)
  obtain s e where se: "se = (s, e)"
    by fastforce
  have "x \<notin> set (names_of t e')" if x: "x \<in> set (names_of s e)" and t: "(t, e') \<in> set es" for x t e'
  proof
    assume "x \<in> set (names_of t e')"
    then obtain k j where "row_name s k = row_name t j"
      using names_of_in [OF x] names_of_in [of x t e'] by auto
    moreover have "CHR '':'' \<notin> set t" "t \<noteq> s"
      using t Cons.prems se by force+
    ultimately show False
      using Cons.prems(2) se row_name_inj [of s t k j] by auto
  qed
  then have "\<forall>x \<in> set (names_of s e). \<forall>p \<in> set es. x \<notin> set (names_of (fst p) (snd p))"
    by simp
  then have "set (names_of s e) \<inter> set (concat (map (\<lambda>(s, e). names_of s e) es)) = {}"
    by (simp only: set_concat set_map case_prod_unfold disjoint_iff) blast
  then show ?case
    using Cons se distinct_names_of [of s e] by simp
qed simp

lemma scopes_ok:
  assumes "keys_ok l" "\<forall>(s, e) \<in> set (scopes l). CHR '':'' \<notin> set s"
  shows "\<forall>(s, e) \<in> set (scopes l). CHR '':'' \<notin> set s \<and> distinct (map fst (methods e))"
proof -
  have "distinct (map fst (methods e))" if "(s, e) \<in> set (scopes l)" for s e
  proof -
    have "map_of (scopes l) s = Some e"
      using assms(1) that by (simp add: keys_ok_def)
    then show ?thesis
      using keys_okD [OF assms(1), of s] map_of_scopes by fastforce
  qed
  then show ?thesis
    using assms(2) by auto
qed

lemma set_checkpoint:
  "set (fst (checkpoint to_json c l)) = (\<Union>(s, e) \<in> set (scopes l). set (entry_rows to_json c s e))"
  by (auto simp: checkpoint_def)

lemma checkpoint_names:
  "mset (map row_scope (fst (checkpoint to_json c l))) =
     mset (concat (map (\<lambda>(s, e). names_of s e) (scopes l)))"
proof -
  have "map row_scope (concat (map (\<lambda>(s, e). entry_rows to_json c s e) es)) =
      concat (map (\<lambda>(s, e). names_of s e) es)" for es
    by (induction es) (auto simp: entry_rows_names)
  then have "mset (concat (map (\<lambda>(s, e). names_of s e) (scopes l))) =
      mset (map row_scope (concat (map (\<lambda>(s, e). entry_rows to_json c s e) (scopes l))))"
    by simp
  also have "\<dots> = mset (map row_scope (fst (checkpoint to_json c l)))"
    unfolding mset_map by (simp add: checkpoint_def)
  finally show ?thesis
    by (rule sym)
qed

lemma entry_rows_named: "row \<in> set (entry_rows to_json c s e) \<Longrightarrow> \<exists>j. row_scope row = row_name s j"
  by (auto simp: entry_rows_def intro: exI [of _ None] exI [of _ "Some _"])

section \<open>Properties\<close>

text \<open>C7. A restart forgets nothing that still counts: a limiter checkpointed and restored within two minutes
  has, for every scope and method, the same windows in the same order, and at any moment of wall-clock time
  not yet a whole window old, at least as many admissions since that moment as the original had. So no
  request is admitted after a restart that the original limiter would have held back for its windows.\<close>

theorem restart_never_forgets:
  assumes "json_round_trip to_json from_json"
    and "clock_ok c" "c_unix_ms c \<le> c_unix_ms c'" "c_unix_ms c' - c_unix_ms c \<le> 120000"
    and "keys_ok l" "\<forall>(s, e) \<in> set (scopes l). CHR '':'' \<notin> set s"
    and "map_of (scopes l) scope = Some e" "state_at k e = Some s" "storable (c_instant c) s"
  shows "\<exists>s'. state_at k (entry_of (restore from_json (fst (checkpoint to_json c l)) c' l0) scope) = Some s' \<and>
    restored_state c c' s s'"
proof -
  have mem: "(scope, e) \<in> set (scopes l)"
    using assms(7) by (rule map_of_SomeD)
  obtain row known where row: "row \<in> set (entry_rows to_json c scope e)" "row_scope row = row_name scope k"
    "row_windows row = store_scope to_json known c (prune_state (c_instant c) s)" "row_updated_at row = c_unix_ms c"
    using entry_rows_state [OF assms(8)] by blast
  obtain s' where s': "restore_scope from_json (row_windows row) c' False = Some (s', known)" "restored_state c c' s s'"
    using restore_scope_stored [OF assms(1-3,9), of known] row(3) by auto
  have fresh: "\<not> stale_row c' row"
    using assms(4) row(4) by (simp add: STALE_AFTER_def of_secs_def as_millis_def)
  have "distinct (map row_scope (fst (checkpoint to_json c l)))"
    using distinct_names [OF _ scopes_ok [OF assms(5,6)]] checkpoint_names [of to_json c l] assms(5)
    by (metis keys_ok_def mset_eq_imp_distinct_iff)
  moreover have "\<exists>t j. row_scope r = row_name t j \<and> CHR '':'' \<notin> set t" if "r \<in> set (fst (checkpoint to_json c l))" for r
    using that assms(6) entry_rows_named by (fastforce simp: set_checkpoint)
  moreover have "row \<in> set (fst (checkpoint to_json c l))" "CHR '':'' \<notin> set scope"
    using row(1) mem assms(6) by (auto simp: set_checkpoint)
  ultimately have "state_at k (entry_of (restore from_json (fst (checkpoint to_json c l)) c' l0) scope) = Some s'"
    using restore_lookup [where row = row and rows = "fst (checkpoint to_json c l)" and s = scope and k = k and st = s'
        and known = known and c = c' and from_json = from_json and l = l0] row(2) s'(1) fresh
    by simp
  then show ?thesis
    using s'(2) by blast
qed

text \<open>An encoding that reads back, as the JSON library's does.\<close>

definition sample_to_json :: "stored_scope \<Rightarrow> string option" where
  "sample_to_json s =
     Some (show_nat (to_nat (ss_known s, map (\<lambda>w. (sw_limit w, sw_seconds w, sw_stamps w)) (ss_windows s))))"

definition sample_from_json :: "string \<Rightarrow> stored_scope option" where
  "sample_from_json j =
     (case from_nat (digits_val j) of
        (k, ws) \<Rightarrow> Some \<lparr>ss_known = k,
          ss_windows = map (\<lambda>(l, n, st). \<lparr>sw_limit = l, sw_seconds = n, sw_stamps = st\<rparr>) ws\<rparr>)"

lemma sample_json: "json_round_trip sample_to_json sample_from_json"
proof -
  have "map ((\<lambda>(l, n, st). \<lparr>sw_limit = l, sw_seconds = n, sw_stamps = st\<rparr>) \<circ>
      (\<lambda>w. (sw_limit w, sw_seconds w, sw_stamps w))) ws = ws" for ws :: "stored_window list"
    by (rule map_idI) simp
  then show ?thesis
    by (simp add: json_round_trip_def sample_to_json_def sample_from_json_def)
qed

theorem restart_never_forgets_witness:
  "\<exists>s'. state_at None (entry_of (restore sample_from_json (fst (checkpoint sample_to_json
     \<lparr>c_instant = 5, c_unix_ms = 1000\<rparr> full_limiter)) \<lparr>c_instant = 9, c_unix_ms = 1200\<rparr> (limiter_new (4/5))) ''euw1'') = Some s' \<and>
   restored_state \<lparr>c_instant = 5, c_unix_ms = 1000\<rparr> \<lparr>c_instant = 9, c_unix_ms = 1200\<rparr>
     \<lparr>windows = [\<lparr>w_limit = 1, w_seconds = 10, w_admitted = [5]\<rparr>]\<rparr> s'"
proof (rule restart_never_forgets [OF sample_json])
  show "keys_ok full_limiter"
    by (simp add: keys_ok_def full_limiter_eq entry_of_def bootstrap_def scope_entry_default_def)
  show "map_of (scopes full_limiter) ''euw1'' = Some (snd (hd (scopes full_limiter)))"
    by (simp add: full_limiter_eq)
qed (simp_all add: full_limiter_eq clock_ok_def i64_max_def as_millis_def storable_def)

lemma windows_restored_stale:
  assumes "restore_scope from_json j c True = Some (s, known)" "w \<in> set (windows s)"
  shows "w_admitted w = replicate (w_limit w) (c_instant c)"
  using assms
  by (auto simp: restore_scope_def restore_window_def set_admitted_def Let_def sorted_sort_id split: option.splits)

text \<open>A checkpoint more than two minutes old is not trusted: after its restore, every attempt on the scope
  is held back for a whole length of any of its windows, whatever the checkpoint said was used.\<close>

theorem stale_restore_is_full:
  assumes "stale_row c row" "row_scope row = app_row_name scope"
    and "restore_scope from_json (row_windows row) c True = Some (s, known)"
    and "w \<in> set (windows s)" "w_limit w \<le> u32_max" "c_instant c \<le> t" "t < c_instant c + window_span w"
  shows "fst (try_take_all scope m prio t (restore_row from_json c row l)) \<noteq> Taken"
proof -
  have "app (entry_of (restore_row from_json c row l) scope) = s"
    using assms(1-3) by (simp add: restore_row_def)
  then have mem: "w \<in> set (windows_of m (entry_of (restore_row from_json c row l) scope))"
    using assms(4) by (simp add: windows_of_def)
  have "w_admitted (prune t w) = replicate (w_limit w) (c_instant c)"
    using windows_restored_stale [OF assms(3,4)] assms(7)
    by (cases "w_limit w") (simp_all add: prune_def)
  then have "\<not> fst (try_take t w)"
    using assms(5) by (simp add: try_take_iff_used fst_used sat_u32_id)
  then show ?thesis
    using mem by (auto simp: try_take_all_Taken Let_def list_all_iff)
qed

definition old_row :: scope_row where
  "old_row = \<lparr>row_scope = ''app:kr'', row_windows = ''x'', row_frozen_until = None, row_updated_at = 0\<rparr>"

theorem stale_restore_is_full_witness:
  "fst (try_take_all ''kr'' ''m'' Interactive 900 (restore_row
     (\<lambda>_. Some \<lparr>ss_known = True, ss_windows = [\<lparr>sw_limit = 3, sw_seconds = 10, sw_stamps = []\<rparr>]\<rparr>)
     \<lparr>c_instant = 7, c_unix_ms = 120001\<rparr> old_row (limiter_new (4/5)))) \<noteq> Taken"
proof (rule stale_restore_is_full [where w = "\<lparr>w_limit = 3, w_seconds = 10, w_admitted = [7, 7, 7]\<rparr>"])
  show "restore_scope (\<lambda>_. Some \<lparr>ss_known = True, ss_windows = [\<lparr>sw_limit = 3, sw_seconds = 10, sw_stamps = []\<rparr>]\<rparr>)
      (row_windows old_row) \<lparr>c_instant = 7, c_unix_ms = 120001\<rparr> True =
    Some (\<lparr>windows = [\<lparr>w_limit = 3, w_seconds = 10, w_admitted = [7, 7, 7]\<rparr>]\<rparr>, True)"
    by (simp add: restore_scope_def restore_window_def set_admitted_def scope_state_new_def window_new_def numeral_eq_Suc)
qed (simp_all add: old_row_def app_row_name_def STALE_AFTER_def of_secs_def as_millis_def u32_max_def window_span_def)

end
