(* ===== verification/Workers.thy ===== *)
theory Workers
  imports Prelude
begin

text \<open>
  Holding the workers still, the \<open>Control\<close> of \<^verbatim>\<open>src/jobs/scheduler.rs\<close>. Workers and halts run concurrently and meet
  in two atomic counters and the map of running handler tasks, so each access is one step and the steps of
  different workers and halts interleave freely. A worker is where it stands in the loop of \<open>start\<close>; a halt is
  where it stands in \<open>halt\<close>. What is proved is that the two counters, read in this order, are enough.
\<close>

record control =
  halts :: nat
  busy :: nat

definition control_default :: control where
  "control_default = \<lparr>halts = 0, busy = 0\<rparr>"

definition halted :: "control \<Rightarrow> bool" where
  "halted c = (0 < halts c)"

text \<open>
  A worker is out of the claim section; has counted itself busy; is about to leave; is claiming or between a claim
  and the start of its handler; has put its task in the map; runs its handler; or its handler has been aborted.
\<close>

datatype worker_at = WOut | WCounted | WLeaving | WClaiming | WTracked | WRunning | WAborted

text \<open>
  A halt has raised the counter; has aborted the tasks in the map; has seen no busy worker; or gave up waiting.
  Once dropped it is gone.
\<close>

datatype halt_at = HRaised | HAborted | HSettled | HTimedOut

record workers =
  ctl :: control
  wks :: "worker_at list"
  hts :: "halt_at list"

definition workers_start :: "nat \<Rightarrow> workers" where
  "workers_start n = \<lparr>ctl = control_default, wks = replicate (max n 1) WOut, hts = []\<rparr>"

text \<open>\<open>enter\<close> counts first and looks at the halts after, leaving again when there is one.\<close>

definition enter_count :: "nat \<Rightarrow> workers \<Rightarrow> workers" where
  "enter_count i s = s\<lparr>ctl := (ctl s)\<lparr>busy := busy (ctl s) + 1\<rparr>, wks := (wks s)[i := WCounted]\<rparr>"

definition enter_look :: "nat \<Rightarrow> workers \<Rightarrow> workers" where
  "enter_look i s = s\<lparr>wks := (wks s)[i := if halted (ctl s) then WLeaving else WClaiming]\<rparr>"

definition leave :: "nat \<Rightarrow> workers \<Rightarrow> workers" where
  "leave i s = s\<lparr>ctl := (ctl s)\<lparr>busy := busy (ctl s) - 1\<rparr>, wks := (wks s)[i := WOut]\<rparr>"

text \<open>\<open>track\<close> puts the task in the map, then aborts it when a halt is on.\<close>

definition track_insert :: "nat \<Rightarrow> workers \<Rightarrow> workers" where
  "track_insert i s = s\<lparr>wks := (wks s)[i := WTracked]\<rparr>"

definition track_look :: "nat \<Rightarrow> workers \<Rightarrow> workers" where
  "track_look i s = s\<lparr>wks := (wks s)[i := if halted (ctl s) then WAborted else WRunning]\<rparr>"

definition run_over :: "nat \<Rightarrow> workers \<Rightarrow> workers" where
  "run_over i s = s\<lparr>wks := (wks s)[i := WLeaving]\<rparr>"

definition halt_raise :: "workers \<Rightarrow> workers" where
  "halt_raise s = s\<lparr>ctl := (ctl s)\<lparr>halts := halts (ctl s) + 1\<rparr>, hts := hts s @ [HRaised]\<rparr>"

text \<open>Under the map's lock, every task in it is aborted.\<close>

definition abort_task :: "worker_at \<Rightarrow> worker_at" where
  "abort_task w = (if w = WTracked \<or> w = WRunning then WAborted else w)"

definition halt_abort :: "nat \<Rightarrow> workers \<Rightarrow> workers" where
  "halt_abort j s = s\<lparr>wks := map abort_task (wks s), hts := (hts s)[j := HAborted]\<rparr>"

definition halt_end :: "nat \<Rightarrow> halt_at \<Rightarrow> workers \<Rightarrow> workers" where
  "halt_end j h s = s\<lparr>hts := (hts s)[j := h]\<rparr>"

definition halt_drop :: "nat \<Rightarrow> workers \<Rightarrow> workers" where
  "halt_drop j s =
     s\<lparr>ctl := (ctl s)\<lparr>halts := halts (ctl s) - 1\<rparr>, hts := take j (hts s) @ drop (Suc j) (hts s)\<rparr>"

inductive worker_step :: "workers \<Rightarrow> workers \<Rightarrow> bool" where
  Enter: "i < length (wks s) \<Longrightarrow> wks s ! i = WOut \<Longrightarrow> worker_step s (enter_count i s)"
| Look: "i < length (wks s) \<Longrightarrow> wks s ! i = WCounted \<Longrightarrow> worker_step s (enter_look i s)"
| Nothing: "i < length (wks s) \<Longrightarrow> wks s ! i = WClaiming \<Longrightarrow> worker_step s (run_over i s)"
| Track: "i < length (wks s) \<Longrightarrow> wks s ! i = WClaiming \<Longrightarrow> worker_step s (track_insert i s)"
| Start: "i < length (wks s) \<Longrightarrow> wks s ! i = WTracked \<Longrightarrow> worker_step s (track_look i s)"
| Over: "i < length (wks s) \<Longrightarrow> wks s ! i \<in> {WRunning, WAborted} \<Longrightarrow> worker_step s (run_over i s)"
| Leave: "i < length (wks s) \<Longrightarrow> wks s ! i = WLeaving \<Longrightarrow> worker_step s (leave i s)"
| Raise: "worker_step s (halt_raise s)"
| Abort: "j < length (hts s) \<Longrightarrow> hts s ! j = HRaised \<Longrightarrow> worker_step s (halt_abort j s)"
| Settle: "j < length (hts s) \<Longrightarrow> hts s ! j = HAborted \<Longrightarrow> busy (ctl s) = 0 \<Longrightarrow> worker_step s (halt_end j HSettled s)"
| Give_up: "j < length (hts s) \<Longrightarrow> hts s ! j = HAborted \<Longrightarrow> worker_step s (halt_end j HTimedOut s)"
| Resume: "j < length (hts s) \<Longrightarrow> hts s ! j \<in> {HSettled, HTimedOut} \<Longrightarrow> worker_step s (halt_drop j s)"

inductive workers_reachable :: "nat \<Rightarrow> workers \<Rightarrow> bool" for n where
  Init: "workers_reachable n (workers_start n)"
| Step: "workers_reachable n s \<Longrightarrow> worker_step s s' \<Longrightarrow> workers_reachable n s'"

section \<open>The counters are exact\<close>

definition busy_count :: "worker_at list \<Rightarrow> nat" where
  "busy_count ws = length (filter (\<lambda>w. w \<noteq> WOut) ws)"

definition quiet :: "worker_at \<Rightarrow> bool" where
  "quiet w = (w \<in> {WOut, WCounted, WLeaving})"

definition workers_inv :: "workers \<Rightarrow> bool" where
  "workers_inv s =
     (halts (ctl s) = length (hts s) \<and> busy (ctl s) = busy_count (wks s) \<and>
      (set (hts s) \<subseteq> {HRaised} \<or> WRunning \<notin> set (wks s)) \<and>
      (HSettled \<in> set (hts s) \<longrightarrow> list_all quiet (wks s)))"

lemma busy_count_simps [simp]: "busy_count [] = 0" "busy_count (a # ws) = (if a = WOut then 0 else 1) + busy_count ws"
  by (simp_all add: busy_count_def)

lemma busy_count_update:
  "i < length ws \<Longrightarrow> busy_count (ws[i := w]) + (if ws ! i = WOut then 0 else 1) = busy_count ws + (if w = WOut then 0 else 1)"
proof (induction ws arbitrary: i)
  case (Cons a ws)
  show ?case
  proof (cases i)
    case (Suc j)
    then show ?thesis
      using Cons.IH [of j] Cons.prems
      by (simp only: True_implies_equals busy_count_simps nth_Cons_Suc list_update.simps length_Cons Suc_less_eq nat.case simp_thms)
  qed simp
qed simp

lemma busy_count_0: "busy_count ws = 0 \<longleftrightarrow> set ws \<subseteq> {WOut}"
  by (auto simp: busy_count_def filter_empty_conv)

lemma busy_count_abort: "busy_count (map abort_task ws) = busy_count ws"
  by (induction ws) (auto simp: busy_count_def abort_task_def)

lemma no_running_update: "WRunning \<notin> set ws \<Longrightarrow> w \<noteq> WRunning \<Longrightarrow> WRunning \<notin> set (ws[i := w])"
  using set_update_subset_insert [of ws i w] by blast

lemma quiet_update: "list_all quiet ws \<Longrightarrow> quiet w \<Longrightarrow> list_all quiet (ws[i := w])"
  using set_update_subset_insert [of ws i w] by (auto simp: list_all_iff)

lemma quiet_nth: "list_all quiet ws \<Longrightarrow> i < length ws \<Longrightarrow> quiet (ws ! i)"
  by (simp add: list_all_length)

text \<open>A worker that changes place without passing the counter.\<close>

lemma workers_inv_move:
  assumes "workers_inv s" "i < length (wks s)" "wks s ! i \<noteq> WOut" "w \<noteq> WOut"
    "w = WRunning \<longrightarrow> \<not> halted (ctl s)" "quiet (wks s ! i) \<longrightarrow> quiet w \<or> \<not> halted (ctl s)"
  shows "workers_inv (s\<lparr>wks := (wks s)[i := w]\<rparr>)"
proof -
  have "hts s = []" if "\<not> halted (ctl s)"
    using assms(1) that by (auto simp: workers_inv_def halted_def)
  moreover have "quiet w" if "HSettled \<in> set (hts s)"
    using assms(1,2,6) that calculation quiet_nth by (fastforce simp: workers_inv_def)
  ultimately show ?thesis
    using assms busy_count_update [OF assms(2), of w]
    by (auto simp: workers_inv_def no_running_update quiet_update)
qed

lemma workers_inv_step:
  assumes "worker_step s s'" "workers_inv s"
  shows "workers_inv s'"
  using assms
proof (induction rule: worker_step.induct)
  case (Enter i s)
  then show ?case
    using busy_count_update [OF Enter(1), of WCounted]
    by (auto simp: workers_inv_def enter_count_def no_running_update quiet_update quiet_def)
next
  case (Leave i s)
  then show ?case
    using busy_count_update [OF Leave(1), of WOut]
    by (auto simp: workers_inv_def leave_def no_running_update quiet_update quiet_def)
next
  case (Look i s)
  then show ?case
    unfolding enter_look_def by (intro workers_inv_move) (auto simp: quiet_def)
next
  case (Start i s)
  then show ?case
    unfolding track_look_def by (intro workers_inv_move) (auto simp: quiet_def)
next
  case (Abort j s)
  have "list_all quiet (map abort_task ws)" if "list_all quiet ws" for ws
    using that by (auto simp: list_all_iff abort_task_def quiet_def)
  moreover have "WRunning \<notin> set (map abort_task ws)" for ws
    by (auto simp: abort_task_def)
  ultimately show ?case
    using Abort set_update_subset_insert [of "hts s" j HAborted]
    by (auto simp: workers_inv_def halt_abort_def busy_count_abort)
next
  case (Settle j s)
  then have "set (wks s) \<subseteq> {WOut}"
    by (simp add: workers_inv_def busy_count_0)
  then show ?case
    using Settle by (auto simp: workers_inv_def halt_end_def list_all_iff quiet_def)
next
  case (Give_up j s)
  then have "HAborted \<in> set (hts s)"
    by (metis nth_mem)
  then show ?case
    using Give_up set_update_subset_insert [of "hts s" j HTimedOut] by (auto simp: workers_inv_def halt_end_def)
next
  case (Resume j s)
  then show ?case
    using set_take_subset [of j "hts s"] set_drop_subset [of "Suc j" "hts s"]
    by (auto simp: workers_inv_def halt_drop_def)
next
  case (Raise s)
  then show ?case
    by (auto simp: workers_inv_def halt_raise_def)
qed (unfold run_over_def track_insert_def, (rule workers_inv_move; auto simp: quiet_def)+)

lemma workers_inv_reachable: "workers_reachable n s \<Longrightarrow> workers_inv s"
proof (induction rule: workers_reachable.induct)
  case Init
  show ?case
    by (simp add: workers_inv_def workers_start_def control_default_def busy_count_def)
qed (rule workers_inv_step)

section \<open>Property\<close>


definition quiet_workers :: workers where
  "quiet_workers = halt_end 0 HSettled (halt_abort 0 (halt_raise (workers_start 1)))"

lemma quiet_workers_reachable: "workers_reachable 1 quiet_workers"
proof -
  let ?a = "halt_raise (workers_start 1)"
  have "workers_reachable 1 ?a"
    by (rule workers_reachable.Step [OF workers_reachable.Init worker_step.Raise])
  then have "workers_reachable 1 (halt_abort 0 ?a)"
    by (rule workers_reachable.Step) (rule worker_step.Abort; simp add: halt_raise_def workers_start_def)
  then show ?thesis
    unfolding quiet_workers_def
    by (rule workers_reachable.Step)
      (rule worker_step.Settle; simp add: halt_raise_def halt_abort_def workers_start_def control_default_def)
qed


end
