(* ===== verification/Activity.thy ===== *)
theory Activity
  imports Text_Ops
begin

text \<open>
  What each worker is doing, \<^verbatim>\<open>src/jobs/activity.rs\<close>: a bounded, in-memory trace per job. The two \<^verbatim>\<open>VecDeque\<close>s are
  lists with the front first, the \<^verbatim>\<open>HashMap\<close> of traces an association list. Every operation reads the clock once
  and runs under one lock, so it is a function of the time and the record. The task-local current job is how
  callers name their trace and is not modelled.
\<close>

definition EVENTS_PER_JOB :: nat where
  "EVENTS_PER_JOB = 200"

definition FINISHED_KEPT :: nat where
  "FINISHED_KEPT = 200"

record event =
  ev_seq :: nat
  ev_at :: int
  ev_kind :: string
  ev_text :: string
  ev_ms :: "int option"

record trace =
  tr_kind :: string
  tr_worker :: nat
  tr_attempt :: nat
  tr_started_at :: int
  tr_finished_at :: "int option"
  tr_outcome :: "string option"
  tr_now :: "(string \<times> int) option"
  tr_events :: "event list"
  tr_next_seq :: nat
  tr_dropped :: nat

definition trace_push :: "string \<Rightarrow> string \<Rightarrow> int option \<Rightarrow> int \<Rightarrow> trace \<Rightarrow> trace" where
  "trace_push kind txt ms now t =
     (let full = length (tr_events t) = EVENTS_PER_JOB;
          kept = (if full then tl (tr_events t) else tr_events t) in
      t\<lparr>tr_dropped := (if full then tr_dropped t + 1 else tr_dropped t),
        tr_events := kept @ [\<lparr>ev_seq = tr_next_seq t, ev_at = now, ev_kind = kind, ev_text = txt, ev_ms = ms\<rparr>],
        tr_next_seq := tr_next_seq t + 1\<rparr>)"

record activity =
  act_workers :: "(string option \<times> int) list"
  act_traces :: "(string \<times> trace) list"
  act_finished :: "string list"

definition activity_new :: activity where
  "activity_new = \<lparr>act_workers = [], act_traces = [], act_finished = []\<rparr>"

definition set_workers :: "nat \<Rightarrow> int \<Rightarrow> activity \<Rightarrow> activity" where
  "set_workers n now a = a\<lparr>act_workers := replicate n (None, now)\<rparr>"

definition new_trace :: "string \<Rightarrow> nat \<Rightarrow> nat \<Rightarrow> int \<Rightarrow> trace" where
  "new_trace kind worker attempt now =
     trace_push ''job'' (''claimed by worker '' @ show_nat (worker + 1) @ '' (attempt '' @ show_nat attempt @ '')'') None now
       \<lparr>tr_kind = kind, tr_worker = worker, tr_attempt = attempt, tr_started_at = now, tr_finished_at = None,
        tr_outcome = None, tr_now = Some (''starting'', now), tr_events = [], tr_next_seq = 0, tr_dropped = 0\<rparr>"

text \<open>\<^verbatim>\<open>workers.get_mut(worker)\<close> does nothing for an index past the end, as does \<open>list_update\<close>.\<close>

definition claimed :: "nat \<Rightarrow> string \<Rightarrow> string \<Rightarrow> nat \<Rightarrow> int \<Rightarrow> activity \<Rightarrow> activity" where
  "claimed worker i kind attempt now a =
     \<lparr>act_workers = (act_workers a)[worker := (Some i, now)],
      act_traces = AList.update i (new_trace kind worker attempt now) (act_traces a),
      act_finished = filter (\<lambda>f. f \<noteq> i) (act_finished a)\<rparr>"

text \<open>The loop that drops the oldest finished traces.\<close>

function evict :: "string list \<Rightarrow> (string \<times> trace) list \<Rightarrow> string list \<times> (string \<times> trace) list" where
  "evict fin ts =
     (if length fin > FINISHED_KEPT then evict (butlast fin) (AList.delete (last fin) ts) else (fin, ts))"
  by pat_completeness auto
termination
  by (relation "measure (length \<circ> fst)") auto

declare evict.simps [simp del]

definition close_trace :: "string \<Rightarrow> int \<Rightarrow> trace \<Rightarrow> trace" where
  "close_trace outcome now t =
     trace_push ''job'' outcome (Some (now - tr_started_at t)) now
       (t\<lparr>tr_finished_at := Some now, tr_outcome := Some outcome, tr_now := None\<rparr>)"

definition finished :: "string \<Rightarrow> string \<Rightarrow> int \<Rightarrow> activity \<Rightarrow> activity" where
  "finished i outcome now a =
     (case map_of (act_traces a) i of
        None \<Rightarrow> a
      | Some t \<Rightarrow>
          (let ws = act_workers a; w = tr_worker t;
               ws1 = (if w < length ws \<and> fst (ws ! w) = Some i then ws[w := (None, now)] else ws);
               (fin, ts) = evict (i # act_finished a) (AList.update i (close_trace outcome now t) (act_traces a)) in
           \<lparr>act_workers = ws1, act_traces = ts, act_finished = fin\<rparr>))"

definition act_record :: "string \<Rightarrow> string option \<Rightarrow> string \<Rightarrow> int option \<Rightarrow> bool \<Rightarrow> int \<Rightarrow> activity \<Rightarrow> activity" where
  "act_record i kind txt ms now_line now a =
     (case map_of (act_traces a) i of
        None \<Rightarrow> a
      | Some t \<Rightarrow>
          if tr_finished_at t \<noteq> None then a
          else
            (let t1 = (if now_line then t\<lparr>tr_now := Some (txt, now)\<rparr> else t);
                 t2 = (case kind of None \<Rightarrow> t1 | Some k \<Rightarrow> trace_push k txt ms now t1) in
             a\<lparr>act_traces := AList.update i t2 (act_traces a)\<rparr>))"

definition step :: "string \<Rightarrow> string \<Rightarrow> int \<Rightarrow> activity \<Rightarrow> activity" where
  "step i txt = act_record i (Some ''step'') txt None True"

definition act_event :: "string \<Rightarrow> string \<Rightarrow> string \<Rightarrow> int option \<Rightarrow> int \<Rightarrow> activity \<Rightarrow> activity" where
  "act_event i kind txt ms = act_record i (Some kind) txt ms False"

definition now_line :: "string \<Rightarrow> string \<Rightarrow> int \<Rightarrow> activity \<Rightarrow> activity" where
  "now_line i txt = act_record i None txt None True"

section \<open>Views\<close>

record worker_view =
  wv_worker :: nat
  wv_job_id :: "string option"
  wv_kind :: "string option"
  wv_since :: int
  wv_now :: "string option"
  wv_now_since :: "int option"
  wv_events :: nat

definition worker_view_of :: "activity \<Rightarrow> nat \<Rightarrow> string option \<times> int \<Rightarrow> worker_view" where
  "worker_view_of a k w =
     (let t = Option.bind (fst w) (map_of (act_traces a)) in
      \<lparr>wv_worker = k + 1, wv_job_id = fst w, wv_kind = map_option tr_kind t, wv_since = snd w,
       wv_now = map_option fst (Option.bind t tr_now), wv_now_since = map_option snd (Option.bind t tr_now),
       wv_events = (case t of None \<Rightarrow> 0 | Some t \<Rightarrow> tr_next_seq t)\<rparr>)"

definition workers_view :: "activity \<Rightarrow> worker_view list" where
  "workers_view a = map (\<lambda>(k, w). worker_view_of a k w) (enumerate 0 (act_workers a))"

record finished_view =
  fv_job_id :: string
  fv_kind :: string
  fv_worker :: nat
  fv_started_at :: int
  fv_finished_at :: int
  fv_outcome :: string

definition finished_view_of :: "activity \<Rightarrow> string \<Rightarrow> finished_view option" where
  "finished_view_of a i =
     (case map_of (act_traces a) i of
        None \<Rightarrow> None
      | Some t \<Rightarrow>
          (case (tr_finished_at t, tr_outcome t) of
             (Some f, Some out) \<Rightarrow>
               Some \<lparr>fv_job_id = i, fv_kind = tr_kind t, fv_worker = tr_worker t + 1, fv_started_at = tr_started_at t,
                 fv_finished_at = f, fv_outcome = out\<rparr>
           | _ \<Rightarrow> None))"

definition finished_jobs :: "nat \<Rightarrow> activity \<Rightarrow> finished_view list" where
  "finished_jobs limit a = take limit (List.map_filter (finished_view_of a) (act_finished a))"

record trace_view =
  tv_kind :: string
  tv_worker :: nat
  tv_attempt :: nat
  tv_started_at :: int
  tv_finished_at :: "int option"
  tv_outcome :: "string option"
  tv_now :: "string option"
  tv_now_since :: "int option"
  tv_events :: "event list"
  tv_next_seq :: nat
  tv_dropped :: nat

definition trace_view_of :: "string \<Rightarrow> nat \<Rightarrow> activity \<Rightarrow> trace_view option" where
  "trace_view_of i after a =
     map_option (\<lambda>t.
       \<lparr>tv_kind = tr_kind t, tv_worker = tr_worker t + 1, tv_attempt = tr_attempt t, tv_started_at = tr_started_at t,
        tv_finished_at = tr_finished_at t, tv_outcome = tr_outcome t, tv_now = map_option fst (tr_now t),
        tv_now_since = map_option snd (tr_now t), tv_events = filter (\<lambda>e. after \<le> ev_seq e) (tr_events t),
        tv_next_seq = tr_next_seq t, tv_dropped = tr_dropped t\<rparr>) (map_of (act_traces a) i)"

section \<open>Traces\<close>

definition trace_ok :: "trace \<Rightarrow> bool" where
  "trace_ok t = (map ev_seq (tr_events t) = [tr_dropped t ..< tr_next_seq t] \<and> length (tr_events t) \<le> EVENTS_PER_JOB \<and>
     tr_dropped t \<le> tr_next_seq t \<and> (tr_outcome t = None) = (tr_finished_at t = None))"

lemma trace_push_ok:
  assumes "trace_ok t"
  shows "trace_ok (trace_push kind txt ms now t)"
proof -
  have len: "length (tr_events t) = tr_next_seq t - tr_dropped t"
    using assms by (metis length_map length_upt trace_ok_def)
  have "map ev_seq (tl (tr_events t)) = [Suc (tr_dropped t) ..< tr_next_seq t]"
    using assms by (simp add: map_tl trace_ok_def tl_upt)
  then show ?thesis
    using assms len by (auto simp: trace_ok_def trace_push_def Let_def EVENTS_PER_JOB_def)
qed

lemma trace_ok_now [simp]: "trace_ok (t\<lparr>tr_now := x\<rparr>) = trace_ok t"
  by (simp add: trace_ok_def)

lemma trace_push_fields [simp]:
  "tr_finished_at (trace_push kind txt ms now t) = tr_finished_at t" "tr_outcome (trace_push kind txt ms now t) = tr_outcome t"
  "tr_next_seq (trace_push kind txt ms now t) = tr_next_seq t + 1"
  by (simp_all add: trace_push_def Let_def)

lemma new_trace_ok: "trace_ok (new_trace kind worker attempt now)" "tr_finished_at (new_trace kind worker attempt now) = None"
  unfolding new_trace_def by (rule trace_push_ok, simp add: trace_ok_def) simp

lemma close_trace_ok: "trace_ok t \<Longrightarrow> trace_ok (close_trace outcome now t)"
  unfolding close_trace_def by (rule trace_push_ok) (simp add: trace_ok_def)

lemma close_trace_finished [simp]:
  "tr_finished_at (close_trace outcome now t) = Some now" "tr_outcome (close_trace outcome now t) = Some outcome"
  by (simp_all add: close_trace_def)

lemma evict_eq: "evict fin ts = (take FINISHED_KEPT fin, filter (\<lambda>(i, t). i \<notin> set (drop FINISHED_KEPT fin)) ts)"
proof (induction fin ts rule: evict.induct)
  case (1 fin ts)
  show ?case
  proof (cases "length fin > FINISHED_KEPT")
    case True
    then have fin: "fin = butlast fin @ [last fin]" "FINISHED_KEPT \<le> length (butlast fin)"
      by (cases fin rule: rev_cases; simp)+
    have "drop FINISHED_KEPT fin = drop FINISHED_KEPT (butlast fin) @ [last fin]" "take FINISHED_KEPT fin = take FINISHED_KEPT (butlast fin)"
      using fin by (metis drop_append diff_is_0_eq drop0) (metis fin take_append diff_is_0_eq take0 append_Nil2)
    then show ?thesis
      using 1 True by (subst evict.simps) (auto simp: AList.delete_eq intro!: filter_cong)
  qed (simp add: evict.simps)
qed

section \<open>The record\<close>

definition is_over :: "(string \<times> trace) list \<Rightarrow> string \<Rightarrow> bool" where
  "is_over ts i = (case map_of ts i of None \<Rightarrow> False | Some t \<Rightarrow> tr_finished_at t \<noteq> None)"

lemma is_over_update: "is_over (AList.update i t ts) j = (if j = i then tr_finished_at t \<noteq> None else is_over ts j)"
  by (simp add: is_over_def update_conv')

lemma map_of_filter_fst: "map_of (filter (\<lambda>(j, t). P j) ts) j = (if P j then map_of ts j else None)"
  by (induction ts) auto

lemma is_over_filter: "is_over (filter (\<lambda>(j, t). P j) ts) j = (P j \<and> is_over ts j)"
  by (simp add: is_over_def map_of_filter_fst)

definition act_inv :: "activity \<Rightarrow> bool" where
  "act_inv a =
     (distinct (map fst (act_traces a)) \<and> list_all (\<lambda>(i, t). trace_ok t) (act_traces a) \<and>
      distinct (act_finished a) \<and> length (act_finished a) \<le> FINISHED_KEPT \<and>
      (\<forall>i. i \<in> set (act_finished a) \<longleftrightarrow> is_over (act_traces a) i))"

inductive act_step :: "activity \<Rightarrow> activity \<Rightarrow> bool" where
  Workers: "act_step a (set_workers n now a)"
| Claimed: "act_step a (claimed worker i kind attempt now a)"
| Finished: "map_of (act_traces a) i = Some t \<Longrightarrow> tr_finished_at t = None \<Longrightarrow> act_step a (finished i outcome now a)"
| Recorded: "act_step a (act_record i kind txt ms line now a)"

inductive act_reachable :: "activity \<Rightarrow> bool" where
  New: "act_reachable activity_new"
| Step: "act_reachable a \<Longrightarrow> act_step a a' \<Longrightarrow> act_reachable a'"

lemma trace_ok_update:
  "list_all (\<lambda>(i, t). trace_ok t) ts \<Longrightarrow> trace_ok t \<Longrightarrow> list_all (\<lambda>(i, t). trace_ok t) (AList.update i t ts)"
  by (induction ts) auto

lemma trace_ok_of: "act_inv a \<Longrightarrow> map_of (act_traces a) i = Some t \<Longrightarrow> trace_ok t"
  unfolding act_inv_def list_all_iff by (auto dest: map_of_SomeD)

lemma act_inv_claimed:
  assumes "act_inv a"
  shows "act_inv (claimed worker i kind attempt now a)"
  using assms new_trace_ok [of kind worker attempt now]
  by (auto simp: act_inv_def claimed_def distinct_update trace_ok_update is_over_update
      intro: order_trans [OF length_filter_le])

lemma act_inv_record:
  assumes "act_inv a"
  shows "act_inv (act_record i kind txt ms line now a)"
proof (cases "map_of (act_traces a) i")
  case (Some t)
  define t2 where "t2 = (case kind of None \<Rightarrow> if line then t\<lparr>tr_now := Some (txt, now)\<rparr> else t
    | Some k \<Rightarrow> trace_push k txt ms now (if line then t\<lparr>tr_now := Some (txt, now)\<rparr> else t))"
  have t2: "trace_ok t2" "tr_finished_at t2 = tr_finished_at t" "tr_outcome t2 = tr_outcome t"
    using trace_ok_of [OF assms Some] unfolding t2_def
    by (simp_all add: trace_push_ok split: option.split)
  have "act_record i kind txt ms line now a =
      (if tr_finished_at t \<noteq> None then a else a\<lparr>act_traces := AList.update i t2 (act_traces a)\<rparr>)"
    by (simp add: act_record_def Some t2_def Let_def)
  moreover have "act_inv (a\<lparr>act_traces := AList.update i t2 (act_traces a)\<rparr>)"
  proof -
    have "is_over (act_traces a) i = (tr_finished_at t2 \<noteq> None)"
      using Some t2(2) by (simp add: is_over_def)
    then have "is_over (AList.update i t2 (act_traces a)) j = is_over (act_traces a) j" for j
      by (simp add: is_over_update)
    then show ?thesis
      using assms t2(1) by (simp add: act_inv_def distinct_update trace_ok_update)
  qed
  ultimately show ?thesis
    using assms by simp
qed (simp add: act_record_def assms)

lemma act_inv_finished:
  assumes "act_inv a" "map_of (act_traces a) i = Some t" "tr_finished_at t = None"
  shows "act_inv (finished i outcome now a)"
proof -
  let ?ts = "AList.update i (close_trace outcome now t) (act_traces a)"
  let ?fin = "i # act_finished a"
  have "\<not> is_over (act_traces a) i"
    using assms(2,3) by (simp add: is_over_def)
  then have i: "i \<notin> set (act_finished a)"
    using assms(1) by (simp add: act_inv_def)
  then have d: "distinct ?fin"
    using assms(1) by (simp add: act_inv_def)
  have dt: "distinct (map fst ?ts)"
    using assms(1) by (simp add: act_inv_def distinct_update)
  have ok: "list_all (\<lambda>(i, t). trace_ok t) ?ts"
    using assms(1) close_trace_ok [OF trace_ok_of [OF assms(1,2)]] by (simp add: act_inv_def trace_ok_update)
  have "j \<in> set ?fin \<longleftrightarrow> is_over ?ts j" for j
    using assms(1) by (simp add: act_inv_def is_over_update)
  moreover have "j \<in> set (take FINISHED_KEPT ?fin) \<longleftrightarrow> j \<in> set ?fin \<and> j \<notin> set (drop FINISHED_KEPT ?fin)" for j
    using set_take_disj_set_drop_if_distinct [OF d, of FINISHED_KEPT FINISHED_KEPT]
      set_append [of "take FINISHED_KEPT ?fin" "drop FINISHED_KEPT ?fin"]
    unfolding append_take_drop_id by blast
  ultimately have kept: "j \<in> set (take FINISHED_KEPT ?fin) \<longleftrightarrow> j \<notin> set (drop FINISHED_KEPT ?fin) \<and> is_over ?ts j" for j
    by blast
  have "length (take FINISHED_KEPT ?fin) \<le> FINISHED_KEPT"
    by simp
  then show ?thesis
    unfolding finished_def assms(2) option.case Let_def evict_eq prod.case act_inv_def activity.simps is_over_filter
    using kept distinct_take [OF d] dt ok by (simp add: distinct_map_filter list_all_iff)
qed

lemma act_inv_reachable: "act_reachable a \<Longrightarrow> act_inv a"
proof (induction rule: act_reachable.induct)
  case New
  show ?case
    by (simp add: act_inv_def activity_new_def is_over_def)
next
  case (Step a a')
  from Step(2,3) show ?case
    by (induction rule: act_step.induct)
      (simp_all add: act_inv_claimed act_inv_record act_inv_finished, simp add: act_inv_def set_workers_def)
qed

section \<open>Polling\<close>

definition event_data :: "event \<Rightarrow> string \<times> string \<times> int option \<times> int" where
  "event_data e = (ev_kind e, ev_text e, ev_ms e, ev_at e)"

definition push_data :: "string \<times> string \<times> int option \<times> int \<Rightarrow> trace \<Rightarrow> trace" where
  "push_data d = (case d of (k, x, ms, now) \<Rightarrow> trace_push k x ms now)"

lemma push_data_keeps:
  "trace_ok t \<Longrightarrow> trace_ok (push_data d t)" "tr_next_seq (push_data d t) = tr_next_seq t + 1"
  "tr_finished_at (push_data d t) = tr_finished_at t"
  by (cases d; simp add: push_data_def trace_push_ok)+

lemma push_data_tail:
  assumes "trace_ok t" "n \<le> tr_next_seq t" "tr_next_seq t < n + EVENTS_PER_JOB"
  shows "filter (\<lambda>e. n \<le> ev_seq e) (tr_events (push_data d t)) =
    filter (\<lambda>e. n \<le> ev_seq e) (tr_events t) @ [\<lparr>ev_seq = tr_next_seq t, ev_at = snd (snd (snd d)), ev_kind = fst d, ev_text = fst (snd d), ev_ms = fst (snd (snd d))\<rparr>]"
proof (cases "length (tr_events t) = EVENTS_PER_JOB")
  case True
  then obtain e es where e: "tr_events t = e # es"
    by (cases "tr_events t") (auto simp: EVENTS_PER_JOB_def)
  have seqs: "ev_seq e # map ev_seq es = [tr_dropped t ..< tr_next_seq t]"
    using assms(1) e by (simp add: trace_ok_def)
  have "tr_next_seq t - tr_dropped t = EVENTS_PER_JOB"
    using assms(1) True by (metis length_map length_upt trace_ok_def)
  moreover have "ev_seq e = tr_dropped t"
    using arg_cong [OF seqs, of hd] arg_cong [OF seqs, of length] by simp
  ultimately have "filter (\<lambda>e. n \<le> ev_seq e) (tr_events t) = filter (\<lambda>e. n \<le> ev_seq e) es"
    using assms(3) e by (auto simp: EVENTS_PER_JOB_def)
  then show ?thesis
    using True e assms(2) by (cases d) (simp add: push_data_def trace_push_def Let_def)
next
  case False
  then show ?thesis
    using assms(2) by (cases d) (simp add: push_data_def trace_push_def Let_def)
qed

lemma push_all_tail:
  assumes "trace_ok t" "length ds \<le> EVENTS_PER_JOB"
  shows "trace_ok (fold push_data ds t) \<and> tr_next_seq (fold push_data ds t) = tr_next_seq t + length ds \<and>
    tr_finished_at (fold push_data ds t) = tr_finished_at t \<and>
    map event_data (filter (\<lambda>e. tr_next_seq t \<le> ev_seq e) (tr_events (fold push_data ds t))) = ds"
  using assms(2)
proof (induction ds rule: rev_induct)
  case Nil
  have "ev_seq e < tr_next_seq t" if "e \<in> set (tr_events t)" for e
    using assms(1) that by (metis atLeastLessThan_iff image_eqI list.set_map set_upt trace_ok_def)
  then have "filter (\<lambda>e. tr_next_seq t \<le> ev_seq e) (tr_events t) = []"
    by (simp add: filter_empty_conv not_le)
  then show ?case
    using assms(1) by simp
next
  case (snoc d ds)
  then show ?case
    by (simp add: push_data_keeps push_data_tail event_data_def)
qed

lemma act_event_eq:
  assumes "map_of (act_traces a) i = Some t" "tr_finished_at t = None"
  shows "map_of (act_traces (act_event i k x ms now a)) i = Some (push_data (k, x, ms, now) t)"
  using assms by (simp add: act_event_def act_record_def push_data_def update_conv')

lemma act_events_eq:
  assumes "map_of (act_traces a) i = Some t" "tr_finished_at t = None"
  shows "map_of (act_traces (fold (\<lambda>(k, x, ms, now). act_event i k x ms now) ds a)) i = Some (fold push_data ds t)"
  using assms
proof (induction ds arbitrary: a t)
  case (Cons d ds)
  show ?case
    using Cons.IH [OF act_event_eq [OF Cons.prems]] Cons.prems(2) by (cases d) (simp add: push_data_def)
qed simp

section \<open>Properties\<close>

text \<open>The activity record stays small and complete, whatever the workers do: at most 200 finished traces are
  kept, exactly the finished ones are listed, each with its outcome, and every trace holds at most 200 events,
  numbered without a gap from the count of dropped ones to the next number.\<close>

theorem activity_bounded:
  assumes "act_reachable a"
  shows "length (act_finished a) \<le> 200 \<and> distinct (act_finished a) \<and>
    (\<forall>i. i \<in> set (act_finished a) \<longleftrightarrow> is_over (act_traces a) i) \<and>
    length (finished_jobs 200 a) = length (act_finished a) \<and>
    (\<forall>i t. map_of (act_traces a) i = Some t \<longrightarrow>
       length (tr_events t) \<le> 200 \<and> map ev_seq (tr_events t) = [tr_dropped t ..< tr_next_seq t])"
proof -
  note inv = act_inv_reachable [OF assms]
  have ok: "trace_ok t" if "map_of (act_traces a) i = Some t" for i t
    by (rule trace_ok_of [OF inv that])
  have "finished_view_of a i \<noteq> None" if "i \<in> set (act_finished a)" for i
  proof -
    have "is_over (act_traces a) i"
      using inv that by (simp add: act_inv_def)
    then show ?thesis
      using ok [of i] by (auto simp: is_over_def finished_view_of_def trace_ok_def split: option.splits)
  qed
  then have "length (List.map_filter (finished_view_of a) xs) = length xs" if "set xs \<subseteq> set (act_finished a)" for xs
    using that by (induction xs) (fastforce simp: map_filter_simps split: option.split)+
  then have "length (finished_jobs 200 a) = length (act_finished a)"
    using inv by (simp add: finished_jobs_def act_inv_def FINISHED_KEPT_def)
  then show ?thesis
    using inv ok by (auto simp: act_inv_def FINISHED_KEPT_def EVENTS_PER_JOB_def trace_ok_def)
qed

definition sample_activity :: activity where
  "sample_activity = finished ''01A'' ''done'' 5 (claimed 0 ''01A'' ''maintenance'' 1 2 (set_workers 1 1 activity_new))"

lemma sample_activity_reachable:
  "act_reachable (claimed 0 ''01A'' ''maintenance'' 1 2 (set_workers 1 1 activity_new))" "act_reachable sample_activity"
proof -
  let ?a = "claimed 0 ''01A'' ''maintenance'' 1 2 (set_workers 1 1 activity_new)"
  show a: "act_reachable ?a"
    by (rule act_reachable.Step [OF act_reachable.Step [OF act_reachable.New act_step.Workers] act_step.Claimed])
  have "map_of (act_traces ?a) ''01A'' = Some (new_trace ''maintenance'' 0 1 2)"
    by (simp add: claimed_def update_conv')
  then show "act_reachable sample_activity"
    unfolding sample_activity_def by (rule act_reachable.Step [OF a act_step.Finished]) (rule new_trace_ok(2))
qed

theorem activity_bounded_witness:
  "length (act_finished sample_activity) \<le> 200 \<and> ''01A'' \<in> set (act_finished sample_activity)"
proof -
  have "''01A'' \<in> set (act_finished sample_activity)"
    by (simp add: sample_activity_def finished_def claimed_def set_workers_def activity_new_def evict.simps
        FINISHED_KEPT_def Let_def)
  then show ?thesis
    using activity_bounded [OF sample_activity_reachable(2)] by blast
qed

text \<open>Polling a job's trace misses nothing and repeats nothing: a reader that passes back the number it was given
  gets exactly the events recorded since, in order, as long as no more than 200 came in between.\<close>

theorem polling_misses_nothing:
  assumes "act_reachable a" "trace_view_of i m a = Some v" "tv_finished_at v = None" "length ds \<le> 200"
  shows "map_option (map event_data \<circ> tv_events)
    (trace_view_of i (tv_next_seq v) (fold (\<lambda>(k, x, ms, now). act_event i k x ms now) ds a)) = Some ds"
proof -
  obtain t where t: "map_of (act_traces a) i = Some t" "tv_next_seq v = tr_next_seq t" "tr_finished_at t = None"
    using assms(2,3) by (auto simp: trace_view_of_def)
  have "trace_ok t"
    by (rule trace_ok_of [OF act_inv_reachable [OF assms(1)] t(1)])
  then show ?thesis
    using push_all_tail [of t ds] assms(4) act_events_eq [OF t(1,3)] t(2)
    by (simp add: trace_view_of_def EVENTS_PER_JOB_def)
qed

theorem polling_misses_nothing_witness:
  "\<exists>n. map_option (map event_data \<circ> tv_events)
    (trace_view_of ''01A'' n (fold (\<lambda>(k, x, ms, now). act_event ''01A'' k x ms now) [(''step'', ''page 2'', None, 3)]
      (claimed 0 ''01A'' ''maintenance'' 1 2 (set_workers 1 1 activity_new)))) =
      Some [(''step'', ''page 2'', None, 3)]"
proof -
  let ?a = "claimed 0 ''01A'' ''maintenance'' 1 2 (set_workers 1 1 activity_new)"
  obtain v where v: "trace_view_of ''01A'' 0 ?a = Some v" "tv_finished_at v = None"
    using new_trace_ok(2) by (auto simp: trace_view_of_def claimed_def update_conv')
  show ?thesis
    using polling_misses_nothing [OF sample_activity_reachable(1) v, of "[(''step'', ''page 2'', None, 3)]"] by (intro exI) simp
qed

end
