(* ===== verification/Spec2Isabelle.thy ===== *)
theory Spec2Isabelle
  imports Config_Props Backfill_Props Crawl_Props Ws_Props Archive_Props Limiter_Persist Validate Auth Jobs_Props Workers Activity
begin

text \<open>
  A verification library for riot-proxy, a server in front of the Riot Games API, written in Rust under
  \<^verbatim>\<open>src/src\<close>. Paths below are relative to that directory.

  \<^bold>\<open>The program.\<close> A request of a consumer passes authentication and its quota (\<^verbatim>\<open>http/auth.rs\<close>, \<^verbatim>\<open>http/quota.rs\<close>,
  \<^verbatim>\<open>consumers.rs\<close>), is checked (\<^verbatim>\<open>http/validate.rs\<close>) and becomes a read of one Riot method (\<^verbatim>\<open>riot/endpoints.rs\<close>,
  \<^verbatim>\<open>riot/routing.rs\<close>). The fetcher (\<^verbatim>\<open>fetcher.rs\<close>) answers it out of the match archive (\<^verbatim>\<open>archive/\<close>) or the response
  cache (\<^verbatim>\<open>cache/\<close>), or joins a call under way (\<^verbatim>\<open>singleflight.rs\<close>), or waits for the rate limiter
  (\<^verbatim>\<open>riot/limiter/\<close>) and calls Riot (\<^verbatim>\<open>riot/client.rs\<close>), whose headers the limiter learns from. In the background a
  durable job queue (\<^verbatim>\<open>jobs/scheduler.rs\<close>) runs crawls of the ranked ladder (\<^verbatim>\<open>jobs/ladder.rs\<close>), archives matches and
  moves their bodies into packs in an object store. Its claim reads the limiter, so that no job starts that would only
  wait. What happens is published to websockets (\<^verbatim>\<open>ws/\<close>, \<^verbatim>\<open>events.rs\<close>).

  \<^bold>\<open>Theories.\<close> Each component theory holds its records, datatypes and operations in the order of the source, then
  its lemmas; larger components have their invariants and promises in theories of their own.

  \<^item> \<open>Prelude\<close>, \<open>Text_Ops\<close>, \<open>Net\<close>, \<open>F64\<close>, \<open>Clock\<close>: integer ranges with Rust's saturating and wrapping operations, its string
    operations, \<^verbatim>\<open>std::net\<close> addresses, binary64 arithmetic as rounded reals (locale \<open>float_rounding\<close>), and the two clocks
    (\<^verbatim>\<open>clock.rs\<close>).
  \<^item> \<open>Rolling_Log\<close>: the contract of a sliding log as the locale \<open>rolling_log\<close>, with the rolling bound proved once. It is
    interpreted by a window of \<open>Bucket\<close>, by a whole limiter in \<open>Limiter_Bound\<close> and by the consumer quotas in \<open>Quota\<close>.
  \<^item> \<open>Headers\<close>, \<open>Bucket\<close>, \<open>Limiter\<close>, \<open>Limiter_Persist\<close>: \<^verbatim>\<open>riot/limiter/{headers,bucket,mod,persist}.rs\<close>. \<open>Limiter_Laws\<close>,
    \<open>Limiter_Invariant\<close>, \<open>Limiter_Bound\<close> and \<open>Limiter_Props\<close> show that grants never exceed an announced limit in any interval,
    that taking is all or nothing, that waits are exact, that bulk keeps below its ceiling, that freezes hold, and that
    a restart forgets no admission.
  \<^item> \<open>Routing\<close>, \<open>Endpoints\<close>, \<open>Client\<close>, \<open>Api_Error\<close>, \<open>Validate\<close>: \<^verbatim>\<open>riot/{routing,ladder,endpoints,client}.rs\<close>,
    \<^verbatim>\<open>http/{error,validate}.rs\<close>. A path determines its request; validators accept exactly the documented values.
  \<^item> \<open>Consumers\<close>, \<open>Quota\<close>, \<open>Auth\<close>: who may call what. Revoked keys stay dead, quotas hold in every rolling minute, guarded
    handlers run exactly when they should.
  \<^item> \<open>Cache_Keys\<close>, \<open>Cache\<close>, \<open>SingleFlight\<close>, \<open>Fetcher\<close>, \<open>Fetcher_Props\<close>: the read path. Keys determine requests, purges stay in
    their scope, both tiers serve the last write, a key has one run at a time, calls to Riot are bounded and follow its
    429s.
  \<^item> \<open>Lanes\<close>, \<open>Jobs\<close>, \<open>Workers\<close>, \<open>Activity\<close>: \<^verbatim>\<open>jobs/{mod,lanes,scheduler,activity}.rs\<close> and the claim statement of
    \<^verbatim>\<open>db/store.rs\<close>. \<open>Jobs_Invariant\<close> and \<open>Jobs_Props\<close> show the queue sound in every reachable state, the claim equal to a search
    of the whole queue, and that a halt is quiet once settled.
  \<^item> \<open>Pack\<close>, \<open>Archive\<close>, \<open>Archive_Props\<close>: \<^verbatim>\<open>archive/{pack,matches,offload}.rs\<close>. Packs round trip and their parser is safe; a body once
    archived can be read whatever is packed, recorded and freed meanwhile.
  \<^item> \<open>Ws\<close>, \<open>Ws_Props\<close>: \<^verbatim>\<open>ws/\<close>, \<^verbatim>\<open>events.rs\<close>. The hub's channels follow the sockets; admin topics reach admins only.
  \<^item> \<open>Ladder\<close>, \<open>Crawl\<close>, \<open>Crawl_Props\<close>: \<^verbatim>\<open>jobs/ladder/store.rs\<close>, \<^verbatim>\<open>jobs/ladder.rs\<close>. The crawl's tables stay consistent, a crawl moves
    through its stages to its end, and the limit on a platform's matches is kept.

  \<^bold>\<open>How the code is modelled.\<close>

  \<^item> A struct is a record, an enum a datatype, a \<^verbatim>\<open>Result\<close> a sum with the error left, a \<^verbatim>\<open>HashMap\<close> or \<^verbatim>\<open>BTreeMap\<close> an association
    list. Integers are \<open>nat\<close> or \<open>int\<close> with the range and the saturation or wrap-around of each operation written out, and
    words where the code works on bits. Text is a list of characters of one byte each. Instants are unbounded
    integers of nanoseconds: the code adds durations far below the range of \<^verbatim>\<open>Instant\<close>.
  \<^item> A table of SQLite is the list of its rows in the order of insertion, a statement a function on it, a transaction a
    function that gives an error or the new tables. SQLite has one writer, so transactions do not interleave.
  \<^item> A critical section, together with the reading of the clock it begins with, is one step. Interleavings are step
    relations, or lists of what the environment does at every await of a handler; a loop whose environment ends before
    it does yields \<open>None\<close>, and liveness is stated as reaching \<open>Some\<close>. No loop is cut off by fuel.
  \<^item> Libraries are arguments with what the code relies on as named hypotheses: the exchange with Riot, the object store,
    SHA-256, zstd, JSON, ULIDs, random jitter, the moka map and tokio's broadcast channel. Hypotheses are shown to hold of a
    concrete instance in the witnesses.

  \<^bold>\<open>Not modelled.\<close> Log lines, metrics and activity steps, which nothing reads back. The HTTP routes: they parse a
  request with the validators above, call the operations above and print JSON. Start-up, configuration, the command
  line, the status page, the static mirror and the dashboards. The columns and facts derived from match bodies
  (\<^verbatim>\<open>archive/{facts,builds,analytics,tiers,ranks}.rs\<close>), which are SQL over Riot's JSON, and the jobs that compute them.
\<close>

end
